(* ===== verification/Quic_Prelude.thy ===== *)
theory Quic_Prelude
  imports Main "HOL-Library.Word"
begin

text \<open>
  Shared vocabulary of the development: unsigned 64-bit arithmetic on \<open>nat\<close> with the
  wrap-around of \<^verbatim>\<open>uint64_t\<close> written out, the error values that stand for the exceptions
  and aborts of the code, sequencing of fallible operations, and the standard-library
  searches on sorted ranges (\<^verbatim>\<open>std::lower_bound\<close>, \<^verbatim>\<open>std::upper_bound\<close>) that several
  components use.
\<close>

named_theorems u64_simps "facts that remove the wrap-around of 64-bit operations"
named_theorems quic_invs "preservation of component invariants"

type_synonym byte = "8 word"

section \<open>Unsigned 64-bit arithmetic\<close>

definition u64_max :: nat where
  "u64_max = 18446744073709551615"

definition add64 :: "nat \<Rightarrow> nat \<Rightarrow> nat" where
  "add64 a b = (a + b) mod 18446744073709551616"

definition sub64 :: "nat \<Rightarrow> nat \<Rightarrow> nat" where
  "sub64 a b = (if b \<le> a then a - b else 18446744073709551616 + a - b)"

definition mul64 :: "nat \<Rightarrow> nat \<Rightarrow> nat" where
  "mul64 a b = (a * b) mod 18446744073709551616"

lemma add64_exact [u64_simps]: "a + b \<le> u64_max \<Longrightarrow> add64 a b = a + b"
  by (simp add: add64_def u64_max_def)

lemma sub64_exact [u64_simps]: "b \<le> a \<Longrightarrow> sub64 a b = a - b"
  by (simp add: sub64_def)

lemma mul64_exact [u64_simps]: "a * b \<le> u64_max \<Longrightarrow> mul64 a b = a * b"
  by (simp add: mul64_def u64_max_def)

lemma add64_bound: "add64 a b \<le> u64_max"
proof -
  have "(a + b) mod 18446744073709551616 < 18446744073709551616" by simp
  then show ?thesis by (simp add: add64_def u64_max_def)
qed

lemma mul64_bound: "mul64 a b \<le> u64_max"
proof -
  have "(a * b) mod 18446744073709551616 < 18446744073709551616" by simp
  then show ?thesis by (simp add: mul64_def u64_max_def)
qed

lemma sub64_bound: "a \<le> u64_max \<Longrightarrow> sub64 a b \<le> u64_max"
  by (auto simp: sub64_def u64_max_def)

section \<open>Errors\<close>

text \<open>
  \<^verbatim>\<open>TransportErrorCode\<close> and \<^verbatim>\<open>LocalErrorCode\<close> of \<^verbatim>\<open>quic/QuicConstants.h\<close>, the codes
  the modelled code raises. An exception of the code is a value of \<open>quic_exn\<close>: a
  \<^verbatim>\<open>QuicTransportException\<close>, a \<^verbatim>\<open>QuicInternalException\<close>, a \<^verbatim>\<open>std::invalid_argument\<close>,
  the \<^verbatim>\<open>std::out_of_range\<close> of a cursor that is read past its end, or the abort of a failed \<^verbatim>\<open>CHECK\<close> / \<^verbatim>\<open>LOG(FATAL)\<close>. The debug-only \<^verbatim>\<open>DCHECK\<close>s are not
  part of the models: they are absent from release builds.
\<close>

datatype TransportErrorCode =
    TE_NO_ERROR | TE_INTERNAL_ERROR | TE_SERVER_BUSY | TE_FLOW_CONTROL_ERROR
  | TE_STREAM_LIMIT_ERROR | TE_STREAM_STATE_ERROR | TE_FINAL_SIZE_ERROR
  | TE_FRAME_ENCODING_ERROR | TE_TRANSPORT_PARAMETER_ERROR | TE_PROTOCOL_VIOLATION
  | TE_INVALID_MIGRATION | TE_CRYPTO_ERROR | TE_CRYPTO_ERROR_MAX | TE_INVALID_TOKEN

datatype LocalErrorCode =
    LE_NO_ERROR | LE_CREATING_EXISTING_STREAM | LE_STREAM_LIMIT_EXCEEDED
  | LE_INTERNAL_ERROR | LE_PACKET_NUMBER_ENCODING | LE_CODEC_ERROR | LE_LOST_BYTES_OVERFLOW | LE_CONNECTION_ABANDONED

datatype quic_exn =
    QuicTransportException TransportErrorCode
  | QuicInternalException LocalErrorCode
  | InvalidArgument
  | OutOfRange
  | CheckFailed

type_synonym 'a res = "quic_exn + 'a"

fun rbind :: "'a res \<Rightarrow> ('a \<Rightarrow> 'b res) \<Rightarrow> 'b res" where
  "rbind (Inl e) f = Inl e"
| "rbind (Inr x) f = f x"

lemma rbind_Inr_iff [simp]: "rbind m f = Inr y \<longleftrightarrow> (\<exists>x. m = Inr x \<and> f x = Inr y)"
  by (cases m) auto

lemma rbind_Inl_iff [simp]:
  "rbind m f = Inl e \<longleftrightarrow> m = Inl e \<or> (\<exists>x. m = Inr x \<and> f x = Inl e)"
  by (cases m) auto

text \<open>A failed \<^verbatim>\<open>CHECK\<close> aborts; otherwise the code goes on.\<close>

definition check :: "bool \<Rightarrow> unit res" where
  "check b = (if b then Inr () else Inl CheckFailed)"

lemma check_Inr [simp]: "check b = Inr u \<longleftrightarrow> b"
  by (simp add: check_def)

lemma check_Inl [simp]: "check b = Inl e \<longleftrightarrow> \<not> b \<and> e = CheckFailed"
  by (auto simp: check_def)

section \<open>Searches on sorted ranges\<close>

text \<open>
  \<^verbatim>\<open>std::lower_bound(begin, end, v, less)\<close> returns the furthermost position such that
  every element before it satisfies \<open>less e v\<close>; \<^verbatim>\<open>std::upper_bound\<close> the furthermost one
  such that no element before it satisfies \<open>less v e\<close>. Positions are indices.
\<close>

definition lower_bound :: "('a \<Rightarrow> bool) \<Rightarrow> 'a list \<Rightarrow> nat" where
  "lower_bound less_v xs = length (takeWhile less_v xs)"

definition upper_bound :: "('a \<Rightarrow> bool) \<Rightarrow> 'a list \<Rightarrow> nat" where
  "upper_bound v_less xs = length (takeWhile (\<lambda>e. \<not> v_less e) xs)"

lemma lower_bound_le [simp]: "lower_bound p xs \<le> length xs"
  by (simp add: lower_bound_def length_takeWhile_le)

lemma upper_bound_le [simp]: "upper_bound p xs \<le> length xs"
  by (simp add: upper_bound_def length_takeWhile_le)

lemma take_lower_bound: "take (lower_bound p xs) xs = takeWhile p xs"
  by (metis lower_bound_def takeWhile_eq_take)

lemma drop_lower_bound: "drop (lower_bound p xs) xs = dropWhile p xs"
  by (metis lower_bound_def dropWhile_eq_drop)

lemma take_upper_bound: "take (upper_bound p xs) xs = takeWhile (\<lambda>e. \<not> p e) xs"
  by (metis upper_bound_def takeWhile_eq_take)

lemma drop_upper_bound: "drop (upper_bound p xs) xs = dropWhile (\<lambda>e. \<not> p e) xs"
  by (metis upper_bound_def dropWhile_eq_drop)

lemma lower_bound_nth: "i < lower_bound p xs \<Longrightarrow> p (xs ! i)"
  by (metis lower_bound_def nth_mem set_takeWhileD takeWhile_nth)

lemma lower_bound_stop: "lower_bound p xs < length xs \<Longrightarrow> \<not> p (xs ! lower_bound p xs)"
  by (simp add: lower_bound_def nth_length_takeWhile)

text \<open>\<^verbatim>\<open>container.erase(first, last)\<close> and \<^verbatim>\<open>container.insert(pos, x)\<close> on index positions.\<close>

definition erase_range :: "nat \<Rightarrow> nat \<Rightarrow> 'a list \<Rightarrow> 'a list" where
  "erase_range i j xs = take i xs @ drop j xs"

definition insert_at :: "nat \<Rightarrow> 'a \<Rightarrow> 'a list \<Rightarrow> 'a list" where
  "insert_at i x xs = take i xs @ x # drop i xs"

section \<open>Systems whose events are always handled\<close>

text \<open>The contract of a component that reacts to events: in a good state, every event that its
  environment can cause is handled without an exception and leads to a good state.\<close>

fun run_events :: "('e \<Rightarrow> 's \<Rightarrow> 's res) \<Rightarrow> 'e list \<Rightarrow> 's \<Rightarrow> 's res" where
  "run_events exec [] s = Inr s"
| "run_events exec (e # es) s = rbind (exec e s) (run_events exec es)"

locale safe_system =
  fixes enabled :: "'e \<Rightarrow> 's \<Rightarrow> bool" and exec :: "'e \<Rightarrow> 's \<Rightarrow> 's res" and good_state :: "'s \<Rightarrow> bool"
  assumes step_safe: "good_state s \<Longrightarrow> enabled e s \<Longrightarrow> \<exists>s'. exec e s = Inr s' \<and> good_state s'"
begin

lemma step_good: "good_state s \<Longrightarrow> enabled e s \<Longrightarrow> exec e s = Inr s' \<Longrightarrow> good_state s'"
  using step_safe [of s e] by auto

lemma step_handled: "good_state s \<Longrightarrow> enabled e s \<Longrightarrow> \<exists>s'. exec e s = Inr s'"
  using step_safe [of s e] by auto

lemma run_safe:
  assumes "good_state s" "\<And>e t. e \<in> set es \<Longrightarrow> good_state t \<Longrightarrow> enabled e t"
  shows "\<exists>s'. run_events exec es s = Inr s' \<and> good_state s'"
  using assms
proof (induction es arbitrary: s)
  case (Cons e es)
  obtain s1 where "exec e s = Inr s1" "good_state s1" using step_safe Cons.prems by fastforce
  with Cons show ?case by simp
qed simp

end

end
