(* ===== verification/Quic_Integer.thy ===== *)
theory Quic_Integer
  imports Quic_Prelude
begin

text \<open>
  Variable-length integers (\<^verbatim>\<open>quic/codec/QuicInteger.h\<close>, \<^verbatim>\<open>quic/codec/QuicInteger.cpp\<close>).
  A \<^verbatim>\<open>uint64_t\<close> is a \<open>nat\<close> below \<open>2 ^ 64\<close>; inside the encoders and the decoder it is
  converted to a \<open>64 word\<close> so that the casts, masks and shifts of the code are the ones
  of the model. The buffer operation of the code writes its argument in big-endian order;
  here it returns the bytes written. A \<^verbatim>\<open>folly::io::Cursor\<close> is the list of the bytes
  that remain, and the decoder returns the cursor it leaves behind.

  The locale \<open>prefix_codec\<close> is the interface the frame codec relies on: what an encoder
  writes, a decoder reads back from the front of any longer input. It is interpreted on
  the code's integer codec.
\<close>

unbundle bit_operations_syntax

type_synonym cursor = "byte list"

section \<open>Model\<close>

definition kOneByteLimit :: nat where "kOneByteLimit = 0x3F"
definition kTwoByteLimit :: nat where "kTwoByteLimit = 0x3FFF"
definition kFourByteLimit :: nat where "kFourByteLimit = 0x3FFFFFFF"
definition kEightByteLimit :: nat where "kEightByteLimit = 0x3FFFFFFFFFFFFFFF"

lemmas quic_limits = kOneByteLimit_def kTwoByteLimit_def kFourByteLimit_def kEightByteLimit_def

text \<open>The bytes of a word, most significant first, and the word read back from bytes.\<close>

definition writeBE :: "nat \<Rightarrow> 'a::len word \<Rightarrow> byte list" where
  "writeBE n w = map (\<lambda>i. ucast (drop_bit (8 * (n - 1 - i)) w)) [0..<n]"

definition readBE :: "byte list \<Rightarrow> 64 word" where
  "readBE bs = foldl (\<lambda>acc b. push_bit 8 acc OR ucast b) 0 bs"

definition encodeOneByte :: "nat \<Rightarrow> byte list" where
  "encodeOneByte value = (let modified = (ucast (word_of_nat value :: 64 word) :: 8 word)
     in writeBE 1 modified)"

definition encodeTwoBytes :: "nat \<Rightarrow> byte list" where
  "encodeTwoBytes value = (let reduced = (ucast (word_of_nat value :: 64 word) :: 16 word);
       modified = reduced OR 0x4000
     in writeBE 2 modified)"

definition encodeFourBytes :: "nat \<Rightarrow> byte list" where
  "encodeFourBytes value = (let reduced = (ucast (word_of_nat value :: 64 word) :: 32 word);
       modified = reduced OR 0x80000000
     in writeBE 4 modified)"

definition encodeEightBytes :: "nat \<Rightarrow> byte list" where
  "encodeEightBytes value = (let modified = (word_of_nat value :: 64 word) OR 0xC000000000000000
     in writeBE 8 modified)"

definition encodeQuicInteger :: "nat \<Rightarrow> TransportErrorCode + byte list" where
  "encodeQuicInteger value =
     (if value \<le> kOneByteLimit then Inr (encodeOneByte value)
      else if value \<le> kTwoByteLimit then Inr (encodeTwoBytes value)
      else if value \<le> kFourByteLimit then Inr (encodeFourBytes value)
      else if value \<le> kEightByteLimit then Inr (encodeEightBytes value)
      else Inl TE_INTERNAL_ERROR)"

text \<open>The overload with a fixed output size; its \<^verbatim>\<open>CHECK\<close>s abort.\<close>

definition encodeQuicIntegerSized :: "nat \<Rightarrow> int \<Rightarrow> (TransportErrorCode + byte list) res" where
  "encodeQuicIntegerSized value outputSize =
     (if outputSize = 1 then rbind (check (value \<le> kOneByteLimit)) (\<lambda>_. Inr (Inr (encodeOneByte value)))
      else if outputSize = 2 then rbind (check (value \<le> kTwoByteLimit)) (\<lambda>_. Inr (Inr (encodeTwoBytes value)))
      else if outputSize = 4 then rbind (check (value \<le> kFourByteLimit)) (\<lambda>_. Inr (Inr (encodeFourBytes value)))
      else if outputSize = 8 then rbind (check (value \<le> kEightByteLimit)) (\<lambda>_. Inr (Inr (encodeEightBytes value)))
      else Inr (Inl TE_INTERNAL_ERROR))"

definition getQuicIntegerSize :: "nat \<Rightarrow> TransportErrorCode + nat" where
  "getQuicIntegerSize value =
     (if value \<le> kOneByteLimit then Inr 1
      else if value \<le> kTwoByteLimit then Inr 2
      else if value \<le> kFourByteLimit then Inr 4
      else if value \<le> kEightByteLimit then Inr 8
      else Inl TE_INTERNAL_ERROR)"

definition getQuicIntegerSizeThrows :: "nat \<Rightarrow> nat res" where
  "getQuicIntegerSizeThrows value =
     (if value \<le> kOneByteLimit then Inr 1
      else if value \<le> kTwoByteLimit then Inr 2
      else if value \<le> kFourByteLimit then Inr 4
      else if value \<le> kEightByteLimit then Inr 8
      else Inl (QuicTransportException TE_INTERNAL_ERROR))"

definition decodeQuicIntegerLength :: "byte \<Rightarrow> nat" where
  "decodeQuicIntegerLength firstByte = 2 ^ unat (drop_bit 6 firstByte AND 0x03)"

definition decodeQuicInteger :: "cursor \<Rightarrow> nat \<Rightarrow> (nat \<times> nat) option \<times> cursor" where
  "decodeQuicInteger cur at_most =
     (if at_most = 0 \<or> length cur < 1 then (None, cur)
      else let firstByte = hd cur;
               varintType = unat (drop_bit 6 firstByte AND 0x03);
               bytesExpected = 2 ^ varintType
        in if varintType = 0 then (Some (unat (firstByte AND 0x3f), 1), drop 1 cur)
           else if length cur < bytesExpected \<or> at_most < bytesExpected then (None, cur)
           else let msbMask = NOT (push_bit 62 (3 :: 64 word));
                    pulled = take bytesExpected cur @ replicate (8 - bytesExpected) 0;
                    result = readBE pulled AND msbMask
             in (Some (unat (drop_bit ((8 - bytesExpected) * 8) result), bytesExpected),
                 drop bytesExpected cur))"

text \<open>\<^verbatim>\<open>QuicInteger::encode\<close> and \<^verbatim>\<open>QuicInteger::getSize\<close> throw on the error value.\<close>

definition QuicInteger_encode :: "nat \<Rightarrow> byte list res" where
  "QuicInteger_encode value = (case encodeQuicInteger value of
     Inl e \<Rightarrow> Inl (QuicTransportException e) | Inr bs \<Rightarrow> Inr bs)"

definition QuicInteger_encodeSized :: "nat \<Rightarrow> int \<Rightarrow> byte list res" where
  "QuicInteger_encodeSized value outputSize = rbind (encodeQuicIntegerSized value outputSize)
     (\<lambda>r. case r of Inl e \<Rightarrow> Inl (QuicTransportException e) | Inr bs \<Rightarrow> Inr bs)"

definition QuicInteger_getSize :: "nat \<Rightarrow> nat res" where
  "QuicInteger_getSize value = (case getQuicIntegerSize value of
     Inl e \<Rightarrow> Inl (QuicTransportException e) | Inr n \<Rightarrow> Inr n)"


section \<open>Byte lists as numbers\<close>

definition be_val :: "byte list \<Rightarrow> nat" where
  "be_val bs = foldl (\<lambda>acc b. acc * 256 + unat b) 0 bs"

lemma be_val_Nil [simp]: "be_val [] = 0"
  by (simp add: be_val_def)

lemma be_val_snoc [simp]: "be_val (bs @ [b]) = be_val bs * 256 + unat b"
  by (simp add: be_val_def)

lemma unat_byte_less: "unat (b :: byte) < 256"
  using unsigned_less [of b, where 'a = nat] by simp

lemma be_val_less: "be_val bs < 256 ^ length bs"
proof (induction bs rule: rev_induct)
  case (snoc b bs)
  then have "be_val bs * 256 + unat b < (be_val bs + 1) * 256"
    using unat_byte_less [of b] by simp
  also have "\<dots> \<le> 256 ^ length bs * 256"
    using snoc by (intro mult_right_mono) auto
  finally show ?case by (simp add: mult.commute)
qed simp

lemma be_val_zeros: "be_val (bs @ replicate k 0) = be_val bs * 256 ^ k"
proof (induction k)
  case (Suc k)
  have "be_val (bs @ replicate (Suc k) 0) = be_val ((bs @ replicate k 0) @ [0])"
    by (simp add: replicate_append_same)
  then show ?case by (simp only: be_val_snoc Suc) simp
qed simp

lemma be_val_Cons: "be_val (b # bs) = unat b * 256 ^ length bs + be_val bs"
proof (induction bs rule: rev_induct)
  case (snoc x xs)
  have "be_val (b # xs @ [x]) = be_val (b # xs) * 256 + unat x"
    by (metis append_Cons be_val_snoc)
  with snoc show ?case by (simp add: algebra_simps)
qed (simp add: be_val_def)

lemma be_val_hd: "bs \<noteq> [] \<Longrightarrow> be_val bs div 256 ^ (length bs - 1) = unat (hd bs)"
  by (cases bs) (use be_val_less in \<open>auto simp: be_val_Cons\<close>)

lemma unat_ucast_mod: "unat (ucast (w::'a::len word) :: 'b::len word) = unat w mod 2 ^ LENGTH('b)"
  by transfer (simp add: take_bit_eq_mod nat_mod_distrib nat_power_eq) 

lemma unat_push8_or:
  fixes a :: "64 word" and b :: byte
  assumes "unat a < 2 ^ 56"
  shows "unat (push_bit 8 a OR ucast b) = unat a * 256 + unat b"
proof -
  have "push_bit 8 a OR ucast b = push_bit 8 a + (ucast b :: 64 word)"
    by (rule disjunctive_add [symmetric]) (auto simp: bit_simps dest: bit_imp_le_length)
  moreover have "unat (ucast b :: 64 word) = unat b"
    using unat_byte_less [of b] by (subst unat_ucast_mod) (rule mod_less, simp)
  ultimately show ?thesis
    using assms unat_byte_less [of b] 
    by (simp add: push_bit_eq_mult unat_word_ariths)
qed

lemma unat_readBE: "length bs \<le> 8 \<Longrightarrow> unat (readBE bs) = be_val bs"
proof (induction bs rule: rev_induct)
  case (snoc b bs)
  then have IH: "unat (readBE bs) = be_val bs" by simp
  have "be_val bs < 256 ^ length bs" by (rule be_val_less)
  also have "\<dots> \<le> 256 ^ 7" using snoc.prems by (intro power_increasing) auto
  finally have "unat (readBE bs) < 2 ^ 56" using IH by simp
  then show ?case using IH by (simp add: readBE_def unat_push8_or)
qed (simp add: readBE_def)

lemma writeBE_Suc: "writeBE (Suc n) w = writeBE n (drop_bit 8 w) @ [ucast w]"
  by (auto simp: writeBE_def add.commute intro!: arg_cong [where f = ucast] arg_cong2 [where f = drop_bit]) 

lemma length_writeBE [simp]: "length (writeBE n w) = n"
  by (simp add: writeBE_def)

lemma be_val_writeBE: "be_val (writeBE n (w :: 'a::len word)) = unat w mod 256 ^ n"
proof (induction n arbitrary: w)
  case (Suc n)
  have "be_val (writeBE (Suc n) w) = unat w div 256 mod 256 ^ n * 256 + unat w mod 256"
    by (simp add: writeBE_Suc Suc unat_drop_bit_eq drop_bit_nat_def unat_ucast_mod)
  also have "\<dots> = unat w mod (256 * 256 ^ n)"
    by (simp add: mod_mult2_eq)
  finally show ?case by simp
qed (simp add: writeBE_def)

lemma unat_mask62: "unat (x AND NOT (push_bit 62 (3 :: 64 word))) = unat x mod 2 ^ 62"
proof -
  have "NOT (push_bit 62 (3 :: 64 word)) = mask 62"
    by (simp add: mask_eq_exp_minus_1)
  then show ?thesis
    by (simp only: unsigned_take_bit_eq take_bit_nat_def flip: take_bit_eq_mask) 
qed

lemma unat_or_tag:
  fixes x t :: "'a::len word"
  assumes "unat x < 2 ^ k" "k < LENGTH('a)" "unat t * 2 ^ k + 2 ^ k \<le> 2 ^ LENGTH('a)"
  shows "unat (x OR push_bit k t) = unat x + unat t * 2 ^ k"
proof -
  have "x OR push_bit k t = x + push_bit k t"
  proof (rule disjunctive_add [symmetric])
    fix n
    have "take_bit k x = x"
      using assms(1) by (simp add: word_unat_eq_iff unsigned_take_bit_eq take_bit_nat_def)
    then have "bit x n \<Longrightarrow> n < k" by (metis bit_take_bit_iff)
    then show "\<not> bit x n \<or> \<not> bit (push_bit k t) n" by (auto simp: bit_simps)
  qed
  moreover have "unat (push_bit k t) = unat t * 2 ^ k"
  proof -
    have "unat t * 2 ^ k < 2 ^ LENGTH('a)"
      using assms(3) by (rule less_le_trans [rotated]) simp
    then show ?thesis
      by (subst unsigned_push_bit_eq) (simp add: take_bit_nat_def push_bit_nat_def)
  qed
  ultimately show ?thesis
    using assms by (simp add: unat_word_ariths)
qed

lemma ucast_u64:
  assumes "value < 2 ^ k" "k \<le> LENGTH('a)" "k \<le> 64"
  shows "unat (ucast (word_of_nat value :: 64 word) :: 'a::len word) = value"
proof -
  have "(2::nat) ^ k \<le> 2 ^ LENGTH('a)" "(2::nat) ^ k \<le> 2 ^ 64"
    using power_increasing [OF assms(2), of "2::nat"] power_increasing [OF assms(3), of "2::nat"]
    by simp_all
  then show ?thesis
    using assms(1) by (simp add: unat_ucast_mod unat_of_nat less_le_trans)
qed

text \<open>What each encoder writes: the value with the two-bit length tag on top of it.\<close>

lemma encodeOneByte_val:
  "v \<le> kOneByteLimit \<Longrightarrow> length (encodeOneByte v) = 1 \<and> be_val (encodeOneByte v) = v"
  using ucast_u64 [of v 6, where 'a = 8]
  by (simp add: encodeOneByte_def be_val_writeBE quic_limits)

lemma encodeTwoBytes_val:
  assumes "v \<le> kTwoByteLimit"
  shows "length (encodeTwoBytes v) = 2 \<and> be_val (encodeTwoBytes v) = v + 1 * 2 ^ 14"
proof -
  let ?x = "ucast (word_of_nat v :: 64 word) :: 16 word"
  have "unat ?x = v" using assms by (intro ucast_u64 [of v 14]) (auto simp: quic_limits)
  then show ?thesis
    using assms unat_or_tag [of ?x 14 1]
    by (simp add: encodeTwoBytes_def be_val_writeBE quic_limits Let_def)
qed

lemma encodeFourBytes_val:
  assumes "v \<le> kFourByteLimit"
  shows "length (encodeFourBytes v) = 4 \<and> be_val (encodeFourBytes v) = v + 2 * 2 ^ 30"
proof -
  let ?x = "ucast (word_of_nat v :: 64 word) :: 32 word"
  have "unat ?x = v" using assms by (intro ucast_u64 [of v 30]) (auto simp: quic_limits)
  then show ?thesis
    using assms unat_or_tag [of ?x 30 2]
    by (simp add: encodeFourBytes_def be_val_writeBE quic_limits Let_def)
qed

lemma encodeEightBytes_val:
  assumes "v \<le> kEightByteLimit"
  shows "length (encodeEightBytes v) = 8 \<and> be_val (encodeEightBytes v) = v + 3 * 2 ^ 62"
proof -
  let ?x = "word_of_nat v :: 64 word"
  have "unat ?x = v" using assms by (simp add: unat_of_nat quic_limits)
  then show ?thesis
    using assms unat_or_tag [of ?x 62 3]
    by (simp add: encodeEightBytes_def be_val_writeBE quic_limits Let_def)
qed

text \<open>What the decoder reads from bytes of that shape, whatever follows them.\<close>

lemma varint_type: "unat (drop_bit 6 (b :: byte) AND 3) = unat b div 64"
proof -
  have m: "(3 :: byte) = mask 2" by (simp add: mask_eq_exp_minus_1)
  have "unat (drop_bit 6 b AND 3) = unat b div 2 ^ 6 mod 2 ^ 2"
    by (simp only: m unsigned_take_bit_eq take_bit_nat_def unat_drop_bit_eq drop_bit_nat_def flip: take_bit_eq_mask)
  also have "\<dots> = unat b div 64" using unat_byte_less [of b] by simp
  finally show ?thesis .
qed

lemma low_six_bits: "unat ((b :: byte) AND 0x3f) = unat b mod 64"
proof -
  have m: "(0x3f :: byte) = mask 6" by (simp add: mask_eq_exp_minus_1)
  have "unat (b AND 0x3f) = unat b mod 2 ^ 6"
    by (simp only: m unsigned_take_bit_eq take_bit_nat_def flip: take_bit_eq_mask)
  then show ?thesis by simp
qed

lemma strip_tag: "v < 2 ^ j \<Longrightarrow> (v + t * 2 ^ j) * 2 ^ m mod 2 ^ (j + m) div 2 ^ m = (v::nat)"
  by (simp add: power_add mod_mult_mult2)

lemma decode_tagged:
  assumes len: "length bs = 2 ^ t" and t: "t \<le> 3"
    and val: "be_val bs = v + t * 2 ^ (8 * 2 ^ t - 2)" and v: "v < 2 ^ (8 * 2 ^ t - 2)"
    and am: "2 ^ t \<le> am"
  shows "decodeQuicInteger (bs @ rest) am = (Some (v, 2 ^ t), rest)"
proof -
  have ne: "bs \<noteq> []" using len by auto
  have "t = 0 \<or> t = 1 \<or> t = 2 \<or> t = 3" using t by auto
  then have hd_div: "unat (hd bs) div 64 = t"
    using be_val_hd [OF ne, symmetric] len val v by (auto simp flip: div_mult2_eq)
  have "unat (drop_bit ((8 - 2 ^ t) * 8) (readBE (bs @ replicate (8 - 2 ^ t) 0) AND
      NOT (push_bit 62 (3 :: 64 word)))) =
      unat (readBE (bs @ replicate (8 - 2 ^ t) 0)) mod 2 ^ 62 div 2 ^ ((8 - 2 ^ t) * 8)"
    by (simp only: unat_drop_bit_eq drop_bit_nat_def unat_mask62)
  also have "\<dots> = v"
    using \<open>t = 0 \<or> t = 1 \<or> t = 2 \<or> t = 3\<close> len val v
    by (elim disjE) (simp_all add: unat_readBE be_val_zeros strip_tag
        [of v 14 1 48, simplified] strip_tag [of v 30 2 32, simplified] strip_tag [of v 62 3 0, simplified])
  finally have "unat (drop_bit ((8 - 2 ^ t) * 8) (readBE (bs @ replicate (8 - 2 ^ t) 0) AND
      NOT (push_bit 62 (3 :: 64 word)))) = v" .
  moreover have "unat (hd bs) mod 64 = v" if "t = 0"
    using that len val v ne by (cases bs) (auto simp: be_val_Cons)
  ultimately show ?thesis
    using hd_div ne len am t less_le_trans [OF _ am, of 0]
    by (auto simp: decodeQuicInteger_def varint_type low_six_bits Let_def Suc_le_eq) 
qed

section \<open>The codec interface\<close>

text \<open>
  A prefix codec: what \<open>enc\<close> writes, \<open>dec\<close> reads back from the front of any input and
  leaves the rest. The lemmas are the ones the frame codec uses: the encoding is injective,
  no encoding is a proper prefix of another, and a sequence of values written one after the
  other is read back by as many reads.
\<close>

fun enc_seq :: "('a \<Rightarrow> byte list option) \<Rightarrow> 'a list \<Rightarrow> byte list option" where
  "enc_seq enc [] = Some []"
| "enc_seq enc (x # xs) = (case enc x of None \<Rightarrow> None | Some b \<Rightarrow>
     (case enc_seq enc xs of None \<Rightarrow> None | Some bs \<Rightarrow> Some (b @ bs)))"

fun dec_seq :: "(byte list \<Rightarrow> ('a \<times> byte list) option) \<Rightarrow> nat \<Rightarrow> byte list \<Rightarrow> ('a list \<times> byte list) option" where
  "dec_seq dec 0 bs = Some ([], bs)"
| "dec_seq dec (Suc n) bs = (case dec bs of None \<Rightarrow> None | Some (x, rest) \<Rightarrow>
     (case dec_seq dec n rest of None \<Rightarrow> None | Some (xs, rest') \<Rightarrow> Some (x # xs, rest')))"

locale prefix_codec =
  fixes enc :: "'a \<Rightarrow> byte list option"
    and dec :: "byte list \<Rightarrow> ('a \<times> byte list) option"
  assumes dec_enc: "enc x = Some bs \<Longrightarrow> dec (bs @ rest) = Some (x, rest)"
begin

lemma enc_prefix_free: "enc x = Some bs \<Longrightarrow> enc y = Some (bs @ cs) \<Longrightarrow> x = y \<and> cs = []"
  using dec_enc [of x bs cs] dec_enc [of y "bs @ cs" "[]"] by simp

lemma enc_inj: "enc x = Some bs \<Longrightarrow> enc y = Some bs \<Longrightarrow> x = y"
  using enc_prefix_free [of x bs y "[]"] by simp

lemma dec_seq_enc_seq:
  "enc_seq enc xs = Some bs \<Longrightarrow> dec_seq dec (length xs) (bs @ rest) = Some (xs, rest)"
proof (induction xs arbitrary: bs)
  case (Cons x xs)
  then obtain b c where "enc x = Some b" "enc_seq enc xs = Some c" "bs = b @ c"
    by (auto split: option.splits)
  with Cons.IH [of c] show ?case by (simp add: dec_enc)
qed simp

end

text \<open>The integer codec of the code behind that interface.\<close>

definition enc_varint :: "nat \<Rightarrow> byte list option" where
  "enc_varint v = (case encodeQuicInteger v of Inl _ \<Rightarrow> None | Inr bs \<Rightarrow> Some bs)"

definition dec_varint :: "byte list \<Rightarrow> (nat \<times> byte list) option" where
  "dec_varint cur = (case decodeQuicInteger cur 8 of
     (None, _) \<Rightarrow> None | (Some (v, _), cur') \<Rightarrow> Some (v, cur'))"

lemma encode_decode:
  assumes "encodeQuicInteger v = Inr bs" and "length bs \<le> am"
  shows "decodeQuicInteger (bs @ rest) am = (Some (v, length bs), rest)"
proof -
  have "length bs = 1 \<and> be_val bs = v \<and> v < 2 ^ 6
      \<or> length bs = 2 \<and> be_val bs = v + 1 * 2 ^ 14 \<and> v < 2 ^ 14
      \<or> length bs = 4 \<and> be_val bs = v + 2 * 2 ^ 30 \<and> v < 2 ^ 30
      \<or> length bs = 8 \<and> be_val bs = v + 3 * 2 ^ 62 \<and> v < 2 ^ 62"
    using assms(1) encodeOneByte_val [of v] encodeTwoBytes_val [of v]
      encodeFourBytes_val [of v] encodeEightBytes_val [of v]
    by (auto simp: encodeQuicInteger_def quic_limits split: if_splits)
  then show ?thesis
    using assms(2) decode_tagged [of bs 0 v am rest] decode_tagged [of bs 1 v am rest]
      decode_tagged [of bs 2 v am rest] decode_tagged [of bs 3 v am rest]
    by (elim disjE) simp_all
qed

lemma encode_size: "encodeQuicInteger v = Inr bs \<Longrightarrow> getQuicIntegerSize v = Inr (length bs)"
  using encodeOneByte_val [of v] encodeTwoBytes_val [of v]
    encodeFourBytes_val [of v] encodeEightBytes_val [of v]
  by (auto simp: encodeQuicInteger_def getQuicIntegerSize_def split: if_splits)

lemma encode_length_cases: "encodeQuicInteger v = Inr bs \<Longrightarrow> length bs \<in> {1, 2, 4, 8}"
  by (drule encode_size) (auto simp: getQuicIntegerSize_def split: if_splits)

lemma encode_total: "v \<le> kEightByteLimit \<Longrightarrow> \<exists>bs. encodeQuicInteger v = Inr bs"
  by (simp add: encodeQuicInteger_def)

interpretation varint: prefix_codec enc_varint dec_varint
proof unfold_locales
  fix x bs rest
  assume "enc_varint x = Some bs"
  then have e: "encodeQuicInteger x = Inr bs" by (auto simp: enc_varint_def split: sum.splits)
  then have "length bs \<le> 8" using encode_length_cases by fastforce
  then show "dec_varint (bs @ rest) = Some (x, rest)"
    using encode_decode [OF e, of 8 rest] by (simp add: dec_varint_def)
qed

section \<open>Properties\<close>

text \<open>C21: every value up to \<open>2 ^ 62 - 1\<close> is encoded, in exactly the number of bytes
  \<^verbatim>\<open>getQuicIntegerSize\<close> announces, and \<^verbatim>\<open>decodeQuicInteger\<close> reads the value and its length
  back from the front of any buffer and leaves the cursor right behind it.\<close>

theorem varint_roundtrip:
  assumes "v \<le> kEightByteLimit"
  shows "\<exists>bs. encodeQuicInteger v = Inr bs \<and> getQuicIntegerSize v = Inr (length bs) \<and>
    decodeQuicInteger (bs @ rest) 8 = (Some (v, length bs), rest)"
proof -
  from encode_total [OF assms] obtain bs where bs: "encodeQuicInteger v = Inr bs" by blast
  then have "length bs \<le> 8" using encode_length_cases by fastforce
  with bs show ?thesis by (blast intro: encode_size encode_decode)
qed

theorem varint_roundtrip_witness:
  "(15293 :: nat) \<le> kEightByteLimit \<and> encodeQuicInteger 15293 = Inr [0x7b, 0xbd] \<and>
   decodeQuicInteger [0x7b, 0xbd, 7] 8 = (Some (15293, 2), [7])"
proof -
  have h: "(15293 :: nat) \<le> kEightByteLimit" by (simp add: quic_limits)
  have e: "encodeQuicInteger 15293 = Inr [0x7b, 0xbd]"
    by (simp add: encodeQuicInteger_def encodeTwoBytes_def writeBE_def quic_limits Let_def upt_rec)
  show ?thesis using varint_roundtrip [OF h, of "[7]"] h e by simp
qed

text \<open>A value above \<open>2 ^ 62 - 1\<close> is refused by every entry point of the encoder with
  the internal error code, as an error value or as the exception that carries it.\<close>

theorem varint_too_large:
  "v > kEightByteLimit \<longleftrightarrow> encodeQuicInteger v = Inl TE_INTERNAL_ERROR \<and>
     getQuicIntegerSize v = Inl TE_INTERNAL_ERROR \<and>
     getQuicIntegerSizeThrows v = Inl (QuicTransportException TE_INTERNAL_ERROR) \<and>
     QuicInteger_encode v = Inl (QuicTransportException TE_INTERNAL_ERROR) \<and>
     QuicInteger_getSize v = Inl (QuicTransportException TE_INTERNAL_ERROR)"
  by (auto simp: encodeQuicInteger_def getQuicIntegerSize_def getQuicIntegerSizeThrows_def
      QuicInteger_encode_def QuicInteger_getSize_def quic_limits split: if_splits)

lemma le_limit: "v < 2 ^ 62 \<Longrightarrow> v \<le> kEightByteLimit"
  by (simp add: quic_limits)

lemma decode_value_bound:
  "unat (drop_bit ((8 - n) * 8) (readBE bs AND NOT (push_bit 62 (3 :: 64 word)))) \<le> kEightByteLimit"
proof -
  have "unat (drop_bit k (readBE bs AND NOT (push_bit 62 (3 :: 64 word)))) \<le> unat (readBE bs) mod 2 ^ 62" for k
    by (simp only: unat_drop_bit_eq drop_bit_nat_def unat_mask62) (rule div_le_dividend)
  moreover have "unat (readBE bs) mod 2 ^ 62 < 2 ^ 62" by simp
  ultimately show ?thesis by (blast intro: le_limit le_less_trans)
qed

lemma decodeQuicInteger_cases:
  "case decodeQuicInteger cur am of
     (None, cur') \<Rightarrow> cur' = cur \<and> (length cur < 8 \<or> am < 8)
   | (Some (v, n), cur') \<Rightarrow> n = decodeQuicIntegerLength (hd cur) \<and> n \<in> {1, 2, 4, 8} \<and>
        n \<le> am \<and> n \<le> length cur \<and> cur' = drop n cur \<and> v \<le> kEightByteLimit"
proof -
  let ?t = "unat (hd cur) div 64"
  have t: "?t \<in> {0, 1, 2, 3}" using unat_byte_less [of "hd cur"] by auto
  then have n: "2 ^ ?t \<in> {1, 2, 4, 8 :: nat}" "2 ^ ?t \<le> (8 :: nat)" by auto
  have small: "unat (hd cur) mod 64 \<le> kEightByteLimit"
    using mod_less_divisor [of 64 "unat (hd cur)"] by (simp add: quic_limits)
  show ?thesis
    using n t small decode_value_bound
    by (auto simp: decodeQuicInteger_def decodeQuicIntegerLength_def varint_type low_six_bits Let_def Suc_le_eq
        simp del: push_bit_numeral not_one_eq)
qed

text \<open>C29: on any input, the decoder either fails and leaves the cursor untouched, or
  consumes exactly the number of bytes the first byte announces, which is 1, 2, 4 or 8 and
  within the limit given by the caller, and returns a value of at most 62 bits.\<close>

theorem decode_cursor_safe:
  "case decodeQuicInteger cur am of
     (None, cur') \<Rightarrow> cur' = cur \<and> (length cur < 8 \<or> am < 8)
   | (Some (v, n), cur') \<Rightarrow> n = decodeQuicIntegerLength (hd cur) \<and> n \<in> {1, 2, 4, 8} \<and>
        n \<le> am \<and> n \<le> length cur \<and> cur' = drop n cur \<and> v \<le> kEightByteLimit"
  by (rule decodeQuicInteger_cases)

end
