(* ===== verification/Packet_Number.thy ===== *)
theory Packet_Number
  imports Quic_Prelude
begin

text \<open>
  Truncated packet numbers (\<^verbatim>\<open>quic/codec/PacketNumber.cpp\<close>). A \<^verbatim>\<open>PacketNum\<close> is a
  \<^verbatim>\<open>uint64_t\<close>; the subtraction and the doubling of the encoder wrap around, as in the code.
\<close>

unbundle bit_operations_syntax

section \<open>Model\<close>

text \<open>\<^verbatim>\<open>folly::findLastSet\<close>: one plus the index of the highest set bit, 0 for 0.\<close>

fun findLastSet :: "nat \<Rightarrow> nat" where
  "findLastSet x = (if x = 0 then 0 else Suc (findLastSet (x div 2)))"

declare findLastSet.simps [simp del]

record PacketNumEncodingResult =
  per_result :: nat
  per_length :: nat

definition encodePacketNumber :: "nat \<Rightarrow> nat \<Rightarrow> PacketNumEncodingResult res" where
  "encodePacketNumber packetNum largestAckedPacketNum =
     (let twiceDistance = mul64 (sub64 packetNum largestAckedPacketNum) 2;
          lengthInBits = findLastSet twiceDistance;
          lengthInBytes = (if lengthInBits = 0 then 1 else (lengthInBits + 7) div 8)
      in if lengthInBytes > 4 then Inl (QuicInternalException LE_PACKET_NUMBER_ENCODING)
         else let mask = 2 ^ (lengthInBytes * 8) - 1
           in Inr \<lparr>per_result = packetNum AND mask, per_length = lengthInBytes\<rparr>)"

definition decodePacketNumber :: "nat \<Rightarrow> nat \<Rightarrow> nat \<Rightarrow> nat res" where
  "decodePacketNumber encodedPacketNum packetNumBytes expectedNextPacketNum =
     rbind (check (packetNumBytes \<le> 4)) (\<lambda>_.
       let packetNumBits = 8 * packetNumBytes;
           packetNumWin = 2 ^ packetNumBits;
           packetNumHalfWin = packetNumWin div 2;
           mask = word_of_nat (packetNumWin - 1) :: 64 word;
           candidate = unat ((word_of_nat expectedNextPacketNum AND NOT mask)
                         OR word_of_nat encodedPacketNum)
       in if expectedNextPacketNum > packetNumHalfWin \<and>
             candidate \<le> expectedNextPacketNum - packetNumHalfWin \<and>
             candidate < 2 ^ 62 - packetNumWin
          then Inr (add64 candidate packetNumWin)
          else if candidate > add64 expectedNextPacketNum packetNumHalfWin \<and>
             candidate \<ge> packetNumWin
          then Inr (candidate - packetNumWin)
          else Inr candidate)"


section \<open>Arithmetic of the window\<close>

lemma findLastSet_less: "x < 2 ^ findLastSet x"
proof (induction x rule: findLastSet.induct)
  case (1 x)
  show ?case
  proof (cases "x = 0")
    case False
    then have "x div 2 < 2 ^ findLastSet (x div 2)" using 1 by simp
    then have "x < 2 * 2 ^ findLastSet (x div 2)" by linarith
    with False show ?thesis by (subst findLastSet.simps) simp
  qed (simp add: findLastSet.simps)
qed

lemma findLastSet_le_iff: "findLastSet x \<le> k \<longleftrightarrow> x < 2 ^ k"
proof
  assume "findLastSet x \<le> k"
  then have "(2::nat) ^ findLastSet x \<le> 2 ^ k" by (rule power_increasing) simp
  with findLastSet_less [of x] show "x < 2 ^ k" by (rule less_le_trans)
next
  show "x < 2 ^ k \<Longrightarrow> findLastSet x \<le> k"
  proof (induction x arbitrary: k rule: findLastSet.induct)
    case (1 x)
    show ?case
    proof (cases "x = 0")
      case False
      with "1.prems" obtain j where j: "k = Suc j" by (cases k) auto
      with "1.prems" have "x div 2 < 2 ^ j" by simp
      with 1 False j show ?thesis by (subst findLastSet.simps) simp
    qed (simp add: findLastSet.simps)
  qed
qed

text \<open>The length in bytes the encoder computes from twice the distance.\<close>

definition encodedLength :: "nat \<Rightarrow> nat" where
  "encodedLength x = (if findLastSet x = 0 then 1 else (findLastSet x + 7) div 8)"

lemma encodedLength_pos: "1 \<le> encodedLength x"
  by (auto simp: encodedLength_def)

lemma encodedLength_le_iff: "1 \<le> n \<Longrightarrow> encodedLength x \<le> n \<longleftrightarrow> x < 2 ^ (8 * n)"
proof -
  assume "1 \<le> n"
  moreover have "(findLastSet x + 7) div 8 \<le> n \<longleftrightarrow> findLastSet x \<le> 8 * n" by linarith
  ultimately show ?thesis by (auto simp: encodedLength_def findLastSet_le_iff)
qed

lemma and_mask_nat: "(x::nat) AND (2 ^ k - 1) = x mod 2 ^ k"
  by (simp only: flip: mask_eq_exp_minus_1 take_bit_eq_mask) (simp add: take_bit_nat_def)

lemma unat_and_not_mask: "unat (w AND NOT (word_of_nat (2 ^ n - 1))) = unat (w :: 64 word) div 2 ^ n * 2 ^ n"
proof -
  have m: "(word_of_nat (2 ^ n - 1) :: 64 word) = mask n"
    by (simp add: mask_eq_exp_minus_1 of_nat_diff)
  have "w AND NOT (mask n) = push_bit n (drop_bit n w)"
    by (rule bit_word_eqI) (auto simp: bit_simps)
  moreover have "unat w div 2 ^ n * 2 ^ n < 2 ^ 64"
    using unsigned_less [of w, where 'a = nat] div_times_less_eq_dividend [of "unat w" "2 ^ n"]
    by (simp del: div_times_less_eq_dividend)
  then have "unat (push_bit n (drop_bit n w)) = unat w div 2 ^ n * 2 ^ n"
    by (subst unsigned_push_bit_eq)
      (simp add: take_bit_nat_def push_bit_nat_def unat_drop_bit_eq drop_bit_nat_def)
  ultimately show ?thesis by (simp only: m)
qed

lemma unat_candidate:
  assumes "r < 2 ^ n" and "n \<le> 32" and "e < 2 ^ 64"
  shows "unat ((word_of_nat e AND NOT (word_of_nat (2 ^ n - 1))) OR (word_of_nat r :: 64 word)) =
    e div 2 ^ n * 2 ^ n + r"
proof -
  let ?a = "word_of_nat e AND NOT (word_of_nat (2 ^ n - 1)) :: 64 word"
  have e: "unat (word_of_nat e :: 64 word) = e" using assms(3) by (simp add: unat_of_nat)
  have "(2::nat) ^ n \<le> 2 ^ 32" using assms(2) by (rule power_increasing) simp
  then have r: "unat (word_of_nat r :: 64 word) = r" using assms(1) by (simp add: unat_of_nat)
  then have tr: "take_bit n (word_of_nat r :: 64 word) = word_of_nat r"
    using assms(1) by (simp add: word_unat_eq_iff unsigned_take_bit_eq take_bit_nat_def)
  have m: "(word_of_nat (2 ^ n - 1) :: 64 word) = mask n"
    by (simp add: mask_eq_exp_minus_1 of_nat_diff)
  have "?a OR word_of_nat r = ?a + word_of_nat r"
  proof (rule disjunctive_add [symmetric])
    fix i
    have "bit (word_of_nat r :: 64 word) i \<Longrightarrow> i < n" using tr by (metis bit_take_bit_iff)
    then show "\<not> bit ?a i \<or> \<not> bit (word_of_nat r :: 64 word) i"
      unfolding m by (auto simp: bit_simps)
  qed
  moreover have "unat ?a = e div 2 ^ n * 2 ^ n" by (simp only: unat_and_not_mask e)
  moreover have "e div 2 ^ n * 2 ^ n + r < 2 ^ 64"
  proof -
    obtain k where k: "(2::nat) ^ 64 = 2 ^ n * 2 ^ k" using assms(2)
      by (metis le_add_diff_inverse le_trans numeral_le_iff power_add semiring_norm(71) semiring_norm(68))
    then have "e div 2 ^ n < 2 ^ k" using assms(3) by (simp only: less_mult_imp_div_less mult.commute)
    then have "(e div 2 ^ n + 1) * 2 ^ n \<le> 2 ^ k * 2 ^ n" by (intro mult_right_mono) auto
    then show ?thesis using assms(1) k by (simp only: mult.commute) (simp add: algebra_simps)
  qed
  ultimately show ?thesis using r by (simp add: unat_word_ariths)
qed

text \<open>The window argument: of the numbers that are congruent to \<open>r\<close>, the one that lies
  within half a window of the expected one is the candidate or a neighbour of it.\<close>

lemma window_pick:
  fixes e pn half :: nat
  assumes "0 < half" and "pn mod (2 * half) = r" and "e < pn + half" and "pn \<le> e + half"
    and "cand = e div (2 * half) * (2 * half) + r"
  shows "cand + half \<le> e \<Longrightarrow> pn = cand + 2 * half"
    and "e + half < cand \<Longrightarrow> cand = pn + 2 * half"
    and "e < cand + half \<Longrightarrow> cand \<le> e + half \<Longrightarrow> pn = cand"
proof -
  define w q p where "w = int (2 * half)" and "q = int (pn div (2 * half))" and "p = int (e div (2 * half))"
  have pn: "int pn = q * w + int r"
    using assms(2) by (metis div_mult_mod_eq of_nat_add of_nat_mult q_def w_def)
  have cand: "int cand = p * w + int r" using assms(5) by (simp add: p_def w_def)
  have "r < 2 * half" "e mod (2 * half) < 2 * half" using assms(1,2) by auto
  then have r: "int r < w" and s: "int (e mod (2 * half)) < w"
    by (simp_all only: w_def of_nat_less_iff)
  have "int e = p * w + int (e mod (2 * half))"
    by (metis div_mult_mod_eq of_nat_add of_nat_mult p_def w_def)
  with s have e: "p * w \<le> int e" "int e < p * w + w" by simp_all
  define d where "d = q - p"
  have diff: "d * w = int pn - int cand" by (simp add: d_def pn cand algebra_simps)
  have w: "w = 2 * int half" "0 < w" using assms(1) by (simp_all add: w_def)
  have between: "a < d \<and> d < b" if "a * w < d * w \<and> d * w < b * w" for a b :: int
    using that w(2) by (simp add: mult_less_cancel_right)
  {
    assume "cand + half \<le> e"
    then have "0 * w < d * w \<and> d * w < 2 * w" using assms(3,4) cand e w unfolding diff by linarith
    from between [OF this] have "d = 1" by simp
    then show "pn = cand + 2 * half" using diff w by simp
  next
    assume "e + half < cand"
    then have "(- 2) * w < d * w \<and> d * w < 0 * w" using assms(3,4) cand e w r unfolding diff by linarith
    from between [OF this] have "d = - 1" by simp
    then show "cand = pn + 2 * half" using diff w by simp
  next
    assume "e < cand + half" "cand \<le> e + half"
    then have "(- 1) * w < d * w \<and> d * w < 1 * w" using assms(3,4) w unfolding diff by linarith
    from between [OF this] have "d = 0" by simp
    then show "pn = cand" using diff by simp
  }
qed

lemma pick_decode:
  fixes c e half pn :: nat
  assumes "c + half \<le> e \<Longrightarrow> pn = c + 2 * half" and "e + half < c \<Longrightarrow> c = pn + 2 * half"
    and "e < c + half \<Longrightarrow> c \<le> e + half \<Longrightarrow> pn = c"
    and "pn < e + half" "e < pn + half" "pn < 2 ^ 62" "half \<le> 2 ^ 31"
  shows "(if e > half \<and> c \<le> e - half \<and> c < 2 ^ 62 - 2 * half then Inr (add64 c (2 * half))
      else if c > add64 e half \<and> c \<ge> 2 * half then Inr (c - 2 * half) else Inr c) = Inr pn"
proof -
  have "add64 e half = e + half" using assms by (simp add: add64_def)
  moreover have "add64 c (2 * half) = c + 2 * half" if "c \<le> e"
    using that assms by (simp add: add64_def)
  ultimately show ?thesis
    using assms by (cases "c + half \<le> e"; cases "e + half < c") auto
qed

lemma encode_eq:
  assumes "la \<le> pn" and "pn < 2 ^ 62"
  shows "encodePacketNumber pn la =
    (if 2 * (pn - la) < 2 ^ 32 then
       let n = encodedLength (2 * (pn - la)) in Inr \<lparr>per_result = pn mod 2 ^ (8 * n), per_length = n\<rparr>
     else Inl (QuicInternalException LE_PACKET_NUMBER_ENCODING))"
proof -
  have "mul64 (sub64 pn la) 2 = 2 * (pn - la)" using assms by (simp add: mul64_def sub64_def)
  then show ?thesis
    using encodedLength_le_iff [of 4 "2 * (pn - la)"]
    unfolding encodePacketNumber_def and_mask_nat Let_def encodedLength_def [symmetric]
    by (auto simp: mult.commute [of 8])
qed

text \<open>The receiver picks the one candidate within half a window of what it expects.\<close>

lemma decode_encoded_number:
  assumes enc: "encodePacketNumber pn la = Inr r"
    and "la \<le> pn" and "pn < 2 ^ 62"
    and "la \<le> expected" and "expected < pn + 2 ^ (8 * per_length r) div 2"
  shows "decodePacketNumber (per_result r) (per_length r) expected = Inr pn"
proof -
  define n half where "n = 8 * per_length r" and "half = (2::nat) ^ (n - 1)"
  have len: "per_length r = encodedLength (2 * (pn - la))" and res: "per_result r = pn mod 2 ^ n"
    and small: "2 * (pn - la) < 2 ^ 32"
    using enc by (auto simp: encode_eq [OF assms(2,3)] n_def Let_def split: if_splits)
  have L: "1 \<le> per_length r" "per_length r \<le> 4" "2 * (pn - la) < 2 ^ n"
    using encodedLength_pos [of "2 * (pn - la)"] encodedLength_le_iff [of 4 "2 * (pn - la)"] small
      encodedLength_le_iff [of "per_length r" "2 * (pn - la)"] by (auto simp: len n_def)
  then have win: "(2::nat) ^ n = 2 * half" and n32: "n \<le> 32" and hpos: "0 < half"
    by (auto simp: n_def half_def simp flip: power_Suc)
  have "n - 1 \<le> 31" using n32 by simp
  then have half31: "half \<le> 2 ^ 31" unfolding half_def by (rule power_increasing) simp
  have e: "expected < pn + half" "pn < expected + half"
    using assms(4,5) L(3) win by (auto simp: n_def)
  let ?c = "expected div (2 * half) * (2 * half) + pn mod (2 * half)"
  note pick = window_pick [OF hpos refl e(1) less_imp_le [OF e(2)] refl]
  have "expected < 2 ^ 64" using e(1) assms(3) half31 by simp
  then have c: "unat ((word_of_nat expected AND NOT (word_of_nat (2 ^ n - 1))) OR
      (word_of_nat (per_result r) :: 64 word)) = ?c"
    using unat_candidate [OF _ n32, of "per_result r" expected] hpos by (simp add: res win)
  have two: "(2::nat) \<noteq> 0" by simp
  show ?thesis
    using pick_decode [OF pick e(2,1) assms(3) half31] L(2)
    unfolding decodePacketNumber_def n_def [symmetric] Let_def c
    by (simp only: win check_def rbind.simps if_True nonzero_mult_div_cancel_left[OF two]) simp
qed

section \<open>Properties\<close>

text \<open>C22: a packet number that \<^verbatim>\<open>encodePacketNumber\<close> truncates against the largest number
  the peer acknowledged is recovered by \<^verbatim>\<open>decodePacketNumber\<close>, for every receiver whose next
  expected number is not below the acknowledged one and less than half a window ahead of the
  packet.\<close>

theorem packet_number_roundtrip:
  assumes enc: "encodePacketNumber pn la = Inr r"
    and "la \<le> pn" and "pn < 2 ^ 62"
    and "la \<le> expected" and "expected < pn + 2 ^ (8 * per_length r) div 2"
  shows "decodePacketNumber (per_result r) (per_length r) expected = Inr pn"
  using assms by (rule decode_encoded_number)

text \<open>The encoder fails exactly when twice the distance to the largest acknowledged
  packet number needs more than 32 bits, and otherwise returns the shortest of the lengths 1
  to 4 whose window covers that distance.\<close>

theorem packet_number_encoding_length:
  assumes "la \<le> pn" and "pn < 2 ^ 62"
  shows "case encodePacketNumber pn la of
      Inl e \<Rightarrow> e = QuicInternalException LE_PACKET_NUMBER_ENCODING \<and> 2 ^ 32 \<le> 2 * (pn - la)
    | Inr r \<Rightarrow> 1 \<le> per_length r \<and> per_length r \<le> 4 \<and> 2 * (pn - la) < 2 ^ (8 * per_length r) \<and>
        (\<forall>n. 1 \<le> n \<and> n < per_length r \<longrightarrow> 2 ^ (8 * n) \<le> 2 * (pn - la)) \<and>
        per_result r = pn mod 2 ^ (8 * per_length r)"
  using encodedLength_pos [of "2 * (pn - la)"] encodedLength_le_iff [of 4 "2 * (pn - la)"]
    encodedLength_le_iff [of "encodedLength (2 * (pn - la))" "2 * (pn - la)"]
    encodedLength_le_iff [of _ "2 * (pn - la)"]
  by (auto simp: encode_eq [OF assms] Let_def not_less [symmetric])

theorem packet_number_roundtrip_witness:
  "encodePacketNumber 0xa82f9b32 0xa82f30ea = Inr \<lparr>per_result = 0x9b32, per_length = 2\<rparr> \<and>
   decodePacketNumber 0x9b32 2 0xa82f30eb = Inr 0xa82f9b32"
proof -
  let ?r = "\<lparr>per_result = 0x9b32, per_length = 2\<rparr>"
  have e: "encodePacketNumber 0xa82f9b32 0xa82f30ea = Inr ?r"
    by (simp add: encode_eq encodedLength_def findLastSet.simps Let_def)
  show ?thesis
    using e packet_number_roundtrip [of "0xa82f9b32" "0xa82f30ea" ?r "0xa82f30eb"] by simp
qed

theorem packet_number_encoding_length_witness:
  "case encodePacketNumber 0xac5c02 0xabe8b3 of Inl _ \<Rightarrow> False | Inr r \<Rightarrow> 2 * (0xac5c02 - 0xabe8b3) < (2::nat) ^ (8 * per_length r)"
  using packet_number_encoding_length [of "0xabe8b3" "0xac5c02"]
  by (simp split: sum.splits)

end
