(* ===== verification/Interval_Set.thy ===== *)
theory Interval_Set
  imports Quic_Prelude
begin

text \<open>
  Sets of disjoint intervals (\<^verbatim>\<open>quic/common/IntervalSet.h\<close>, \<^verbatim>\<open>IntervalSet-inl.h\<close>) at the
  instance the transport uses, \<^verbatim>\<open>T = uint64_t\<close> and \<^verbatim>\<open>Unit = 1\<close>. The container is the list
  of its intervals; iterators are indices. The set carries the version counter that changes
  with every insertion that adds something.

  \<open>iset_inv\<close> is the representation invariant (sorted, disjoint, not even adjacent) and
  \<open>points\<close> the set of numbers represented. The locale \<open>point_store\<close> states what a client
  may rely on, and is interpreted on the code's operations.
\<close>

section \<open>Model\<close>

record Interval =
  iv_start :: nat
  iv_end :: nat

text \<open>The constructor's two checks.\<close>

definition mkInterval :: "nat \<Rightarrow> nat \<Rightarrow> Interval res" where
  "mkInterval s e =
     (if s > e then Inl InvalidArgument
      else if e > u64_max - 1 then Inl InvalidArgument
      else Inr \<lparr>iv_start = s, iv_end = e\<rparr>)"

record IntervalSet =
  intervals :: "Interval list"
  insertVersion :: nat

definition emptyIntervalSet :: IntervalSet where
  "emptyIntervalSet = \<lparr>intervals = [], insertVersion = 0\<rparr>"

definition intersectingRange :: "Interval list \<Rightarrow> Interval \<Rightarrow> nat \<times> nat" where
  "intersectingRange xs interval =
     (let firstIt = lower_bound (\<lambda>a. add64 (iv_end a) 1 < iv_start interval) xs;
          endIt = firstIt + length (takeWhile (\<lambda>a. iv_start a \<le> add64 (iv_end interval) 1) (drop firstIt xs))
      in (firstIt, endIt))"

definition iset_insert :: "Interval \<Rightarrow> IntervalSet \<Rightarrow> IntervalSet" where
  "iset_insert interval st =
     (let xs = intervals st; (firstIt, endIt) = intersectingRange xs interval
      in if firstIt = endIt then
           st\<lparr>intervals := insert_at firstIt interval xs, insertVersion := add64 (insertVersion st) 1\<rparr>
         else
           let fst_iv = xs ! firstIt;
               originalDifference = iv_end fst_iv - iv_start fst_iv;
               last_iv = xs ! (endIt - 1);
               new_iv = \<lparr>iv_start = min (iv_start interval) (iv_start fst_iv),
                         iv_end = max (iv_end interval) (iv_end last_iv)\<rparr>;
               newDifference = iv_end new_iv - iv_start new_iv
           in st\<lparr>intervals := erase_range (Suc firstIt) endIt (xs[firstIt := new_iv]),
                 insertVersion := (if newDifference > originalDifference
                                   then add64 (insertVersion st) 1 else insertVersion st)\<rparr>)"

definition iset_insert_range :: "nat \<Rightarrow> nat \<Rightarrow> IntervalSet \<Rightarrow> IntervalSet res" where
  "iset_insert_range s e st =
     (if s > e then Inl InvalidArgument
      else rbind (mkInterval s e) (\<lambda>iv. Inr (iset_insert iv st)))"

definition iset_insert_point :: "nat \<Rightarrow> IntervalSet \<Rightarrow> IntervalSet res" where
  "iset_insert_point p st = rbind (mkInterval p p) (\<lambda>iv. Inr (iset_insert iv st))"

text \<open>The constructor from an initializer list inserts the intervals one by one.\<close>

definition iset_of_list :: "Interval list \<Rightarrow> IntervalSet" where
  "iset_of_list ivs = foldl (\<lambda>st iv. iset_insert iv st) emptyIntervalSet ivs"

definition iset_withdraw :: "Interval \<Rightarrow> IntervalSet \<Rightarrow> IntervalSet" where
  "iset_withdraw interval st =
     (let xs = intervals st; (first, endIt) = intersectingRange xs interval
      in if first = endIt then st
         else
           let last = endIt - 1; f = xs ! first; l = xs ! last;
               keepFirst = add64 (iv_start f) 1 \<le> iv_start interval;
               keepLast = iv_end l \<ge> add64 (iv_end interval) 1
           in if last = first \<and> keepFirst \<and> keepLast then
                let toSplit = \<lparr>iv_start = iv_start f, iv_end = iv_start interval - 1\<rparr>;
                    l' = l\<lparr>iv_start := add64 (iv_end interval) 1\<rparr>
                in st\<lparr>intervals := insert_at last toSplit (xs[last := l'])\<rparr>
              else
                let erasureStart = (if keepFirst then Suc first else first);
                    xs1 = (if keepFirst then xs[first := f\<lparr>iv_end := iv_start interval - 1\<rparr>] else xs);
                    l1 = xs1 ! last;
                    erasureEnd = (if iv_end l1 \<ge> add64 (iv_end interval) 1 then last else endIt);
                    xs2 = (if iv_end l1 \<ge> add64 (iv_end interval) 1
                           then xs1[last := l1\<lparr>iv_start := add64 (iv_end interval) 1\<rparr>] else xs1)
                in st\<lparr>intervals := erase_range erasureStart erasureEnd xs2\<rparr>)"

fun contains_loop :: "nat \<Rightarrow> nat \<Rightarrow> Interval list \<Rightarrow> bool" where
  "contains_loop s e [] = False"
| "contains_loop s e (itr # rest) =
     (if s \<ge> iv_start itr \<and> e \<le> iv_end itr then True
      else if s < iv_end itr then False
      else contains_loop s e rest)"

definition iset_contains :: "nat \<Rightarrow> nat \<Rightarrow> IntervalSet \<Rightarrow> bool" where
  "iset_contains s e st = contains_loop s e (intervals st)"

section \<open>Representation\<close>

definition valid_interval :: "Interval \<Rightarrow> bool" where
  "valid_interval iv \<longleftrightarrow> iv_start iv \<le> iv_end iv \<and> iv_end iv < u64_max"

definition separated :: "Interval list \<Rightarrow> bool" where
  "separated xs \<longleftrightarrow> sorted_wrt (\<lambda>a b. iv_end a + 1 < iv_start b) xs"

definition iset_inv :: "IntervalSet \<Rightarrow> bool" where
  "iset_inv st \<longleftrightarrow> list_all valid_interval (intervals st) \<and> separated (intervals st)"

definition interval_points :: "Interval \<Rightarrow> nat set" where
  "interval_points iv = {iv_start iv..iv_end iv}"

definition list_points :: "Interval list \<Rightarrow> nat set" where
  "list_points xs = (\<Union>iv \<in> set xs. interval_points iv)"

definition points :: "IntervalSet \<Rightarrow> nat set" where
  "points st = list_points (intervals st)"

lemma list_points_simps [simp]:
  "list_points [] = {}" "list_points (x # xs) = interval_points x \<union> list_points xs"
  "list_points (xs @ ys) = list_points xs \<union> list_points ys"
  by (auto simp: list_points_def)

lemma mkInterval_Inr [simp]:
  "mkInterval s e = Inr iv \<longleftrightarrow> iv = \<lparr>iv_start = s, iv_end = e\<rparr> \<and> valid_interval iv"
  by (auto simp: mkInterval_def valid_interval_def u64_max_def)

lemma valid_add64 [simp]: "valid_interval iv \<Longrightarrow> add64 (iv_end iv) 1 = iv_end iv + 1"
  by (simp add: valid_interval_def u64_simps)

lemma valid_add64_Suc [simp]: "valid_interval iv \<Longrightarrow> add64 (iv_end iv) (Suc 0) = Suc (iv_end iv)"
  by (simp add: valid_interval_def u64_simps)

lemma separated_append [simp]:
  "separated (xs @ ys) \<longleftrightarrow> separated xs \<and> separated ys \<and>
     (\<forall>a \<in> set xs. \<forall>b \<in> set ys. iv_end a + 1 < iv_start b)"
  by (simp add: separated_def sorted_wrt_append)

lemma separated_Cons [simp]:
  "separated (x # xs) \<longleftrightarrow> (\<forall>b \<in> set xs. iv_end x + 1 < iv_start b) \<and> separated xs"
  by (simp add: separated_def)

lemma separated_Nil [simp]: "separated []"
  by (simp add: separated_def)

text \<open>
  \<^verbatim>\<open>intersectingRange\<close> cuts the container in three: the intervals that end before the
  argument with a gap, the ones that meet or touch it, and the ones that start behind it with
  a gap. The operations only rewrite the middle part.
\<close>

lemma intersectingRange_split:
  assumes "list_all valid_interval xs" "separated xs" "valid_interval iv"
  obtains A M B where "xs = A @ M @ B" "intersectingRange xs iv = (length A, length A + length M)"
    and "\<forall>a \<in> set A. iv_end a + 1 < iv_start iv"
    and "\<forall>m \<in> set M. iv_start iv \<le> iv_end m + 1 \<and> iv_start m \<le> iv_end iv + 1"
    and "\<forall>b \<in> set B. iv_end iv + 1 < iv_start b"
proof -
  let ?p = "\<lambda>a. add64 (iv_end a) 1 < iv_start iv" and ?q = "\<lambda>a. iv_start a \<le> add64 (iv_end iv) 1"
  define A D where "A = takeWhile ?p xs" and "D = dropWhile ?p xs"
  define M B where "M = takeWhile ?q D" and "B = dropWhile ?q D"
  have xs: "xs = A @ D" and D: "D = M @ B" by (simp_all add: A_def D_def M_def B_def)
  have range: "intersectingRange xs iv = (length A, length A + length M)"
    by (simp add: intersectingRange_def Let_def drop_lower_bound A_def D_def M_def lower_bound_def
        dropWhile_eq_drop [symmetric])
  have valid: "valid_interval a" if "a \<in> set xs" for a using that assms(1) by (simp add: list_all_iff)
  have A: "\<forall>a \<in> set A. iv_end a + 1 < iv_start iv"
    using valid by (auto simp: A_def dest!: set_takeWhileD)
  have D1: "\<forall>d \<in> set D. iv_start iv \<le> iv_end d + 1"
  proof (cases D)
    case (Cons d ds)
    then have "\<not> ?p d" unfolding D_def by (simp add: dropWhile_eq_Cons_conv)
    then have "iv_start iv \<le> iv_end d + 1" using valid [of d] Cons by (simp add: xs)
    then show ?thesis using assms(2) valid unfolding xs Cons
      by (fastforce simp: valid_interval_def)
  qed simp
  have B: "\<forall>b \<in> set B. iv_end iv + 1 < iv_start b"
  proof (cases B)
    case (Cons b bs)
    then have "\<not> ?q b" unfolding B_def by (simp add: dropWhile_eq_Cons_conv)
    then have "iv_end iv + 1 < iv_start b" using assms(3) by simp
    then show ?thesis using assms(2) valid unfolding xs D Cons
      by (fastforce simp: valid_interval_def)
  qed simp
  have "\<forall>m \<in> set M. iv_start m \<le> iv_end iv + 1"
    using assms(3) by (auto simp: M_def dest!: set_takeWhileD)
  with that [OF _ range A _ B] xs D D1 show thesis by auto
qed

lemma separated_bounds:
  assumes "list_all valid_interval xs" "separated xs" "x \<in> set xs"
  shows "iv_start (hd xs) \<le> iv_start x \<and> iv_end x \<le> iv_end (last xs)"
  using assms
proof (induction xs)
  case (Cons y ys)
  show ?case
  proof (cases "ys = []")
    case False
    then have "last ys \<in> set ys" by simp
    then have "iv_end y \<le> iv_end (last ys)"
      using Cons.prems by (fastforce simp: list_all_iff valid_interval_def)
    moreover have "iv_start y \<le> iv_start z" if "z \<in> set ys" for z
      using Cons.prems that by (fastforce simp: list_all_iff valid_interval_def)
    ultimately show ?thesis using Cons False by auto
  qed (use Cons in simp)
qed simp

section \<open>What the operations compute\<close>

lemma iset_insert_split:
  assumes inv: "iset_inv st" and iv: "valid_interval iv"
  obtains A M B where "intervals st = A @ M @ B"
    and "\<forall>a \<in> set A. iv_end a + 1 < iv_start iv" and "\<forall>b \<in> set B. iv_end iv + 1 < iv_start b"
    and "\<forall>m \<in> set M. iv_start iv \<le> iv_end m + 1 \<and> iv_start m \<le> iv_end iv + 1"
    and "intervals (iset_insert iv st) = A @ (if M = [] then iv else
      \<lparr>iv_start = min (iv_start iv) (iv_start (hd M)), iv_end = max (iv_end iv) (iv_end (last M))\<rparr>) # B"
    and "insertVersion (iset_insert iv st) = (if M = [] \<or>
      max (iv_end iv) (iv_end (last M)) - min (iv_start iv) (iv_start (hd M)) > iv_end (hd M) - iv_start (hd M)
      then add64 (insertVersion st) 1 else insertVersion st)"
proof -
  from inv have "list_all valid_interval (intervals st)" "separated (intervals st)"
    by (simp_all add: iset_inv_def)
  from intersectingRange_split [OF this iv] obtain A M B
    where xs: "intervals st = A @ M @ B"
      and r: "intersectingRange (intervals st) iv = (length A, length A + length M)"
      and A: "\<forall>a \<in> set A. iv_end a + 1 < iv_start iv"
      and M: "\<forall>m \<in> set M. iv_start iv \<le> iv_end m + 1 \<and> iv_start m \<le> iv_end iv + 1"
      and B: "\<forall>b \<in> set B. iv_end iv + 1 < iv_start b" .
  have hd: "(A @ M @ B) ! length A = hd M" if "M \<noteq> []" using that by (simp add: nth_append hd_conv_nth)
  have last: "(A @ M @ B) ! (length A + length M - 1) = last M" if "M \<noteq> []"
    using that by (cases M rule: rev_cases) (auto simp: nth_append)
  show thesis
    by (rule that [OF xs A B M])
      (use r hd last in \<open>auto simp: iset_insert_def Let_def xs insert_at_def erase_range_def neq_Nil_conv\<close>)
qed

lemma iset_insert_inv [quic_invs]:
  assumes inv: "iset_inv st" and iv: "valid_interval iv"
  shows "iset_inv (iset_insert iv st)"
proof -
  from iset_insert_split [OF assms] obtain A M B where xs: "intervals st = A @ M @ B"
    and A: "\<forall>a \<in> set A. iv_end a + 1 < iv_start iv" and B: "\<forall>b \<in> set B. iv_end iv + 1 < iv_start b"
    and new: "intervals (iset_insert iv st) = A @ (if M = [] then iv else
      \<lparr>iv_start = min (iv_start iv) (iv_start (hd M)), iv_end = max (iv_end iv) (iv_end (last M))\<rparr>) # B"
    by metis
  have "iv_end (last M) + 1 < iv_start b" if "M \<noteq> []" "b \<in> set B" for b
    using that inv by (auto simp: iset_inv_def xs)
  moreover have "iv_end a + 1 < iv_start (hd M)" if "M \<noteq> []" "a \<in> set A" for a
    using that inv by (auto simp: iset_inv_def xs)
  moreover have "valid_interval (hd M)" "valid_interval (last M)" if "M \<noteq> []"
    using that inv by (auto simp: iset_inv_def xs list_all_iff)
  ultimately show ?thesis
    using inv iv A B by (auto simp: iset_inv_def xs new list_all_iff valid_interval_def max_def min_def)
qed

lemma iset_insert_points:
  assumes inv: "iset_inv st" and iv: "valid_interval iv"
  shows "points (iset_insert iv st) = points st \<union> interval_points iv"
proof -
  from iset_insert_split [OF assms] obtain A M B where xs: "intervals st = A @ M @ B"
    and M: "\<forall>m \<in> set M. iv_start iv \<le> iv_end m + 1 \<and> iv_start m \<le> iv_end iv + 1"
    and new: "intervals (iset_insert iv st) = A @ (if M = [] then iv else
      \<lparr>iv_start = min (iv_start iv) (iv_start (hd M)), iv_end = max (iv_end iv) (iv_end (last M))\<rparr>) # B"
    by metis
  have "{min (iv_start iv) (iv_start (hd M))..max (iv_end iv) (iv_end (last M))} =
      list_points M \<union> interval_points iv" if ne: "M \<noteq> []"
  proof -
    have in_M: "hd M \<in> set M" "last M \<in> set M" using ne by simp_all
    then have "interval_points (hd M) \<union> interval_points (last M) \<subseteq> list_points M"
      by (auto simp: list_points_def)
    moreover have "list_points M \<subseteq> {iv_start (hd M)..iv_end (last M)}"
      using inv separated_bounds [of M] by (force simp: iset_inv_def xs list_points_def interval_points_def)
    moreover have "iv_start iv \<le> iv_end (hd M) + 1" "iv_start (last M) \<le> iv_end iv + 1"
      using M in_M by auto
    ultimately show ?thesis by (force simp: interval_points_def)
  qed
  then show ?thesis by (auto simp: points_def xs new interval_points_def)
qed

lemma iset_withdraw_split:
  assumes inv: "iset_inv st" and iv: "valid_interval iv"
  obtains A M B where "intervals st = A @ M @ B"
    and "\<forall>a \<in> set A. iv_end a + 1 < iv_start iv" and "\<forall>b \<in> set B. iv_end iv + 1 < iv_start b"
    and "\<forall>m \<in> set M. iv_start iv \<le> iv_end m + 1 \<and> iv_start m \<le> iv_end iv + 1"
    and "intervals (iset_withdraw iv st) = A @
      (if M \<noteq> [] \<and> iv_start (hd M) + 1 \<le> iv_start iv
       then [\<lparr>iv_start = iv_start (hd M), iv_end = iv_start iv - 1\<rparr>] else []) @
      (if M \<noteq> [] \<and> iv_end iv + 1 \<le> iv_end (last M)
       then [\<lparr>iv_start = iv_end iv + 1, iv_end = iv_end (last M)\<rparr>] else []) @ B"
proof -
  from inv have v: "list_all valid_interval (intervals st)" and "separated (intervals st)"
    by (simp_all add: iset_inv_def)
  from intersectingRange_split [OF this iv] obtain A M B
    where xs: "intervals st = A @ M @ B"
      and r: "intersectingRange (intervals st) iv = (length A, length A + length M)"
      and A: "\<forall>a \<in> set A. iv_end a + 1 < iv_start iv"
      and mid: "\<forall>m \<in> set M. iv_start iv \<le> iv_end m + 1 \<and> iv_start m \<le> iv_end iv + 1"
      and B: "\<forall>b \<in> set B. iv_end iv + 1 < iv_start b" .
  have start: "add64 (iv_start m) 1 = iv_start m + 1" if "m \<in> set M" for m
  proof -
    have "valid_interval m" using v that by (auto simp: xs list_all_iff)
    then show ?thesis by (intro add64_exact) (simp add: valid_interval_def)
  qed
  have "M = [] \<or> (\<exists>m. M = [m]) \<or> (\<exists>m N l. M = m # N @ [l])"
    by (metis append_butlast_last_id list.exhaust)
  then have "intervals (iset_withdraw iv st) = A @
      (if M \<noteq> [] \<and> iv_start (hd M) + 1 \<le> iv_start iv
       then [\<lparr>iv_start = iv_start (hd M), iv_end = iv_start iv - 1\<rparr>] else []) @
      (if M \<noteq> [] \<and> iv_end iv + 1 \<le> iv_end (last M)
       then [\<lparr>iv_start = iv_end iv + 1, iv_end = iv_end (last M)\<rparr>] else []) @ B"
  proof (elim disjE exE)
    assume "M = []"
    with r show ?thesis by (simp add: iset_withdraw_def xs)
  next
    fix m assume M: "M = [m]"
    with start iv have "add64 (iv_start m) (Suc 0) = Suc (iv_start m)" by simp
    with r iv M show ?thesis
      by (auto simp: iset_withdraw_def xs Let_def insert_at_def erase_range_def nth_append
          valid_interval_def intro: Interval.equality)
  next
    fix m N l assume M: "M = m # N @ [l]"
    with start iv have "add64 (iv_start m) (Suc 0) = Suc (iv_start m)" by simp
    with r iv M show ?thesis
      by (auto simp: iset_withdraw_def xs Let_def insert_at_def erase_range_def nth_append list_update_append
          intro: Interval.equality)
  qed
  with that [OF xs A B mid] show thesis .
qed

lemma iset_withdraw_inv [quic_invs]:
  assumes inv: "iset_inv st" and iv: "valid_interval iv"
  shows "iset_inv (iset_withdraw iv st)"
proof -
  from iset_withdraw_split [OF assms] obtain A M B where xs: "intervals st = A @ M @ B"
    and A: "\<forall>a \<in> set A. iv_end a + 1 < iv_start iv" and B: "\<forall>b \<in> set B. iv_end iv + 1 < iv_start b"
    and new: "intervals (iset_withdraw iv st) = A @
      (if M \<noteq> [] \<and> iv_start (hd M) + 1 \<le> iv_start iv
       then [\<lparr>iv_start = iv_start (hd M), iv_end = iv_start iv - 1\<rparr>] else []) @
      (if M \<noteq> [] \<and> iv_end iv + 1 \<le> iv_end (last M)
       then [\<lparr>iv_start = iv_end iv + 1, iv_end = iv_end (last M)\<rparr>] else []) @ B"
    by metis
  have "iv_end (last M) + 1 < iv_start b" if "M \<noteq> []" "b \<in> set B" for b
    using that inv by (auto simp: iset_inv_def xs)
  moreover have "iv_end a + 1 < iv_start (hd M)" if "M \<noteq> []" "a \<in> set A" for a
    using that inv by (auto simp: iset_inv_def xs)
  moreover have "valid_interval (hd M)" "valid_interval (last M)" if "M \<noteq> []"
    using that inv by (auto simp: iset_inv_def xs list_all_iff)
  ultimately show ?thesis
    using inv iv A B by (auto simp: iset_inv_def xs new list_all_iff valid_interval_def)
qed

lemma iset_withdraw_points:
  assumes inv: "iset_inv st" and iv: "valid_interval iv"
  shows "points (iset_withdraw iv st) = points st - interval_points iv"
proof -
  from iset_withdraw_split [OF assms] obtain A M B where xs: "intervals st = A @ M @ B"
    and A: "\<forall>a \<in> set A. iv_end a + 1 < iv_start iv" and B: "\<forall>b \<in> set B. iv_end iv + 1 < iv_start b"
    and M: "\<forall>m \<in> set M. iv_start iv \<le> iv_end m + 1 \<and> iv_start m \<le> iv_end iv + 1"
    and new: "intervals (iset_withdraw iv st) = A @
      (if M \<noteq> [] \<and> iv_start (hd M) + 1 \<le> iv_start iv
       then [\<lparr>iv_start = iv_start (hd M), iv_end = iv_start iv - 1\<rparr>] else []) @
      (if M \<noteq> [] \<and> iv_end iv + 1 \<le> iv_end (last M)
       then [\<lparr>iv_start = iv_end iv + 1, iv_end = iv_end (last M)\<rparr>] else []) @ B"
    by metis
  have AB: "list_points A \<inter> interval_points iv = {}" "list_points B \<inter> interval_points iv = {}"
    using A B by (fastforce simp: list_points_def interval_points_def)+
  have "points (iset_withdraw iv st) = list_points A \<union>
      (if M = [] then {} else {iv_start (hd M)..<iv_start iv} \<union> {iv_end iv<..iv_end (last M)}) \<union> list_points B"
    by (auto simp: points_def new interval_points_def)
  also have "(if M = [] then {} else {iv_start (hd M)..<iv_start iv} \<union> {iv_end iv<..iv_end (last M)}) =
      list_points M - interval_points iv"
  proof (cases "M = []")
    case False
    then have in_M: "hd M \<in> set M" "last M \<in> set M" by simp_all
    then have "interval_points (hd M) \<union> interval_points (last M) \<subseteq> list_points M"
      by (auto simp: list_points_def)
    moreover have "list_points M \<subseteq> {iv_start (hd M)..iv_end (last M)}"
      using inv separated_bounds [of M] by (force simp: iset_inv_def xs list_points_def interval_points_def)
    moreover have "iv_start iv \<le> iv_end (hd M) + 1" "iv_start (last M) \<le> iv_end iv + 1"
      using M in_M by auto
    ultimately show ?thesis using False iv by (force simp: interval_points_def valid_interval_def)
  qed simp
  finally show ?thesis using AB by (auto simp: points_def xs)
qed

text \<open>The intervals of a well-formed set are determined by the numbers it represents.\<close>

lemma separated_head:
  assumes "list_all valid_interval (x # xs)" "separated (x # xs)"
  shows "{iv_start x..iv_end x} \<subseteq> list_points (x # xs)" "\<forall>p \<in> list_points (x # xs). iv_start x \<le> p"
    "iv_end x + 1 \<notin> list_points (x # xs)" "list_points xs = list_points (x # xs) - {iv_start x..iv_end x}"
    "iv_start x \<le> iv_end x"
proof -
  have gap: "iv_end x + 1 < p" if "p \<in> list_points xs" for p
  proof -
    from that obtain y where "y \<in> set xs" "iv_start y \<le> p"
      by (auto simp: list_points_def interval_points_def)
    with assms(2) show ?thesis by fastforce
  qed
  show le: "iv_start x \<le> iv_end x" using assms by (simp add: valid_interval_def)
  show "{iv_start x..iv_end x} \<subseteq> list_points (x # xs)" by (simp add: interval_points_def)
  show "\<forall>p \<in> list_points (x # xs). iv_start x \<le> p"
    using le by (auto simp: interval_points_def dest!: gap)
  show "iv_end x + 1 \<notin> list_points (x # xs)" by (auto simp: interval_points_def dest: gap)
  show "list_points xs = list_points (x # xs) - {iv_start x..iv_end x}"
    by (auto simp: interval_points_def dest: gap)
qed

lemma separated_canonical:
  assumes "list_all valid_interval xs" "separated xs" "list_all valid_interval ys" "separated ys"
    and "list_points xs = list_points ys"
  shows "xs = ys"
  using assms
proof (induction xs arbitrary: ys)
  case Nil
  then show ?case by (cases ys) (auto simp: interval_points_def valid_interval_def)
next
  case (Cons x xs)
  define P where "P = list_points (x # xs)"
  note x = separated_head [OF Cons.prems(1,2), folded P_def]
  from x(1,5) Cons.prems(5) obtain y ys' where ys: "ys = y # ys'"
    by (cases ys) (auto simp: P_def)
  have P: "list_points (y # ys') = P" using Cons.prems(5) unfolding ys P_def by (rule sym)
  note y = separated_head [OF Cons.prems(3,4) [unfolded ys], unfolded P]
  have "iv_start x \<in> P" "iv_start y \<in> P" using x(1,5) y(1,5) by auto
  then have start: "iv_start x = iv_start y" using x(2) y(2) by (simp add: order_antisym)
  have "iv_end x = iv_end y"
  proof (rule ccontr)
    assume "iv_end x \<noteq> iv_end y"
    then have "iv_end x + 1 \<in> {iv_start y..iv_end y} \<or> iv_end y + 1 \<in> {iv_start x..iv_end x}"
      using start x(5) y(5) by auto
    then show False using x(1,3) y(1,3) by blast
  qed
  with start have xy: "x = y" by simp
  have "list_points xs = list_points ys'" unfolding x(4) y(4) xy ..
  then have "xs = ys'" using Cons.IH [of ys'] Cons.prems(1-4) ys by simp
  with xy ys show ?case by simp
qed

text \<open>A range of numbers lies in a well-formed set exactly when one interval covers it.\<close>

lemma separated_gap:
  assumes "list_all valid_interval xs" "separated xs" "iv \<in> set xs"
  shows "iv_end iv + 1 \<notin> list_points xs"
proof -
  from assms(3) obtain A B where "xs = A @ iv # B" by (meson split_list)
  with assms(1,2) show ?thesis
    by (fastforce simp: list_points_def interval_points_def valid_interval_def list_all_iff)
qed

lemma range_in_one:
  assumes "list_all valid_interval xs" "separated xs" "s \<le> e"
  shows "{s..e} \<subseteq> list_points xs \<longleftrightarrow> (\<exists>iv \<in> set xs. iv_start iv \<le> s \<and> e \<le> iv_end iv)"
proof
  assume sub: "{s..e} \<subseteq> list_points xs"
  with assms(3) obtain iv where iv: "iv \<in> set xs" "iv_start iv \<le> s" "s \<le> iv_end iv"
    by (fastforce simp: list_points_def interval_points_def)
  have "e \<le> iv_end iv"
  proof (rule ccontr)
    assume "\<not> e \<le> iv_end iv"
    with iv(3) sub have "iv_end iv + 1 \<in> list_points xs" by auto
    with separated_gap [OF assms(1,2) iv(1)] show False ..
  qed
  with iv show "\<exists>iv \<in> set xs. iv_start iv \<le> s \<and> e \<le> iv_end iv" by blast
qed (force simp: list_points_def interval_points_def)

lemma contains_loop_iff:
  assumes "list_all valid_interval xs" "separated xs" "s \<le> e"
  shows "contains_loop s e xs \<longleftrightarrow> (\<exists>iv \<in> set xs. iv_start iv \<le> s \<and> e \<le> iv_end iv)"
  using assms
proof (induction xs)
  case (Cons x xs)
  then have IH: "contains_loop s e xs \<longleftrightarrow> (\<exists>iv \<in> set xs. iv_start iv \<le> s \<and> e \<le> iv_end iv)" by simp
  have "\<not> (\<exists>iv \<in> set xs. iv_start iv \<le> s \<and> e \<le> iv_end iv)" if "s < iv_end x"
    using Cons.prems that by fastforce
  with IH show ?case by auto
qed simp

lemma separated_pair:
  "separated xs \<Longrightarrow> a \<in> set xs \<Longrightarrow> b \<in> set xs \<Longrightarrow> a \<noteq> b \<Longrightarrow>
     iv_end a + 1 < iv_start b \<or> iv_end b + 1 < iv_start a"
  by (induction xs) auto

lemma iset_withdraw_version: "insertVersion (iset_withdraw iv st) = insertVersion st"
  by (simp add: iset_withdraw_def Let_def split: prod.split)

lemma iset_insert_version:
  assumes inv: "iset_inv st" and iv: "valid_interval iv"
  shows "insertVersion (iset_insert iv st) =
    (if interval_points iv \<subseteq> points st then insertVersion st else add64 (insertVersion st) 1)"
proof -
  have valid: "list_all valid_interval (intervals st)" "separated (intervals st)" "iv_start iv \<le> iv_end iv"
    using assms by (simp_all add: iset_inv_def valid_interval_def)
  from iset_insert_split [OF assms] obtain A M B where xs: "intervals st = A @ M @ B"
    and A: "\<forall>a \<in> set A. iv_end a + 1 < iv_start iv" and B: "\<forall>b \<in> set B. iv_end iv + 1 < iv_start b"
    and M: "\<forall>m \<in> set M. iv_start iv \<le> iv_end m + 1 \<and> iv_start m \<le> iv_end iv + 1"
    and "intervals (iset_insert iv st) = A @ (if M = [] then iv else
      \<lparr>iv_start = min (iv_start iv) (iv_start (hd M)), iv_end = max (iv_end iv) (iv_end (last M))\<rparr>) # B"
    and new: "insertVersion (iset_insert iv st) = (if M = [] \<or>
      max (iv_end iv) (iv_end (last M)) - min (iv_start iv) (iv_start (hd M)) > iv_end (hd M) - iv_start (hd M)
      then add64 (insertVersion st) 1 else insertVersion st)" .
  have covered: "interval_points iv \<subseteq> points st \<longleftrightarrow>
      (\<exists>m \<in> set M. iv_start m \<le> iv_start iv \<and> iv_end iv \<le> iv_end m)"
  proof -
    have "interval_points iv \<subseteq> points st \<longleftrightarrow>
        (\<exists>m \<in> set (intervals st). iv_start m \<le> iv_start iv \<and> iv_end iv \<le> iv_end m)"
      using range_in_one [OF valid] by (simp add: points_def interval_points_def)
    also have "\<dots> \<longleftrightarrow> (\<exists>m \<in> set M. iv_start m \<le> iv_start iv \<and> iv_end iv \<le> iv_end m)"
      using valid(3) by (auto simp: xs dest: bspec [OF A] bspec [OF B])
    finally show ?thesis .
  qed
  have "(\<exists>m \<in> set M. iv_start m \<le> iv_start iv \<and> iv_end iv \<le> iv_end m) \<longleftrightarrow> M \<noteq> [] \<and>
      \<not> max (iv_end iv) (iv_end (last M)) - min (iv_start iv) (iv_start (hd M)) > iv_end (hd M) - iv_start (hd M)"
    (is "?L \<longleftrightarrow> ?R")
  proof
    assume ?L
    then obtain m where m: "m \<in> set M" "iv_start m \<le> iv_start iv" "iv_end iv \<le> iv_end m" by blast
    have sep: "separated M" "list_all valid_interval M" using valid by (simp_all add: xs)
    have only: "n = m" if "n \<in> set M" for n
    proof (rule ccontr)
      assume "n \<noteq> m"
      with m(1) that sep(1) have "iv_end n + 1 < iv_start m \<or> iv_end m + 1 < iv_start n"
        by (metis separated_pair)
      moreover have "iv_start iv \<le> iv_end n + 1" "iv_start n \<le> iv_end iv + 1" using M that by auto
      ultimately show False using m valid(3) by auto
    qed
    moreover have "M \<noteq> []" using m(1) by auto
    ultimately have "hd M = m" "last M = m" by simp_all
    then show ?R using m by (auto simp: max_def min_def)
  next
    assume R: ?R
    then have "hd M \<in> set M" "last M \<in> set M" by simp_all
    moreover from this have "iv_end (hd M) \<le> iv_end (last M)" "iv_start (hd M) \<le> iv_end (hd M)"
      using separated_bounds [of M "hd M"] valid by (auto simp: xs list_all_iff valid_interval_def)
    ultimately show ?L using R valid(3) by (intro bexI [of _ "hd M"]) auto
  qed
  with covered new show ?thesis by auto
qed

section \<open>The interface\<close>

text \<open>
  A store of numbers that is filled by intervals: what a client relies on. The order in
  which intervals arrive (acknowledgements of stream data or of packets) does not matter.
\<close>

locale point_store =
  fixes empty_store :: 's
    and add_iv :: "Interval \<Rightarrow> 's \<Rightarrow> 's"
    and invar :: "'s \<Rightarrow> bool"
    and pts :: "'s \<Rightarrow> nat set"
  assumes invar_empty: "invar empty_store"
    and pts_empty: "pts empty_store = {}"
    and invar_add: "invar s \<Longrightarrow> valid_interval iv \<Longrightarrow> invar (add_iv iv s)"
    and pts_add: "invar s \<Longrightarrow> valid_interval iv \<Longrightarrow> pts (add_iv iv s) = pts s \<union> interval_points iv"
begin

lemma fold_add:
  assumes "invar s" "list_all valid_interval ivs"
  shows "invar (foldl (\<lambda>s iv. add_iv iv s) s ivs) \<and>
    pts (foldl (\<lambda>s iv. add_iv iv s) s ivs) = pts s \<union> list_points ivs"
  using assms by (induction ivs arbitrary: s) (simp_all add: invar_add pts_add Un_assoc)

lemma fold_add_order:
  assumes "list_all valid_interval ivs" "list_all valid_interval jvs" "set ivs = set jvs"
  shows "pts (foldl (\<lambda>s iv. add_iv iv s) empty_store ivs) = pts (foldl (\<lambda>s iv. add_iv iv s) empty_store jvs)"
  using fold_add [OF invar_empty assms(1)] fold_add [OF invar_empty assms(2)] assms(3)
  by (simp add: list_points_def)

end

interpretation iset: point_store emptyIntervalSet iset_insert iset_inv points
  by unfold_locales
    (simp_all add: iset_insert_inv iset_insert_points, simp_all add: emptyIntervalSet_def iset_inv_def points_def)

section \<open>Properties\<close>

text \<open>C23: insertion keeps the intervals sorted, disjoint and non-adjacent, adds exactly the
  numbers of the interval, and changes the version counter (by one, modulo \<open>2 ^ 64\<close>) if and
  only if it added a number that was not there.\<close>

theorem insert_correct:
  assumes "iset_inv st" and "mkInterval s e = Inr iv"
  shows "iset_inv (iset_insert iv st) \<and> points (iset_insert iv st) = points st \<union> {s..e} \<and>
    insertVersion (iset_insert iv st) =
      (if {s..e} \<subseteq> points st then insertVersion st else add64 (insertVersion st) 1)"
proof -
  have iv: "iv = \<lparr>iv_start = s, iv_end = e\<rparr>" "valid_interval iv" using assms(2) by auto
  then have "interval_points iv = {s..e}" by (simp add: interval_points_def)
  with iset_insert_inv [OF assms(1) iv(2)] iset_insert_points [OF assms(1) iv(2)]
    iset_insert_version [OF assms(1) iv(2)] show ?thesis by simp
qed

text \<open>C24: \<^verbatim>\<open>withdraw\<close> keeps the representation invariant, removes exactly the numbers of
  the interval and leaves the version alone.\<close>

theorem withdraw_correct:
  assumes "iset_inv st" and "mkInterval s e = Inr iv"
  shows "iset_inv (iset_withdraw iv st) \<and> points (iset_withdraw iv st) = points st - {s..e} \<and>
    insertVersion (iset_withdraw iv st) = insertVersion st"
  using assms iset_withdraw_inv [of st iv] iset_withdraw_points [of st iv] iset_withdraw_version [of iv st]
  by (auto simp: interval_points_def)

text \<open>C33: \<^verbatim>\<open>contains(start, end)\<close> answers whether every number of the range is in the set.\<close>

theorem contains_correct:
  assumes "iset_inv st" and "s \<le> e"
  shows "iset_contains s e st \<longleftrightarrow> {s..e} \<subseteq> points st"
  using assms contains_loop_iff range_in_one by (simp add: iset_contains_def points_def iset_inv_def)

text \<open>C30: the container that results from inserting a collection of intervals does not
  depend on the order of the insertions or on repetitions.\<close>

theorem insertion_order_irrelevant:
  assumes "list_all valid_interval ivs" and "list_all valid_interval jvs" and "set ivs = set jvs"
  shows "intervals (iset_of_list ivs) = intervals (iset_of_list jvs)"
  using iset.fold_add [OF iset.invar_empty assms(1)] iset.fold_add [OF iset.invar_empty assms(2)]
    iset.fold_add_order [OF assms]
  by (intro separated_canonical) (simp_all add: iset_of_list_def iset_inv_def points_def)

text \<open>A concrete set for the witnesses: two acknowledged ranges with a hole of two.\<close>

definition example_set :: IntervalSet where
  "example_set = \<lparr>intervals = [\<lparr>iv_start = 0, iv_end = 3\<rparr>, \<lparr>iv_start = 6, iv_end = 9\<rparr>], insertVersion = 2\<rparr>"

lemma example_set_inv: "iset_inv example_set"
  by (simp add: example_set_def iset_inv_def valid_interval_def u64_max_def)

theorem insert_correct_witness:
  "insertVersion (iset_insert \<lparr>iv_start = 4, iv_end = 5\<rparr> example_set) = 3 \<and>
   points (iset_insert \<lparr>iv_start = 4, iv_end = 5\<rparr> example_set) = points example_set \<union> {4..5}"
proof -
  have mk: "mkInterval 4 5 = Inr \<lparr>iv_start = 4, iv_end = 5\<rparr>" by (simp add: mkInterval_def u64_max_def)
  have "4 \<notin> points example_set"
    by (simp add: points_def example_set_def interval_points_def)
  then have "\<not> {4..5} \<subseteq> points example_set"
    using subsetD [of "{4..5}" "points example_set" 4] by auto
  then show ?thesis
    using insert_correct [OF example_set_inv mk] by (simp add: example_set_def add64_def)
qed

theorem withdraw_correct_witness:
  "points (iset_withdraw \<lparr>iv_start = 2, iv_end = 7\<rparr> example_set) = points example_set - {2..7}"
proof -
  have mk: "mkInterval 2 7 = Inr \<lparr>iv_start = 2, iv_end = 7\<rparr>" by (simp add: mkInterval_def u64_max_def)
  show ?thesis using withdraw_correct [OF example_set_inv mk] by simp
qed

theorem contains_correct_witness: "iset_contains 6 8 example_set \<and> {6..8} \<subseteq> points example_set"
  using contains_correct [OF example_set_inv, of 6 8]
  by (simp add: iset_contains_def example_set_def)

theorem insertion_order_irrelevant_witness:
  "intervals (iset_of_list [\<lparr>iv_start = 0, iv_end = 3\<rparr>, \<lparr>iv_start = 6, iv_end = 9\<rparr>]) =
   intervals (iset_of_list [\<lparr>iv_start = 6, iv_end = 9\<rparr>, \<lparr>iv_start = 0, iv_end = 3\<rparr>])"
  by (rule insertion_order_irrelevant) (auto simp: valid_interval_def u64_max_def)

end
