(* ===== verification/Stream_Utilities.thy ===== *)
theory Stream_Utilities
  imports Quic_Prelude
begin

text \<open>
  The stream identifier predicates of \<^verbatim>\<open>quic/state/QuicStreamUtilities.cpp\<close>. The two low bits of
  a stream identifier give its initiator and its direction; the four combinations are the
  residue classes modulo four, in each of which identifiers are handed out in steps of
  \<^verbatim>\<open>detail::kStreamIncrement\<close>.
\<close>

unbundle bit_operations_syntax

type_synonym StreamId = nat
type_synonym StreamGroupId = nat

datatype QuicNodeType = Client | Server
datatype StreamDirectionality = Bidirectional | Unidirectional
datatype StreamInitiator = Local | Remote

definition isServerStream :: "StreamId \<Rightarrow> bool" where
  "isServerStream stream \<longleftrightarrow> stream AND 1 \<noteq> 0"

definition isClientStream :: "StreamId \<Rightarrow> bool" where
  "isClientStream stream \<longleftrightarrow> stream AND 1 = 0"

definition isClientStreamGroup :: "StreamGroupId \<Rightarrow> bool" where
  "isClientStreamGroup i \<longleftrightarrow> i AND 1 = 0"

definition isServerStreamGroup :: "StreamGroupId \<Rightarrow> bool" where
  "isServerStreamGroup i \<longleftrightarrow> i AND 1 \<noteq> 0"

definition isUnidirectionalStream :: "StreamId \<Rightarrow> bool" where
  "isUnidirectionalStream stream \<longleftrightarrow> stream AND 2 \<noteq> 0"

definition isBidirectionalStream :: "StreamId \<Rightarrow> bool" where
  "isBidirectionalStream stream \<longleftrightarrow> \<not> isUnidirectionalStream stream"

definition isClientBidirectionalStream :: "StreamId \<Rightarrow> bool" where
  "isClientBidirectionalStream streamId \<longleftrightarrow> isClientStream streamId \<and> isBidirectionalStream streamId"

definition isServerUnidirectionalStream :: "StreamId \<Rightarrow> bool" where
  "isServerUnidirectionalStream streamId \<longleftrightarrow> isServerStream streamId \<and> isUnidirectionalStream streamId"

definition getStreamDirectionality :: "StreamId \<Rightarrow> StreamDirectionality" where
  "getStreamDirectionality stream = (if isUnidirectionalStream stream then Unidirectional else Bidirectional)"

definition isSendingStream :: "QuicNodeType \<Rightarrow> StreamId \<Rightarrow> bool" where
  "isSendingStream nodeType stream \<longleftrightarrow> isUnidirectionalStream stream \<and>
     ((nodeType = Client \<and> isClientStream stream) \<or> (nodeType = Server \<and> isServerStream stream))"

definition isReceivingStream :: "QuicNodeType \<Rightarrow> StreamId \<Rightarrow> bool" where
  "isReceivingStream nodeType stream \<longleftrightarrow> isUnidirectionalStream stream \<and>
     ((nodeType = Client \<and> isServerStream stream) \<or> (nodeType = Server \<and> isClientStream stream))"

definition isLocalStream :: "QuicNodeType \<Rightarrow> StreamId \<Rightarrow> bool" where
  "isLocalStream nodeType stream \<longleftrightarrow>
     (nodeType = Client \<and> isClientStream stream) \<or> (nodeType = Server \<and> isServerStream stream)"

definition isRemoteStream :: "QuicNodeType \<Rightarrow> StreamId \<Rightarrow> bool" where
  "isRemoteStream nodeType stream \<longleftrightarrow>
     (nodeType = Client \<and> isServerStream stream) \<or> (nodeType = Server \<and> isClientStream stream)"

definition getStreamInitiator :: "QuicNodeType \<Rightarrow> StreamId \<Rightarrow> StreamInitiator" where
  "getStreamInitiator nodeType stream = (if isLocalStream nodeType stream then Local else Remote)"

section \<open>The predicates as residues modulo four\<close>

lemma and_1_nat [simp]: "(n::nat) AND 1 = n mod 2"
  using take_bit_eq_mask [of 1 n] by (simp add: take_bit_eq_mod)

lemma and_Suc_0_nat: "(n::nat) AND Suc 0 = n mod 2"
  using and_1_nat [of n] by simp

lemma and_2_nat: "(n::nat) AND 2 \<noteq> 0 \<longleftrightarrow> odd (n div 2)"
  using and_exp_eq_0_iff_not_bit [of n 1] by (simp add: bit_iff_odd)

lemma isServerStream_odd: "isServerStream n \<longleftrightarrow> odd n"
  by (simp add: isServerStream_def odd_iff_mod_2_eq_one and_Suc_0_nat)

lemma isClientStream_even: "isClientStream n \<longleftrightarrow> even n"
  by (simp add: isClientStream_def even_iff_mod_2_eq_zero and_Suc_0_nat)

lemma isUnidirectionalStream_odd: "isUnidirectionalStream n \<longleftrightarrow> odd (n div 2)"
  by (simp only: isUnidirectionalStream_def and_2_nat)

lemma isServerStreamGroup_odd: "isServerStreamGroup n \<longleftrightarrow> odd n"
  by (simp add: isServerStreamGroup_def odd_iff_mod_2_eq_one and_Suc_0_nat)

lemma isClientStreamGroup_even: "isClientStreamGroup n \<longleftrightarrow> even n"
  by (simp add: isClientStreamGroup_def even_iff_mod_2_eq_zero and_Suc_0_nat)

lemmas stream_id_simps = isServerStream_odd isClientStream_even isUnidirectionalStream_odd
  isServerStreamGroup_odd isClientStreamGroup_even

lemma isRemote_iff_not_isLocal: "isRemoteStream nt n \<longleftrightarrow> \<not> isLocalStream nt n"
  by (cases nt) (simp_all add: isRemoteStream_def isLocalStream_def stream_id_simps)

lemma stream_class_mod4:
  "isUnidirectionalStream n \<longleftrightarrow> n mod 4 \<in> {2, 3}"
  "isServerStream n \<longleftrightarrow> n mod 4 \<in> {1, 3}"
  "isClientStream n \<longleftrightarrow> n mod 4 \<in> {0, 2}"
proof -
  have "odd (n div 2) \<longleftrightarrow> n mod 4 \<in> {2, 3}" "odd n \<longleftrightarrow> n mod 4 \<in> {1, 3}" "even n \<longleftrightarrow> n mod 4 \<in> {0, 2}"
    by (simp, presburger)+
  then show "isUnidirectionalStream n \<longleftrightarrow> n mod 4 \<in> {2, 3}"
    "isServerStream n \<longleftrightarrow> n mod 4 \<in> {1, 3}" "isClientStream n \<longleftrightarrow> n mod 4 \<in> {0, 2}"
    by (simp_all only: stream_id_simps)
qed

lemma stream_class_eq:
  assumes "m mod 4 = n mod 4"
  shows "isUnidirectionalStream m = isUnidirectionalStream n" "isLocalStream nt m = isLocalStream nt n"
  using assms by (cases nt; simp add: isLocalStream_def stream_class_mod4)+

section \<open>Properties\<close>

text \<open>Both ends of a connection agree on every stream. What one end sees as local the
  other sees as remote, exactly one of the ends of a unidirectional stream sends on it and the
  other one receives, neither predicate holds of a bidirectional stream, and two identifiers
  are of the same kind (initiator and direction) exactly when they agree modulo four.\<close>

theorem stream_kinds_agree:
  "getStreamInitiator Client n \<noteq> getStreamInitiator Server n \<and>
   isSendingStream Client n = isReceivingStream Server n \<and>
   isReceivingStream Client n = isSendingStream Server n \<and>
   (isSendingStream Client n \<noteq> isReceivingStream Client n) = isUnidirectionalStream n \<and>
   (getStreamInitiator Client m = getStreamInitiator Client n \<and>
    getStreamDirectionality m = getStreamDirectionality n) = (m mod 4 = n mod 4)"
proof -
  have "m mod 4 < 4" "n mod 4 < 4" by simp_all
  then have "m mod 4 \<in> {0, 1, 2, 3}" "n mod 4 \<in> {0, 1, 2, 3}" by auto
  then have "(isClientStream m = isClientStream n \<and> isUnidirectionalStream m = isUnidirectionalStream n) =
    (m mod 4 = n mod 4)"
    by (auto simp: stream_class_mod4)
  then show ?thesis
    by (auto simp: getStreamInitiator_def isLocalStream_def isSendingStream_def isReceivingStream_def
        getStreamDirectionality_def isServerStream_odd isClientStream_even)
qed

end
