(* ===== verification/Buf_Queue.thy ===== *)
theory Buf_Queue
  imports Quic_Prelude
begin

text \<open>
  The byte queue \<^verbatim>\<open>BufQueue\<close> of \<^verbatim>\<open>quic/common/BufUtil.h\<close> and \<^verbatim>\<open>BufUtil.cpp\<close>. A chain of
  \<^verbatim>\<open>folly::IOBuf\<close>s is the list of the data of its buffers (the empty list is the null
  pointer), and the queue caches the total length. The queue operations cut and join chains
  buffer by buffer; the refinement lemmas show that they are the operations of a plain list of
  bytes, which is how the stream components below see them (\<open>qbytes\<close>).
\<close>

section \<open>Model\<close>

type_synonym IOBuf = "byte list list"

definition computeChainDataLength :: "IOBuf \<Rightarrow> nat" where
  "computeChainDataLength c = sum_list (map length c)"

record BufQueue =
  chain :: IOBuf
  chainLength :: nat

definition emptyBufQueue :: BufQueue where
  "emptyBufQueue = \<lparr>chain = [], chainLength = 0\<rparr>"

definition mkBufQueue :: "IOBuf \<Rightarrow> BufQueue" where
  "mkBufQueue c = \<lparr>chain = c, chainLength = (if c = [] then 0 else computeChainDataLength c)\<rparr>"

definition bq_empty :: "BufQueue \<Rightarrow> bool" where
  "bq_empty q \<longleftrightarrow> chainLength q = 0"

definition bq_move :: "BufQueue \<Rightarrow> IOBuf \<times> BufQueue" where
  "bq_move q = (chain q, \<lparr>chain = [], chainLength = 0\<rparr>)"

text \<open>
  The search of \<^verbatim>\<open>splitAtMost\<close>: the buffers passed so far, the current one with the buffers
  behind it, and the bytes still to be taken. The chain is circular in the code; that the
  search never comes back to the first buffer is part of the proofs (the empty list is not
  reached when fewer bytes are asked for than the chain has).
\<close>

fun split_loop :: "IOBuf \<Rightarrow> IOBuf \<Rightarrow> nat \<Rightarrow> IOBuf \<times> IOBuf \<times> nat" where
  "split_loop passed [] len = (passed, [], len)"
| "split_loop passed (current # rest) len =
     (if len \<noteq> 0 \<and> \<not> length current > len
      then split_loop (passed @ [current]) rest (len - length current)
      else (passed, current # rest, len))"

definition splitAtMost :: "nat \<Rightarrow> BufQueue \<Rightarrow> IOBuf \<times> BufQueue" where
  "splitAtMost len q =
     (if chain q = [] \<or> len = 0 then ([[]], q)
      else if len \<ge> chainLength q then bq_move q
      else case split_loop [] (chain q) len of (passed, rest, l) \<Rightarrow>
        (if l = 0 then (passed, \<lparr>chain = rest, chainLength = chainLength q - len\<rparr>)
         else (passed @ [take l (hd rest)],
               \<lparr>chain = drop l (hd rest) # tl rest, chainLength = chainLength q - len\<rparr>)))"

definition trimStartAtMost :: "nat \<Rightarrow> BufQueue \<Rightarrow> nat \<times> BufQueue" where
  "trimStartAtMost amount q =
     (let q' = snd (splitAtMost amount q) in (chainLength q - chainLength q', q'))"

text \<open>\<^verbatim>\<open>trimStart\<close> throws \<^verbatim>\<open>std::underflow_error\<close>, which is the value None.\<close>

definition trimStart :: "nat \<Rightarrow> BufQueue \<Rightarrow> BufQueue option" where
  "trimStart amount q = (case trimStartAtMost amount q of (trimmed, q') \<Rightarrow>
     if trimmed \<noteq> amount then None else Some q')"

definition appendToChain :: "IOBuf \<Rightarrow> IOBuf \<Rightarrow> IOBuf" where
  "appendToChain dst src = (if dst = [] then src else dst @ src)"

definition bq_append :: "IOBuf \<Rightarrow> BufQueue \<Rightarrow> BufQueue" where
  "bq_append buf q =
     (if buf = [] \<or> computeChainDataLength buf = 0 then q
      else \<lparr>chain = appendToChain (chain q) buf,
            chainLength = chainLength q + computeChainDataLength buf\<rparr>)"

section \<open>Refinement of byte lists\<close>

definition bq_inv :: "BufQueue \<Rightarrow> bool" where
  "bq_inv q \<longleftrightarrow> chainLength q = computeChainDataLength (chain q)"

definition qbytes :: "BufQueue \<Rightarrow> byte list" where
  "qbytes q = concat (chain q)"

lemma computeChainDataLength_concat: "computeChainDataLength c = length (concat c)"
  by (simp add: computeChainDataLength_def length_concat)

lemma split_loop_spec:
  assumes "len < length (concat rest)" "split_loop passed rest len = (p, r, l)"
  shows "concat p = concat passed @ take (len - l) (concat rest) \<and>
    concat r = drop (len - l) (concat rest) \<and> r \<noteq> [] \<and> l \<le> len \<and> (l = 0 \<or> l < length (hd r))"
  using assms
proof (induction passed rest len rule: split_loop.induct)
  case (2 passed current rest len)
  show ?case
  proof (cases "len \<noteq> 0 \<and> \<not> length current > len")
    case True
    then have "len - length current < length (concat rest)"
      and "split_loop (passed @ [current]) rest (len - length current) = (p, r, l)"
      using 2(2,3) by auto
    with 2(1) [OF True] have ih: "concat p = concat (passed @ [current]) @ take (len - length current - l) (concat rest)"
      "concat r = drop (len - length current - l) (concat rest)" "r \<noteq> []" "l \<le> len - length current"
      "l = 0 \<or> l < length (hd r)" by blast+
    define m where "m = len - length current - l"
    have eq: "len - l = length current + m" and le: "l \<le> len" using ih(4) True unfolding m_def by linarith+
    have "concat p = concat passed @ current @ take m (concat rest)" "concat r = drop m (concat rest)"
      using ih(1,2) by (simp_all only: m_def concat_append concat.simps append_Nil2 append_assoc)
    with ih(3,5) le show ?thesis unfolding eq by simp
  next
    case False
    with 2 have "p = passed" "r = current # rest" "l = len" by auto
    with False show ?thesis by auto
  qed
qed simp

lemma bq_inv_empty: "bq_inv emptyBufQueue" "qbytes emptyBufQueue = []"
  by (simp_all add: emptyBufQueue_def bq_inv_def qbytes_def computeChainDataLength_def)

lemma bq_inv_mk: "bq_inv (mkBufQueue c)" "qbytes (mkBufQueue c) = concat c"
  by (simp_all add: mkBufQueue_def bq_inv_def qbytes_def computeChainDataLength_def)

lemma chainLength_qbytes: "bq_inv q \<Longrightarrow> chainLength q = length (qbytes q)"
  by (simp add: bq_inv_def qbytes_def computeChainDataLength_concat)

lemma splitAtMost_refines:
  assumes inv: "bq_inv q" and split: "splitAtMost len q = (res, q')"
  shows "concat res = take len (qbytes q) \<and> qbytes q' = drop len (qbytes q) \<and> bq_inv q'"
proof (cases "chain q = [] \<or> len = 0 \<or> len \<ge> chainLength q")
  case True
  with inv split show ?thesis
    by (auto simp: splitAtMost_def bq_move_def bq_inv_def qbytes_def computeChainDataLength_concat
        split: if_splits)
next
  case False
  let ?c = "concat (chain q)"
  obtain p r l where sl: "split_loop [] (chain q) len = (p, r, l)" by (cases "split_loop [] (chain q) len")
  have less: "len < length ?c" using False inv by (simp add: bq_inv_def computeChainDataLength_concat)
  note spec = split_loop_spec [OF less sl]
  then obtain cur rest where r: "r = cur # rest" by (cases r) auto
  have cp: "concat p = take (len - l) ?c" and cr: "cur @ concat rest = drop (len - l) ?c"
    and l: "l \<le> len" "l = 0 \<or> l < length cur"
    using spec r by simp_all
  have cut: "take len ?c = take (len - l) ?c @ take l (drop (len - l) ?c)" 
    "drop len ?c = drop l (drop (len - l) ?c)"
    using l(1) by (simp_all flip: take_add)
  show ?thesis
  proof (cases "l = 0")
    case True
    then have "res = p" "q' = \<lparr>chain = r, chainLength = chainLength q - len\<rparr>"
      using split False sl by (auto simp: splitAtMost_def)
    with True spec inv show ?thesis
      by (simp add: qbytes_def bq_inv_def computeChainDataLength_concat)
  next
    case False': False
    then have "res = p @ [take l cur]" "q' = \<lparr>chain = drop l cur # rest, chainLength = chainLength q - len\<rparr>"
      using split False sl r by (auto simp: splitAtMost_def)
    moreover have "take l (drop (len - l) ?c) = take l cur" "drop l (drop (len - l) ?c) = drop l cur @ concat rest"
      using l(2) False' by (simp_all flip: cr)
    ultimately show ?thesis
      using cut cp inv less
      by (auto simp: qbytes_def bq_inv_def computeChainDataLength_concat dest: arg_cong [of _ _ length])
  qed
qed

lemma trimStartAtMost_refines:
  assumes "bq_inv q"
  shows "fst (trimStartAtMost n q) = min n (length (qbytes q)) \<and>
    qbytes (snd (trimStartAtMost n q)) = drop n (qbytes q) \<and> bq_inv (snd (trimStartAtMost n q))"
proof -
  obtain res q' where s: "splitAtMost n q = (res, q')" by (cases "splitAtMost n q")
  from splitAtMost_refines [OF assms s] chainLength_qbytes [OF assms] chainLength_qbytes [of q']
  show ?thesis by (auto simp: trimStartAtMost_def s min_def)
qed

lemma bq_append_refines:
  assumes "bq_inv q"
  shows "qbytes (bq_append buf q) = qbytes q @ concat buf \<and> bq_inv (bq_append buf q)"
proof (cases "buf = [] \<or> computeChainDataLength buf = 0")
  case True
  then have "concat buf = []" by (auto simp: computeChainDataLength_concat)
  with True assms show ?thesis by (simp add: bq_append_def)
next
  case False
  with assms show ?thesis
    by (auto simp: bq_append_def bq_inv_def qbytes_def computeChainDataLength_def appendToChain_def)
qed

section \<open>The interface\<close>

text \<open>
  What the stream components rely on: a queue of bytes that is appended to at the back, split
  and trimmed at the front, and knows its length.
\<close>

locale byte_queue =
  fixes invar :: "'q \<Rightarrow> bool"
    and bytes :: "'q \<Rightarrow> byte list"
    and len :: "'q \<Rightarrow> nat"
    and app :: "IOBuf \<Rightarrow> 'q \<Rightarrow> 'q"
    and split :: "nat \<Rightarrow> 'q \<Rightarrow> IOBuf \<times> 'q"
  assumes len_bytes: "invar q \<Longrightarrow> len q = length (bytes q)"
    and app_bytes: "invar q \<Longrightarrow> bytes (app b q) = bytes q @ concat b"
    and app_invar: "invar q \<Longrightarrow> invar (app b q)"
    and split_fst: "invar q \<Longrightarrow> concat (fst (split n q)) = take n (bytes q)"
    and split_snd: "invar q \<Longrightarrow> bytes (snd (split n q)) = drop n (bytes q)"
    and split_invar: "invar q \<Longrightarrow> invar (snd (split n q))"
begin

text \<open>Reading a queue to the end in pieces of any sizes gives back what was appended.\<close>

fun drain :: "nat list \<Rightarrow> 'q \<Rightarrow> byte list \<times> 'q" where
  "drain [] q = ([], q)"
| "drain (n # ns) q = (let (p, q') = split n q; (ps, q'') = drain ns q' in (concat p @ ps, q''))"

lemma drain_bytes:
  assumes "invar q"
  shows "fst (drain ns q) = take (sum_list ns) (bytes q) \<and>
    bytes (snd (drain ns q)) = drop (sum_list ns) (bytes q) \<and> invar (snd (drain ns q))"
  using assms
proof (induction ns arbitrary: q)
  case (Cons n ns)
  obtain p q' where s: "split n q = (p, q')" by (cases "split n q")
  obtain ps q'' where d: "drain ns q' = (ps, q'')" by (cases "drain ns q'")
  have "invar q'" "bytes q' = drop n (bytes q)" "concat p = take n (bytes q)"
    using split_invar [OF Cons.prems, of n] split_snd [OF Cons.prems, of n] split_fst [OF Cons.prems, of n]
    by (simp_all add: s)
  with Cons.IH [of q'] d show ?case by (simp add: s take_add add.commute)
qed simp

lemma append_drain:
  assumes "invar q" "sum_list ns \<ge> length (bytes q) + length (concat b)"
  shows "fst (drain ns (app b q)) = bytes q @ concat b \<and> len (snd (drain ns (app b q))) = 0"
proof -
  have "invar (app b q)" "length (bytes (app b q)) \<le> sum_list ns"
    using assms by (simp_all add: app_invar app_bytes)
  with drain_bytes [of "app b q" ns] show ?thesis
    using assms(1) by (simp add: len_bytes app_bytes)
qed

end

interpretation bufq: byte_queue bq_inv qbytes chainLength bq_append splitAtMost
proof
  fix q :: BufQueue and b :: IOBuf and n :: nat
  assume q: "bq_inv q"
  show "chainLength q = length (qbytes q)" using q by (rule chainLength_qbytes)
  show "qbytes (bq_append b q) = qbytes q @ concat b" "bq_inv (bq_append b q)"
    using bq_append_refines [OF q] by simp_all
  show "concat (fst (splitAtMost n q)) = take n (qbytes q)"
    "qbytes (snd (splitAtMost n q)) = drop n (qbytes q)" "bq_inv (snd (splitAtMost n q))"
    using splitAtMost_refines [OF q, of n "fst (splitAtMost n q)" "snd (splitAtMost n q)"] by simp_all
qed

section \<open>Properties\<close>

text \<open>C31: the operations of the buffer queue implement those of a list of bytes. On a queue
  whose cached length is the length of its contents: \<^verbatim>\<open>empty\<close> tells whether it holds no byte;
  appending a chain appends its bytes; \<^verbatim>\<open>splitAtMost\<close> returns a prefix and leaves the rest wherever
  the cut falls inside the chain; \<^verbatim>\<open>trimStartAtMost\<close> drops a prefix and returns the number of
  bytes dropped; \<^verbatim>\<open>trimStart\<close> fails exactly if too few bytes are there and else drops the prefix;
  \<^verbatim>\<open>move\<close> returns all bytes and leaves the empty queue. Each of them leaves a queue whose cached
  length is right again.\<close>

theorem buf_queue_refines_bytes:
  assumes "bq_inv q"
  shows "chainLength q = length (qbytes q) \<and> (bq_empty q \<longleftrightarrow> qbytes q = []) \<and>
    qbytes (bq_append b q) = qbytes q @ concat b \<and> bq_inv (bq_append b q) \<and>
    concat (fst (splitAtMost n q)) = take n (qbytes q) \<and>
    qbytes (snd (splitAtMost n q)) = drop n (qbytes q) \<and> bq_inv (snd (splitAtMost n q)) \<and>
    fst (trimStartAtMost n q) = min n (length (qbytes q)) \<and>
    qbytes (snd (trimStartAtMost n q)) = drop n (qbytes q) \<and> bq_inv (snd (trimStartAtMost n q)) \<and>
    (case trimStart n q of None \<Rightarrow> n > length (qbytes q)
     | Some q' \<Rightarrow> n \<le> length (qbytes q) \<and> qbytes q' = drop n (qbytes q) \<and> bq_inv q') \<and>
    concat (fst (bq_move q)) = qbytes q \<and> qbytes (snd (bq_move q)) = [] \<and>
    chainLength (snd (bq_move q)) = 0 \<and> bq_inv (snd (bq_move q))"
proof -
  have "trimStart n q = (if n > length (qbytes q) then None else Some (snd (trimStartAtMost n q)))"
    using trimStartAtMost_refines [OF assms, of n]
    by (auto simp: trimStart_def min_def split: prod.splits if_splits)
  moreover have "concat (fst (bq_move q)) = qbytes q \<and> qbytes (snd (bq_move q)) = [] \<and>
      chainLength (snd (bq_move q)) = 0 \<and> bq_inv (snd (bq_move q))"
    by (simp add: bq_move_def qbytes_def bq_inv_def computeChainDataLength_def)
  ultimately show ?thesis
    using trimStartAtMost_refines [OF assms, of n] bufq.len_bytes [OF assms] bufq.app_bytes [OF assms]
      bufq.app_invar [OF assms] bufq.split_fst [OF assms] bufq.split_snd [OF assms] bufq.split_invar [OF assms]
    by (simp add: bq_empty_def)
qed

theorem buf_queue_refines_bytes_witness:
  "concat (fst (splitAtMost 3 (mkBufQueue [[1, 2], [3, 4]]))) = [1, 2, 3] \<and>
   map_option qbytes (trimStart 3 (mkBufQueue [[1, 2], [3, 4]])) = Some [4] \<and>
   concat (fst (bq_move (mkBufQueue [[1, 2], [3, 4]]))) = [1, 2, 3, 4]"
  using buf_queue_refines_bytes [of "mkBufQueue [[1, 2], [3, 4]]" "[]" 3]
  by (auto simp: bq_inv_mk split: option.splits)

end
