(* ===== verification/Priority_Queue.thy ===== *)
theory Priority_Queue
  imports Stream_Utilities
begin

text \<open>
  The write scheduler's queue of \<^verbatim>\<open>quic/state/QuicPriorityQueue.h\<close>: sixteen levels (eight
  priorities, each sequential or incremental), each a set of streams ordered by
  \<open>(orderId, streamId)\<close> with an iterator, and a map from the queued streams to their
  levels. A \<^verbatim>\<open>std::set\<close> is the sorted list of its elements, one of its iterators is the
  element it points to (\<open>None\<close> is \<^verbatim>\<open>end()\<close>); iterators to other elements survive an erasure,
  as those of \<^verbatim>\<open>std::set\<close> do.
\<close>

section \<open>Model\<close>

type_synonym OrderId = nat

definition kDefaultMaxPriority :: nat where "kDefaultMaxPriority = 7"
definition kDefaultPriorityLevels :: nat where "kDefaultPriorityLevels = kDefaultMaxPriority + 1"
definition kDefaultPriorityLevelsSize :: nat where "kDefaultPriorityLevelsSize = 2 * kDefaultPriorityLevels"

record OrderedStream =
  os_streamId :: StreamId
  os_orderId :: OrderId

definition ordered_stream_cmp :: "OrderedStream \<Rightarrow> OrderedStream \<Rightarrow> bool" where
  "ordered_stream_cmp lhs rhs \<longleftrightarrow>
     (if os_orderId lhs = os_orderId rhs then os_streamId lhs < os_streamId rhs
      else os_orderId lhs < os_orderId rhs)"

text \<open>A level of three bits, a flag, and an order id of 58 bits: the bit fields truncate.\<close>

record Priority =
  pri_level :: nat
  pri_incremental :: bool
  pri_orderId :: OrderId

definition mkPriority :: "nat \<Rightarrow> bool \<Rightarrow> OrderId \<Rightarrow> Priority" where
  "mkPriority l i oid = \<lparr>pri_level = l mod 8, pri_incremental = i, pri_orderId = oid mod 2 ^ 58\<rparr>"

definition kDefaultPriority :: Priority where
  "kDefaultPriority = mkPriority 3 True 0"

record Level =
  streams :: "OrderedStream list"
  incremental :: bool
  nextsSoFar :: nat
  lv_maxNextsPerStream :: nat
  nextStreamIt :: "OrderedStream option"
  startStreamIt :: "OrderedStream option"
  streamToOrderId :: "StreamId \<rightharpoonup> OrderId"

text \<open>Operations of \<^verbatim>\<open>std::set\<close>: insertion at the place the order gives, the first element and
  the element behind an iterator.\<close>

definition oset_insert :: "OrderedStream \<Rightarrow> OrderedStream list \<Rightarrow> OrderedStream list" where
  "oset_insert x xs =
     (let i = lower_bound (\<lambda>y. ordered_stream_cmp y x) xs
      in if i < length xs \<and> \<not> ordered_stream_cmp x (xs ! i) then xs else insert_at i x xs)"

definition oset_begin :: "OrderedStream list \<Rightarrow> OrderedStream option" where
  "oset_begin xs = (case xs of [] \<Rightarrow> None | x # _ \<Rightarrow> Some x)"

definition oset_next :: "OrderedStream \<Rightarrow> OrderedStream list \<Rightarrow> OrderedStream option" where
  "oset_next x xs = oset_begin (dropWhile (\<lambda>y. \<not> ordered_stream_cmp x y) xs)"

subsection \<open>The iterators of a level\<close>

definition iter_begin :: "Level \<Rightarrow> Level" where
  "iter_begin lv =
     (if incremental lv then
        let nxt = (if nextStreamIt lv = None then oset_begin (streams lv) else nextStreamIt lv)
        in lv\<lparr>nextStreamIt := nxt, startStreamIt := nxt\<rparr>
      else lv\<lparr>nextStreamIt := oset_begin (streams lv)\<rparr>)"

definition iter_end :: "Level \<Rightarrow> bool" where
  "iter_end lv \<longleftrightarrow> (if incremental lv then nextStreamIt lv = startStreamIt lv else nextStreamIt lv = None)"

definition iter_current :: "Level \<Rightarrow> StreamId option" where
  "iter_current lv = map_option os_streamId (nextStreamIt lv)"

text \<open>Moving an iterator that is at \<^verbatim>\<open>end()\<close> is undefined in the code; callers move only after
  \<^verbatim>\<open>begin()\<close> and before \<^verbatim>\<open>end()\<close>. In the model such a move stays at the end.\<close>

definition iter_next :: "bool \<Rightarrow> Level \<Rightarrow> Level res" where
  "iter_next force lv =
     rbind (check (streams lv \<noteq> [])) (\<lambda>_.
       if incremental lv then
         if \<not> force \<and> nextsSoFar lv + 1 < lv_maxNextsPerStream lv
         then Inr (lv\<lparr>nextsSoFar := nextsSoFar lv + 1\<rparr>)
         else let nxt = Option.bind (nextStreamIt lv) (\<lambda>x. oset_next x (streams lv))
              in Inr (lv\<lparr>nextStreamIt := (if nxt = None then oset_begin (streams lv) else nxt), nextsSoFar := 0\<rparr>)
       else Inr (lv\<lparr>nextStreamIt := Option.bind (nextStreamIt lv) (\<lambda>x. oset_next x (streams lv))\<rparr>))"

definition iter_override :: "OrderedStream \<Rightarrow> Level \<Rightarrow> Level" where
  "iter_override it lv = lv\<lparr>nextStreamIt := Some it\<rparr>"

subsection \<open>A level\<close>

definition getOrderedStream :: "StreamId \<Rightarrow> Level \<Rightarrow> OrderedStream" where
  "getOrderedStream i lv = (case streamToOrderId lv i of
      None \<Rightarrow> \<lparr>os_streamId = i, os_orderId = 0\<rparr>
    | Some oid \<Rightarrow> \<lparr>os_streamId = i, os_orderId = oid\<rparr>)"

definition level_insert :: "StreamId \<Rightarrow> OrderId \<Rightarrow> Level \<Rightarrow> Level" where
  "level_insert i oid lv =
     (let lv = (if oid > 0 then lv\<lparr>streamToOrderId := (streamToOrderId lv)(i \<mapsto> oid)\<rparr> else lv)
      in lv\<lparr>streams := oset_insert \<lparr>os_streamId = i, os_orderId = oid\<rparr> (streams lv)\<rparr>)"

record PriorityQueue =
  levels :: "Level list"
  maxNextsPerStream :: nat
  writableStreamsToLevel :: "StreamId \<rightharpoonup> nat"

definition emptyLevel :: "nat \<Rightarrow> Level" where
  "emptyLevel index = \<lparr>streams = [], incremental = (index mod 2 = 1), nextsSoFar = 0,
     lv_maxNextsPerStream = 1, nextStreamIt = None, startStreamIt = None, streamToOrderId = Map.empty\<rparr>"

definition emptyPriorityQueue :: PriorityQueue where
  "emptyPriorityQueue = \<lparr>levels = map emptyLevel [0..<kDefaultPriorityLevelsSize],
     maxNextsPerStream = 1, writableStreamsToLevel = Map.empty\<rparr>"

definition setMaxNextsPerStream :: "nat \<Rightarrow> PriorityQueue \<Rightarrow> PriorityQueue" where
  "setMaxNextsPerStream maxNexts q =
     q\<lparr>maxNextsPerStream := maxNexts, levels := map (\<lambda>l. l\<lparr>lv_maxNextsPerStream := maxNexts\<rparr>) (levels q)\<rparr>"

definition priority2index :: "Priority \<Rightarrow> nat" where
  "priority2index pri = pri_level pri * 2 + (if pri_incremental pri then 1 else 0)"

subsection \<open>The queue\<close>

text \<open>A stream that is not found is only logged.\<close>

definition eraseFromLevel :: "nat \<Rightarrow> StreamId \<Rightarrow> PriorityQueue \<Rightarrow> PriorityQueue" where
  "eraseFromLevel levelIndex i q =
     (let level = levels q ! levelIndex; stream = getOrderedStream i level
      in if stream \<notin> set (streams level) then q
         else let level' = (if nextStreamIt level = Some stream
                then level\<lparr>nextStreamIt := oset_next stream (streams level),
                          streams := remove1 stream (streams level), nextsSoFar := 0\<rparr>
                else level\<lparr>streams := remove1 stream (streams level)\<rparr>)
              in q\<lparr>levels := (levels q)[levelIndex := level']\<rparr>)"

definition updateExistingStreamPriority :: "StreamId \<Rightarrow> nat \<Rightarrow> Priority \<Rightarrow> PriorityQueue \<Rightarrow> PriorityQueue" where
  "updateExistingStreamPriority i cur pri q =
     (let index = priority2index pri
      in if cur = index then q
         else let q1 = eraseFromLevel cur i q;
                  q2 = q1\<lparr>writableStreamsToLevel := (writableStreamsToLevel q1)(i \<mapsto> index)\<rparr>
              in q2\<lparr>levels := (levels q2)[index := level_insert i (pri_orderId pri) (levels q2 ! index)]\<rparr>)"

definition updateIfExist :: "StreamId \<Rightarrow> Priority \<Rightarrow> PriorityQueue \<Rightarrow> PriorityQueue" where
  "updateIfExist i pri q = (case writableStreamsToLevel q i of
      None \<Rightarrow> q | Some cur \<Rightarrow> updateExistingStreamPriority i cur pri q)"

definition insertOrUpdate :: "StreamId \<Rightarrow> Priority \<Rightarrow> PriorityQueue \<Rightarrow> PriorityQueue" where
  "insertOrUpdate i pri q = (let index = priority2index pri in case writableStreamsToLevel q i of
      Some cur \<Rightarrow> updateExistingStreamPriority i cur pri q
    | None \<Rightarrow> q\<lparr>writableStreamsToLevel := (writableStreamsToLevel q)(i \<mapsto> index),
        levels := (levels q)[index := level_insert i (pri_orderId pri) (levels q ! index)]\<rparr>)"

definition pq_erase :: "StreamId \<Rightarrow> PriorityQueue \<Rightarrow> PriorityQueue" where
  "pq_erase i q = (case writableStreamsToLevel q i of
      None \<Rightarrow> q
    | Some cur \<Rightarrow> let q1 = eraseFromLevel cur i q
                 in q1\<lparr>writableStreamsToLevel := (writableStreamsToLevel q1)(i := None)\<rparr>)"

definition pq_clear :: "PriorityQueue \<Rightarrow> PriorityQueue" where
  "pq_clear q = q\<lparr>writableStreamsToLevel := Map.empty,
     levels := map (\<lambda>l. l\<lparr>streams := [], nextStreamIt := None\<rparr>) (levels q)\<rparr>"

definition pq_count :: "StreamId \<Rightarrow> PriorityQueue \<Rightarrow> nat" where
  "pq_count i q = (if writableStreamsToLevel q i = None then 0 else 1)"

definition pq_empty :: "PriorityQueue \<Rightarrow> bool" where
  "pq_empty q \<longleftrightarrow> writableStreamsToLevel q = Map.empty"

definition setNextScheduledStream :: "StreamId \<Rightarrow> PriorityQueue \<Rightarrow> PriorityQueue res" where
  "setNextScheduledStream i q = (case writableStreamsToLevel q i of
      None \<Rightarrow> Inl CheckFailed
    | Some cur \<Rightarrow> let level = levels q ! cur; stream = getOrderedStream i level
        in rbind (check (stream \<in> set (streams level)))
             (\<lambda>_. Inr (q\<lparr>levels := (levels q)[cur := iter_override stream level]\<rparr>)))"

definition prepareIterator :: "Priority \<Rightarrow> PriorityQueue \<Rightarrow> PriorityQueue" where
  "prepareIterator pri q =
     (let i = priority2index pri in q\<lparr>levels := (levels q)[i := iter_begin (levels q ! i)]\<rparr>)"

definition getNextScheduledStreamAt :: "Priority \<Rightarrow> PriorityQueue \<Rightarrow> StreamId res" where
  "getNextScheduledStreamAt pri q =
     (let level = levels q ! priority2index pri
      in if \<not> incremental level \<or> nextStreamIt level = None
         then rbind (check (streams level \<noteq> [])) (\<lambda>_. Inr (os_streamId (hd (streams level))))
         else Inr (os_streamId (the (nextStreamIt level))))"

text \<open>\<^verbatim>\<open>begin()\<close> moves the (mutable) iterator of the level even though the queue is constant.\<close>

definition getNextScheduledStream :: "PriorityQueue \<Rightarrow> (StreamId \<times> PriorityQueue) res" where
  "getNextScheduledStream q =
     (let li = length (takeWhile (\<lambda>l. streams l = []) (levels q))
      in rbind (check (li < length (levels q))) (\<lambda>_.
           let level = iter_begin (levels q ! li)
           in case iter_current level of
                None \<Rightarrow> Inl CheckFailed
              | Some i \<Rightarrow> Inr (i, q\<lparr>levels := (levels q)[li := level]\<rparr>)))"

section \<open>Ordered sets of streams\<close>

lemma cmp_irrefl [simp]: "\<not> ordered_stream_cmp x x"
  by (simp add: ordered_stream_cmp_def)

lemma cmp_trans: "ordered_stream_cmp x y \<Longrightarrow> ordered_stream_cmp y z \<Longrightarrow> ordered_stream_cmp x z"
  by (auto simp: ordered_stream_cmp_def split: if_splits)

lemma cmp_asym: "ordered_stream_cmp x y \<Longrightarrow> \<not> ordered_stream_cmp y x"
  by (auto simp: ordered_stream_cmp_def split: if_splits)

lemma cmp_total: "\<not> ordered_stream_cmp x y \<Longrightarrow> \<not> ordered_stream_cmp y x \<Longrightarrow> x = (y :: OrderedStream)"
  by (cases x; cases y) (auto simp: ordered_stream_cmp_def split: if_splits)

abbreviation oset :: "OrderedStream list \<Rightarrow> bool" where
  "oset xs \<equiv> sorted_wrt ordered_stream_cmp xs"

lemma oset_distinct: "oset xs \<Longrightarrow> distinct xs"
  by (induction xs) auto

lemma oset_mid:
  "oset A \<Longrightarrow> oset B \<Longrightarrow> \<forall>a \<in> set A. \<forall>b \<in> set B. ordered_stream_cmp a b \<Longrightarrow>
   \<forall>a \<in> set A. ordered_stream_cmp a x \<Longrightarrow> \<forall>b \<in> set B. ordered_stream_cmp x b \<Longrightarrow> oset (A @ x # B)"
  by (auto simp: sorted_wrt_append)

lemma oset_insert_spec:
  assumes "oset xs"
  shows "oset (oset_insert x xs) \<and> set (oset_insert x xs) = insert x (set xs)"
proof -
  let ?p = "\<lambda>y. ordered_stream_cmp y x"
  let ?A = "takeWhile ?p xs" and ?B = "dropWhile ?p xs" and ?i = "lower_bound ?p xs"
  have "oset (?A @ ?B)" using assms by simp
  then have sAB: "oset ?A" "oset ?B" "\<forall>a \<in> set ?A. \<forall>b \<in> set ?B. ordered_stream_cmp a b"
    unfolding sorted_wrt_append by blast+
  have sA: "\<forall>a \<in> set ?A. ordered_stream_cmp a x" by (auto dest: set_takeWhileD)
  show ?thesis
  proof (cases "?i < length xs \<and> \<not> ordered_stream_cmp x (xs ! ?i)")
    case True
    then have x: "xs ! ?i = x" using lower_bound_stop [of ?p xs] cmp_total by blast
    have "xs ! ?i \<in> set xs" using True by (intro nth_mem) blast
    then have "x \<in> set xs" unfolding x .
    moreover have "oset_insert x xs = xs" unfolding oset_insert_def Let_def if_P [OF True] ..
    ultimately show ?thesis using assms by (simp add: insert_absorb)
  next
    case False
    have B: "\<forall>b \<in> set ?B. ordered_stream_cmp x b"
    proof (cases ?B)
      case (Cons b B)
      then have d: "drop ?i xs = b # B" by (simp only: drop_lower_bound)
      then have "?i < length xs" by (cases "?i < length xs") simp_all
      moreover have "xs ! ?i = b" using d by (rule nth_via_drop)
      moreover note False
      ultimately have "ordered_stream_cmp x b" by auto
      moreover have "\<forall>c \<in> set B. ordered_stream_cmp b c" using sAB(2) unfolding Cons by simp
      ultimately show ?thesis unfolding Cons using cmp_trans [of x b] by simp
    next
      case Nil
      show ?thesis unfolding Nil by simp
    qed
    have "oset_insert x xs = ?A @ x # ?B"
      unfolding oset_insert_def Let_def if_not_P [OF False] insert_at_def take_lower_bound drop_lower_bound ..
    moreover have "set xs = set ?A \<union> set ?B" by (simp flip: set_append)
    moreover have "oset (?A @ x # ?B)" by (rule oset_mid [OF sAB sA B])
    ultimately show ?thesis by simp
  qed
qed

lemma oset_remove1:
  assumes "oset xs"
  shows "oset (remove1 x xs)" "set (remove1 x xs) = set xs - {x}"
proof -
  show "oset (remove1 x xs)" using assms by (induction xs) (auto dest: notin_set_remove1)
  show "set (remove1 x xs) = set xs - {x}" using oset_distinct [OF assms] by simp
qed

lemma oset_begin_simps [simp]:
  "oset_begin [] = None" "oset_begin (x # xs) = Some x" "oset_begin xs = None \<longleftrightarrow> xs = []"
  by (auto simp: oset_begin_def split: list.splits)

lemma oset_next_in:
  assumes "oset_next x xs = Some y"
  shows "y \<in> set xs \<and> ordered_stream_cmp x y"
proof -
  obtain ys where ys: "dropWhile (\<lambda>y. \<not> ordered_stream_cmp x y) xs = y # ys"
    using assms by (auto simp: oset_next_def oset_begin_def split: list.splits)
  then have "y \<in> set (dropWhile (\<lambda>y. \<not> ordered_stream_cmp x y) xs)" by simp
  then have "y \<in> set xs" by (rule set_dropWhileD)
  with ys show ?thesis by (simp add: dropWhile_eq_Cons_conv)
qed

lemma oset_next_nth:
  assumes "oset xs" "i < length xs"
  shows "oset_next (xs ! i) xs = (if Suc i < length xs then Some (xs ! Suc i) else None)"
proof -
  have split: "xs = take (Suc i) xs @ drop (Suc i) xs" by simp
  have "\<forall>y \<in> set (take (Suc i) xs). \<not> ordered_stream_cmp (xs ! i) y"
  proof
    fix y assume "y \<in> set (take (Suc i) xs)"
    then obtain j where "j \<le> i" "y = xs ! j" using assms(2) by (auto simp: in_set_conv_nth less_Suc_eq_le)
    then show "\<not> ordered_stream_cmp (xs ! i) y"
      using assms sorted_wrt_nth_less [of ordered_stream_cmp xs j i]
      by (cases "j = i") (auto dest: cmp_asym)
  qed
  then have "dropWhile (\<lambda>y. \<not> ordered_stream_cmp (xs ! i) y) xs =
      dropWhile (\<lambda>y. \<not> ordered_stream_cmp (xs ! i) y) (drop (Suc i) xs)"
    using dropWhile_append2 [of "take (Suc i) xs" "\<lambda>y. \<not> ordered_stream_cmp (xs ! i) y" "drop (Suc i) xs"]
    by simp
  also have "\<dots> = drop (Suc i) xs"
  proof (cases "Suc i < length xs")
    case True
    then have "ordered_stream_cmp (xs ! i) (xs ! Suc i)" using assms(1) by (simp add: sorted_wrt_nth_less)
    with True show ?thesis by (simp flip: Cons_nth_drop_Suc)
  qed simp
  finally show ?thesis
    by (auto simp: oset_next_def simp flip: Cons_nth_drop_Suc)
qed

section \<open>The invariant\<close>

definition level_inv :: "Level \<Rightarrow> bool" where
  "level_inv lv \<longleftrightarrow> oset (streams lv) \<and>
     (case nextStreamIt lv of None \<Rightarrow> True | Some x \<Rightarrow> x \<in> set (streams lv)) \<and>
     (\<forall>s \<in> set (streams lv). getOrderedStream (os_streamId s) lv = s)"

definition level_ids :: "Level \<Rightarrow> StreamId set" where
  "level_ids lv = os_streamId ` set (streams lv)"

text \<open>Every queued stream is on exactly the level the map says, with the order id under which
  the level finds it again.\<close>

definition pq_inv :: "PriorityQueue \<Rightarrow> bool" where
  "pq_inv q \<longleftrightarrow> length (levels q) = kDefaultPriorityLevelsSize \<and>
     (\<forall>j < length (levels q). level_inv (levels q ! j) \<and> incremental (levels q ! j) = odd j \<and>
        level_ids (levels q ! j) = {i. writableStreamsToLevel q i = Some j}) \<and>
     (\<forall>i j. writableStreamsToLevel q i = Some j \<longrightarrow> j < length (levels q))"

definition valid_priority :: "Priority \<Rightarrow> bool" where
  "valid_priority pri \<longleftrightarrow> pri_level pri < 8"

text \<open>A stream may be put on a level if the level has no other order id on file for it.\<close>

definition order_fresh :: "StreamId \<Rightarrow> Priority \<Rightarrow> PriorityQueue \<Rightarrow> bool" where
  "order_fresh i pri q \<longleftrightarrow>
     pri_orderId pri > 0 \<or> streamToOrderId (levels q ! priority2index pri) i = None"

lemma levels_size [simp]: "kDefaultPriorityLevelsSize = 16"
  by (simp add: kDefaultPriorityLevelsSize_def kDefaultPriorityLevels_def kDefaultMaxPriority_def)

lemma mkPriority_valid [simp]: "valid_priority (mkPriority l i oid)"
  by (simp add: valid_priority_def mkPriority_def)

lemma priority2index_bound: "valid_priority pri \<Longrightarrow> priority2index pri < 16"
  by (auto simp: valid_priority_def priority2index_def)

lemma getOrderedStream_id [simp]: "os_streamId (getOrderedStream i lv) = i"
  by (simp add: getOrderedStream_def split: option.splits)

lemma level_inv_find:
  "level_inv lv \<Longrightarrow> getOrderedStream i lv \<in> set (streams lv) \<longleftrightarrow> i \<in> level_ids lv"
  unfolding level_inv_def level_ids_def by force

definition level_erase :: "StreamId \<Rightarrow> Level \<Rightarrow> Level" where
  "level_erase i level = (let stream = getOrderedStream i level in
     if nextStreamIt level = Some stream
     then level\<lparr>nextStreamIt := oset_next stream (streams level),
                streams := remove1 stream (streams level), nextsSoFar := 0\<rparr>
     else level\<lparr>streams := remove1 stream (streams level)\<rparr>)"

lemma eraseFromLevel_alt:
  "eraseFromLevel j i q = (if getOrderedStream i (levels q ! j) \<notin> set (streams (levels q ! j)) then q
     else q\<lparr>levels := (levels q)[j := level_erase i (levels q ! j)]\<rparr>)"
  by (simp add: eraseFromLevel_def level_erase_def Let_def)

lemma level_erase_simps [simp]:
  "streams (level_erase i lv) = remove1 (getOrderedStream i lv) (streams lv)"
  "streamToOrderId (level_erase i lv) = streamToOrderId lv"
  "incremental (level_erase i lv) = incremental lv"
  by (simp_all add: level_erase_def Let_def)

lemma getOrderedStream_cong:
  "streamToOrderId lv i = streamToOrderId lv' i \<Longrightarrow> getOrderedStream i lv = getOrderedStream i lv'"
  by (simp add: getOrderedStream_def)

lemma level_erase_inv:
  assumes "level_inv lv"
  shows "level_inv (level_erase i lv) \<and> level_ids (level_erase i lv) = level_ids lv - {i}"
proof -
  let ?x = "getOrderedStream i lv"
  have o: "oset (streams lv)" and f: "\<forall>s \<in> set (streams lv). getOrderedStream (os_streamId s) lv = s"
    using assms by (simp_all add: level_inv_def)
  have nxt: "case nextStreamIt (level_erase i lv) of None \<Rightarrow> True | Some y \<Rightarrow> y \<in> set (streams lv) - {?x}"
    using assms by (auto simp: level_erase_def Let_def level_inv_def split: option.splits if_splits
        dest: oset_next_in)
  have "\<forall>s \<in> set (streams (level_erase i lv)). getOrderedStream (os_streamId s) (level_erase i lv) = s"
    using f o by (auto simp: oset_remove1 getOrderedStream_cong [of "level_erase i lv" _ lv])
  with nxt o have "level_inv (level_erase i lv)"
    by (simp add: level_inv_def oset_remove1 split: option.splits)
  moreover have "level_ids (level_erase i lv) = level_ids lv - {i}"
    using f o by (auto simp: level_ids_def oset_remove1)
  ultimately show ?thesis by simp
qed

lemma level_insert_simps [simp]:
  "streams (level_insert i oid lv) = oset_insert \<lparr>os_streamId = i, os_orderId = oid\<rparr> (streams lv)"
  "streamToOrderId (level_insert i oid lv) =
     (if oid > 0 then (streamToOrderId lv)(i \<mapsto> oid) else streamToOrderId lv)"
  "incremental (level_insert i oid lv) = incremental lv"
  "nextStreamIt (level_insert i oid lv) = nextStreamIt lv"
  by (simp_all add: level_insert_def Let_def)

lemma level_insert_inv:
  assumes "level_inv lv" "i \<notin> level_ids lv" "oid > 0 \<or> streamToOrderId lv i = None"
  shows "level_inv (level_insert i oid lv) \<and> level_ids (level_insert i oid lv) = insert i (level_ids lv)"
proof -
  let ?x = "\<lparr>os_streamId = i, os_orderId = oid\<rparr>" and ?l = "level_insert i oid lv"
  have o: "oset (streams lv)" using assms(1) by (simp add: level_inv_def)
  note ins = oset_insert_spec [OF o, of ?x]
  have "getOrderedStream i ?l = ?x" using assms(3) by (auto simp: getOrderedStream_def)
  moreover have "getOrderedStream (os_streamId s) ?l = s" if "s \<in> set (streams lv)" for s
  proof -
    have "os_streamId s \<noteq> i" using that assms(2) by (auto simp: level_ids_def)
    then show ?thesis
      using assms(1) that getOrderedStream_cong [of ?l "os_streamId s" lv] by (auto simp: level_inv_def)
  qed
  ultimately have "\<forall>s \<in> set (streams ?l). getOrderedStream (os_streamId s) ?l = s"
    using ins by auto
  moreover have "case nextStreamIt ?l of None \<Rightarrow> True | Some y \<Rightarrow> y \<in> set (streams ?l)"
    using assms(1) ins by (auto simp: level_inv_def split: option.splits)
  ultimately show ?thesis using ins by (simp add: level_inv_def level_ids_def)
qed

lemma pq_invD:
  assumes "pq_inv q" "j < 16"
  shows "level_inv (levels q ! j)" "level_ids (levels q ! j) = {i. writableStreamsToLevel q i = Some j}"
    "incremental (levels q ! j) = odd j" "length (levels q) = 16"
  using assms by (simp_all add: pq_inv_def)

lemma level_inv_ids_distinct:
  assumes "level_inv lv"
  shows "distinct (map os_streamId (streams lv))"
proof -
  have o: "distinct (streams lv)" and f: "\<forall>s \<in> set (streams lv). getOrderedStream (os_streamId s) lv = s"
    using assms oset_distinct by (auto simp: level_inv_def)
  have "inj_on os_streamId (set (streams lv))"
    by (rule inj_on_inverseI [of _ "\<lambda>i. getOrderedStream i lv"]) (use f in blast)
  with o show ?thesis by (simp add: distinct_map)
qed

lemma pq_inv_bound: "pq_inv q \<Longrightarrow> writableStreamsToLevel q i = Some j \<Longrightarrow> j < 16"
  unfolding pq_inv_def by auto

lemma pq_inv_empty: "pq_inv emptyPriorityQueue"
  by (auto simp: pq_inv_def emptyPriorityQueue_def emptyLevel_def level_inv_def level_ids_def
      odd_iff_mod_2_eq_one simp del: upt_rec_numeral)

lemma pq_erase_inv:
  assumes "pq_inv q"
  shows "pq_inv (pq_erase i q)"
    and "writableStreamsToLevel (pq_erase i q) = (writableStreamsToLevel q)(i := None)"
    and "map streamToOrderId (levels (pq_erase i q)) = map streamToOrderId (levels q)"
proof -
  have *: "pq_inv (pq_erase i q) \<and>
    writableStreamsToLevel (pq_erase i q) = (writableStreamsToLevel q)(i := None) \<and>
    map streamToOrderId (levels (pq_erase i q)) = map streamToOrderId (levels q)"
  proof (cases "writableStreamsToLevel q i")
    case None
    then show ?thesis using assms by (auto simp: pq_erase_def)
  next
    case (Some j)
    have j: "j < 16" by (rule pq_inv_bound [OF assms Some])
    note lv = pq_invD [OF assms j]
    have found: "getOrderedStream i (levels q ! j) \<in> set (streams (levels q ! j))"
      using lv(1,2) Some by (simp add: level_inv_find)
    let ?L = "(levels q)[j := level_erase i (levels q ! j)]"
    have eq: "pq_erase i q = q\<lparr>levels := ?L, writableStreamsToLevel := (writableStreamsToLevel q)(i := None)\<rparr>"
      using found by (simp add: pq_erase_def Some eraseFromLevel_alt Let_def)
    have "pq_inv (pq_erase i q)"
      using assms lv j level_erase_inv [OF lv(1), of i] Some unfolding eq
      by (auto simp: pq_inv_def nth_list_update)
    then show ?thesis using lv(4) j by (auto simp: eq map_update list_update_same_conv nth_map)
  qed
  then show "pq_inv (pq_erase i q)"
    "writableStreamsToLevel (pq_erase i q) = (writableStreamsToLevel q)(i := None)"
    "map streamToOrderId (levels (pq_erase i q)) = map streamToOrderId (levels q)"
    by blast+
qed

text \<open>Changing the level of a queued stream is an erasure followed by an insertion.\<close>

lemma update_as_erase_insert:
  assumes "pq_inv q" "writableStreamsToLevel q i = Some cur"
  shows "updateExistingStreamPriority i cur pri q =
    (if cur = priority2index pri then q else insertOrUpdate i pri (pq_erase i q))"
proof -
  have "writableStreamsToLevel (eraseFromLevel cur i q) = writableStreamsToLevel q"
    by (simp add: eraseFromLevel_alt)
  then show ?thesis
    using assms(2) by (simp add: updateExistingStreamPriority_def insertOrUpdate_def pq_erase_def Let_def)
qed

lemma pq_insert_new_inv:
  assumes "pq_inv q" "valid_priority pri" "order_fresh i pri q" "writableStreamsToLevel q i = None"
  shows "pq_inv (insertOrUpdate i pri q)"
    and "writableStreamsToLevel (insertOrUpdate i pri q) = (writableStreamsToLevel q)(i \<mapsto> priority2index pri)"
proof -
  let ?j = "priority2index pri"
  let ?l = "level_insert i (pri_orderId pri) (levels q ! ?j)"
  have j: "?j < 16" using assms(2) by (rule priority2index_bound)
  note lv = pq_invD [OF assms(1) j]
  have eq: "insertOrUpdate i pri q = q\<lparr>writableStreamsToLevel := (writableStreamsToLevel q)(i \<mapsto> ?j),
      levels := (levels q)[?j := ?l]\<rparr>"
    using assms(4) by (simp add: insertOrUpdate_def Let_def)
  have l: "level_inv ?l" "level_ids ?l = insert i (level_ids (levels q ! ?j))"
    using level_insert_inv [OF lv(1), of i "pri_orderId pri"] assms(3,4) lv(2) by (auto simp: order_fresh_def)
  show "pq_inv (insertOrUpdate i pri q)"
    using assms(1,4) j lv l unfolding eq by (auto simp: pq_inv_def nth_list_update)
  show "writableStreamsToLevel (insertOrUpdate i pri q) = (writableStreamsToLevel q)(i \<mapsto> ?j)"
    by (simp add: eq)
qed

lemma order_fresh_erase:
  assumes "pq_inv q" "order_fresh i pri q" "valid_priority pri"
  shows "order_fresh i pri (pq_erase i q)"
proof -
  have j: "priority2index pri < 16" using assms(3) by (rule priority2index_bound)
  have "length (levels (pq_erase i q)) = length (levels q)"
    using pq_erase_inv(3) [OF assms(1), of i] by (metis length_map)
  with j have "streamToOrderId (levels (pq_erase i q) ! priority2index pri) =
      streamToOrderId (levels q ! priority2index pri)"
    using pq_erase_inv(3) [OF assms(1), of i] pq_invD(4) [OF assms(1) j] by (metis nth_map)
  with assms(2) show ?thesis by (simp add: order_fresh_def)
qed

lemma insertOrUpdate_inv:
  assumes "pq_inv q" "valid_priority pri" "order_fresh i pri q"
  shows "pq_inv (insertOrUpdate i pri q)"
    and "writableStreamsToLevel (insertOrUpdate i pri q) = (writableStreamsToLevel q)(i \<mapsto> priority2index pri)"
proof -
  have *: "pq_inv (insertOrUpdate i pri q) \<and>
    writableStreamsToLevel (insertOrUpdate i pri q) = (writableStreamsToLevel q)(i \<mapsto> priority2index pri)"
  proof (cases "writableStreamsToLevel q i")
    case None
    with pq_insert_new_inv [OF assms] show ?thesis by simp
  next
    case (Some cur)
    then have eq: "insertOrUpdate i pri q = updateExistingStreamPriority i cur pri q"
      by (simp add: insertOrUpdate_def)
    have fresh: "order_fresh i pri (pq_erase i q)" by (rule order_fresh_erase [OF assms(1,3,2)])
    have none: "writableStreamsToLevel (pq_erase i q) i = None"
      using pq_erase_inv(2) [OF assms(1)] by simp
    note new = pq_insert_new_inv [OF pq_erase_inv(1) [OF assms(1)] assms(2) fresh none]
    show ?thesis
      using new pq_erase_inv(2) [OF assms(1)] assms(1) Some
      unfolding eq update_as_erase_insert [OF assms(1) Some] by auto
  qed
  then show "pq_inv (insertOrUpdate i pri q)"
    "writableStreamsToLevel (insertOrUpdate i pri q) = (writableStreamsToLevel q)(i \<mapsto> priority2index pri)"
    by blast+
qed

lemma updateIfExist_alt:
  assumes "pq_inv q"
  shows "updateIfExist i pri q = (if writableStreamsToLevel q i = None then q else insertOrUpdate i pri q)"
  by (auto simp: updateIfExist_def insertOrUpdate_def split: option.splits)

section \<open>Traces and the interface of the scheduler\<close>

text \<open>
  What the stream manager relies on: a collection of streams, each with one priority level,
  that insertion and erasure change at one stream only. \<open>fits\<close> says when an insertion is
  allowed.
\<close>

fun abs_step :: "(StreamId \<rightharpoonup> nat) \<Rightarrow> StreamId \<times> Priority option \<Rightarrow> (StreamId \<rightharpoonup> nat)" where
  "abs_step m (i, Some p) = m(i \<mapsto> priority2index p)"
| "abs_step m (i, None) = m(i := None)"

locale level_queue =
  fixes invar :: "'q \<Rightarrow> bool"
    and level_of :: "'q \<Rightarrow> StreamId \<rightharpoonup> nat"
    and ins :: "StreamId \<Rightarrow> Priority \<Rightarrow> 'q \<Rightarrow> 'q"
    and del :: "StreamId \<Rightarrow> 'q \<Rightarrow> 'q"
    and fits :: "StreamId \<Rightarrow> Priority \<Rightarrow> 'q \<Rightarrow> bool"
  assumes ins_invar: "invar q \<Longrightarrow> fits i p q \<Longrightarrow> invar (ins i p q)"
    and ins_level: "invar q \<Longrightarrow> fits i p q \<Longrightarrow> level_of (ins i p q) = (level_of q)(i \<mapsto> priority2index p)"
    and del_invar: "invar q \<Longrightarrow> invar (del i q)"
    and del_level: "invar q \<Longrightarrow> level_of (del i q) = (level_of q)(i := None)"
    and ins_fits: "invar q \<Longrightarrow> fits i p q \<Longrightarrow> fits j p' q \<Longrightarrow> i \<noteq> j \<or> (pri_orderId p = 0) = (pri_orderId p' = 0) \<Longrightarrow>
      fits j p' (ins i p q)"
    and del_fits: "invar q \<Longrightarrow> fits j p' q \<Longrightarrow> fits j p' (del i q)"
begin

text \<open>A history of insertions (\<open>Some\<close> priority) and erasures (\<open>None\<close>), and the map of levels
  it stands for. In a uniform history a stream is always queued with order id zero or always
  with a positive one.\<close>

definition run :: "(StreamId \<times> Priority option) list \<Rightarrow> 'q \<Rightarrow> 'q" where
  "run h q = foldl (\<lambda>q (i, op). case op of Some p \<Rightarrow> ins i p q | None \<Rightarrow> del i q) q h"

definition uniform :: "(StreamId \<times> Priority option) list \<Rightarrow> bool" where
  "uniform h \<longleftrightarrow> (\<forall>i p p'. (i, Some p) \<in> set h \<longrightarrow> (i, Some p') \<in> set h \<longrightarrow>
     (pri_orderId p = 0) = (pri_orderId p' = 0))"

lemma run_spec:
  assumes "invar q" "uniform h" "\<forall>(i, op) \<in> set h. \<forall>p. op = Some p \<longrightarrow> fits i p q"
  shows "invar (run h q) \<and>
    level_of (run h q) = foldl abs_step (level_of q) h"
  using assms
proof (induction h arbitrary: q)
  case (Cons a h)
  obtain i op where a: "a = (i, op)" by (cases a)
  have u: "uniform h" using Cons.prems(2) unfolding uniform_def by (meson list.set_intros(2))
  have fits0: "fits j p q" if "(j, Some p) \<in> set (a # h)" for j p
    using bspec [OF Cons.prems(3) that] by simp
  show ?case
  proof (cases op)
    case None
    have "fits j p (del i q)" if "(j, Some p) \<in> set h" for j p
      using that by (intro del_fits [OF Cons.prems(1)] fits0) simp
    then have "\<forall>(j, op') \<in> set h. \<forall>p. op' = Some p \<longrightarrow> fits j p (del i q)" by auto
    note ih = Cons.IH [OF del_invar [OF Cons.prems(1)] u this]
    have "run (a # h) q = run h (del i q)" by (simp add: run_def a None)
    with ih show ?thesis
      by (simp only: a None foldl_Cons abs_step.simps del_level [OF Cons.prems(1)] simp_thms)
  next
    case (Some p)
    then have f: "fits i p q" using fits0 a by simp
    have "fits j p' (ins i p q)" if "(j, Some p') \<in> set h" for j p'
    proof (rule ins_fits [OF Cons.prems(1) f])
      show "fits j p' q" using that by (intro fits0) simp
      show "i \<noteq> j \<or> (pri_orderId p = 0) = (pri_orderId p' = 0)"
        using Cons.prems(2) that a Some unfolding uniform_def by (metis list.set_intros)
    qed
    then have "\<forall>(j, op') \<in> set h. \<forall>p'. op' = Some p' \<longrightarrow> fits j p' (ins i p q)" by auto
    note ih = Cons.IH [OF ins_invar [OF Cons.prems(1) f] u this]
    have "run (a # h) q = run h (ins i p q)" by (simp add: run_def a Some)
    with ih show ?thesis
      by (simp only: a Some foldl_Cons abs_step.simps ins_level [OF Cons.prems(1) f] simp_thms)
  qed
qed (simp add: run_def)

end

definition pq_fits :: "StreamId \<Rightarrow> Priority \<Rightarrow> PriorityQueue \<Rightarrow> bool" where
  "pq_fits i pri q \<longleftrightarrow> valid_priority pri \<and>
     (pri_orderId pri > 0 \<or> (\<forall>j < length (levels q). streamToOrderId (levels q ! j) i = None))"

lemma pq_fits_fresh: "pq_inv q \<Longrightarrow> pq_fits i pri q \<Longrightarrow> order_fresh i pri q"
  using pq_invD(4) [of q 0] priority2index_bound [of pri] by (auto simp: pq_fits_def order_fresh_def)

lemma pq_fits_erase:
  assumes "pq_inv q" "pq_fits j p q"
  shows "pq_fits j p (pq_erase i q)"
proof -
  have eq: "map streamToOrderId (levels (pq_erase i q)) = map streamToOrderId (levels q)"
    by (rule pq_erase_inv(3) [OF assms(1)])
  then have "length (levels (pq_erase i q)) = length (levels q)" by (metis length_map)
  moreover from this have "\<forall>k < length (levels q).
      streamToOrderId (levels (pq_erase i q) ! k) = streamToOrderId (levels q ! k)"
    using eq by (metis nth_map)
  ultimately show ?thesis using assms(2) by (simp add: pq_fits_def)
qed

lemma insert_new_orders:
  assumes "writableStreamsToLevel q i = None" "k < length (levels q)" "i \<noteq> j \<or> pri_orderId p = 0"
  shows "streamToOrderId (levels (insertOrUpdate i p q) ! k) j = streamToOrderId (levels q ! k) j"
  using assms by (cases "k = priority2index p") (auto simp: insertOrUpdate_def Let_def)

lemma length_levels_insert: "pq_inv q \<Longrightarrow> pq_fits i p q \<Longrightarrow> length (levels (insertOrUpdate i p q)) = length (levels q)"
  using insertOrUpdate_inv(1) [of q p i] pq_fits_fresh [of q i p] pq_invD(4) [of _ 0]
  by (simp add: pq_fits_def)

lemma pq_fits_insert_new:
  assumes "pq_inv q" "pq_fits i p q" "pq_fits j p' q" "i \<noteq> j \<or> (pri_orderId p = 0) = (pri_orderId p' = 0)"
    and "writableStreamsToLevel q i = None"
  shows "pq_fits j p' (insertOrUpdate i p q)"
  using assms(3,4) insert_new_orders [OF assms(5), of _ j p] length_levels_insert [OF assms(1,2)]
  by (auto simp: pq_fits_def)

lemma pq_fits_insert:
  assumes "pq_inv q" "pq_fits i p q" "pq_fits j p' q" "i \<noteq> j \<or> (pri_orderId p = 0) = (pri_orderId p' = 0)"
  shows "pq_fits j p' (insertOrUpdate i p q)"
proof (cases "writableStreamsToLevel q i")
  case None
  then show ?thesis by (rule pq_fits_insert_new [OF assms])
next
  case (Some cur)
  have none: "writableStreamsToLevel (pq_erase i q) i = None"
    using pq_erase_inv(2) [OF assms(1)] by simp
  have "pq_fits j p' (insertOrUpdate i p (pq_erase i q))"
    by (rule pq_fits_insert_new [OF pq_erase_inv(1) [OF assms(1)] pq_fits_erase [OF assms(1,2)]
          pq_fits_erase [OF assms(1,3)] assms(4) none])
  moreover have "insertOrUpdate i p q = updateExistingStreamPriority i cur p q"
    using Some by (simp add: insertOrUpdate_def)
  ultimately show ?thesis using assms(3) update_as_erase_insert [OF assms(1) Some] by simp
qed

interpretation pq: level_queue pq_inv writableStreamsToLevel insertOrUpdate pq_erase pq_fits
proof
  fix q i p j p'
  assume q: "pq_inv q"
  show "pq_inv (pq_erase i q)" "writableStreamsToLevel (pq_erase i q) = (writableStreamsToLevel q)(i := None)"
    by (rule pq_erase_inv [OF q])+
  show "pq_fits j p' q \<Longrightarrow> pq_fits j p' (pq_erase i q)" by (rule pq_fits_erase [OF q])
  assume f: "pq_fits i p q"
  then have v: "valid_priority p" by (simp add: pq_fits_def)
  show "pq_inv (insertOrUpdate i p q)"
    "writableStreamsToLevel (insertOrUpdate i p q) = (writableStreamsToLevel q)(i \<mapsto> priority2index p)"
    by (rule insertOrUpdate_inv [OF q v pq_fits_fresh [OF q f]])+
  show "pq_fits j p' q \<Longrightarrow> i \<noteq> j \<or> (pri_orderId p = 0) = (pri_orderId p' = 0) \<Longrightarrow>
      pq_fits j p' (insertOrUpdate i p q)"
    by (rule pq_fits_insert [OF q f])
qed

section \<open>Scheduling\<close>

lemma first_level:
  assumes "j < length ls" "\<not> P (ls ! j)" "\<forall>k < j. P (ls ! k)"
  shows "length (takeWhile P ls) = j"
  using assms
proof (induction ls arbitrary: j)
  case (Cons l ls)
  show ?case
  proof (cases j)
    case (Suc n)
    have "P l" using Cons.prems(3) Suc by force
    moreover have "\<forall>k < n. P (ls ! k)" using Cons.prems(3) Suc by (metis Suc_less_eq nth_Cons_Suc)
    ultimately show ?thesis using Cons.IH [of n] Cons.prems(1,2) Suc by simp
  qed (use Cons.prems(2) in simp)
qed simp

lemma iter_begin_current:
  assumes "level_inv lv" "streams lv \<noteq> []"
  shows "\<exists>x \<in> set (streams lv). nextStreamIt (iter_begin lv) = Some x \<and>
    x = (if \<not> incremental lv \<or> nextStreamIt lv = None then hd (streams lv) else the (nextStreamIt lv))"
  using assms by (cases "streams lv") (auto simp: iter_begin_def level_inv_def Let_def split: option.splits)

lemma level_inv_begin: "level_inv lv \<Longrightarrow> level_inv (iter_begin lv)"
  by (auto simp: level_inv_def iter_begin_def Let_def getOrderedStream_def oset_begin_def split: option.splits list.splits)

lemma iter_begin_simps [simp]:
  "streams (iter_begin lv) = streams lv" "incremental (iter_begin lv) = incremental lv"
  by (simp_all add: iter_begin_def Let_def)

lemma pq_inv_begin:
  assumes "pq_inv q" "j < 16"
  shows "pq_inv (q\<lparr>levels := (levels q)[j := iter_begin (levels q ! j)]\<rparr>)"
  using assms pq_invD [OF assms] level_inv_begin [of "levels q ! j"]
  by (auto simp: pq_inv_def nth_list_update level_ids_def)

text \<open>The traversal of a level by \<^verbatim>\<open>next(force)\<close>.\<close>

fun iter_steps :: "bool \<Rightarrow> nat \<Rightarrow> Level \<Rightarrow> Level res" where
  "iter_steps force 0 lv = Inr lv"
| "iter_steps force (Suc k) lv = rbind (iter_steps force k lv) (iter_next force)"

text \<open>The number of streams an incremental iterator has moved on after \<open>k\<close> calls: each call moves
  if it is forced, else each stream gets as many calls as the level allows, less those it has
  had already.\<close>

definition nexts_allowed :: "Level \<Rightarrow> nat" where
  "nexts_allowed lv = max 1 (lv_maxNextsPerStream lv)"

definition nexts_had :: "Level \<Rightarrow> nat" where
  "nexts_had lv = min (nextsSoFar lv) (nexts_allowed lv - 1)"

definition moves :: "bool \<Rightarrow> nat \<Rightarrow> Level \<Rightarrow> nat" where
  "moves force k lv = (if force then k else (nexts_had lv + k) div nexts_allowed lv)"

lemma iter_next_incremental:
  assumes "oset (streams lv)" "incremental lv" "i < length (streams lv)" "nextStreamIt lv = Some (streams lv ! i)"
  shows "iter_next force lv = Inr (if \<not> force \<and> nextsSoFar lv + 1 < lv_maxNextsPerStream lv
    then lv\<lparr>nextsSoFar := nextsSoFar lv + 1\<rparr>
    else lv\<lparr>nextStreamIt := Some (streams lv ! (Suc i mod length (streams lv))), nextsSoFar := 0\<rparr>)"
proof -
  have ne: "streams lv \<noteq> []" using assms(3) by auto
  then have "oset_begin (streams lv) = Some (streams lv ! 0)" by (cases "streams lv") auto
  moreover have "Suc i mod length (streams lv) = (if Suc i < length (streams lv) then Suc i else 0)"
    using assms(3) by (auto simp: mod_Suc)
  ultimately show ?thesis
    using ne assms(2,4) by (simp add: iter_next_def oset_next_nth [OF assms(1,3)] Let_def)
qed

lemma moves_stay:
  assumes "(nexts_had lv + k) mod nexts_allowed lv + 1 < nexts_allowed lv"
  shows "moves False (Suc k) lv = moves False k lv"
    "(nexts_had lv + Suc k) mod nexts_allowed lv = (nexts_had lv + k) mod nexts_allowed lv + 1"
  using assms by (auto simp: moves_def mod_Suc div_Suc)

lemma moves_on:
  assumes "\<not> (nexts_had lv + k) mod nexts_allowed lv + 1 < nexts_allowed lv"
  shows "moves False (Suc k) lv = Suc (moves False k lv)"
    "(nexts_had lv + Suc k) mod nexts_allowed lv = 0"
proof -
  have "0 < nexts_allowed lv" by (simp add: nexts_allowed_def)
  then have "(nexts_had lv + k) mod nexts_allowed lv < nexts_allowed lv" by simp
  with assms have "Suc ((nexts_had lv + k) mod nexts_allowed lv) = nexts_allowed lv" by linarith
  then show "moves False (Suc k) lv = Suc (moves False k lv)"
    "(nexts_had lv + Suc k) mod nexts_allowed lv = 0"
    by (simp_all add: moves_def mod_Suc div_Suc)
qed

lemma iter_steps_incremental:
  assumes "oset (streams lv)" "incremental lv" "i < length (streams lv)" "nextStreamIt lv = Some (streams lv ! i)"
  shows "\<exists>lv'. iter_steps force k lv = Inr lv' \<and>
    nextStreamIt lv' = Some (streams lv ! ((i + moves force k lv) mod length (streams lv))) \<and>
    (0 < k \<longrightarrow> nextsSoFar lv' = (if force then 0 else (nexts_had lv + k) mod nexts_allowed lv)) \<and>
    (\<not> force \<longrightarrow> nexts_had lv' = (nexts_had lv + k) mod nexts_allowed lv) \<and>
    streams lv' = streams lv \<and> incremental lv' \<and> startStreamIt lv' = startStreamIt lv \<and>
    lv_maxNextsPerStream lv' = lv_maxNextsPerStream lv"
proof (induction k)
  case 0
  have "nexts_had lv < nexts_allowed lv" by (auto simp: nexts_had_def nexts_allowed_def)
  then show ?case using assms by (simp add: moves_def)
next
  case (Suc k)
  let ?n = "length (streams lv)" and ?j = "(i + moves force k lv) mod length (streams lv)"
  obtain lv' where lv': "iter_steps force k lv = Inr lv'" "nextStreamIt lv' = Some (streams lv ! ?j)"
    "\<not> force \<longrightarrow> nexts_had lv' = (nexts_had lv + k) mod nexts_allowed lv"
    "streams lv' = streams lv" "incremental lv'" "startStreamIt lv' = startStreamIt lv"
    "lv_maxNextsPerStream lv' = lv_maxNextsPerStream lv"
    using Suc.IH by blast
  have "?j < ?n" using assms(3) by (intro mod_less_divisor) linarith
  with lv' assms(1) have step: "iter_next force lv' = Inr (if \<not> force \<and> nextsSoFar lv' + 1 < lv_maxNextsPerStream lv
    then lv'\<lparr>nextsSoFar := nextsSoFar lv' + 1\<rparr>
    else lv'\<lparr>nextStreamIt := Some (streams lv ! (Suc ?j mod ?n)), nextsSoFar := 0\<rparr>)"
    using iter_next_incremental [of lv' ?j force] by simp
  have al: "nexts_allowed lv' = nexts_allowed lv" using lv'(7) by (simp add: nexts_allowed_def)
  consider (force) "force" | (stay) "\<not> force" "nextsSoFar lv' + 1 < lv_maxNextsPerStream lv"
    | (move) "\<not> force" "\<not> nextsSoFar lv' + 1 < lv_maxNextsPerStream lv" by blast
  then show ?case
  proof cases
    case force
    then show ?thesis using lv' step by (simp add: moves_def mod_Suc_eq)
  next
    case stay
    then have "nexts_had lv' = nextsSoFar lv'" "nexts_had lv' + 1 < nexts_allowed lv"
      using al by (auto simp: nexts_had_def nexts_allowed_def)
    with stay lv'(3) have s: "nextsSoFar lv' = (nexts_had lv + k) mod nexts_allowed lv"
      "(nexts_had lv + k) mod nexts_allowed lv + 1 < nexts_allowed lv" by simp_all
    have "nexts_had (lv'\<lparr>nextsSoFar := nextsSoFar lv' + 1\<rparr>) = nextsSoFar lv' + 1"
      using stay(2) lv'(7) by (simp add: nexts_had_def nexts_allowed_def)
    then show ?thesis using stay lv' step moves_stay [OF s(2)] s(1) by simp
  next
    case move
    then have "nexts_had lv' + 1 = nexts_allowed lv"
      using al lv'(7) by (auto simp: nexts_had_def nexts_allowed_def)
    with move lv'(3) have "\<not> (nexts_had lv + k) mod nexts_allowed lv + 1 < nexts_allowed lv" by simp
    from moves_on [OF this] show ?thesis using move lv' step by (simp add: mod_Suc_eq nexts_had_def)
  qed
qed

lemma cyclic_return:
  fixes i k n :: nat
  assumes "i < n"
  shows "(i + k) mod n = i \<longleftrightarrow> k mod n = 0"
proof
  assume "(i + k) mod n = i"
  then have "(i + k) mod n = i mod n" using assms by simp
  then have "n dvd i + k - i" by (subst (asm) mod_eq_dvd_iff_nat) simp_all
  then show "k mod n = 0" by (simp add: dvd_imp_mod_0)
next
  assume "k mod n = 0"
  then show "(i + k) mod n = i" using assms mod_add_right_eq [of i k n] by simp
qed

text \<open>A stream inserted and erased again leaves a queue with the same streams, whose level keeps
  the order id on file.\<close>

lemma insert_erase_order_id:
  assumes "pq_inv q" "valid_priority p" "0 < pri_orderId p" "writableStreamsToLevel q i = None"
    and "q' = pq_erase i (insertOrUpdate i p q)"
  shows "pq_inv q'" "writableStreamsToLevel q' = writableStreamsToLevel q"
    "streamToOrderId (levels q' ! priority2index p) i = Some (pri_orderId p)"
proof -
  let ?q = "insertOrUpdate i p q" and ?j = "priority2index p"
  have fresh: "order_fresh i p q" using assms(3) by (simp add: order_fresh_def)
  note ins = insertOrUpdate_inv [OF assms(1,2) fresh]
  note era = pq_erase_inv [OF ins(1), of i]
  show "pq_inv q'" "writableStreamsToLevel q' = writableStreamsToLevel q"
    unfolding assms(5) using era(1,2) ins(2) assms(4) by auto
  have j: "?j < 16" by (rule priority2index_bound [OF assms(2)])
  have len: "length (levels q) = 16" "length (levels ?q) = 16" "length (levels q') = 16"
    unfolding assms(5) by (rule pq_invD(4) [OF _ j]; use assms(1) ins(1) era(1) in blast)+
  then have "streamToOrderId (levels q' ! ?j) = streamToOrderId (levels ?q ! ?j)"
    using era(3) j unfolding assms(5) by (metis nth_map)
  then show "streamToOrderId (levels q' ! ?j) i = Some (pri_orderId p)"
    using assms(3,4) j len(1) by (simp add: insertOrUpdate_def Let_def)
qed

text \<open>If a level has a positive order id on file for a stream that is inserted with order id
  zero, an erasure does not find the stream.\<close>

lemma stale_erase:
  assumes "pq_inv q" "valid_priority p" "pri_orderId p = 0" "writableStreamsToLevel q i = None"
    and "streamToOrderId (levels q ! priority2index p) i = Some oid" "0 < oid"
    and "q' = pq_erase i (insertOrUpdate i p q)"
  shows "q' = q\<lparr>levels := (levels q)[priority2index p := level_insert i 0 (levels q ! priority2index p)]\<rparr>"
proof -
  let ?j = "priority2index p"
  let ?l = "level_insert i 0 (levels q ! ?j)"
  have j: "?j < 16" by (rule priority2index_bound [OF assms(2)])
  note lv = pq_invD [OF assms(1) j]
  have "\<lparr>os_streamId = i, os_orderId = oid\<rparr> \<notin> set (streams (levels q ! ?j))"
    using lv(2) assms(4) by (force simp: level_ids_def)
  then have "getOrderedStream i ?l \<notin> set (streams ?l)"
    using oset_insert_spec [of "streams (levels q ! ?j)"] lv(1) assms(5,6)
    by (simp add: getOrderedStream_def level_inv_def)
  then show ?thesis
    using assms(3,4) j lv(4)
    by (simp add: assms(7) insertOrUpdate_def pq_erase_def eraseFromLevel_alt Let_def fun_upd_idem)
qed

section \<open>Properties\<close>

text \<open>C25: the queue implements a map from streams to levels. Take any history of insertions
  with valid priorities and erasures in which each stream is inserted either always with order
  id zero or always with a positive one, whatever the levels. In the queue it leaves,
  \<^verbatim>\<open>count\<close> and \<^verbatim>\<open>empty\<close> answer as the map does that the same history builds; the streams on
  each level, each once, are the ones the map puts there, in the order of the scheduler; and
  the invariant holds, so that \<^verbatim>\<open>erase\<close> finds every queued stream on its level.\<close>

theorem priority_queue_refines_map:
  assumes "pq.uniform h" and "\<forall>(i, op) \<in> set h. \<forall>p. op = Some p \<longrightarrow> valid_priority p"
    and "q = pq.run h emptyPriorityQueue" and "m = foldl abs_step Map.empty h"
  shows "pq_inv q \<and> writableStreamsToLevel q = m \<and>
    (\<forall>i. pq_count i q = (if m i = None then 0 else 1)) \<and> (pq_empty q \<longleftrightarrow> m = Map.empty) \<and>
    (\<forall>j < kDefaultPriorityLevelsSize. level_ids (levels q ! j) = {i. m i = Some j} \<and>
       distinct (map os_streamId (streams (levels q ! j))) \<and>
       sorted_wrt ordered_stream_cmp (streams (levels q ! j)))"
proof -
  have "pq_fits i p emptyPriorityQueue" if "(i, Some p) \<in> set h" for i p
    using bspec [OF assms(2) that]
    by (auto simp: pq_fits_def emptyPriorityQueue_def emptyLevel_def simp del: upt_rec_numeral)
  then have "\<forall>(i, op) \<in> set h. \<forall>p. op = Some p \<longrightarrow> pq_fits i p emptyPriorityQueue" by auto
  from pq.run_spec [OF pq_inv_empty assms(1) this]
  have inv: "pq_inv q" and m: "writableStreamsToLevel q = m"
    unfolding assms(3,4) by (simp_all add: emptyPriorityQueue_def)
  have "level_ids (levels q ! j) = {i. m i = Some j} \<and> distinct (map os_streamId (streams (levels q ! j))) \<and>
      oset (streams (levels q ! j))" if "j < kDefaultPriorityLevelsSize" for j
    using that pq_invD(1,2) [OF inv, of j] level_inv_ids_distinct [of "levels q ! j"] m
    by (simp add: level_inv_def)
  with inv m show ?thesis by (simp add: pq_count_def pq_empty_def)
qed

text \<open>C26: the scheduler never starves a higher level. On a queue that satisfies the
  invariant, \<^verbatim>\<open>getNextScheduledStream\<close> aborts exactly if the queue is empty; otherwise it
  returns a queued stream of the lowest non-empty level, on a sequential level the one that is
  first by order id and stream id, on an incremental level the one the iterator of the level
  stands at (the first if it stands nowhere), and the invariant and the queued streams
  stay.\<close>

theorem next_scheduled_highest_priority:
  assumes "pq_inv q"
  shows "(pq_empty q \<and> getNextScheduledStream q = Inl CheckFailed) \<or>
    (\<exists>i j q'. getNextScheduledStream q = Inr (i, q') \<and> writableStreamsToLevel q i = Some j \<and>
       (\<forall>i' j'. writableStreamsToLevel q i' = Some j' \<longrightarrow> j \<le> j') \<and>
       i = os_streamId (if even j \<or> nextStreamIt (levels q ! j) = None then hd (streams (levels q ! j))
         else the (nextStreamIt (levels q ! j))) \<and>
       pq_inv q' \<and> writableStreamsToLevel q' = writableStreamsToLevel q)"
proof -
  let ?P = "\<lambda>l. streams l = []" and ?ls = "levels q"
  let ?j = "length (takeWhile ?P ?ls)"
  have len: "length ?ls = 16" using pq_invD(4) [OF assms, of 0] by simp
  have ids: "i' \<in> level_ids (?ls ! j') \<and> j' < 16" if "writableStreamsToLevel q i' = Some j'" for i' j'
    using pq_inv_bound [OF assms that] pq_invD(2) [OF assms, of j'] that by simp
  have before: "\<forall>k < ?j. streams (?ls ! k) = []"
    using nth_mem [of _ "takeWhile ?P ?ls"] by (auto simp: takeWhile_nth dest: set_takeWhileD)
  show ?thesis
  proof (cases "?j < length ?ls")
    case False
    then have "?j = length ?ls" using length_takeWhile_le [of ?P ?ls] by simp
    then have "writableStreamsToLevel q i = None" for i
      using ids [of i] before len by (cases "writableStreamsToLevel q i") (auto simp: level_ids_def)
    with False show ?thesis by (auto simp: pq_empty_def getNextScheduledStream_def Let_def check_def)
  next
    case True
    then have j: "?j < 16" and ne: "streams (?ls ! ?j) \<noteq> []" using len nth_length_takeWhile [of ?P ?ls] by auto
    note lv = pq_invD [OF assms j]
    obtain x where x: "x \<in> set (streams (?ls ! ?j))" "nextStreamIt (iter_begin (?ls ! ?j)) = Some x"
      "x = (if \<not> incremental (?ls ! ?j) \<or> nextStreamIt (?ls ! ?j) = None then hd (streams (?ls ! ?j))
        else the (nextStreamIt (?ls ! ?j)))"
      using iter_begin_current [OF lv(1) ne] by blast
    let ?q = "q\<lparr>levels := ?ls[?j := iter_begin (?ls ! ?j)]\<rparr>"
    have "getNextScheduledStream q = Inr (os_streamId x, ?q)"
      using True x(2) by (simp add: getNextScheduledStream_def iter_current_def check_def Let_def)
    moreover have "writableStreamsToLevel q (os_streamId x) = Some ?j"
      using lv(2) x(1) by (auto simp: level_ids_def)
    moreover have "?j \<le> j'" if "writableStreamsToLevel q i' = Some j'" for i' j'
      using ids [OF that] before by (cases "j' < ?j") (auto simp: level_ids_def)
    moreover have "os_streamId x = os_streamId (if even ?j \<or> nextStreamIt (?ls ! ?j) = None
        then hd (streams (?ls ! ?j)) else the (nextStreamIt (?ls ! ?j)))"
      unfolding x(3) using lv(3) by simp
    moreover have "pq_inv ?q" by (rule pq_inv_begin [OF assms j])
    moreover have "writableStreamsToLevel ?q = writableStreamsToLevel q" by simp
    ultimately show ?thesis by blast
  qed
qed

text \<open>C32: round robin on an incremental level, forced and unforced. \<^verbatim>\<open>begin()\<close> leaves the
  iterator where it stands, or at the first stream if it stands nowhere; call that position
  \<open>i\<close>. After any number \<open>k\<close> of \<^verbatim>\<open>next(true)\<close> the iterator stands \<open>k\<close> streams further in cyclic
  order. After \<open>k\<close> of \<^verbatim>\<open>next(false)\<close> it stands \<open>(t + k) div m\<close> streams further, where \<open>m\<close> is
  \<^verbatim>\<open>maxNextsPerStream\<close> (at least one) and \<open>t\<close> the calls the stream had before (at most \<open>m - 1\<close>
  of them count), and \<^verbatim>\<open>nextsSoFar\<close> is the remainder: each stream gets \<open>m\<close> calls in turn.
  \<^verbatim>\<open>end()\<close> answers true exactly when the number of streams passed is a multiple of the number of
  streams on the level, so that a traversal visits each stream exactly once.\<close>

theorem incremental_round_robin:
  assumes "level_inv lv" and "incremental lv" and "streams lv \<noteq> []"
    and "n = length (streams lv)" and "m = max 1 (lv_maxNextsPerStream lv)"
    and "t = min (nextsSoFar lv) (m - 1)"
  shows "distinct (streams lv) \<and>
    (\<exists>i < n. streams lv ! i = (if nextStreamIt lv = None then hd (streams lv) else the (nextStreamIt lv)) \<and>
      (\<forall>k. \<exists>lv'. iter_steps True k (iter_begin lv) = Inr lv' \<and>
         nextStreamIt lv' = Some (streams lv ! ((i + k) mod n)) \<and> (0 < k \<longrightarrow> nextsSoFar lv' = 0) \<and>
         iter_end lv' = (k mod n = 0)) \<and>
      (\<forall>k. \<exists>lv'. iter_steps False k (iter_begin lv) = Inr lv' \<and>
         nextStreamIt lv' = Some (streams lv ! ((i + (t + k) div m) mod n)) \<and>
         (0 < k \<longrightarrow> nextsSoFar lv' = (t + k) mod m) \<and>
         iter_end lv' = ((t + k) div m mod n = 0)))"
proof -
  let ?xs = "streams lv" and ?b = "iter_begin lv"
  obtain x where x: "x \<in> set ?xs" "nextStreamIt ?b = Some x"
    "x = (if nextStreamIt lv = None then hd ?xs else the (nextStreamIt lv))"
    using iter_begin_current [OF assms(1,3)] assms(2) by auto
  then obtain i where i: "i < n" "?xs ! i = x" unfolding assms(4) by (auto simp: in_set_conv_nth)
  have o: "oset ?xs" and d: "distinct ?xs" using assms(1) oset_distinct by (auto simp: level_inv_def)
  have start: "startStreamIt ?b = Some (?xs ! i)" and nexts: "nextsSoFar ?b = nextsSoFar lv"
    "lv_maxNextsPerStream ?b = lv_maxNextsPerStream lv"
    using x(2) i(2) assms(2) by (auto simp: iter_begin_def Let_def)
  have al: "nexts_allowed ?b = m" "nexts_had ?b = t"
    using nexts assms(5,6) by (simp_all add: nexts_allowed_def nexts_had_def)
  have steps: "\<exists>lv'. iter_steps force k ?b = Inr lv' \<and>
      nextStreamIt lv' = Some (?xs ! ((i + moves force k ?b) mod n)) \<and>
      (0 < k \<longrightarrow> nextsSoFar lv' = (if force then 0 else (t + k) mod m)) \<and>
      iter_end lv' = (moves force k ?b mod n = 0)" for force k
  proof -
    obtain lv' where lv': "iter_steps force k ?b = Inr lv'"
      "nextStreamIt lv' = Some (?xs ! ((i + moves force k ?b) mod n))"
      "0 < k \<longrightarrow> nextsSoFar lv' = (if force then 0 else (t + k) mod m)"
      "incremental lv'" "startStreamIt lv' = Some (?xs ! i)"
      using iter_steps_incremental [of ?b i force k] o assms(2,4) i x(2) start al by auto
    have "(i + moves force k ?b) mod n < length ?xs" "i < length ?xs"
      unfolding assms(4) [symmetric] using i(1) by simp_all
    then have "iter_end lv' = ((i + moves force k ?b) mod n = i)"
      using lv'(2,4,5) by (simp add: iter_end_def nth_eq_iff_index_eq [OF d])
    with lv' show ?thesis by (simp add: cyclic_return [OF i(1)])
  qed
  show ?thesis
    using d i x(3) steps [of True] steps [of False] by (auto simp: moves_def al)
qed

text \<open>C35: order ids go stale. \<^verbatim>\<open>eraseFromLevel\<close> removes the stream from the level's set but
  not from its map of order ids. On any queue that satisfies the invariant, let a stream that is
  not queued be inserted with a positive order id, erased, inserted on the same level with order
  id zero, and erased again. The last \<^verbatim>\<open>erase\<close> looks for it under the old order id and does not
  find it: the map of queued streams is what it was at the start, so \<^verbatim>\<open>count\<close> is zero, but the
  stream is still on its level; if every stream that is queued is on a less urgent level, in
  particular if none is, the scheduler returns the stream that is not queued.\<close>

theorem stale_order_id_leaks_stream:
  assumes "pq_inv q0" and "writableStreamsToLevel q0 i = None"
    and "valid_priority p" and "0 < pri_orderId p"
    and "p' = p\<lparr>pri_orderId := 0\<rparr>"
    and "q = pq_erase i (insertOrUpdate i p' (pq_erase i (insertOrUpdate i p q0)))"
  shows "writableStreamsToLevel q = writableStreamsToLevel q0 \<and> pq_count i q = 0 \<and>
    i \<in> level_ids (levels q ! priority2index p) \<and>
    ((\<forall>i' j. writableStreamsToLevel q0 i' = Some j \<longrightarrow> priority2index p < j) \<longrightarrow>
       (\<exists>q'. getNextScheduledStream q = Inr (i, q')))"
proof -
  let ?q1 = "pq_erase i (insertOrUpdate i p q0)" and ?j = "priority2index p"
  let ?l = "level_insert i 0 (levels ?q1 ! ?j)"
  note q1 = insert_erase_order_id [OF assms(1,3,4,2) refl]
  have p': "priority2index p' = ?j" "valid_priority p'" "pri_orderId p' = 0"
    using assms(3) by (simp_all add: assms(5) priority2index_def valid_priority_def)
  have none: "writableStreamsToLevel ?q1 i = None" using q1(2) assms(2) by simp
  have q: "q = ?q1\<lparr>levels := (levels ?q1)[?j := ?l]\<rparr>"
    using stale_erase [OF q1(1) p'(2,3) none _ assms(4,6)] q1(3) p'(1) by simp
  have j: "?j < 16" by (rule priority2index_bound [OF assms(3)])
  note lv = pq_invD [OF q1(1) j]
  have o: "oset (streams (levels ?q1 ! ?j))" using lv(1) by (simp add: level_inv_def)
  let ?x = "\<lparr>os_streamId = i, os_orderId = 0\<rparr>"
  have "set (streams ?l) = insert ?x (set (streams (levels ?q1 ! ?j)))"
    using oset_insert_spec [OF o, of ?x] by simp
  then have "i \<in> level_ids (levels q ! ?j)" using j lv(4) by (force simp: q level_ids_def)
  moreover have "\<exists>q'. getNextScheduledStream q = Inr (i, q')"
    if up: "\<forall>i' j. writableStreamsToLevel q0 i' = Some j \<longrightarrow> ?j < j"
  proof -
    have e: "streams (levels ?q1 ! k) = []" if "k \<le> ?j" for k
    proof -
      have "level_ids (levels ?q1 ! k) = {}"
        using pq_invD(2) [OF q1(1), of k] that j up unfolding q1(2) by fastforce
      then show ?thesis by (simp add: level_ids_def)
    qed
    have n: "nextStreamIt (levels ?q1 ! ?j) = None"
      using lv(1) e [of ?j] by (auto simp: level_inv_def split: option.splits)
    have l: "streams ?l = [?x]" by (simp add: e oset_insert_def lower_bound_def insert_at_def)
    then have "length (takeWhile (\<lambda>l. streams l = []) (levels q)) = ?j"
      using j lv(4) e by (intro first_level) (auto simp: q)
    moreover have "iter_current (iter_begin ?l) = Some i"
      using l n by (simp add: iter_begin_def iter_current_def Let_def)
    ultimately show ?thesis using j lv(4) by (simp add: getNextScheduledStream_def q check_def Let_def)
  qed
  ultimately show ?thesis using q1(2) assms(2) by (simp add: q pq_count_def)
qed

text \<open>A history with two streams on one level and a third above them.\<close>

definition example_history :: "(StreamId \<times> Priority option) list" where
  "example_history = [(8, Some (mkPriority 3 True 0)), (4, Some (mkPriority 3 True 0)),
     (0, Some (mkPriority 1 False 5)), (8, Some (mkPriority 2 False 0)), (0, None)]"

lemma example_history_ok:
  "pq.uniform example_history" "\<forall>(i, op) \<in> set example_history. \<forall>p. op = Some p \<longrightarrow> valid_priority p"
proof -
  show "pq.uniform example_history"
    unfolding pq.uniform_def by (auto simp: example_history_def mkPriority_def)
  show "\<forall>(i, op) \<in> set example_history. \<forall>p. op = Some p \<longrightarrow> valid_priority p"
    by (simp add: example_history_def)
qed

theorem priority_queue_refines_map_witness:
  "writableStreamsToLevel (pq.run example_history emptyPriorityQueue) = [4 \<mapsto> 7, 8 \<mapsto> 4] \<and>
   pq_count 0 (pq.run example_history emptyPriorityQueue) = 0 \<and>
   pq_count 8 (pq.run example_history emptyPriorityQueue) = 1 \<and>
   \<not> pq_empty (pq.run example_history emptyPriorityQueue) \<and>
   level_ids (levels (pq.run example_history emptyPriorityQueue) ! 4) = {8}"
proof -
  have m: "foldl abs_step Map.empty example_history = [4 \<mapsto> 7, 8 \<mapsto> 4]"
    by (auto simp: example_history_def priority2index_def mkPriority_def)
  note w = priority_queue_refines_map [OF example_history_ok refl refl, unfolded m]
  have "level_ids (levels (pq.run example_history emptyPriorityQueue) ! 4) = {i. [4 \<mapsto> 7, 8 \<mapsto> 4 :: nat] i = Some 4}"
    using w by simp
  also have "\<dots> = {8 :: nat}" by (auto split: if_splits)
  finally show ?thesis using w by (auto simp: fun_eq_iff)
qed

lemma example_queue:
  "pq_inv (insertOrUpdate 4 kDefaultPriority emptyPriorityQueue)"
  "writableStreamsToLevel (insertOrUpdate 4 kDefaultPriority emptyPriorityQueue) = [4 \<mapsto> 7]"
proof -
  have "order_fresh 4 kDefaultPriority emptyPriorityQueue"
    by (simp add: order_fresh_def kDefaultPriority_def mkPriority_def priority2index_def
        emptyPriorityQueue_def emptyLevel_def del: upt_rec_numeral)
  note ins = insertOrUpdate_inv [OF pq_inv_empty _ this]
  show "pq_inv (insertOrUpdate 4 kDefaultPriority emptyPriorityQueue)"
    by (rule ins(1)) (simp add: kDefaultPriority_def)
  show "writableStreamsToLevel (insertOrUpdate 4 kDefaultPriority emptyPriorityQueue) = [4 \<mapsto> 7]"
    using ins(2) by (simp add: kDefaultPriority_def mkPriority_def priority2index_def emptyPriorityQueue_def
        valid_priority_def)
qed

theorem next_scheduled_highest_priority_witness:
  "\<exists>q'. getNextScheduledStream (insertOrUpdate 4 kDefaultPriority emptyPriorityQueue) = Inr (4, q')"
  using next_scheduled_highest_priority [OF example_queue(1)] example_queue(2)
  by (auto simp: pq_empty_def split: if_splits)

text \<open>Two streams on a level that gives each of them two calls; the first has had one.\<close>

definition example_level :: Level where
  "example_level = (emptyLevel 7)\<lparr>streams := [\<lparr>os_streamId = 4, os_orderId = 0\<rparr>, \<lparr>os_streamId = 8, os_orderId = 0\<rparr>],
     lv_maxNextsPerStream := 2, nextsSoFar := 1\<rparr>"

lemma example_level_ok: "level_inv example_level" "incremental example_level" "streams example_level \<noteq> []"
  by (simp_all add: example_level_def emptyLevel_def level_inv_def getOrderedStream_def ordered_stream_cmp_def)

definition stream_after :: "bool \<Rightarrow> nat \<Rightarrow> Level \<Rightarrow> StreamId option" where
  "stream_after force k lv = (case iter_steps force k (iter_begin lv) of Inl _ \<Rightarrow> None | Inr lv' \<Rightarrow> iter_current lv')"

theorem incremental_round_robin_witness:
  "map (\<lambda>k. stream_after True k example_level) [0, 1, 2] = [Some 4, Some 8, Some 4] \<and>
   map (\<lambda>k. stream_after False k example_level) [0, 1, 2, 3, 4] = [Some 4, Some 8, Some 8, Some 4, Some 4]"
proof -
  let ?s = "[\<lparr>os_streamId = 4, os_orderId = 0\<rparr>, \<lparr>os_streamId = 8, os_orderId = 0\<rparr>]"
  have s: "streams example_level = ?s" "nextStreamIt example_level = None"
    "lv_maxNextsPerStream example_level = 2" "nextsSoFar example_level = 1"
    by (simp_all add: example_level_def emptyLevel_def)
  have "2 = length ?s" "2 = max 1 (2 :: nat)" "1 = min 1 (2 - 1 :: nat)" by simp_all
  note w = incremental_round_robin [OF example_level_ok, unfolded s, OF this]
  then obtain i where i: "i < 2" "?s ! i = hd ?s"
    "\<forall>k. \<exists>lv'. iter_steps True k (iter_begin example_level) = Inr lv' \<and>
       nextStreamIt lv' = Some (?s ! ((i + k) mod 2)) \<and> (0 < k \<longrightarrow> nextsSoFar lv' = 0) \<and> iter_end lv' = (k mod 2 = 0)"
    "\<forall>k. \<exists>lv'. iter_steps False k (iter_begin example_level) = Inr lv' \<and>
       nextStreamIt lv' = Some (?s ! ((i + (1 + k) div 2) mod 2)) \<and>
       (0 < k \<longrightarrow> nextsSoFar lv' = (1 + k) mod 2) \<and> iter_end lv' = ((1 + k) div 2 mod 2 = 0)"
    unfolding if_P [OF refl] by blast
  have "i = 0" using i(1,2) by (auto simp: less_2_cases_iff)
  then have "stream_after True k example_level = Some (os_streamId (?s ! (k mod 2)))"
    "stream_after False k example_level = Some (os_streamId (?s ! ((1 + k) div 2 mod 2)))" for k
    using spec [OF i(3), of k] spec [OF i(4), of k] by (auto simp: stream_after_def iter_current_def)
  then show ?thesis by simp
qed

theorem stale_order_id_leaks_stream_witness:
  "\<exists>q'. getNextScheduledStream (pq_erase 8 (insertOrUpdate 8 (mkPriority 1 True 0)
    (pq_erase 8 (insertOrUpdate 8 (mkPriority 1 True 9)
      (insertOrUpdate 4 kDefaultPriority emptyPriorityQueue))))) = Inr (8, q')"
proof -
  have "(mkPriority 1 True 9)\<lparr>pri_orderId := 0\<rparr> = mkPriority 1 True 0" by (simp add: mkPriority_def)
  then show ?thesis
    using stale_order_id_leaks_stream [OF example_queue(1) _ _ _ refl refl, of 8 "mkPriority 1 True 9"]
    by (simp add: example_queue(2) mkPriority_def valid_priority_def priority2index_def)
qed

end
