(* ===== verification/Stream_Data.thy ===== *)
theory Stream_Data
  imports Buf_Queue Interval_Set Priority_Queue
begin

text \<open>
  The per-stream data of \<^verbatim>\<open>quic/state/StreamData.h\<close>: buffer metadata, stream buffers, the state
  \<^verbatim>\<open>QuicStreamLike\<close> that application streams and crypto streams share, and \<^verbatim>\<open>QuicStreamState\<close>
  that extends it (as a record extension). Buffer queues appear as the bytes they hold
  (\<open>Buf_Queue\<close>), hash maps as partial maps, optional values as options, times as integers
  (microseconds). Offsets are sums of 62-bit offsets and buffer lengths and stay far below
  \<open>2 ^ 64\<close>, so they are plain natural numbers here.

  The contents of a list of buffers is the partial map \<open>bufs_at\<close> from stream offsets to bytes;
  the loss buffer operations are specified by it.
\<close>

section \<open>Model\<close>

record WriteBufferMeta =
  wbm_length :: nat
  wbm_offset :: nat
  wbm_eof :: bool

definition emptyWriteBufferMeta :: WriteBufferMeta where
  "emptyWriteBufferMeta = \<lparr>wbm_length = 0, wbm_offset = 0, wbm_eof = False\<rparr>"

definition WriteBufferMeta_build :: "nat \<Rightarrow> nat \<Rightarrow> bool \<Rightarrow> WriteBufferMeta" where
  "WriteBufferMeta_build len off e = \<lparr>wbm_length = len, wbm_offset = off, wbm_eof = e\<rparr>"

text \<open>The piece split off and what remains.\<close>

definition wbm_split :: "nat \<Rightarrow> WriteBufferMeta \<Rightarrow> (WriteBufferMeta \<times> WriteBufferMeta) res" where
  "wbm_split splitLen m =
     rbind (check (wbm_length m \<ge> splitLen)) (\<lambda>_.
       let splitEof = (splitLen = wbm_length m \<and> wbm_eof m);
           splitOf = WriteBufferMeta_build splitLen (wbm_offset m) splitEof
       in Inr (splitOf, m\<lparr>wbm_offset := wbm_offset m + splitLen, wbm_length := wbm_length m - splitLen\<rparr>))"

record StreamBuffer =
  sb_data :: "byte list"
  sb_offset :: nat
  sb_eof :: bool

definition sb_end :: "StreamBuffer \<Rightarrow> nat" where
  "sb_end b = sb_offset b + length (sb_data b)"

record QuicStreamLike =
  readBuffer :: "StreamBuffer list"
  writeBuffer :: "byte list"
  retransmissionBuffer :: "nat \<rightharpoonup> StreamBuffer"
  ackedIntervals :: IntervalSet
  lossBuffer :: "StreamBuffer list"
  currentWriteOffset :: nat
  minimumRetransmittableOffset :: nat
  currentReadOffset :: nat
  currentReceiveOffset :: nat
  maxOffsetObserved :: nat
  finalReadOffset :: "nat option"
  numPacketsTxWithNewData :: nat

definition updateAckedIntervals :: "nat \<Rightarrow> nat \<Rightarrow> bool \<Rightarrow> 'a QuicStreamLike_scheme \<Rightarrow> 'a QuicStreamLike_scheme res" where
  "updateAckedIntervals offset len eof stream =
     (let lenAdjustment = (if eof then 0 else 1)
      in if lenAdjustment \<noteq> 0 \<and> len = 0 then Inl CheckFailed
         else rbind (iset_insert_range offset (sub64 (add64 offset len) lenAdjustment) (ackedIntervals stream))
                (\<lambda>s. Inr (stream\<lparr>ackedIntervals := s\<rparr>)))"

definition loss_insert :: "StreamBuffer \<Rightarrow> StreamBuffer list \<Rightarrow> StreamBuffer list" where
  "loss_insert buf xs =
     (let lossItr = upper_bound (\<lambda>b. sb_offset buf < sb_offset b) xs
      in if xs \<noteq> [] \<and> lossItr \<noteq> 0 \<and> sb_end (xs ! (lossItr - 1)) = sb_offset buf
         then let prev = xs ! (lossItr - 1)
              in xs[lossItr - 1 := prev\<lparr>sb_data := sb_data prev @ sb_data buf, sb_eof := sb_eof buf\<rparr>]
         else insert_at lossItr buf xs)"

definition insertIntoLossBuffer :: "StreamBuffer \<Rightarrow> 'a QuicStreamLike_scheme \<Rightarrow> 'a QuicStreamLike_scheme" where
  "insertIntoLossBuffer buf stream = stream\<lparr>lossBuffer := loss_insert buf (lossBuffer stream)\<rparr>"

text \<open>The loop of \<^verbatim>\<open>removeFromLossBuffer\<close> at iterator \<open>i\<close>.\<close>

function loss_remove_loop :: "nat \<Rightarrow> nat \<Rightarrow> bool \<Rightarrow> nat \<Rightarrow> StreamBuffer list \<Rightarrow> StreamBuffer list" where
  "loss_remove_loop offset len eof i xs =
     (if i \<ge> length xs then xs
      else
        let b = xs ! i; lossStartOffset = sb_offset b; lossEndOffset = sb_end b;
            removedStartOffset = offset; removedEndOffset = offset + len
        in if lossStartOffset > removedEndOffset then xs
           else if (removedStartOffset \<ge> lossStartOffset \<and> removedEndOffset \<le> lossEndOffset) \<or>
                   (lossStartOffset \<ge> removedStartOffset \<and> lossEndOffset \<le> removedEndOffset)
           then
             let amountToSplit = (if removedStartOffset > lossStartOffset
                                  then removedStartOffset - lossStartOffset else 0);
                 splitBuf = take amountToSplit (sb_data b);
                 rest = drop amountToSplit (sb_data b);
                 b' = b\<lparr>sb_data := drop len rest,
                        sb_offset := sb_offset b + amountToSplit + min len (length rest)\<rparr>;
                 xs' = (if sb_data b' = [] \<and> sb_eof b' = eof then erase_range i (Suc i) xs else xs[i := b'])
             in if amountToSplit > 0
                then loss_insert \<lparr>sb_data = splitBuf, sb_offset = lossStartOffset, sb_eof = False\<rparr> xs'
                else xs'
           else loss_remove_loop offset len eof (Suc i) xs)"
  by pat_completeness auto

termination by (relation "measure (\<lambda>(_, _, _, i, xs). length xs - i)") auto

declare loss_remove_loop.simps [simp del]

definition removeFromLossBuffer :: "nat \<Rightarrow> nat \<Rightarrow> bool \<Rightarrow> 'a QuicStreamLike_scheme \<Rightarrow> 'a QuicStreamLike_scheme" where
  "removeFromLossBuffer offset len eof stream =
     (if lossBuffer stream = [] \<or> len = 0 then stream
      else stream\<lparr>lossBuffer := loss_remove_loop offset len eof 0 (lossBuffer stream)\<rparr>)"

datatype StreamSendState = SendOpen | SendResetSent | SendClosed | SendInvalid
datatype StreamRecvState = RecvOpen | RecvClosed | RecvInvalid

fun streamSendStateToString :: "StreamSendState \<Rightarrow> string" where
  "streamSendStateToString SendOpen = ''Open''"
| "streamSendStateToString SendResetSent = ''ResetSent''"
| "streamSendStateToString SendClosed = ''Closed''"
| "streamSendStateToString SendInvalid = ''Invalid''"

fun streamRecvStateToString :: "StreamRecvState \<Rightarrow> string" where
  "streamRecvStateToString RecvOpen = ''Open''"
| "streamRecvStateToString RecvClosed = ''Closed''"
| "streamRecvStateToString RecvInvalid = ''Invalid''"

record StreamFlowControlState =
  sfc_windowSize :: nat
  sfc_advertisedMaxOffset :: nat
  sfc_peerAdvertisedMaxOffset :: nat
  sfc_timeOfLastFlowControlUpdate :: "int option"

type_synonym ApplicationErrorCode = nat

text \<open>The reference to the connection is not a field: the operations take the connection next to
  the stream. The DSR sender is an object of the application; the stream only knows whether it
  has one.\<close>

record QuicStreamState = QuicStreamLike +
  st_id :: StreamId
  groupId :: "StreamGroupId option"
  finalWriteOffset :: "nat option"
  flowControlState :: StreamFlowControlState
  streamReadError :: "ApplicationErrorCode option"
  streamWriteError :: "ApplicationErrorCode option"
  sendState :: StreamSendState
  recvState :: StreamRecvState
  isControl :: bool
  lastHolbTime :: "int option"
  totalHolbTime :: int
  holbCount :: nat
  priority :: Priority
  streamPacketIdx :: nat
  dsrSender :: bool
  writeBufMeta :: WriteBufferMeta
  retransmissionBufMetas :: "nat \<rightharpoonup> WriteBufferMeta"
  lossBufMetas :: "WriteBufferMeta list"
  streamLossCount :: nat

definition inTerminalStates :: "QuicStreamState \<Rightarrow> bool" where
  "inTerminalStates s \<longleftrightarrow> (sendState s = SendClosed \<or> sendState s = SendInvalid) \<and>
     (recvState s = RecvClosed \<or> recvState s = RecvInvalid)"

definition writable :: "QuicStreamState \<Rightarrow> bool" where
  "writable s \<longleftrightarrow> sendState s = SendOpen \<and> finalWriteOffset s = None"

definition shouldSendFlowControl :: "QuicStreamState \<Rightarrow> bool" where
  "shouldSendFlowControl s \<longleftrightarrow> recvState s = RecvOpen"

definition hasWritableData :: "QuicStreamState \<Rightarrow> bool res" where
  "hasWritableData s =
     (if writeBuffer s \<noteq> [] then
        rbind (check (sfc_peerAdvertisedMaxOffset (flowControlState s) \<ge> currentWriteOffset s))
          (\<lambda>_. Inr (sfc_peerAdvertisedMaxOffset (flowControlState s) - currentWriteOffset s > 0))
      else case finalWriteOffset s of
        Some f \<Rightarrow> Inr (wbm_offset (writeBufMeta s) = 0 \<and> currentWriteOffset s \<le> f)
      | None \<Rightarrow> Inr False)"

definition hasWritableBufMeta :: "QuicStreamState \<Rightarrow> bool res" where
  "hasWritableBufMeta s =
     (let m = writeBufMeta s
      in if wbm_offset m = 0 then Inr False
         else if wbm_length m > 0 then
           rbind (check (sfc_peerAdvertisedMaxOffset (flowControlState s) \<ge> wbm_offset m))
             (\<lambda>_. Inr (sfc_peerAdvertisedMaxOffset (flowControlState s) - wbm_offset m > 0))
         else case finalWriteOffset s of
           Some f \<Rightarrow> Inr (wbm_offset m \<le> f)
         | None \<Rightarrow> Inr False)"

definition hasSchedulableData :: "QuicStreamState \<Rightarrow> bool res" where
  "hasSchedulableData s = rbind (hasWritableData s) (\<lambda>w. Inr (w \<or> lossBuffer s \<noteq> []))"

definition hasSchedulableDsr :: "QuicStreamState \<Rightarrow> bool res" where
  "hasSchedulableDsr s = rbind (hasWritableBufMeta s) (\<lambda>w. Inr (w \<or> lossBufMetas s \<noteq> []))"

definition hasSentFIN :: "QuicStreamState \<Rightarrow> bool" where
  "hasSentFIN s = (case finalWriteOffset s of
      None \<Rightarrow> False
    | Some f \<Rightarrow> currentWriteOffset s > f \<or> wbm_offset (writeBufMeta s) > f)"

definition hasLoss :: "QuicStreamState \<Rightarrow> bool" where
  "hasLoss s \<longleftrightarrow> lossBuffer s \<noteq> [] \<or> lossBufMetas s \<noteq> []"

definition nextOffsetToWrite :: "QuicStreamState \<Rightarrow> nat" where
  "nextOffsetToWrite s =
     (if wbm_offset (writeBufMeta s) = 0 then currentWriteOffset s
      else if writeBuffer s \<noteq> [] then currentWriteOffset s
      else wbm_offset (writeBufMeta s))"

definition hasReadableData :: "QuicStreamState \<Rightarrow> bool" where
  "hasReadableData s \<longleftrightarrow>
     (readBuffer s \<noteq> [] \<and> currentReadOffset s = sb_offset (hd (readBuffer s))) \<or>
     (case finalReadOffset s of None \<Rightarrow> False | Some f \<Rightarrow> currentReadOffset s = f)"

definition hasPeekableData :: "QuicStreamState \<Rightarrow> bool" where
  "hasPeekableData s \<longleftrightarrow> readBuffer s \<noteq> []"

definition lossMeta_insert :: "WriteBufferMeta \<Rightarrow> WriteBufferMeta list \<Rightarrow> WriteBufferMeta list" where
  "lossMeta_insert bufMeta xs =
     (let lossItr = upper_bound (\<lambda>b. wbm_offset bufMeta < wbm_offset b) xs
      in if xs \<noteq> [] \<and> lossItr \<noteq> 0 \<and>
            wbm_offset (xs ! (lossItr - 1)) + wbm_length (xs ! (lossItr - 1)) = wbm_offset bufMeta
         then let prev = xs ! (lossItr - 1)
              in xs[lossItr - 1 := prev\<lparr>wbm_length := wbm_length prev + wbm_length bufMeta, wbm_eof := wbm_eof bufMeta\<rparr>]
         else insert_at lossItr bufMeta xs)"

definition insertIntoLossBufMeta :: "WriteBufferMeta \<Rightarrow> QuicStreamState \<Rightarrow> QuicStreamState" where
  "insertIntoLossBufMeta bufMeta s = s\<lparr>lossBufMetas := lossMeta_insert bufMeta (lossBufMetas s)\<rparr>"

section \<open>Contents of buffers\<close>

text \<open>The bytes of a segment that starts at offset \<open>start\<close>, as a map from stream offsets.\<close>

definition seg_at :: "nat \<Rightarrow> 'b list \<Rightarrow> (nat \<rightharpoonup> 'b)" where
  "seg_at start d = (\<lambda>i. if start \<le> i \<and> i < start + length d then Some (d ! (i - start)) else None)"

definition buf_at :: "StreamBuffer \<Rightarrow> (nat \<rightharpoonup> byte)" where
  "buf_at b = seg_at (sb_offset b) (sb_data b)"

fun bufs_at :: "StreamBuffer list \<Rightarrow> (nat \<rightharpoonup> byte)" where
  "bufs_at [] = Map.empty"
| "bufs_at (b # bs) = buf_at b ++ bufs_at bs"

definition buf_range :: "StreamBuffer \<Rightarrow> nat set" where
  "buf_range b = {sb_offset b..<sb_end b}"

lemma seg_at_Nil [simp]: "seg_at n [] = Map.empty"
  by (rule ext) (simp add: seg_at_def)

lemma dom_seg_at: "dom (seg_at n d) = {n..<n + length d}"
  by (auto simp: seg_at_def dom_def)

lemma seg_at_append: "seg_at n (d @ e) = seg_at n d ++ seg_at (n + length d) e"
  by (rule ext) (auto simp: seg_at_def map_add_def nth_append split: option.splits)

lemma seg_at_take_drop: "k \<le> length d \<Longrightarrow> seg_at n d = seg_at n (take k d) ++ seg_at (n + k) (drop k d)"
  using seg_at_append [of n "take k d" "drop k d"] by simp

lemma dom_buf_at [simp]: "dom (buf_at b) = buf_range b"
  by (simp add: buf_at_def dom_seg_at buf_range_def sb_end_def)

lemma buf_at_empty: "sb_data b = [] \<Longrightarrow> buf_at b = Map.empty"
  by (simp add: buf_at_def)

lemma bufs_at_append [simp]: "bufs_at (xs @ ys) = bufs_at xs ++ bufs_at ys"
  by (induction xs) (simp_all add: map_add_assoc)

lemma dom_bufs_at: "dom (bufs_at xs) = (\<Union>b \<in> set xs. buf_range b)"
  by (induction xs) auto

definition ordered_bufs :: "StreamBuffer list \<Rightarrow> bool" where
  "ordered_bufs xs \<longleftrightarrow> sorted_wrt (\<lambda>a b. sb_end a \<le> sb_offset b) xs"

lemma ordered_bufs_Nil [simp]: "ordered_bufs []"
  by (simp add: ordered_bufs_def)

lemma ordered_bufs_Cons [simp]:
  "ordered_bufs (x # xs) \<longleftrightarrow> (\<forall>b \<in> set xs. sb_end x \<le> sb_offset b) \<and> ordered_bufs xs"
  by (simp add: ordered_bufs_def)

lemma ordered_bufs_append [simp]:
  "ordered_bufs (xs @ ys) \<longleftrightarrow> ordered_bufs xs \<and> ordered_bufs ys \<and>
     (\<forall>a \<in> set xs. \<forall>b \<in> set ys. sb_end a \<le> sb_offset b)"
  by (simp add: ordered_bufs_def sorted_wrt_append)

lemma sb_offset_le_end [simp]: "sb_offset b \<le> sb_end b"
  by (simp add: sb_end_def)

lemma map_add_swap:
  assumes "dom f \<inter> dom g = {}"
  shows "f ++ g = g ++ f"
  using assms by (rule map_add_comm)

section \<open>The loss buffer\<close>

definition no_overlap :: "StreamBuffer \<Rightarrow> StreamBuffer \<Rightarrow> bool" where
  "no_overlap buf b \<longleftrightarrow> sb_end b \<le> sb_offset buf \<or> (sb_end buf \<le> sb_offset b \<and> sb_offset buf < sb_offset b)"

lemma upper_bound_split:
  assumes "ordered_bufs xs"
  obtains A B where "xs = A @ B" "upper_bound (\<lambda>b. n < sb_offset b) xs = length A"
    "\<forall>a \<in> set A. sb_offset a \<le> n" "\<forall>b \<in> set B. n < sb_offset b"
proof -
  let ?p = "\<lambda>b. \<not> n < sb_offset b"
  let ?A = "takeWhile ?p xs" and ?B = "dropWhile ?p xs"
  have "ordered_bufs (?A @ ?B)" using assms by simp
  then have o: "ordered_bufs ?B" unfolding ordered_bufs_append by blast
  have "\<forall>b \<in> set ?B. n < sb_offset b"
  proof (cases ?B)
    case (Cons b B)
    have "n < sb_offset b" using hd_dropWhile [of ?p xs] Cons by simp
    then show ?thesis using o unfolding Cons by (auto intro: less_le_trans [OF _ order_trans [OF sb_offset_le_end]])
  next
    case Nil
    show ?thesis unfolding Nil by simp
  qed
  moreover have "\<forall>a \<in> set ?A. sb_offset a \<le> n" by (auto dest: set_takeWhileD)
  moreover have "xs = ?A @ ?B" by simp
  moreover have "upper_bound (\<lambda>b. n < sb_offset b) xs = length ?A" by (simp add: upper_bound_def)
  ultimately show ?thesis using that by blast
qed

lemma loss_insert_cut:
  assumes "ordered_bufs xs" "\<forall>b \<in> set xs. no_overlap buf b"
  obtains A B where "xs = A @ B" "\<forall>a \<in> set A. sb_end a \<le> sb_offset buf"
    "\<forall>b \<in> set B. sb_end buf \<le> sb_offset b \<and> sb_offset buf < sb_offset b"
    "loss_insert buf xs = (if A \<noteq> [] \<and> sb_end (last A) = sb_offset buf
       then butlast A @ (last A)\<lparr>sb_data := sb_data (last A) @ sb_data buf, sb_eof := sb_eof buf\<rparr> # B
       else A @ buf # B)"
proof -
  obtain A B where AB: "xs = A @ B" "upper_bound (\<lambda>b. sb_offset buf < sb_offset b) xs = length A"
    "\<forall>a \<in> set A. sb_offset a \<le> sb_offset buf" "\<forall>b \<in> set B. sb_offset buf < sb_offset b"
    by (rule upper_bound_split [OF assms(1)])
  have A: "\<forall>a \<in> set A. sb_end a \<le> sb_offset buf"
  proof
    fix a assume a: "a \<in> set A"
    with assms(2) AB(1) have "no_overlap buf a" by simp
    moreover have "sb_offset a \<le> sb_offset buf" using AB(3) a by blast
    ultimately show "sb_end a \<le> sb_offset buf" unfolding no_overlap_def by linarith
  qed
  have B: "\<forall>b \<in> set B. sb_end buf \<le> sb_offset b \<and> sb_offset buf < sb_offset b"
  proof
    fix b assume b: "b \<in> set B"
    with assms(2) AB(1) have "no_overlap buf b" by simp
    moreover have "sb_offset buf < sb_offset b" using AB(4) b by blast
    ultimately show "sb_end buf \<le> sb_offset b \<and> sb_offset buf < sb_offset b"
      using sb_offset_le_end [of b] unfolding no_overlap_def by linarith
  qed
  have "loss_insert buf xs = (if A \<noteq> [] \<and> sb_end (last A) = sb_offset buf
       then butlast A @ (last A)\<lparr>sb_data := sb_data (last A) @ sb_data buf, sb_eof := sb_eof buf\<rparr> # B
       else A @ buf # B)"
  proof (cases "A = []")
    case True
    then show ?thesis using AB(1,2) by (simp add: loss_insert_def insert_at_def)
  next
    case False
    then obtain C l where A': "A = C @ [l]" by (cases A rule: rev_cases) auto
    then show ?thesis using AB(1,2) by (simp add: loss_insert_def insert_at_def nth_append list_update_append)
  qed
  with AB(1) A B show ?thesis by (rule that)
qed

lemma loss_insert_spec:
  assumes "ordered_bufs xs" "\<forall>b \<in> set xs. no_overlap buf b"
  shows "ordered_bufs (loss_insert buf xs) \<and> bufs_at (loss_insert buf xs) = bufs_at xs ++ buf_at buf"
proof -
  obtain A B where AB: "xs = A @ B" "\<forall>a \<in> set A. sb_end a \<le> sb_offset buf"
    "\<forall>b \<in> set B. sb_end buf \<le> sb_offset b \<and> sb_offset buf < sb_offset b"
    "loss_insert buf xs = (if A \<noteq> [] \<and> sb_end (last A) = sb_offset buf
       then butlast A @ (last A)\<lparr>sb_data := sb_data (last A) @ sb_data buf, sb_eof := sb_eof buf\<rparr> # B
       else A @ buf # B)"
    by (rule loss_insert_cut [OF assms])
  have swap: "bufs_at B ++ buf_at buf = buf_at buf ++ bufs_at B"
    using AB(3) by (intro map_add_swap) (force simp: dom_bufs_at buf_range_def)
  show ?thesis
  proof (cases "A \<noteq> [] \<and> sb_end (last A) = sb_offset buf")
    case True
    then obtain C l where A': "A = C @ [l]" by (cases A rule: rev_cases) auto
    let ?m = "l\<lparr>sb_data := sb_data l @ sb_data buf, sb_eof := sb_eof buf\<rparr>"
    have "loss_insert buf xs = C @ ?m # B" using AB(4) True A' by simp
    moreover have l: "sb_offset buf = sb_offset l + length (sb_data l)" "sb_end ?m = sb_end buf"
      using True A' by (simp_all add: sb_end_def)
    moreover have "buf_at ?m = buf_at l ++ buf_at buf"
      using l(1) by (simp add: buf_at_def seg_at_append)
    ultimately show ?thesis
      using assms(1) AB(1,3) A' swap by (auto simp flip: map_add_assoc)
  next
    case False
    then have "loss_insert buf xs = A @ buf # B" using AB(4) by (simp only: if_False)
    then show ?thesis using assms(1) AB(1-3) swap by (auto simp flip: map_add_assoc)
  qed
qed

text \<open>The removed range meets one buffer, which contains it or is contained in it.\<close>

definition removable :: "nat \<Rightarrow> nat \<Rightarrow> StreamBuffer \<Rightarrow> bool" where
  "removable offset len b \<longleftrightarrow> (sb_offset b \<le> offset \<and> offset + len \<le> sb_end b) \<or>
     (offset \<le> sb_offset b \<and> sb_end b \<le> offset + len)"

lemma loss_remove_skip:
  assumes "\<forall>a \<in> set A. sb_data a \<noteq> [] \<and> sb_end a \<le> offset" "0 < len" "i \<le> length A"
  shows "loss_remove_loop offset len eof i (A @ ys) = loss_remove_loop offset len eof (length A) (A @ ys)"
  using assms(3)
proof (induction "length A - i" arbitrary: i)
  case (Suc n)
  then have i: "i < length A" by simp
  let ?a = "A ! i"
  have a: "sb_data ?a \<noteq> []" "sb_end ?a \<le> offset" using assms(1) i by simp_all
  then have lt: "sb_offset ?a < sb_end ?a" by (simp add: sb_end_def)
  have "loss_remove_loop offset len eof i (A @ ys) = loss_remove_loop offset len eof (Suc i) (A @ ys)"
    using i a lt assms(2) by (subst loss_remove_loop.simps) (simp add: Let_def nth_append)
  with Suc i show ?case by simp
qed simp

lemma seg_cut_out:
  assumes "(n \<le> off \<and> off + len \<le> n + length d) \<or> (off \<le> n \<and> n + length d \<le> off + len)"
  shows "seg_at n d |` (- {off..<off + len}) =
    seg_at n (take (off - n) d) ++ seg_at (n + (off - n) + min len (length d - (off - n))) (drop len (drop (off - n) d))"
  using assms by (intro ext) (auto simp: seg_at_def restrict_map_def map_add_def split: option.splits)

lemma restrict_outside: "dom m \<inter> S = {} \<Longrightarrow> m |` (- S) = m"
  by (rule ext) (auto simp: restrict_map_def, metis IntI domI emptyE not_None_eq)

lemma restrict_map_add: "(f ++ g) |` S = f |` S ++ g |` S"
  by (rule ext) (auto simp: restrict_map_def map_add_def split: option.splits)

lemma bufs_outside:
  assumes "\<forall>b \<in> set xs. sb_end b \<le> off \<or> off + len \<le> sb_offset b"
  shows "bufs_at xs |` (- {off..<off + len}) = bufs_at xs"
  using assms by (intro restrict_outside) (auto simp: dom_bufs_at buf_range_def)

lemma loss_remove_at:
  assumes o: "ordered_bufs (A @ b # B)" and len: "0 < len" and rem: "removable offset len b"
    and A: "\<forall>a \<in> set A. sb_end a \<le> offset" and B: "\<forall>c \<in> set B. offset + len \<le> sb_offset c"
    and R_def: "R = loss_remove_loop offset len eof (length A) (A @ b # B)"
  shows "ordered_bufs R \<and> bufs_at R = bufs_at (A @ b # B) |` (- {offset..<offset + len})"
proof -
  let ?k = "offset - sb_offset b" and ?S = "- {offset..<offset + len}"
  define sp where "sp = \<lparr>sb_data = take ?k (sb_data b), sb_offset = sb_offset b, sb_eof = False\<rparr>"
  define b' where "b' = b\<lparr>sb_data := drop len (drop ?k (sb_data b)),
      sb_offset := sb_offset b + ?k + min len (length (drop ?k (sb_data b)))\<rparr>"
  define xs' where "xs' = (if sb_data b' = [] \<and> sb_eof b' = eof then A @ B else A @ b' # B)"
  have amount: "(if offset > sb_offset b then offset - sb_offset b else 0) = ?k" by simp
  have notbehind: "\<not> sb_offset b > offset + len" and cond: "(offset \<ge> sb_offset b \<and> offset + len \<le> sb_end b) \<or>
      (sb_offset b \<ge> offset \<and> sb_end b \<le> offset + len)"
    using rem sb_offset_le_end [of b] unfolding removable_def by linarith+
  have R: "R = (if ?k > 0 then loss_insert sp xs' else xs')"
    unfolding R_def
    by (subst loss_remove_loop.simps)
      (simp only: Let_def nth_append_length length_append list.size if_not_P [OF notbehind] if_P [OF cond]
        amount sp_def b'_def xs'_def list_update_length erase_range_def, simp add: drop_Cons')
  have ends: "sb_end b' = sb_end b" "sb_offset b \<le> sb_offset b'" "sb_offset b + ?k \<le> sb_offset b'"
    "sb_end sp \<le> sb_offset b + ?k" "sb_end sp \<le> sb_end b"
    using rem unfolding removable_def b'_def sp_def sb_end_def by auto
  have o': "ordered_bufs xs'"
    using o ends(1,2) unfolding xs'_def by (auto intro: order_trans)
  have cut: "buf_at b |` ?S = buf_at sp ++ buf_at b'"
    using seg_cut_out [of "sb_offset b" offset len "sb_data b"] rem
    unfolding removable_def buf_at_def sp_def b'_def sb_end_def by simp
  have b'0: "sb_data b' = [] \<Longrightarrow> buf_at b' = Map.empty" by (rule buf_at_empty)
  have xs'_at: "bufs_at xs' = bufs_at A ++ buf_at b' ++ bufs_at B"
    unfolding xs'_def using b'0 by simp
  have goal: "bufs_at (A @ b # B) |` ?S = bufs_at A ++ (buf_at sp ++ buf_at b') ++ bufs_at B"
    using A B by (simp add: restrict_map_add bufs_outside cut)
  show ?thesis
  proof (cases "?k > 0")
    case False
    then have "buf_at sp = Map.empty" by (simp add: sp_def buf_at_def)
    with False show ?thesis using o' xs'_at goal R by simp
  next
    case True
    then have k: "?k \<le> length (sb_data b)" "sb_end sp = sb_offset b + ?k"
      using rem unfolding removable_def sp_def sb_end_def by auto
    have "no_overlap sp c" if "c \<in> set xs'" for c
    proof -
      have "c \<in> set A \<or> c = b' \<or> c \<in> set B" using that by (auto simp: xs'_def split: if_splits)
      then show ?thesis
      proof (elim disjE)
        assume "c \<in> set A" then show ?thesis using o by (auto simp: no_overlap_def sp_def)
      next
        assume "c = b'" then show ?thesis using ends(3) True k(2) by (auto simp: no_overlap_def sp_def)
      next
        assume "c \<in> set B"
        then have "sb_end b \<le> sb_offset c" using o by simp
        then show ?thesis using ends(5) True k by (auto simp: no_overlap_def sp_def)
      qed
    qed
    with loss_insert_spec [OF o', of sp] have ins: "ordered_bufs R" "bufs_at R = bufs_at xs' ++ buf_at sp"
      using True R by simp_all
    have "dom (buf_at b' ++ bufs_at B) \<inter> dom (buf_at sp) = {}"
    proof -
      have "\<forall>c \<in> set B. sb_end sp \<le> sb_offset c" using o ends(5) by (auto intro: order_trans)
      moreover have "sb_end sp \<le> sb_offset b'" using ends(3,4) by simp
      ultimately show ?thesis by (force simp: dom_bufs_at buf_range_def)
    qed
    then have "(buf_at b' ++ bufs_at B) ++ buf_at sp = buf_at sp ++ (buf_at b' ++ bufs_at B)"
      by (rule map_add_swap)
    then show ?thesis unfolding goal ins(2) xs'_at using ins(1) by (simp flip: map_add_assoc)
  qed
qed

section \<open>Properties\<close>

text \<open>C27: the loss buffer. Inserting a lost buffer that does not overlap the ones already
  there (as happens to stream data, which is lost frame by frame) keeps the buffers sorted and
  disjoint and adds exactly its bytes at their offsets, whether or not it is merged with its
  predecessor.\<close>

theorem loss_buffer_insert:
  assumes "ordered_bufs (lossBuffer st)" and "\<forall>b \<in> set (lossBuffer st). no_overlap buf b"
  shows "ordered_bufs (lossBuffer (insertIntoLossBuffer buf st)) \<and>
    bufs_at (lossBuffer (insertIntoLossBuffer buf st)) = bufs_at (lossBuffer st) ++ buf_at buf"
  using loss_insert_spec [OF assms] by (simp add: insertIntoLossBuffer_def)

text \<open>C28: removal from the loss buffer. If the removed range lies inside one of the lost
  buffers, or covers one of them and meets no other, exactly the bytes of the range leave the
  loss buffer and the remaining buffers stay sorted and disjoint, also when the range is cut out
  of the middle of a buffer.\<close>

theorem loss_buffer_remove:
  assumes "lossBuffer st = A @ b # B" and "ordered_bufs (lossBuffer st)" and "0 < len"
    and "removable offset len b"
    and "\<forall>a \<in> set A. sb_data a \<noteq> [] \<and> sb_end a \<le> offset"
    and "\<forall>c \<in> set B. offset + len \<le> sb_offset c"
  shows "ordered_bufs (lossBuffer (removeFromLossBuffer offset len eof st)) \<and>
    bufs_at (lossBuffer (removeFromLossBuffer offset len eof st)) =
      bufs_at (lossBuffer st) |` (- {offset..<offset + len})"
proof -
  have "\<forall>a \<in> set A. sb_end a \<le> offset" using assms(5) by blast
  with loss_remove_at [of A b B len offset _ eof, OF _ _ _ _ _ refl] assms loss_remove_skip [OF assms(5,3), of 0 eof "b # B"]
  show ?thesis by (simp add: removeFromLossBuffer_def)
qed

definition example_stream :: QuicStreamLike where
  "example_stream = \<lparr>readBuffer = [], writeBuffer = [], retransmissionBuffer = Map.empty,
     ackedIntervals = emptyIntervalSet,
     lossBuffer = [\<lparr>sb_data = [10, 11, 12, 13], sb_offset = 4, sb_eof = False\<rparr>], currentWriteOffset = 20,
     minimumRetransmittableOffset = 0, currentReadOffset = 0, currentReceiveOffset = 0,
     maxOffsetObserved = 0, finalReadOffset = None, numPacketsTxWithNewData = 0\<rparr>"

theorem loss_buffer_insert_witness:
  "bufs_at (lossBuffer (insertIntoLossBuffer \<lparr>sb_data = [14], sb_offset = 8, sb_eof = True\<rparr> example_stream)) =
   bufs_at (lossBuffer example_stream) ++ buf_at \<lparr>sb_data = [14], sb_offset = 8, sb_eof = True\<rparr>"
  using loss_buffer_insert [of example_stream "\<lparr>sb_data = [14], sb_offset = 8, sb_eof = True\<rparr>"]
  by (simp add: example_stream_def no_overlap_def sb_end_def)

theorem loss_buffer_remove_witness:
  "bufs_at (lossBuffer (removeFromLossBuffer 5 2 False example_stream)) =
   bufs_at (lossBuffer example_stream) |` (- {5..<5 + 2})"
  using loss_buffer_remove [of example_stream "[]" "\<lparr>sb_data = [10, 11, 12, 13], sb_offset = 4, sb_eof = False\<rparr>" "[]" 2 5 False]
  by (simp add: example_stream_def removable_def sb_end_def)

end
