(* ===== verification/Quic_Frames.thy ===== *)
theory Quic_Frames
  imports Quic_Integer Stream_Utilities
begin

text \<open>
  Frame types and frames of \<^verbatim>\<open>quic/QuicConstants.h\<close> and \<^verbatim>\<open>quic/codec/Types.h\<close>, and the type byte
  of stream frames (\<^verbatim>\<open>StreamTypeField\<close>, \<^verbatim>\<open>Types.cpp\<close>). Buffers are the bytes they hold. The
  frames a reader produces (\<open>QuicFrame\<close>) and the ones a writer takes (\<open>QuicWriteFrame\<close>) are two
  types, as in the code: acknowledgement, crypto and stream frames differ between the two.
\<close>

section \<open>Frame types\<close>

text \<open>The enumerators with their values; a code that is not among them is an unknown frame.\<close>

datatype FrameType =
    FT_PADDING | FT_PING | FT_ACK | FT_ACK_ECN
  | FT_RST_STREAM | FT_STOP_SENDING | FT_CRYPTO_FRAME | FT_NEW_TOKEN
  | FT_STREAM | FT_STREAM_FIN | FT_STREAM_LEN | FT_STREAM_LEN_FIN
  | FT_STREAM_OFF | FT_STREAM_OFF_FIN | FT_STREAM_OFF_LEN | FT_STREAM_OFF_LEN_FIN
  | FT_MAX_DATA | FT_MAX_STREAM_DATA | FT_MAX_STREAMS_BIDI | FT_MAX_STREAMS_UNI
  | FT_DATA_BLOCKED | FT_STREAM_DATA_BLOCKED | FT_STREAMS_BLOCKED_BIDI | FT_STREAMS_BLOCKED_UNI
  | FT_NEW_CONNECTION_ID | FT_RETIRE_CONNECTION_ID | FT_PATH_CHALLENGE | FT_PATH_RESPONSE
  | FT_CONNECTION_CLOSE | FT_CONNECTION_CLOSE_APP_ERR | FT_HANDSHAKE_DONE | FT_DATAGRAM
  | FT_DATAGRAM_LEN | FT_KNOB | FT_IMMEDIATE_ACK | FT_ACK_FREQUENCY
  | FT_GROUP_STREAM | FT_GROUP_STREAM_FIN | FT_GROUP_STREAM_LEN | FT_GROUP_STREAM_LEN_FIN
  | FT_GROUP_STREAM_OFF | FT_GROUP_STREAM_OFF_FIN | FT_GROUP_STREAM_OFF_LEN | FT_GROUP_STREAM_OFF_LEN_FIN
  | FT_ACK_RECEIVE_TIMESTAMPS

fun frameTypeCode :: "FrameType \<Rightarrow> nat" where
  "frameTypeCode FT_PADDING = 0"
| "frameTypeCode FT_PING = 1"
| "frameTypeCode FT_ACK = 2"
| "frameTypeCode FT_ACK_ECN = 3"
| "frameTypeCode FT_RST_STREAM = 4"
| "frameTypeCode FT_STOP_SENDING = 5"
| "frameTypeCode FT_CRYPTO_FRAME = 6"
| "frameTypeCode FT_NEW_TOKEN = 7"
| "frameTypeCode FT_STREAM = 8"
| "frameTypeCode FT_STREAM_FIN = 9"
| "frameTypeCode FT_STREAM_LEN = 10"
| "frameTypeCode FT_STREAM_LEN_FIN = 11"
| "frameTypeCode FT_STREAM_OFF = 12"
| "frameTypeCode FT_STREAM_OFF_FIN = 13"
| "frameTypeCode FT_STREAM_OFF_LEN = 14"
| "frameTypeCode FT_STREAM_OFF_LEN_FIN = 15"
| "frameTypeCode FT_MAX_DATA = 16"
| "frameTypeCode FT_MAX_STREAM_DATA = 17"
| "frameTypeCode FT_MAX_STREAMS_BIDI = 18"
| "frameTypeCode FT_MAX_STREAMS_UNI = 19"
| "frameTypeCode FT_DATA_BLOCKED = 20"
| "frameTypeCode FT_STREAM_DATA_BLOCKED = 21"
| "frameTypeCode FT_STREAMS_BLOCKED_BIDI = 22"
| "frameTypeCode FT_STREAMS_BLOCKED_UNI = 23"
| "frameTypeCode FT_NEW_CONNECTION_ID = 24"
| "frameTypeCode FT_RETIRE_CONNECTION_ID = 25"
| "frameTypeCode FT_PATH_CHALLENGE = 26"
| "frameTypeCode FT_PATH_RESPONSE = 27"
| "frameTypeCode FT_CONNECTION_CLOSE = 28"
| "frameTypeCode FT_CONNECTION_CLOSE_APP_ERR = 29"
| "frameTypeCode FT_HANDSHAKE_DONE = 30"
| "frameTypeCode FT_DATAGRAM = 48"
| "frameTypeCode FT_DATAGRAM_LEN = 49"
| "frameTypeCode FT_KNOB = 5456"
| "frameTypeCode FT_IMMEDIATE_ACK = 172"
| "frameTypeCode FT_ACK_FREQUENCY = 175"
| "frameTypeCode FT_GROUP_STREAM = 50"
| "frameTypeCode FT_GROUP_STREAM_FIN = 51"
| "frameTypeCode FT_GROUP_STREAM_LEN = 52"
| "frameTypeCode FT_GROUP_STREAM_LEN_FIN = 53"
| "frameTypeCode FT_GROUP_STREAM_OFF = 54"
| "frameTypeCode FT_GROUP_STREAM_OFF_FIN = 55"
| "frameTypeCode FT_GROUP_STREAM_OFF_LEN = 56"
| "frameTypeCode FT_GROUP_STREAM_OFF_LEN_FIN = 57"
| "frameTypeCode FT_ACK_RECEIVE_TIMESTAMPS = 176"

definition allFrameTypes :: "FrameType list" where
  "allFrameTypes = [FT_PADDING, FT_PING, FT_ACK, FT_ACK_ECN,
     FT_RST_STREAM, FT_STOP_SENDING, FT_CRYPTO_FRAME, FT_NEW_TOKEN,
     FT_STREAM, FT_STREAM_FIN, FT_STREAM_LEN, FT_STREAM_LEN_FIN,
     FT_STREAM_OFF, FT_STREAM_OFF_FIN, FT_STREAM_OFF_LEN, FT_STREAM_OFF_LEN_FIN,
     FT_MAX_DATA, FT_MAX_STREAM_DATA, FT_MAX_STREAMS_BIDI, FT_MAX_STREAMS_UNI,
     FT_DATA_BLOCKED, FT_STREAM_DATA_BLOCKED, FT_STREAMS_BLOCKED_BIDI, FT_STREAMS_BLOCKED_UNI,
     FT_NEW_CONNECTION_ID, FT_RETIRE_CONNECTION_ID, FT_PATH_CHALLENGE, FT_PATH_RESPONSE,
     FT_CONNECTION_CLOSE, FT_CONNECTION_CLOSE_APP_ERR, FT_HANDSHAKE_DONE, FT_DATAGRAM,
     FT_DATAGRAM_LEN, FT_KNOB, FT_IMMEDIATE_ACK, FT_ACK_FREQUENCY,
     FT_GROUP_STREAM, FT_GROUP_STREAM_FIN, FT_GROUP_STREAM_LEN, FT_GROUP_STREAM_LEN_FIN,
     FT_GROUP_STREAM_OFF, FT_GROUP_STREAM_OFF_FIN, FT_GROUP_STREAM_OFF_LEN, FT_GROUP_STREAM_OFF_LEN_FIN,
     FT_ACK_RECEIVE_TIMESTAMPS]"

definition frameTypeOfCode :: "nat \<Rightarrow> FrameType option" where
  "frameTypeOfCode c = find (\<lambda>t. frameTypeCode t = c) allFrameTypes"

lemma frameTypeOfCode_code [simp]: "frameTypeOfCode (frameTypeCode t) = Some t"
  by (cases t) (simp_all add: frameTypeOfCode_def allFrameTypes_def)

lemma frameTypeOfCode_Some: "frameTypeOfCode c = Some t \<longleftrightarrow> frameTypeCode t = c"
  by (auto simp: frameTypeOfCode_def find_Some_iff dest: sym)
    (metis frameTypeOfCode_code frameTypeOfCode_def find_Some_iff)

section \<open>The type byte of stream frames\<close>

definition kFinBit :: byte where "kFinBit = 0x01"
definition kDataLengthBit :: byte where "kDataLengthBit = 0x02"
definition kOffsetBit :: byte where "kOffsetBit = 0x04"

type_synonym StreamTypeField = byte

definition hasFin :: "StreamTypeField \<Rightarrow> bool" where
  "hasFin field \<longleftrightarrow> field AND kFinBit \<noteq> 0"

definition hasDataLength :: "StreamTypeField \<Rightarrow> bool" where
  "hasDataLength field \<longleftrightarrow> field AND kDataLengthBit \<noteq> 0"

definition hasOffset :: "StreamTypeField \<Rightarrow> bool" where
  "hasOffset field \<longleftrightarrow> field AND kOffsetBit \<noteq> 0"

text \<open>The builder: where it starts, and what each setter does to the byte.\<close>

definition stf_builder :: StreamTypeField where
  "stf_builder = word_of_nat (frameTypeCode FT_STREAM)"

definition switchToStreamGroups :: "StreamTypeField \<Rightarrow> StreamTypeField" where
  "switchToStreamGroups field = word_of_nat (frameTypeCode FT_GROUP_STREAM)"

definition setFin :: "StreamTypeField \<Rightarrow> StreamTypeField" where
  "setFin field = field OR kFinBit"

definition setOffset :: "StreamTypeField \<Rightarrow> StreamTypeField" where
  "setOffset field = field OR kOffsetBit"

definition setLength :: "StreamTypeField \<Rightarrow> StreamTypeField" where
  "setLength field = field OR kDataLengthBit"

section \<open>Frames\<close>

type_synonym PacketNum = nat
type_synonym ConnectionId = "byte list"

definition kMaxConnectionIdSize :: nat where "kMaxConnectionIdSize = 20"
definition kStatelessResetTokenLength :: nat where "kStatelessResetTokenLength = 16"
definition kMaxMaxStreams :: nat where "kMaxMaxStreams = 2 ^ 60"
definition kMaxReasonPhraseLength :: nat where "kMaxReasonPhraseLength = 1024"
definition kDefaultAckDelayExponent :: nat where "kDefaultAckDelayExponent = 3"
definition kDefaultReceiveTimestampsExponent :: nat where "kDefaultReceiveTimestampsExponent = 3"

record KnobFrame =
  kf_knobSpace :: nat
  kf_id :: nat
  kf_len :: nat
  kf_blob :: "byte list"

definition mkKnobFrame :: "nat \<Rightarrow> nat \<Rightarrow> byte list \<Rightarrow> KnobFrame" where
  "mkKnobFrame space i blob = \<lparr>kf_knobSpace = space, kf_id = i, kf_len = length blob, kf_blob = blob\<rparr>"

record AckFrequencyFrame =
  af_sequenceNumber :: nat
  af_packetTolerance :: nat
  af_updateMaxAckDelay :: nat
  af_reorderThreshold :: nat

record AckBlock =
  ab_startPacket :: PacketNum
  ab_endPacket :: PacketNum

record RecvdPacketsTimestampsRange =
  tr_gap :: nat
  tr_timestamp_delta_count :: nat
  tr_deltas :: "nat list"

record ReadAckFrame =
  ra_largestAcked :: PacketNum
  ra_ackDelay :: nat
  ra_ackBlocks :: "AckBlock list"
  ra_frameType :: FrameType
  ra_maybeLatestRecvdPacketTime :: "nat option"
  ra_maybeLatestRecvdPacketNum :: "PacketNum option"
  ra_recvdPacketsTimestampRanges :: "RecvdPacketsTimestampsRange list"

record RstStreamFrame =
  rst_streamId :: StreamId
  rst_errorCode :: nat
  rst_offset :: nat

record StopSendingFrame =
  ss_streamId :: StreamId
  ss_errorCode :: nat

record ReadCryptoFrame =
  rc_offset :: nat
  rc_data :: "byte list"

record WriteCryptoFrame =
  wc_offset :: nat
  wc_len :: nat

record WriteStreamFrame =
  ws_streamId :: StreamId
  ws_streamGroupId :: "StreamGroupId option"
  ws_offset :: nat
  ws_len :: nat
  ws_fin :: bool
  ws_fromBufMeta :: bool
  ws_streamPacketIdx :: nat

record ReadStreamFrame =
  rs_streamId :: StreamId
  rs_streamGroupId :: "StreamGroupId option"
  rs_offset :: nat
  rs_data :: "byte list"
  rs_fin :: bool

record MaxStreamDataFrame =
  msd_streamId :: StreamId
  msd_maximumData :: nat

record MaxStreamsFrame =
  ms_maxStreams :: nat
  ms_isForBidirectional :: bool

record StreamDataBlockedFrame =
  sdb_streamId :: StreamId
  sdb_dataLimit :: nat

record StreamsBlockedFrame =
  sbf_streamLimit :: nat
  sbf_isForBidirectional :: bool

record NewConnectionIdFrame =
  nci_sequenceNumber :: nat
  nci_retirePriorTo :: nat
  nci_connectionId :: ConnectionId
  nci_token :: "byte list"

text \<open>The error code of a close frame is a transport, an application or a local one.\<close>

datatype QuicErrorCode = TransportCode nat | ApplicationCode nat | LocalCode nat

text \<open>The closing frame type is an enumeration of 64 bits whose values need not be enumerators.\<close>

record ConnectionCloseFrame =
  cc_errorCode :: QuicErrorCode
  cc_reasonPhrase :: "byte list"
  cc_closingFrameType :: nat

datatype QuicSimpleFrame =
    SF_StopSending StopSendingFrame
  | SF_PathChallenge nat
  | SF_PathResponse nat
  | SF_NewConnectionId NewConnectionIdFrame
  | SF_MaxStreams MaxStreamsFrame
  | SF_RetireConnectionId nat
  | SF_HandshakeDone
  | SF_Knob KnobFrame
  | SF_AckFrequency AckFrequencyFrame
  | SF_NewToken "byte list"

datatype QuicFrame =
    RF_Padding nat
  | RF_Ping
  | RF_Ack ReadAckFrame
  | RF_RstStream RstStreamFrame
  | RF_Crypto ReadCryptoFrame
  | RF_NewToken "byte list"
  | RF_Stream ReadStreamFrame
  | RF_MaxData nat
  | RF_MaxStreamData MaxStreamDataFrame
  | RF_DataBlocked nat
  | RF_StreamDataBlocked StreamDataBlockedFrame
  | RF_StreamsBlocked StreamsBlockedFrame
  | RF_ConnectionClose ConnectionCloseFrame
  | RF_Datagram "byte list"
  | RF_ImmediateAck
  | RF_Noop
  | RF_Simple QuicSimpleFrame

record WriteAckFrame =
  wa_ackBlocks :: "AckBlock list"
  wa_ackDelay :: nat
  wa_frameType :: FrameType
  wa_maybeLatestRecvdPacketTime :: "nat option"
  wa_maybeLatestRecvdPacketNum :: "PacketNum option"
  wa_recvdPacketsTimestampRanges :: "RecvdPacketsTimestampsRange list"

datatype QuicWriteFrame =
    WF_Padding nat
  | WF_Ping
  | WF_Ack WriteAckFrame
  | WF_RstStream RstStreamFrame
  | WF_Crypto WriteCryptoFrame
  | WF_Stream WriteStreamFrame
  | WF_MaxData nat
  | WF_MaxStreamData MaxStreamDataFrame
  | WF_DataBlocked nat
  | WF_StreamDataBlocked StreamDataBlockedFrame
  | WF_StreamsBlocked StreamsBlockedFrame
  | WF_ConnectionClose ConnectionCloseFrame
  | WF_Datagram "byte list"
  | WF_ImmediateAck
  | WF_Noop
  | WF_Simple QuicSimpleFrame

end
