(* ===== verification/Frame_Decode.thy ===== *)
theory Frame_Decode
  imports Quic_Frames Packet_Number "HOL-Library.Sublist"
begin

text \<open>
  The frame decoder of \<^verbatim>\<open>quic/codec/Decode.cpp\<close>. A decoder takes the bytes in front of the cursor
  and returns the frame and the bytes it leaves; the payload of a packet is one contiguous
  buffer. Every exception carries \<^verbatim>\<open>FRAME_ENCODING_ERROR\<close>; its text and the frame type it names
  are not modelled. Reading past the end of the buffer is \<open>OutOfRange\<close>, which \<open>parseFrame\<close> turns
  into \<^verbatim>\<open>FRAME_ENCODING_ERROR\<close> like every other exception.
\<close>

section \<open>Reading fields\<close>

definition encodingError :: quic_exn where
  "encodingError = QuicTransportException TE_FRAME_ENCODING_ERROR"

text \<open>\<^verbatim>\<open>decodeQuicInteger(cursor)\<close> followed by the throw when it gives nothing: the value, its
  length and the cursor.\<close>

definition readVarint :: "cursor \<Rightarrow> (nat \<times> nat \<times> cursor) res" where
  "readVarint cur = (case decodeQuicInteger cur 8 of
     (None, _) \<Rightarrow> Inl encodingError | (Some (v, n), cur') \<Rightarrow> Inr (v, n, cur'))"

text \<open>\<^verbatim>\<open>cursor.clone\<close>, \<^verbatim>\<open>cursor.pull\<close> and \<^verbatim>\<open>readFixedString\<close>: exactly that many bytes.\<close>

definition pull :: "nat \<Rightarrow> cursor \<Rightarrow> (byte list \<times> cursor) res" where
  "pull n cur = (if length cur < n then Inl OutOfRange else Inr (take n cur, drop n cur))"

section \<open>Frames\<close>

definition decodePaddingFrame :: "cursor \<Rightarrow> (QuicFrame \<times> cursor) res" where
  "decodePaddingFrame cur =
     (if cur = [] then Inr (RF_Padding 1, cur)
      else if hd cur \<noteq> 0 then Inr (RF_Padding 1, cur)
      else if take (length cur - 1) cur = tl cur then Inr (RF_Padding 1, [])
      else Inr (RF_Padding 1, cur))"

definition decodePingFrame :: "cursor \<Rightarrow> (QuicFrame \<times> cursor) res" where
  "decodePingFrame cur = Inr (RF_Ping, cur)"

definition decodeKnobFrame :: "cursor \<Rightarrow> (QuicFrame \<times> cursor) res" where
  "decodeKnobFrame cur =
     rbind (readVarint cur) (\<lambda>(knobSpace, _, cur).
     rbind (readVarint cur) (\<lambda>(knobId, _, cur).
     rbind (readVarint cur) (\<lambda>(knobLen, _, cur).
       Inr (RF_Simple (SF_Knob (mkKnobFrame knobSpace knobId (take knobLen cur))), drop knobLen cur))))"

definition decodeAckFrequencyFrame :: "cursor \<Rightarrow> (QuicFrame \<times> cursor) res" where
  "decodeAckFrequencyFrame cur =
     rbind (readVarint cur) (\<lambda>(sequenceNumber, _, cur).
     rbind (readVarint cur) (\<lambda>(packetTolerance, _, cur).
     rbind (readVarint cur) (\<lambda>(updateMaxAckDelay, _, cur).
     rbind (readVarint cur) (\<lambda>(reorderThreshold, _, cur).
       Inr (RF_Simple (SF_AckFrequency \<lparr>af_sequenceNumber = sequenceNumber, af_packetTolerance = packetTolerance,
              af_updateMaxAckDelay = updateMaxAckDelay, af_reorderThreshold = reorderThreshold\<rparr>), cur)))))"

definition decodeImmediateAckFrame :: "cursor \<Rightarrow> (QuicFrame \<times> cursor) res" where
  "decodeImmediateAckFrame cur = Inr (RF_ImmediateAck, cur)"

subsection \<open>Acknowledgements\<close>

definition nextAckedPacketGap :: "PacketNum \<Rightarrow> nat \<Rightarrow> PacketNum res" where
  "nextAckedPacketGap packetNum gap =
     (let adjustedGap = gap + 2
      in if packetNum < adjustedGap then Inl encodingError else Inr (packetNum - adjustedGap))"

definition nextAckedPacketLen :: "PacketNum \<Rightarrow> nat \<Rightarrow> PacketNum res" where
  "nextAckedPacketLen packetNum ackBlockLen =
     (if packetNum < ackBlockLen then Inl encodingError else Inr (packetNum - ackBlockLen))"

text \<open>Shifting a 64-bit value by 64 is undefined in the code (\<^verbatim>\<open>Decode.h\<close> requires the exponent not
  to be zero); it is a failed check here.\<close>

definition convertEncodedDurationToMicroseconds :: "nat \<Rightarrow> nat \<Rightarrow> nat res" where
  "convertEncodedDurationToMicroseconds exponentToUse delay =
     (let leftShift = 64 - exponentToUse
      in rbind (check (leftShift < 64 \<and> exponentToUse < 64)) (\<lambda>_.
           let delayOverflowMask = push_bit leftShift (- 1 :: 64 word)
           in if (word_of_nat delay :: 64 word) AND delayOverflowMask \<noteq> 0 then Inl encodingError
              else let adjustedDelay = unat (push_bit exponentToUse (word_of_nat delay :: 64 word))
                   in if adjustedDelay > 9223372036854775807 then Inl encodingError
                      else Inr adjustedDelay))"

datatype HeaderForm = HF_Long | HF_Short

record CodecParameters =
  peerAckDelayExponent :: nat
  receiveTimestampsExponent :: "nat option"

fun ackBlocksLoop :: "nat \<Rightarrow> PacketNum \<Rightarrow> cursor \<Rightarrow> (AckBlock list \<times> cursor) res" where
  "ackBlocksLoop 0 currentPacketNum cur = Inr ([], cur)"
| "ackBlocksLoop (Suc n) currentPacketNum cur =
     rbind (readVarint cur) (\<lambda>(currentGap, _, cur).
     rbind (readVarint cur) (\<lambda>(blockLen, _, cur).
     rbind (nextAckedPacketGap currentPacketNum currentGap) (\<lambda>nextEndPacket.
     rbind (nextAckedPacketLen nextEndPacket blockLen) (\<lambda>currentPacketNum.
     rbind (ackBlocksLoop n currentPacketNum cur) (\<lambda>(blocks, cur).
       Inr (\<lparr>ab_startPacket = currentPacketNum, ab_endPacket = nextEndPacket\<rparr> # blocks, cur))))))"

definition decodeAckFrame :: "cursor \<Rightarrow> HeaderForm \<Rightarrow> CodecParameters \<Rightarrow> FrameType \<Rightarrow> (ReadAckFrame \<times> cursor) res" where
  "decodeAckFrame cur header params frameType =
     rbind (readVarint cur) (\<lambda>(largestAcked, _, cur).
     rbind (readVarint cur) (\<lambda>(ackDelay, _, cur).
     rbind (readVarint cur) (\<lambda>(additionalAckBlocks, _, cur).
     rbind (readVarint cur) (\<lambda>(firstAckBlockLen, _, cur).
       let ackDelayExponentToUse = (if header = HF_Long then kDefaultAckDelayExponent
                                    else peerAckDelayExponent params)
       in rbind (nextAckedPacketLen largestAcked firstAckBlockLen) (\<lambda>currentPacketNum.
          rbind (convertEncodedDurationToMicroseconds ackDelayExponentToUse ackDelay) (\<lambda>adjustedDelay.
            let adjustedDelay = (if adjustedDelay > 1000 * 1000 * 1000 then 0 else adjustedDelay)
            in rbind (ackBlocksLoop additionalAckBlocks currentPacketNum cur) (\<lambda>(blocks, cur).
                 Inr (\<lparr>ra_largestAcked = largestAcked, ra_ackDelay = adjustedDelay,
                        ra_ackBlocks = \<lparr>ab_startPacket = currentPacketNum, ab_endPacket = largestAcked\<rparr> # blocks,
                        ra_frameType = frameType, ra_maybeLatestRecvdPacketTime = None,
                        ra_maybeLatestRecvdPacketNum = None, ra_recvdPacketsTimestampRanges = []\<rparr>, cur))))))))"

fun timestampDeltasLoop :: "nat \<Rightarrow> nat \<Rightarrow> cursor \<Rightarrow> (nat list \<times> cursor) res" where
  "timestampDeltasLoop 0 e cur = Inr ([], cur)"
| "timestampDeltasLoop (Suc n) e cur =
     rbind (readVarint cur) (\<lambda>(delta, _, cur).
     rbind (convertEncodedDurationToMicroseconds e delta) (\<lambda>adjustedDelta.
     rbind (timestampDeltasLoop n e cur) (\<lambda>(ds, cur). Inr (adjustedDelta # ds, cur))))"

fun timestampRangesLoop :: "nat \<Rightarrow> CodecParameters \<Rightarrow> cursor \<Rightarrow> (RecvdPacketsTimestampsRange list \<times> cursor) res" where
  "timestampRangesLoop 0 params cur = Inr ([], cur)"
| "timestampRangesLoop (Suc n) params cur =
     rbind (readVarint cur) (\<lambda>(receiveTimeStampsGap, _, cur).
     rbind (readVarint cur) (\<lambda>(receiveTimeStampsLen, _, cur).
       let e = (case receiveTimestampsExponent params of Some x \<Rightarrow> x | None \<Rightarrow> kDefaultReceiveTimestampsExponent)
       in rbind (timestampDeltasLoop receiveTimeStampsLen e cur) (\<lambda>(ds, cur).
          rbind (timestampRangesLoop n params cur) (\<lambda>(rs, cur).
            Inr (\<lparr>tr_gap = receiveTimeStampsGap, tr_timestamp_delta_count = receiveTimeStampsLen, tr_deltas = ds\<rparr> # rs, cur)))))"

definition decodeAckFrameWithReceivedTimestamps ::
  "cursor \<Rightarrow> HeaderForm \<Rightarrow> CodecParameters \<Rightarrow> FrameType \<Rightarrow> (ReadAckFrame \<times> cursor) res" where
  "decodeAckFrameWithReceivedTimestamps cur header params frameType =
     rbind (decodeAckFrame cur header params frameType) (\<lambda>(frame, cur).
     rbind (readVarint cur) (\<lambda>(latestRecvdPacketNum, _, cur).
     rbind (readVarint cur) (\<lambda>(latestRecvdPacketTimeDelta, _, cur).
     rbind (readVarint cur) (\<lambda>(timeStampRangeCount, _, cur).
     rbind (timestampRangesLoop timeStampRangeCount params cur) (\<lambda>(ranges, cur).
       Inr (frame\<lparr>ra_maybeLatestRecvdPacketNum := Some latestRecvdPacketNum,
                  ra_maybeLatestRecvdPacketTime := Some latestRecvdPacketTimeDelta,
                  ra_recvdPacketsTimestampRanges := ranges\<rparr>, cur))))))"

definition decodeAckFrameWithECN :: "cursor \<Rightarrow> HeaderForm \<Rightarrow> CodecParameters \<Rightarrow> (ReadAckFrame \<times> cursor) res" where
  "decodeAckFrameWithECN cur header params =
     rbind (decodeAckFrame cur header params FT_ACK) (\<lambda>(readAckFrame, cur).
     rbind (readVarint cur) (\<lambda>(ect_0, _, cur).
     rbind (readVarint cur) (\<lambda>(ect_1, _, cur).
     rbind (readVarint cur) (\<lambda>(ect_ce, _, cur). Inr (readAckFrame, cur)))))"

subsection \<open>Streams\<close>

definition decodeRstStreamFrame :: "cursor \<Rightarrow> (QuicFrame \<times> cursor) res" where
  "decodeRstStreamFrame cur =
     rbind (readVarint cur) (\<lambda>(streamId, _, cur).
     rbind (readVarint cur) (\<lambda>(errorCode, _, cur).
     rbind (readVarint cur) (\<lambda>(offset, _, cur).
       Inr (RF_RstStream \<lparr>rst_streamId = streamId, rst_errorCode = errorCode, rst_offset = offset\<rparr>, cur))))"

definition decodeStopSendingFrame :: "cursor \<Rightarrow> (QuicFrame \<times> cursor) res" where
  "decodeStopSendingFrame cur =
     rbind (readVarint cur) (\<lambda>(streamId, _, cur).
     rbind (readVarint cur) (\<lambda>(errorCode, _, cur).
       Inr (RF_Simple (SF_StopSending \<lparr>ss_streamId = streamId, ss_errorCode = errorCode\<rparr>), cur)))"

definition decodeCryptoFrame :: "cursor \<Rightarrow> (QuicFrame \<times> cursor) res" where
  "decodeCryptoFrame cur =
     rbind (readVarint cur) (\<lambda>(offset, _, cur).
     rbind (readVarint cur) (\<lambda>(dataLength, _, cur).
       if length cur < dataLength then Inl encodingError
       else rbind (pull dataLength cur) (\<lambda>(data, cur).
              Inr (RF_Crypto \<lparr>rc_offset = offset, rc_data = data\<rparr>, cur))))"

definition decodeNewTokenFrame :: "cursor \<Rightarrow> (QuicFrame \<times> cursor) res" where
  "decodeNewTokenFrame cur =
     rbind (readVarint cur) (\<lambda>(tokenLength, _, cur).
       if length cur < tokenLength then Inl encodingError
       else rbind (pull tokenLength cur) (\<lambda>(token, cur). Inr (RF_NewToken token, cur)))"

text \<open>An optional field: read if the flag says so.\<close>

definition readIf :: "bool \<Rightarrow> cursor \<Rightarrow> (nat option \<times> cursor) res" where
  "readIf flag cur = (if flag then rbind (readVarint cur) (\<lambda>(v, _, cur). Inr (Some v, cur)) else Inr (None, cur))"

definition decodeStreamFrame :: "cursor \<Rightarrow> StreamTypeField \<Rightarrow> bool \<Rightarrow> (QuicFrame \<times> cursor) res" where
  "decodeStreamFrame cur frameTypeField isGroupFrame =
     rbind (readVarint cur) (\<lambda>(streamId, _, cur).
     rbind (readIf isGroupFrame cur) (\<lambda>(gId, cur).
     rbind (readIf (hasOffset frameTypeField) cur) (\<lambda>(optionalOffset, cur).
     rbind (readIf (hasDataLength frameTypeField) cur) (\<lambda>(dataLength, cur).
       let mk = (\<lambda>data. RF_Stream \<lparr>rs_streamId = streamId, rs_streamGroupId = gId,
                    rs_offset = (case optionalOffset of Some x \<Rightarrow> x | None \<Rightarrow> 0),
                    rs_data = data, rs_fin = hasFin frameTypeField\<rparr>)
       in case dataLength of
            Some n \<Rightarrow> if length cur < n then Inl encodingError else Inr (mk (take n cur), drop n cur)
          | None \<Rightarrow> Inr (mk cur, [])))))"

definition decodeMaxDataFrame :: "cursor \<Rightarrow> (QuicFrame \<times> cursor) res" where
  "decodeMaxDataFrame cur = rbind (readVarint cur) (\<lambda>(maximumData, _, cur). Inr (RF_MaxData maximumData, cur))"

definition decodeMaxStreamDataFrame :: "cursor \<Rightarrow> (QuicFrame \<times> cursor) res" where
  "decodeMaxStreamDataFrame cur =
     rbind (readVarint cur) (\<lambda>(streamId, _, cur).
     rbind (readVarint cur) (\<lambda>(offset, _, cur).
       Inr (RF_MaxStreamData \<lparr>msd_streamId = streamId, msd_maximumData = offset\<rparr>, cur)))"

definition decodeBiDiMaxStreamsFrame :: "cursor \<Rightarrow> (QuicFrame \<times> cursor) res" where
  "decodeBiDiMaxStreamsFrame cur =
     rbind (readVarint cur) (\<lambda>(streamCount, _, cur).
       if streamCount > kMaxMaxStreams then Inl encodingError
       else Inr (RF_Simple (SF_MaxStreams \<lparr>ms_maxStreams = streamCount, ms_isForBidirectional = True\<rparr>), cur))"

definition decodeUniMaxStreamsFrame :: "cursor \<Rightarrow> (QuicFrame \<times> cursor) res" where
  "decodeUniMaxStreamsFrame cur =
     rbind (readVarint cur) (\<lambda>(streamCount, _, cur).
       if streamCount > kMaxMaxStreams then Inl encodingError
       else Inr (RF_Simple (SF_MaxStreams \<lparr>ms_maxStreams = streamCount, ms_isForBidirectional = False\<rparr>), cur))"

definition decodeDataBlockedFrame :: "cursor \<Rightarrow> (QuicFrame \<times> cursor) res" where
  "decodeDataBlockedFrame cur = rbind (readVarint cur) (\<lambda>(dataLimit, _, cur). Inr (RF_DataBlocked dataLimit, cur))"

definition decodeStreamDataBlockedFrame :: "cursor \<Rightarrow> (QuicFrame \<times> cursor) res" where
  "decodeStreamDataBlockedFrame cur =
     rbind (readVarint cur) (\<lambda>(streamId, _, cur).
     rbind (readVarint cur) (\<lambda>(dataLimit, _, cur).
       Inr (RF_StreamDataBlocked \<lparr>sdb_streamId = streamId, sdb_dataLimit = dataLimit\<rparr>, cur)))"

definition decodeBiDiStreamsBlockedFrame :: "cursor \<Rightarrow> (QuicFrame \<times> cursor) res" where
  "decodeBiDiStreamsBlockedFrame cur =
     rbind (readVarint cur) (\<lambda>(streamId, _, cur).
       Inr (RF_StreamsBlocked \<lparr>sbf_streamLimit = streamId, sbf_isForBidirectional = True\<rparr>, cur))"

definition decodeUniStreamsBlockedFrame :: "cursor \<Rightarrow> (QuicFrame \<times> cursor) res" where
  "decodeUniStreamsBlockedFrame cur =
     rbind (readVarint cur) (\<lambda>(streamId, _, cur).
       Inr (RF_StreamsBlocked \<lparr>sbf_streamLimit = streamId, sbf_isForBidirectional = False\<rparr>, cur))"

subsection \<open>Connection frames\<close>

text \<open>The constructor of a connection id from a cursor; a bad length is a runtime error.\<close>

definition ConnectionId_read :: "nat \<Rightarrow> cursor \<Rightarrow> (ConnectionId \<times> cursor) res" where
  "ConnectionId_read len cur =
     (if len = 0 then Inr ([], cur)
      else if len > kMaxConnectionIdSize then Inl InvalidArgument
      else pull len cur)"

definition decodeNewConnectionIdFrame :: "cursor \<Rightarrow> (QuicFrame \<times> cursor) res" where
  "decodeNewConnectionIdFrame cur =
     rbind (readVarint cur) (\<lambda>(sequenceNumber, _, cur).
     rbind (readVarint cur) (\<lambda>(retirePriorTo, _, cur).
       if length cur < 1 then Inl encodingError
       else let connIdLen = unat (hd cur); cur = tl cur
            in if length cur < connIdLen then Inl encodingError
               else if connIdLen > kMaxConnectionIdSize then Inl encodingError
               else rbind (ConnectionId_read connIdLen cur) (\<lambda>(connId, cur).
                    rbind (pull kStatelessResetTokenLength cur) (\<lambda>(token, cur).
                      Inr (RF_Simple (SF_NewConnectionId \<lparr>nci_sequenceNumber = sequenceNumber,
                             nci_retirePriorTo = retirePriorTo, nci_connectionId = connId, nci_token = token\<rparr>), cur)))))"

definition decodeRetireConnectionIdFrame :: "cursor \<Rightarrow> (QuicFrame \<times> cursor) res" where
  "decodeRetireConnectionIdFrame cur =
     rbind (readVarint cur) (\<lambda>(sequenceNum, _, cur). Inr (RF_Simple (SF_RetireConnectionId sequenceNum), cur))"

definition decodePathChallengeFrame :: "cursor \<Rightarrow> (QuicFrame \<times> cursor) res" where
  "decodePathChallengeFrame cur =
     (if length cur < 8 then Inl encodingError
      else Inr (RF_Simple (SF_PathChallenge (unat (readBE (take 8 cur)))), drop 8 cur))"

definition decodePathResponseFrame :: "cursor \<Rightarrow> (QuicFrame \<times> cursor) res" where
  "decodePathResponseFrame cur =
     (if length cur < 8 then Inl encodingError
      else Inr (RF_Simple (SF_PathResponse (unat (readBE (take 8 cur)))), drop 8 cur))"

definition decodeConnectionCloseFrame :: "cursor \<Rightarrow> (QuicFrame \<times> cursor) res" where
  "decodeConnectionCloseFrame cur =
     rbind (readVarint cur) (\<lambda>(errorCode, _, cur).
     rbind (readVarint cur) (\<lambda>(triggeringFrameType, n, cur).
       if n \<noteq> 1 then Inl encodingError
       else rbind (readVarint cur) (\<lambda>(reasonPhraseLength, _, cur).
              if reasonPhraseLength > kMaxReasonPhraseLength then Inl encodingError
              else rbind (pull reasonPhraseLength cur) (\<lambda>(reasonPhrase, cur).
                     Inr (RF_ConnectionClose \<lparr>cc_errorCode = TransportCode errorCode,
                            cc_reasonPhrase = reasonPhrase, cc_closingFrameType = triggeringFrameType\<rparr>, cur)))))"

definition decodeApplicationClose :: "cursor \<Rightarrow> (QuicFrame \<times> cursor) res" where
  "decodeApplicationClose cur =
     rbind (readVarint cur) (\<lambda>(errorCode, _, cur).
     rbind (readVarint cur) (\<lambda>(reasonPhraseLength, _, cur).
       if reasonPhraseLength > kMaxReasonPhraseLength then Inl encodingError
       else rbind (pull reasonPhraseLength cur) (\<lambda>(reasonPhrase, cur).
              Inr (RF_ConnectionClose \<lparr>cc_errorCode = ApplicationCode errorCode,
                     cc_reasonPhrase = reasonPhrase, cc_closingFrameType = frameTypeCode FT_PADDING\<rparr>, cur))))"

definition decodeHandshakeDoneFrame :: "cursor \<Rightarrow> (QuicFrame \<times> cursor) res" where
  "decodeHandshakeDoneFrame cur = Inr (RF_Simple SF_HandshakeDone, cur)"

definition parsePlaintextRetryOrNewToken :: "cursor \<Rightarrow> TransportErrorCode + nat \<times> cursor" where
  "parsePlaintextRetryOrNewToken cur =
     (if length cur < 8 then Inl TE_INVALID_TOKEN else Inr (unat (readBE (take 8 cur)), drop 8 cur))"

definition decodeDatagramFrame :: "cursor \<Rightarrow> bool \<Rightarrow> (QuicFrame \<times> cursor) res" where
  "decodeDatagramFrame cur hasLen =
     (if hasLen then
        rbind (readVarint cur) (\<lambda>(len, _, cur).
          if length cur < len then Inl encodingError
          else Inr (RF_Datagram (take len cur), drop len cur))
      else Inr (RF_Datagram cur, []))"

section \<open>Parsing a packet's payload\<close>

definition parseFrameBody :: "FrameType \<Rightarrow> nat \<Rightarrow> cursor \<Rightarrow> HeaderForm \<Rightarrow> CodecParameters \<Rightarrow> (QuicFrame \<times> cursor) res" where
  "parseFrameBody frameType code cur header params =
     (let ack = (\<lambda>r. rbind r (\<lambda>(f, c). Inr (RF_Ack f, c)));
          field = (word_of_nat code :: byte)
      in case frameType of
        FT_PADDING \<Rightarrow> decodePaddingFrame cur
      | FT_PING \<Rightarrow> decodePingFrame cur
      | FT_ACK \<Rightarrow> ack (decodeAckFrame cur header params FT_ACK)
      | FT_ACK_ECN \<Rightarrow> ack (decodeAckFrameWithECN cur header params)
      | FT_RST_STREAM \<Rightarrow> decodeRstStreamFrame cur
      | FT_STOP_SENDING \<Rightarrow> decodeStopSendingFrame cur
      | FT_CRYPTO_FRAME \<Rightarrow> decodeCryptoFrame cur
      | FT_NEW_TOKEN \<Rightarrow> decodeNewTokenFrame cur
      | FT_STREAM \<Rightarrow> decodeStreamFrame cur field False
      | FT_STREAM_FIN \<Rightarrow> decodeStreamFrame cur field False
      | FT_STREAM_LEN \<Rightarrow> decodeStreamFrame cur field False
      | FT_STREAM_LEN_FIN \<Rightarrow> decodeStreamFrame cur field False
      | FT_STREAM_OFF \<Rightarrow> decodeStreamFrame cur field False
      | FT_STREAM_OFF_FIN \<Rightarrow> decodeStreamFrame cur field False
      | FT_STREAM_OFF_LEN \<Rightarrow> decodeStreamFrame cur field False
      | FT_STREAM_OFF_LEN_FIN \<Rightarrow> decodeStreamFrame cur field False
      | FT_GROUP_STREAM \<Rightarrow> decodeStreamFrame cur field True
      | FT_GROUP_STREAM_FIN \<Rightarrow> decodeStreamFrame cur field True
      | FT_GROUP_STREAM_LEN \<Rightarrow> decodeStreamFrame cur field True
      | FT_GROUP_STREAM_LEN_FIN \<Rightarrow> decodeStreamFrame cur field True
      | FT_GROUP_STREAM_OFF \<Rightarrow> decodeStreamFrame cur field True
      | FT_GROUP_STREAM_OFF_FIN \<Rightarrow> decodeStreamFrame cur field True
      | FT_GROUP_STREAM_OFF_LEN \<Rightarrow> decodeStreamFrame cur field True
      | FT_GROUP_STREAM_OFF_LEN_FIN \<Rightarrow> decodeStreamFrame cur field True
      | FT_MAX_DATA \<Rightarrow> decodeMaxDataFrame cur
      | FT_MAX_STREAM_DATA \<Rightarrow> decodeMaxStreamDataFrame cur
      | FT_MAX_STREAMS_BIDI \<Rightarrow> decodeBiDiMaxStreamsFrame cur
      | FT_MAX_STREAMS_UNI \<Rightarrow> decodeUniMaxStreamsFrame cur
      | FT_DATA_BLOCKED \<Rightarrow> decodeDataBlockedFrame cur
      | FT_STREAM_DATA_BLOCKED \<Rightarrow> decodeStreamDataBlockedFrame cur
      | FT_STREAMS_BLOCKED_BIDI \<Rightarrow> decodeBiDiStreamsBlockedFrame cur
      | FT_STREAMS_BLOCKED_UNI \<Rightarrow> decodeUniStreamsBlockedFrame cur
      | FT_NEW_CONNECTION_ID \<Rightarrow> decodeNewConnectionIdFrame cur
      | FT_RETIRE_CONNECTION_ID \<Rightarrow> decodeRetireConnectionIdFrame cur
      | FT_PATH_CHALLENGE \<Rightarrow> decodePathChallengeFrame cur
      | FT_PATH_RESPONSE \<Rightarrow> decodePathResponseFrame cur
      | FT_CONNECTION_CLOSE \<Rightarrow> decodeConnectionCloseFrame cur
      | FT_CONNECTION_CLOSE_APP_ERR \<Rightarrow> decodeApplicationClose cur
      | FT_HANDSHAKE_DONE \<Rightarrow> decodeHandshakeDoneFrame cur
      | FT_DATAGRAM \<Rightarrow> decodeDatagramFrame cur False
      | FT_DATAGRAM_LEN \<Rightarrow> decodeDatagramFrame cur True
      | FT_KNOB \<Rightarrow> decodeKnobFrame cur
      | FT_ACK_FREQUENCY \<Rightarrow> decodeAckFrequencyFrame cur
      | FT_IMMEDIATE_ACK \<Rightarrow> decodeImmediateAckFrame cur
      | FT_ACK_RECEIVE_TIMESTAMPS \<Rightarrow>
          ack (decodeAckFrameWithReceivedTimestamps cur header params FT_ACK_RECEIVE_TIMESTAMPS))"

text \<open>The handler turns every exception into an encoding error; an abort stays an abort.\<close>

definition rethrow :: "'a res \<Rightarrow> 'a res" where
  "rethrow r = (case r of Inl CheckFailed \<Rightarrow> Inl CheckFailed | Inl e \<Rightarrow> Inl encodingError | Inr x \<Rightarrow> Inr x)"

definition parseFrame :: "cursor \<Rightarrow> HeaderForm \<Rightarrow> CodecParameters \<Rightarrow> (QuicFrame \<times> cursor) res" where
  "parseFrame queue header params =
     rbind (readVarint queue) (\<lambda>(frameTypeInt, _, cur).
       case frameTypeOfCode frameTypeInt of
         None \<Rightarrow> Inl encodingError
       | Some frameType \<Rightarrow> rethrow (parseFrameBody frameType frameTypeInt cur header params))"

section \<open>Every decoder leaves a suffix of its input\<close>

named_theorems sfx_intros "introduction rules for suffix safety of decoders"

definition sfx :: "cursor \<Rightarrow> ('a \<times> cursor) res \<Rightarrow> bool" where
  "sfx cur r \<longleftrightarrow> (\<forall>x c. r = Inr (x, c) \<longrightarrow> suffix c cur)"

lemma readVarint_Inr:
  assumes "readVarint cur = Inr (v, n, c)"
  shows "n \<in> {1, 2, 4, 8} \<and> n \<le> length cur \<and> c = drop n cur \<and> v \<le> kEightByteLimit"
  using assms decodeQuicInteger_cases [of cur 8]
  by (auto simp: readVarint_def split: prod.splits option.splits)

lemma readVarint_suffix: "readVarint cur = Inr (v, n, c) \<Longrightarrow> suffix c cur"
  by (drule readVarint_Inr) (auto simp: suffix_drop)

lemma readVarint_Inl: "readVarint cur = Inl e \<Longrightarrow> e = encodingError"
  by (auto simp: readVarint_def split: prod.splits option.splits)

lemma sfx_Inr [sfx_intros]: "suffix c cur \<Longrightarrow> sfx cur (Inr (x, c))"
  by (simp add: sfx_def)

lemma sfx_Inl [sfx_intros]: "sfx cur (Inl e)"
  by (simp add: sfx_def)

lemma sfx_if [sfx_intros]: "(b \<Longrightarrow> sfx cur r) \<Longrightarrow> (\<not> b \<Longrightarrow> sfx cur s) \<Longrightarrow> sfx cur (if b then r else s)"
  by simp

lemma sfx_bind_varint [sfx_intros]:
  "suffix c0 cur \<Longrightarrow> (\<And>v n c. suffix c cur \<Longrightarrow> sfx cur (g (v, n, c))) \<Longrightarrow> sfx cur (rbind (readVarint c0) g)"
  by (auto simp: sfx_def) (metis readVarint_suffix suffix_order.trans)

lemma sfx_bind [sfx_intros]:
  "sfx c0 m \<Longrightarrow> suffix c0 cur \<Longrightarrow> (\<And>x c. suffix c cur \<Longrightarrow> sfx cur (g (x, c))) \<Longrightarrow> sfx cur (rbind m g)"
  by (auto simp: sfx_def) (metis suffix_order.trans)

lemma sfx_bind_pure:
  "(\<And>x. m = Inr x \<Longrightarrow> sfx cur (g x)) \<Longrightarrow> sfx cur (rbind m g)"
  by (auto simp: sfx_def)

lemma sfx_pull [sfx_intros]: "sfx cur (pull n cur)"
  by (auto simp: pull_def sfx_def suffix_drop)

lemma sfx_readIf [sfx_intros]: "sfx cur (readIf b cur)"
  by (auto simp: readIf_def intro!: sfx_intros)

lemma sfx_ConnectionId_read [sfx_intros]: "sfx cur (ConnectionId_read n cur)"
  by (auto simp: ConnectionId_read_def intro!: sfx_intros)

lemma sfx_ackBlocksLoop [sfx_intros]: "sfx cur (ackBlocksLoop n p cur)"
proof (induction n arbitrary: p cur)
  case (Suc n)
  have "sfx cur (rbind (nextAckedPacketGap p g) (\<lambda>e. rbind (nextAckedPacketLen e l) (\<lambda>q.
      rbind (ackBlocksLoop n q c) (\<lambda>(bs, c). Inr (\<lparr>ab_startPacket = q, ab_endPacket = e\<rparr> # bs, c)))))"
    if "suffix c cur" for g l c
    using that Suc.IH by (intro sfx_bind_pure sfx_bind [of c]) (auto intro!: sfx_intros)
  then show ?case by (auto intro!: sfx_intros)
qed (simp add: sfx_intros)

lemma ackBlocksLoop_suffix: "ackBlocksLoop n p c = Inr (bs, c') \<Longrightarrow> suffix c cur \<Longrightarrow> suffix c' cur"
  using sfx_ackBlocksLoop [of c n p] suffix_order.trans by (auto simp: sfx_def)

lemma sfx_decodeAckFrame [sfx_intros]: "sfx cur (decodeAckFrame cur header params ft)"
  unfolding decodeAckFrame_def Let_def
  by (auto intro!: sfx_bind_varint) (auto intro!: sfx_bind_pure sfx_Inr dest: ackBlocksLoop_suffix)

lemma sfx_timestampDeltasLoop [sfx_intros]: "sfx cur (timestampDeltasLoop n e cur)"
proof (induction n arbitrary: cur)
  case (Suc n)
  have "sfx cur (rbind (convertEncodedDurationToMicroseconds e d) (\<lambda>a. rbind (timestampDeltasLoop n e c)
      (\<lambda>(ds, c). Inr (a # ds, c))))" if "suffix c cur" for d c
    using that Suc.IH by (intro sfx_bind_pure sfx_bind [of c]) (auto intro!: sfx_intros)
  then show ?case by (auto intro!: sfx_intros)
qed (simp add: sfx_intros)

lemma sfx_timestampRangesLoop [sfx_intros]: "sfx cur (timestampRangesLoop n params cur)"
proof (induction n arbitrary: cur)
  case (Suc n)
  then show ?case by (auto simp: Let_def intro!: sfx_intros)
qed (simp add: sfx_intros)

lemma sfx_decodeAckFrameWithReceivedTimestamps [sfx_intros]:
  "sfx cur (decodeAckFrameWithReceivedTimestamps cur header params ft)"
  by (auto simp: decodeAckFrameWithReceivedTimestamps_def intro!: sfx_intros)

lemma sfx_decodeAckFrameWithECN [sfx_intros]: "sfx cur (decodeAckFrameWithECN cur header params)"
  by (auto simp: decodeAckFrameWithECN_def intro!: sfx_intros)

lemma suffix_drop_trans [sfx_intros]: "suffix c cur \<Longrightarrow> suffix (drop n c) cur"
  using suffix_drop suffix_order.trans by blast

lemma sfx_decodeStreamFrame [sfx_intros]: "sfx cur (decodeStreamFrame cur field g)"
  unfolding decodeStreamFrame_def Let_def
  by (auto intro!: sfx_intros split: option.split)

lemma sfx_decodeNewConnectionIdFrame [sfx_intros]: "sfx cur (decodeNewConnectionIdFrame cur)"
proof -
  have "suffix (tl c) cur" if "suffix c cur" for c
    using that suffix_tl suffix_order.trans by blast
  then show ?thesis
    unfolding decodeNewConnectionIdFrame_def Let_def by (auto intro!: sfx_intros)
qed

lemmas simple_decoder_defs = decodePaddingFrame_def decodePingFrame_def decodeKnobFrame_def
  decodeAckFrequencyFrame_def decodeImmediateAckFrame_def decodeRstStreamFrame_def decodeStopSendingFrame_def
  decodeCryptoFrame_def decodeNewTokenFrame_def decodeMaxDataFrame_def decodeMaxStreamDataFrame_def
  decodeBiDiMaxStreamsFrame_def decodeUniMaxStreamsFrame_def decodeDataBlockedFrame_def
  decodeStreamDataBlockedFrame_def decodeBiDiStreamsBlockedFrame_def decodeUniStreamsBlockedFrame_def
  decodeRetireConnectionIdFrame_def decodePathChallengeFrame_def decodePathResponseFrame_def
  decodeConnectionCloseFrame_def decodeApplicationClose_def decodeHandshakeDoneFrame_def decodeDatagramFrame_def

lemma sfx_parseFrameBody: "sfx cur (parseFrameBody ft code cur header params)"
  by (cases ft; simp add: parseFrameBody_def simple_decoder_defs;
      auto intro!: sfx_intros)

lemma sfx_rethrow: "sfx cur r \<Longrightarrow> sfx cur (rethrow r)"
  by (auto simp: sfx_def rethrow_def split: sum.splits quic_exn.splits)

lemma rethrow_Inr [simp]: "rethrow r = Inr x \<longleftrightarrow> r = Inr x"
  by (auto simp: rethrow_def split: sum.splits quic_exn.splits)

lemma parseFrame_Inr:
  assumes "parseFrame cur h p = Inr (f, c)"
  obtains v n c0 ft where "readVarint cur = Inr (v, n, c0)" "frameTypeOfCode v = Some ft"
    "parseFrameBody ft v c0 h p = Inr (f, c)"
proof -
  obtain v n c0 where v: "readVarint cur = Inr (v, n, c0)" using assms by (auto simp: parseFrame_def)
  with assms obtain ft where "frameTypeOfCode v = Some ft" by (cases "frameTypeOfCode v") (auto simp: parseFrame_def)
  with v assms that show ?thesis by (auto simp: parseFrame_def)
qed

lemma parseFrame_consumes:
  assumes "parseFrame cur header params = Inr (f, c)"
  shows "suffix c cur" "length c < length cur"
proof -
  obtain v n c0 ft where v: "readVarint cur = Inr (v, n, c0)"
    and b: "rethrow (parseFrameBody ft v c0 header params) = Inr (f, c)"
    using assms by (auto simp: parseFrame_def split: option.splits)
  note rv = readVarint_Inr [OF v]
  have "suffix c c0" using sfx_rethrow [OF sfx_parseFrameBody] b by (auto simp: sfx_def)
  moreover have "suffix c0 cur" "length c0 < length cur" using rv by (auto simp: suffix_drop)
  ultimately show "suffix c cur" "length c < length cur"
    using suffix_order.trans suffix_length_le [of c c0] by (blast, linarith)
qed

section \<open>Packets\<close>

text \<open>The loop of \<^verbatim>\<open>decodeRegularPacket\<close>: frames parsed so far (last first) and what is left of the
  queue. Padding frames in a row are counted in the first of them, in 16 bits.\<close>

definition pushFrame :: "QuicFrame \<Rightarrow> QuicFrame list \<Rightarrow> QuicFrame list" where
  "pushFrame f frames = (case (frames, f) of
     (RF_Padding n # fs, RF_Padding _) \<Rightarrow> RF_Padding ((n + 1) mod 65536) # fs
   | _ \<Rightarrow> f # frames)"

function packetLoop :: "QuicFrame list \<Rightarrow> cursor \<Rightarrow> HeaderForm \<Rightarrow> CodecParameters \<Rightarrow> QuicFrame list res" where
  "packetLoop frames queue header params =
     (if queue = [] then Inr frames
      else case parseFrame queue header params of
             Inl e \<Rightarrow> Inl e
           | Inr (f, queue') \<Rightarrow> packetLoop (pushFrame f frames) queue' header params)"
  by pat_completeness auto

termination
  by (relation "measure (\<lambda>(_, q, _, _). length q)") (auto dest!: parseFrame_consumes(2))

declare packetLoop.simps [simp del]

definition decodeRegularPacket :: "HeaderForm \<Rightarrow> CodecParameters \<Rightarrow> cursor \<Rightarrow> QuicFrame list res" where
  "decodeRegularPacket header params packetData =
     (if packetData = [] then Inr []
      else rbind (parseFrame packetData header params) (\<lambda>(f, queue).
           rbind (packetLoop [f] queue header params) (\<lambda>fs. Inr (rev fs))))"

section \<open>No decoder aborts\<close>

named_theorems noabort_intros "introduction rules for the absence of aborts"

definition noabort :: "'a res \<Rightarrow> bool" where
  "noabort r \<longleftrightarrow> r \<noteq> Inl CheckFailed"

definition valid_params :: "CodecParameters \<Rightarrow> bool" where
  "valid_params p \<longleftrightarrow> 0 < peerAckDelayExponent p \<and> peerAckDelayExponent p < 64 \<and>
     (case receiveTimestampsExponent p of None \<Rightarrow> True | Some e \<Rightarrow> 0 < e \<and> e < 64)"

lemma noabort_basic [noabort_intros]:
  "noabort (Inr x)" "noabort (Inl encodingError)" "noabort (Inl OutOfRange)" "noabort (Inl InvalidArgument)"
  by (simp_all add: noabort_def encodingError_def)

lemma noabort_if [noabort_intros]: "(b \<Longrightarrow> noabort r) \<Longrightarrow> (\<not> b \<Longrightarrow> noabort s) \<Longrightarrow> noabort (if b then r else s)"
  by simp

lemma noabort_bind [noabort_intros]: "noabort m \<Longrightarrow> (\<And>x. noabort (g x)) \<Longrightarrow> noabort (rbind m g)"
  by (cases m) (simp_all add: noabort_def)

lemma noabort_fields [noabort_intros]:
  "noabort (readVarint cur)" "noabort (pull n cur)" "noabort (readIf b cur)" "noabort (ConnectionId_read n cur)"
  "noabort (nextAckedPacketGap p g)" "noabort (nextAckedPacketLen p l)"
  by (auto simp: readVarint_def pull_def readIf_def ConnectionId_read_def nextAckedPacketGap_def
      nextAckedPacketLen_def Let_def noabort_def encodingError_def split: prod.splits option.splits if_splits)

lemma noabort_convert [noabort_intros]:
  "0 < e \<Longrightarrow> e < 64 \<Longrightarrow> noabort (convertEncodedDurationToMicroseconds e d)"
  by (auto simp: convertEncodedDurationToMicroseconds_def Let_def check_def intro!: noabort_intros)

lemma noabort_case_prod [noabort_intros]: "(\<And>a b. noabort (g a b)) \<Longrightarrow> noabort (case p of (a, b) \<Rightarrow> g a b)"
  by (cases p) simp

lemma noabort_ackBlocksLoop [noabort_intros]: "noabort (ackBlocksLoop n p cur)"
  by (induction n arbitrary: p cur) (auto intro!: noabort_intros)

lemma noabort_timestampDeltasLoop [noabort_intros]: "0 < e \<Longrightarrow> e < 64 \<Longrightarrow> noabort (timestampDeltasLoop n e cur)"
  by (induction n arbitrary: cur) (auto intro!: noabort_intros)

lemma noabort_timestampRangesLoop [noabort_intros]: "valid_params p \<Longrightarrow> noabort (timestampRangesLoop n p cur)"
  by (induction n arbitrary: cur)
    (auto simp: Let_def valid_params_def kDefaultReceiveTimestampsExponent_def intro!: noabort_intros split: option.splits)

lemma noabort_decodeAckFrame [noabort_intros]: "valid_params p \<Longrightarrow> noabort (decodeAckFrame cur h p ft)"
  unfolding decodeAckFrame_def Let_def
  by (auto intro!: noabort_intros simp: valid_params_def kDefaultAckDelayExponent_def)

lemma noabort_decodeStreamFrame [noabort_intros]: "noabort (decodeStreamFrame cur field g)"
  unfolding decodeStreamFrame_def Let_def by (auto intro!: noabort_intros split: option.split)

lemma noabort_decodeNewConnectionIdFrame [noabort_intros]: "noabort (decodeNewConnectionIdFrame cur)"
  unfolding decodeNewConnectionIdFrame_def Let_def by (auto intro!: noabort_intros)

lemma noabort_parseFrameBody: "valid_params p \<Longrightarrow> noabort (parseFrameBody ft code cur h p)"
  by (cases ft; simp add: parseFrameBody_def simple_decoder_defs
      decodeAckFrameWithECN_def decodeAckFrameWithReceivedTimestamps_def;
      intro noabort_intros conjI impI; assumption?)

lemma parseFrame_error:
  assumes "valid_params p" "parseFrame cur h p = Inl e"
  shows "e = encodingError"
proof (cases "readVarint cur")
  case (Inl e')
  then show ?thesis using readVarint_Inl [OF Inl] assms(2) by (simp add: parseFrame_def)
next
  case (Inr r)
  obtain v n c where r: "r = (v, n, c)" by (cases r)
  show ?thesis
  proof (cases "frameTypeOfCode v")
    case None
    then show ?thesis using assms(2) Inr r by (simp add: parseFrame_def)
  next
    case (Some ft)
    then have "rethrow (parseFrameBody ft v c h p) = Inl e" using assms(2) Inr r by (simp add: parseFrame_def)
    then show ?thesis using noabort_parseFrameBody [OF assms(1)]
      by (auto simp: rethrow_def noabort_def split: sum.splits quic_exn.splits)
  qed
qed

lemma packetLoop_error:
  assumes "valid_params p"
  shows "packetLoop fs cur h p = Inl e \<Longrightarrow> e = encodingError"
  using parseFrame_error [OF assms]
  by (induction fs cur h p rule: packetLoop.induct)
    (auto simp: packetLoop.simps split: if_splits sum.splits)

section \<open>Decoded acknowledgements\<close>

definition ack_blocks_ok :: "AckBlock list \<Rightarrow> bool" where
  "ack_blocks_ok bs \<longleftrightarrow> (\<forall>b \<in> set bs. ab_startPacket b \<le> ab_endPacket b) \<and>
     sorted_wrt (\<lambda>a b. ab_endPacket b + 2 \<le> ab_startPacket a) bs"

lemma ackBlocksLoop_ok:
  assumes "ackBlocksLoop n p cur = Inr (bs, c)"
  shows "ack_blocks_ok bs \<and> (\<forall>b \<in> set bs. ab_endPacket b + 2 \<le> p) \<and> length bs = n"
  using assms
proof (induction n arbitrary: p cur bs c)
  case (Suc n)
  obtain g l e q bs' c' where eq: "nextAckedPacketGap p g = Inr e" "nextAckedPacketLen e l = Inr q"
      "ackBlocksLoop n q c' = Inr (bs', c)" "bs = \<lparr>ab_startPacket = q, ab_endPacket = e\<rparr> # bs'"
    using Suc.prems by auto
  have "e + 2 \<le> p" "q \<le> e"
    using eq(1,2) by (auto simp: nextAckedPacketGap_def nextAckedPacketLen_def Let_def split: if_splits)
  moreover note Suc.IH [OF eq(3)]
  ultimately show ?case by (force simp: eq(4) ack_blocks_ok_def)
qed (simp add: ack_blocks_ok_def)

lemma decodeAckFrame_ok:
  assumes "decodeAckFrame cur h p ft = Inr (f, c)"
  shows "ack_blocks_ok (ra_ackBlocks f) \<and> ra_ackBlocks f \<noteq> [] \<and>
    ab_endPacket (hd (ra_ackBlocks f)) = ra_largestAcked f \<and> ra_ackDelay f \<le> 1000000000 \<and> ra_frameType f = ft"
proof -
  obtain la fl q ad n c' bs where
    eq: "nextAckedPacketLen la fl = Inr q" "ackBlocksLoop n q c' = Inr (bs, c)"
    "f = \<lparr>ra_largestAcked = la, ra_ackDelay = (if ad > 1000 * 1000 * 1000 then 0 else ad),
       ra_ackBlocks = \<lparr>ab_startPacket = q, ab_endPacket = la\<rparr> # bs, ra_frameType = ft,
       ra_maybeLatestRecvdPacketTime = None, ra_maybeLatestRecvdPacketNum = None,
       ra_recvdPacketsTimestampRanges = []\<rparr>"
    using assms by (auto simp: decodeAckFrame_def Let_def)
  have "q \<le> la" using eq(1) by (auto simp: nextAckedPacketLen_def split: if_splits)
  with ackBlocksLoop_ok [OF eq(2)] show ?thesis by (auto simp: eq(3) ack_blocks_ok_def)
qed

section \<open>Properties\<close>

text \<open>C19: parsing any bytes whatsoever terminates and never aborts or leaves the buffer:
  \<^verbatim>\<open>parseFrame\<close> either consumes at least one byte and leaves a suffix of its input, or raises
  \<^verbatim>\<open>FRAME_ENCODING_ERROR\<close> and nothing else; \<^verbatim>\<open>decodeRegularPacket\<close> gives a list of frames or
  raises that error. The hypothesis is the documented one on the codec parameters (the
  exponents are not zero, and smaller than 64).\<close>

theorem parse_any_bytes_safe:
  assumes "valid_params params"
  shows "(\<forall>f c. parseFrame cur h params = Inr (f, c) \<longrightarrow> suffix c cur \<and> length c < length cur) \<and>
    (\<forall>e. parseFrame cur h params = Inl e \<longrightarrow> e = QuicTransportException TE_FRAME_ENCODING_ERROR) \<and>
    (decodeRegularPacket h params cur = Inl (QuicTransportException TE_FRAME_ENCODING_ERROR) \<or>
     (\<exists>fs. decodeRegularPacket h params cur = Inr fs))"
proof -
  have "e = encodingError" if "decodeRegularPacket h params cur = Inl e" for e
    using that parseFrame_error [OF assms] packetLoop_error [OF assms]
    by (auto simp: decodeRegularPacket_def split: if_splits)
  then have "decodeRegularPacket h params cur = Inl encodingError \<or> (\<exists>fs. decodeRegularPacket h params cur = Inr fs)"
    by (cases "decodeRegularPacket h params cur") simp_all
  then show ?thesis
    using parseFrame_consumes parseFrame_error [OF assms] unfolding encodingError_def [symmetric] by blast
qed

text \<open>C20: the blocks of a decoded acknowledgement, whatever the bytes, are non-empty ranges
  of packet numbers, in descending order and separated by at least one packet; the first ends
  at the largest acknowledged packet. An acknowledgement delay of more than 1000 s is read as
  none.\<close>

theorem decoded_ack_well_formed:
  assumes "parseFrame cur h params = Inr (RF_Ack f, c)"
  shows "ra_ackBlocks f \<noteq> [] \<and> ab_endPacket (hd (ra_ackBlocks f)) = ra_largestAcked f \<and>
    (\<forall>b \<in> set (ra_ackBlocks f). ab_startPacket b \<le> ab_endPacket b) \<and>
    sorted_wrt (\<lambda>a b. ab_endPacket b + 2 \<le> ab_startPacket a) (ra_ackBlocks f) \<and>
    ra_ackDelay f \<le> 1000000000"
proof -
  obtain v n c0 ft where "parseFrameBody ft v c0 h params = Inr (RF_Ack f, c)"
    using assms by (rule parseFrame_Inr)
  then obtain g c1 ft' where "decodeAckFrame c0 h params ft' = Inr (g, c1)"
    and "ra_ackBlocks f = ra_ackBlocks g" "ra_largestAcked f = ra_largestAcked g" "ra_ackDelay f = ra_ackDelay g"
    by (cases ft; simp add: parseFrameBody_def simple_decoder_defs decodeNewConnectionIdFrame_def
        decodeStreamFrame_def decodeAckFrameWithECN_def decodeAckFrameWithReceivedTimestamps_def Let_def
        split: option.splits if_splits; fastforce)
  with decodeAckFrame_ok show ?thesis by (fastforce simp: ack_blocks_ok_def)
qed

text \<open>Concrete input for the witnesses: one-byte integers decode to themselves.\<close>

lemma readVarint_small: "unat b < 64 \<Longrightarrow> readVarint (b # c) = Inr (unat b, 1, c)"
  by (simp add: readVarint_def decodeQuicInteger_def varint_type low_six_bits Let_def)

definition defaultParams :: CodecParameters where
  "defaultParams = \<lparr>peerAckDelayExponent = 3, receiveTimestampsExponent = None\<rparr>"

lemma defaultParams_valid: "valid_params defaultParams"
  by (simp add: valid_params_def defaultParams_def)

lemma frameType_ack: "frameTypeOfCode 2 = Some FT_ACK"
  by (simp add: frameTypeOfCode_Some)

lemma example_ack:
  "parseFrame [2, 10, 0, 1, 2, 3, 1, 1] HF_Short defaultParams =
   Inr (RF_Ack \<lparr>ra_largestAcked = 10, ra_ackDelay = 0,
     ra_ackBlocks = [\<lparr>ab_startPacket = 8, ab_endPacket = 10\<rparr>, \<lparr>ab_startPacket = 2, ab_endPacket = 3\<rparr>],
     ra_frameType = FT_ACK, ra_maybeLatestRecvdPacketTime = None, ra_maybeLatestRecvdPacketNum = None,
     ra_recvdPacketsTimestampRanges = []\<rparr>, [1])"
proof -
  have "convertEncodedDurationToMicroseconds 3 0 = Inr 0"
    by (simp add: convertEncodedDurationToMicroseconds_def check_def)
  moreover have "ackBlocksLoop 1 8 [3, 1, 1] = Inr ([\<lparr>ab_startPacket = 2, ab_endPacket = 3\<rparr>], [1])"
    by (simp add: numeral_eq_Suc [of num.One] readVarint_small nextAckedPacketGap_def nextAckedPacketLen_def One_nat_def)
  ultimately show ?thesis
    by (simp add: parseFrame_def readVarint_small frameType_ack parseFrameBody_def decodeAckFrame_def
        nextAckedPacketLen_def defaultParams_def)
qed

theorem parse_any_bytes_safe_witness:
  "valid_params defaultParams \<and> suffix [1] [2, 10, 0, 1, 2, 3, 1, 1 :: byte]"
  using parse_any_bytes_safe [OF defaultParams_valid, of "[2, 10, 0, 1, 2, 3, 1, 1]" HF_Short]
    defaultParams_valid example_ack by blast

theorem decoded_ack_well_formed_witness:
  "sorted_wrt (\<lambda>a b. ab_endPacket b + 2 \<le> ab_startPacket a)
     [\<lparr>ab_startPacket = 8, ab_endPacket = 10\<rparr>, \<lparr>ab_startPacket = 2, ab_endPacket = 3\<rparr>]"
  using decoded_ack_well_formed [OF example_ack] by simp

end
