(* ===== verification/Packet_Header.thy ===== *)
theory Packet_Header
  imports Frame_Decode Packet_Number
begin

text \<open>
  Packet headers: their data (\<^verbatim>\<open>quic/codec/Types.h\<close>, \<^verbatim>\<open>Types.cpp\<close>), the parsers of
  \<^verbatim>\<open>quic/codec/Decode.cpp\<close> from \<^verbatim>\<open>decodeVersionNegotiation\<close> on, and the two header writers at
  the top of \<^verbatim>\<open>quic/codec/QuicPacketBuilder.cpp\<close>. A parser takes the initial byte and the
  bytes behind it and returns an error code or the result with the bytes it leaves. The buffer
  operation of a writer is the list of bytes it wrote, its space counter is returned.

  The properties are the round trips: what a writer produces, the parsers recover, packet number
  included.
\<close>

section \<open>Data\<close>

datatype PacketNumberSpace = PNS_Initial | PNS_Handshake | PNS_AppData

datatype ProtectionType = PT_Initial | PT_Handshake | PT_ZeroRtt | PT_KeyPhaseZero | PT_KeyPhaseOne

text \<open>Versions are an enumeration of 32 bits, any value of which can be received.\<close>

type_synonym QuicVersion = "32 word"

definition VERSION_NEGOTIATION :: QuicVersion where "VERSION_NEGOTIATION = 0"

definition kHeaderFormMask :: byte where "kHeaderFormMask = 0x80"
definition kMaxPacketNumEncodingSize :: nat where "kMaxPacketNumEncodingSize = 4"
definition kMaxPacketLenSize :: nat where "kMaxPacketLenSize = 2"
definition kMinInitialDestinationConnIdLength :: nat where "kMinInitialDestinationConnIdLength = 8"
definition kRetryIntegrityTagLen :: nat where "kRetryIntegrityTagLen = 16"
definition lh_kFixedBitMask :: byte where "lh_kFixedBitMask = 0x40"
definition lh_kPacketTypeMask :: byte where "lh_kPacketTypeMask = 0x30"
definition lh_kReservedBitsMask :: byte where "lh_kReservedBitsMask = 0x0c"
definition lh_kPacketNumLenMask :: byte where "lh_kPacketNumLenMask = 0x03"
definition lh_kTypeShift :: nat where "lh_kTypeShift = 4"
definition sh_kFixedBitMask :: byte where "sh_kFixedBitMask = 0x40"
definition sh_kReservedBitsMask :: byte where "sh_kReservedBitsMask = 0x18"
definition sh_kKeyPhaseMask :: byte where "sh_kKeyPhaseMask = 0x04"

lemmas header_consts = kHeaderFormMask_def kMaxPacketNumEncodingSize_def kMaxPacketLenSize_def
  kMinInitialDestinationConnIdLength_def kRetryIntegrityTagLen_def lh_kFixedBitMask_def
  lh_kPacketTypeMask_def lh_kReservedBitsMask_def lh_kPacketNumLenMask_def lh_kTypeShift_def
  sh_kFixedBitMask_def sh_kReservedBitsMask_def sh_kKeyPhaseMask_def

datatype LongHeaderType = LH_Initial | LH_ZeroRtt | LH_Handshake | LH_Retry

fun longHeaderTypeCode :: "LongHeaderType \<Rightarrow> byte" where
  "longHeaderTypeCode LH_Initial = 0"
| "longHeaderTypeCode LH_ZeroRtt = 1"
| "longHeaderTypeCode LH_Handshake = 2"
| "longHeaderTypeCode LH_Retry = 3"

record LongHeaderInvariant =
  lhi_version :: QuicVersion
  lhi_srcConnId :: ConnectionId
  lhi_dstConnId :: ConnectionId

record LongHeader =
  lh_packetSequenceNum :: PacketNum
  lh_longHeaderType :: LongHeaderType
  lh_invariant :: LongHeaderInvariant
  lh_token :: "byte list"

record ShortHeader =
  sh_packetSequenceNum :: PacketNum
  sh_protectionType :: ProtectionType
  sh_connectionId :: ConnectionId

datatype PacketHeader = PH_Long LongHeader | PH_Short ShortHeader

fun typeToPacketNumberSpace :: "LongHeaderType \<Rightarrow> PacketNumberSpace" where
  "typeToPacketNumberSpace LH_Initial = PNS_Initial"
| "typeToPacketNumberSpace LH_Retry = PNS_Initial"
| "typeToPacketNumberSpace LH_Handshake = PNS_Handshake"
| "typeToPacketNumberSpace LH_ZeroRtt = PNS_AppData"

fun longHeaderTypeToProtectionType :: "LongHeaderType \<Rightarrow> ProtectionType" where
  "longHeaderTypeToProtectionType LH_Initial = PT_Initial"
| "longHeaderTypeToProtectionType LH_Retry = PT_Initial"
| "longHeaderTypeToProtectionType LH_Handshake = PT_Handshake"
| "longHeaderTypeToProtectionType LH_ZeroRtt = PT_ZeroRtt"

fun protectionTypeToPacketNumberSpace :: "ProtectionType \<Rightarrow> PacketNumberSpace" where
  "protectionTypeToPacketNumberSpace PT_Initial = PNS_Initial"
| "protectionTypeToPacketNumberSpace PT_Handshake = PNS_Handshake"
| "protectionTypeToPacketNumberSpace PT_ZeroRtt = PNS_AppData"
| "protectionTypeToPacketNumberSpace PT_KeyPhaseZero = PNS_AppData"
| "protectionTypeToPacketNumberSpace PT_KeyPhaseOne = PNS_AppData"

definition mkLongHeader :: "LongHeaderType \<Rightarrow> LongHeaderInvariant \<Rightarrow> byte list \<Rightarrow> LongHeader" where
  "mkLongHeader type invariant token = \<lparr>lh_packetSequenceNum = 0, lh_longHeaderType = type,
     lh_invariant = invariant, lh_token = token\<rparr>"

definition mkShortHeader :: "ProtectionType \<Rightarrow> ConnectionId \<Rightarrow> ShortHeader res" where
  "mkShortHeader protectionType connId =
     (if protectionType \<noteq> PT_KeyPhaseZero \<and> protectionType \<noteq> PT_KeyPhaseOne
      then Inl (QuicInternalException LE_CODEC_ERROR)
      else Inr \<lparr>sh_packetSequenceNum = 0, sh_protectionType = protectionType, sh_connectionId = connId\<rparr>)"

definition mkShortHeaderNum :: "ProtectionType \<Rightarrow> ConnectionId \<Rightarrow> PacketNum \<Rightarrow> ShortHeader res" where
  "mkShortHeaderNum protectionType connId packetNum =
     rbind (mkShortHeader protectionType connId) (\<lambda>h. Inr (h\<lparr>sh_packetSequenceNum := packetNum\<rparr>))"

fun ph_getHeaderForm :: "PacketHeader \<Rightarrow> HeaderForm" where
  "ph_getHeaderForm (PH_Long h) = HF_Long"
| "ph_getHeaderForm (PH_Short h) = HF_Short"

fun ph_getProtectionType :: "PacketHeader \<Rightarrow> ProtectionType" where
  "ph_getProtectionType (PH_Long h) = longHeaderTypeToProtectionType (lh_longHeaderType h)"
| "ph_getProtectionType (PH_Short h) = sh_protectionType h"

fun ph_getPacketSequenceNum :: "PacketHeader \<Rightarrow> PacketNum" where
  "ph_getPacketSequenceNum (PH_Long h) = lh_packetSequenceNum h"
| "ph_getPacketSequenceNum (PH_Short h) = sh_packetSequenceNum h"

fun ph_getPacketNumberSpace :: "PacketHeader \<Rightarrow> PacketNumberSpace" where
  "ph_getPacketNumberSpace (PH_Long h) = typeToPacketNumberSpace (lh_longHeaderType h)"
| "ph_getPacketNumberSpace (PH_Short h) = PNS_AppData"

definition getHeaderForm :: "byte \<Rightarrow> HeaderForm" where
  "getHeaderForm headerValue = (if headerValue AND kHeaderFormMask \<noteq> 0 then HF_Long else HF_Short)"

section \<open>Parsers\<close>

type_synonym 'a parsed = "TransportErrorCode + 'a"

record ParsedLongHeaderInvariant =
  pli_initialByte :: byte
  pli_invariant :: LongHeaderInvariant
  pli_invariantLength :: nat

record PacketLength =
  pl_packetLength :: nat
  pl_lengthLength :: nat

record ParsedLongHeader =
  plh_header :: LongHeader
  plh_packetLength :: PacketLength

record ParsedLongHeaderResult =
  plr_isVersionNegotiation :: bool
  plr_parsedLongHeader :: "ParsedLongHeader option"

record VersionNegotiationPacket =
  vn_packetType :: byte
  vn_sourceConnectionId :: ConnectionId
  vn_destinationConnectionId :: ConnectionId
  vn_versions :: "QuicVersion list"

definition readVersion :: "byte list \<Rightarrow> QuicVersion" where
  "readVersion bs = ucast (readBE (take 4 bs))"

fun versionsLoop :: "cursor \<Rightarrow> QuicVersion list" where
  "versionsLoop [] = []"
| "versionsLoop (b # bs) = readVersion (b # bs) # versionsLoop (drop 3 bs)"

definition decodeVersionNegotiation :: "ParsedLongHeaderInvariant \<Rightarrow> cursor \<Rightarrow> VersionNegotiationPacket option" where
  "decodeVersionNegotiation hinv cur =
     (let cursorLength = length cur in
      if cursorLength < 4 \<or> cursorLength mod 4 \<noteq> 0 then None
      else Some \<lparr>vn_packetType = pli_initialByte hinv,
             vn_sourceConnectionId = lhi_srcConnId (pli_invariant hinv),
             vn_destinationConnectionId = lhi_dstConnId (pli_invariant hinv),
             vn_versions = versionsLoop cur\<rparr>)"

text \<open>
  The connection id constructor is reached only behind the two guards that exclude its failures,
  so it is the first bytes of the cursor.
\<close>

definition readConnId :: "cursor \<Rightarrow> (ConnectionId \<times> cursor) parsed" where
  "readConnId cur =
     (if length cur < 1 then Inl TE_FRAME_ENCODING_ERROR
      else let len = unat (hd cur); cur = drop 1 cur in
        if len > kMaxConnectionIdSize then Inl TE_PROTOCOL_VIOLATION
        else if length cur < len then Inl TE_FRAME_ENCODING_ERROR
        else Inr (take len cur, drop len cur))"

definition parseLongHeaderInvariant :: "byte \<Rightarrow> cursor \<Rightarrow> (ParsedLongHeaderInvariant \<times> cursor) parsed" where
  "parseLongHeaderInvariant initialByte cur =
     (let initialLength = length cur in
      if length cur < 4 then Inl TE_FRAME_ENCODING_ERROR
      else let version = readVersion cur; cur = drop 4 cur in
        case readConnId cur of Inl e \<Rightarrow> Inl e | Inr (destConnId, cur) \<Rightarrow>
        (case readConnId cur of Inl e \<Rightarrow> Inl e | Inr (srcConnId, cur) \<Rightarrow>
           let bytesRead = initialLength - length cur in
           Inr (\<lparr>pli_initialByte = initialByte,
                  pli_invariant = \<lparr>lhi_version = version, lhi_srcConnId = srcConnId, lhi_dstConnId = destConnId\<rparr>,
                  pli_invariantLength = bytesRead\<rparr>, cur)))"

text \<open>Two bits have no other value than the four types, so the cast is total.\<close>

definition parseLongHeaderType :: "byte \<Rightarrow> LongHeaderType" where
  "parseLongHeaderType initialByte =
     (let t = drop_bit lh_kTypeShift (initialByte AND lh_kPacketTypeMask) in
      if t = 0 then LH_Initial else if t = 1 then LH_ZeroRtt else if t = 2 then LH_Handshake else LH_Retry)"

definition parsePacketNumberLength :: "byte \<Rightarrow> nat" where
  "parsePacketNumberLength initialByte = unat (initialByte AND lh_kPacketNumLenMask) + 1"

definition parsePacketNumber :: "byte \<Rightarrow> byte list \<Rightarrow> PacketNum \<Rightarrow> (PacketNum \<times> nat) res" where
  "parsePacketNumber initialByte packetNumberRange expectedNextPacketNum =
     (let packetNumLen = parsePacketNumberLength initialByte;
          bigEncodedPacketNum = unat (readBE (take packetNumLen packetNumberRange))
      in rbind (decodePacketNumber bigEncodedPacketNum packetNumLen expectedNextPacketNum)
           (\<lambda>num. Inr (num, packetNumLen)))"

definition parseLongHeaderVariants ::
  "LongHeaderType \<Rightarrow> ParsedLongHeaderInvariant \<Rightarrow> cursor \<Rightarrow> QuicNodeType \<Rightarrow> (ParsedLongHeader \<times> cursor) parsed" where
  "parseLongHeaderVariants type hinv cur nodeType =
     (if type = LH_Retry then
        if length cur \<le> kRetryIntegrityTagLen then Inl TE_FRAME_ENCODING_ERROR
        else let n = length cur - kRetryIntegrityTagLen in
          Inr (\<lparr>plh_header = mkLongHeader type (pli_invariant hinv) (take n cur),
                 plh_packetLength = \<lparr>pl_packetLength = 0, pl_lengthLength = 0\<rparr>\<rparr>, drop n cur)
      else if type = LH_Initial \<and> nodeType = Server \<and>
          length (lhi_dstConnId (pli_invariant hinv)) < kMinInitialDestinationConnIdLength
        then Inl TE_FRAME_ENCODING_ERROR
      else
        (case (if type = LH_Initial then
           (case decodeQuicInteger cur 8 of
              (None, cur) \<Rightarrow> Inl TE_FRAME_ENCODING_ERROR
            | (Some (tokenLen, _), cur) \<Rightarrow>
                if length cur < tokenLen then Inl TE_FRAME_ENCODING_ERROR
                else Inr (take tokenLen cur, drop tokenLen cur))
           else Inr ([], cur)) of
           Inl e \<Rightarrow> Inl e
         | Inr (token, cur) \<Rightarrow>
             (case decodeQuicInteger cur 8 of
                (None, cur) \<Rightarrow> Inl TE_FRAME_ENCODING_ERROR
              | (Some (pktLen, lengthLen), cur) \<Rightarrow>
                  if length cur < pktLen then Inl TE_FRAME_ENCODING_ERROR
                  else let packetNumLen = parsePacketNumberLength (pli_initialByte hinv) in
                    if length cur < packetNumLen then Inl TE_FRAME_ENCODING_ERROR
                    else if packetNumLen > kMaxPacketNumEncodingSize then Inl TE_FRAME_ENCODING_ERROR
                    else Inr (\<lparr>plh_header = mkLongHeader type (pli_invariant hinv) token,
                           plh_packetLength = \<lparr>pl_packetLength = pktLen, pl_lengthLength = lengthLen\<rparr>\<rparr>, cur))))"

definition parseLongHeader :: "byte \<Rightarrow> cursor \<Rightarrow> (ParsedLongHeaderResult \<times> cursor) parsed" where
  "parseLongHeader initialByte cur =
     (if getHeaderForm initialByte \<noteq> HF_Long then Inl TE_FRAME_ENCODING_ERROR
      else let type = parseLongHeaderType initialByte in
        case parseLongHeaderInvariant initialByte cur of
          Inl _ \<Rightarrow> Inl TE_FRAME_ENCODING_ERROR
        | Inr (hinv, cur) \<Rightarrow>
            if lhi_version (pli_invariant hinv) = VERSION_NEGOTIATION
            then Inr (\<lparr>plr_isVersionNegotiation = True, plr_parsedLongHeader = None\<rparr>, cur)
            else (case parseLongHeaderVariants type hinv cur Server of
                Inl e \<Rightarrow> Inl e
              | Inr (h, cur) \<Rightarrow>
                  Inr (\<lparr>plr_isVersionNegotiation = False, plr_parsedLongHeader = Some h\<rparr>, cur)))"

definition parseShortHeaderInvariants :: "byte \<Rightarrow> cursor \<Rightarrow> nat \<Rightarrow> (ConnectionId \<times> cursor) parsed" where
  "parseShortHeaderInvariants initialByte cur dstConnIdSize =
     (if getHeaderForm initialByte \<noteq> HF_Short then Inl TE_FRAME_ENCODING_ERROR
      else if dstConnIdSize > kMaxConnectionIdSize then Inl TE_PROTOCOL_VIOLATION
      else if length cur < dstConnIdSize then Inl TE_FRAME_ENCODING_ERROR
      else Inr (take dstConnIdSize cur, drop dstConnIdSize cur))"

text \<open>The key phases are the protection types the constructor accepts.\<close>

definition parseShortHeader :: "byte \<Rightarrow> cursor \<Rightarrow> nat \<Rightarrow> (ShortHeader \<times> cursor) parsed" where
  "parseShortHeader initialByte cur dstConnIdSize =
     (if getHeaderForm initialByte \<noteq> HF_Short then Inl TE_FRAME_ENCODING_ERROR
      else if initialByte AND sh_kFixedBitMask = 0 then Inl TE_FRAME_ENCODING_ERROR
      else if initialByte AND sh_kReservedBitsMask \<noteq> 0 then Inl TE_PROTOCOL_VIOLATION
      else case parseShortHeaderInvariants initialByte cur dstConnIdSize of
          Inl _ \<Rightarrow> Inl TE_FRAME_ENCODING_ERROR
        | Inr (connId, cur) \<Rightarrow>
            let protectionType = (if initialByte AND sh_kKeyPhaseMask \<noteq> 0 then PT_KeyPhaseOne else PT_KeyPhaseZero)
            in Inr (\<lparr>sh_packetSequenceNum = 0, sh_protectionType = protectionType, sh_connectionId = connId\<rparr>, cur))"


section \<open>Writers\<close>

text \<open>
  \<^verbatim>\<open>encodeLongHeaderHelper\<close>: the bytes appended, the new value of the space counter and the
  encoding of the packet number, which is written only when the packet is built.
\<close>

definition longHeaderInitialByte :: "LongHeaderType \<Rightarrow> nat \<Rightarrow> byte" where
  "longHeaderInitialByte type pnLength =
     (let initialByte = kHeaderFormMask OR lh_kFixedBitMask OR push_bit lh_kTypeShift (longHeaderTypeCode type)
      in if type \<noteq> LH_Retry
         then (initialByte AND NOT lh_kReservedBitsMask) OR word_of_nat (pnLength - 1)
         else initialByte)"

definition encodeLongHeaderHelper ::
  "LongHeader \<Rightarrow> nat \<Rightarrow> PacketNum \<Rightarrow> (byte list \<times> nat \<times> PacketNumEncodingResult) res" where
  "encodeLongHeaderHelper longHeader spaceCounter largestAckedPacketNum =
     (let type = lh_longHeaderType longHeader;
          isInitial = (type = LH_Initial); isRetry = (type = LH_Retry);
          token = lh_token longHeader;
          dst = lhi_dstConnId (lh_invariant longHeader); src = lhi_srcConnId (lh_invariant longHeader)
      in rbind (encodePacketNumber (lh_packetSequenceNum longHeader) largestAckedPacketNum) (\<lambda>encodedPacketNum.
         rbind (if isInitial then rbind (QuicInteger_getSize (length token)) (\<lambda>n. Inr (n + length token))
                else Inr (if isRetry then length token else 0)) (\<lambda>tokenHeaderLength.
         let longHeaderSize = 1 + 4 + 1 + length src + 1 + length dst + tokenHeaderLength +
               (if isRetry then 0 else kMaxPacketLenSize + per_length encodedPacketNum);
             space = (if spaceCounter < longHeaderSize then 0 else spaceCounter - longHeaderSize)
         in rbind (if isInitial then rbind (QuicInteger_encode (length token)) (\<lambda>bs. Inr (bs @ token)) else Inr []) (\<lambda>initialToken.
            rbind (if isRetry then rbind (check (token \<noteq> [])) (\<lambda>_. Inr token) else Inr []) (\<lambda>retryToken.
            Inr ([longHeaderInitialByte type (per_length encodedPacketNum)] @
                 writeBE 4 (lhi_version (lh_invariant longHeader)) @
                 writeBE 1 (word_of_nat (length dst) :: byte) @ dst @
                 writeBE 1 (word_of_nat (length src) :: byte) @ src @
                 initialToken @ retryToken, space, encodedPacketNum))))))"

definition shortHeaderInitialByte :: "ProtectionType \<Rightarrow> nat \<Rightarrow> byte" where
  "shortHeaderInitialByte protectionType pnLength =
     (let initialByte = (sh_kFixedBitMask OR word_of_nat (pnLength - 1)) AND NOT sh_kReservedBitsMask
      in if protectionType = PT_KeyPhaseOne then initialByte OR sh_kKeyPhaseMask else initialByte)"

definition encodeShortHeaderHelper ::
  "ShortHeader \<Rightarrow> nat \<Rightarrow> PacketNum \<Rightarrow> (byte list \<times> nat \<times> PacketNumEncodingResult option) res" where
  "encodeShortHeaderHelper shortHeader spaceCounter largestAckedPacketNum =
     rbind (encodePacketNumber (sh_packetSequenceNum shortHeader) largestAckedPacketNum) (\<lambda>packetNumberEncoding.
       let connId = sh_connectionId shortHeader in
       if spaceCounter < 1 + per_length packetNumberEncoding + length connId then Inr ([], 0, None)
       else Inr ([shortHeaderInitialByte (sh_protectionType shortHeader) (per_length packetNumberEncoding)] @ connId,
                 spaceCounter - 1 - length connId, Some packetNumberEncoding))"

text \<open>The low bytes of a packet number as \<^verbatim>\<open>appendBytes\<close> writes them, most significant first.\<close>

definition packetNumBytes :: "PacketNum \<Rightarrow> nat \<Rightarrow> byte list" where
  "packetNumBytes val byteNumber = writeBE byteNumber (word_of_nat val :: 64 word)"

section \<open>The initial byte\<close>

lemma pn_length_cases: "1 \<le> n \<Longrightarrow> n \<le> 4 \<Longrightarrow> n = 1 \<or> n = 2 \<or> n = 3 \<or> n = (4::nat)"
  by auto

lemma longHeaderInitialByte_parse:
  assumes "1 \<le> n" "n \<le> 4"
  shows "getHeaderForm (longHeaderInitialByte type n) = HF_Long"
    and "parseLongHeaderType (longHeaderInitialByte type n) = type"
    and "type \<noteq> LH_Retry \<Longrightarrow> parsePacketNumberLength (longHeaderInitialByte type n) = n"
  using pn_length_cases [OF assms]
  by (cases type; elim disjE; simp add: getHeaderForm_def parseLongHeaderType_def parsePacketNumberLength_def
      longHeaderInitialByte_def header_consts Let_def)+

lemma shortHeaderInitialByte_parse:
  assumes "1 \<le> n" "n \<le> 4"
  shows "getHeaderForm (shortHeaderInitialByte pt n) = HF_Short"
    and "shortHeaderInitialByte pt n AND sh_kFixedBitMask \<noteq> 0"
    and "shortHeaderInitialByte pt n AND sh_kReservedBitsMask = 0"
    and "shortHeaderInitialByte pt n AND sh_kKeyPhaseMask \<noteq> 0 \<longleftrightarrow> pt = PT_KeyPhaseOne"
    and "parsePacketNumberLength (shortHeaderInitialByte pt n) = n"
  using pn_length_cases [OF assms]
  by (cases "pt = PT_KeyPhaseOne"; elim disjE; simp add: getHeaderForm_def parsePacketNumberLength_def
      shortHeaderInitialByte_def header_consts Let_def)+


section \<open>Fields read back\<close>

lemma byte_of_length: "n < 256 \<Longrightarrow> unat (word_of_nat n :: byte) = n"
  by (simp add: unat_of_nat)

lemma be_val_single: "be_val [b] = unat b"
  by (simp add: be_val_def)

lemma writeBE_byte [simp]: "writeBE (Suc 0) (b :: byte) = [b]"
  by (simp add: writeBE_def)

lemma readConnId_written:
  "length c \<le> kMaxConnectionIdSize \<Longrightarrow>
   readConnId (word_of_nat (length c) # c @ rest) = Inr (c, rest)"
  by (simp add: readConnId_def byte_of_length kMaxConnectionIdSize_def)

lemma readVersion_written: "readVersion (writeBE 4 v @ rest) = v"
proof -
  have "unat (readBE (writeBE 4 v)) = unat v"
    using unsigned_less [of v, where 'a = nat] by (simp add: unat_readBE be_val_writeBE)
  then have "unat (ucast (readBE (writeBE 4 v)) :: 32 word) = unat v"
    using unsigned_less [of v, where 'a = nat] by (simp add: unat_ucast_mod)
  then show ?thesis by (simp add: readVersion_def word_unat_eq_iff)
qed

lemma readVarint_written:
  assumes "QuicInteger_encode v = Inr bs"
  shows "decodeQuicInteger (bs @ rest) 8 = (Some (v, length bs), rest)"
proof -
  have e: "encodeQuicInteger v = Inr bs"
    using assms by (simp add: QuicInteger_encode_def split: sum.splits)
  moreover have "length bs \<le> 8" using encode_length_cases [OF e] by auto
  ultimately show ?thesis by (rule encode_decode)
qed

lemma encodePacketNumber_length:
  assumes "encodePacketNumber pn la = Inr r" "la \<le> pn" "pn < 2 ^ 62"
  shows "1 \<le> per_length r" "per_length r \<le> 4" "per_result r < 2 ^ (8 * per_length r)"
  using assms encodedLength_pos [of "2 * (pn - la)"] encodedLength_le_iff [of 4 "2 * (pn - la)"]
  by (auto simp: encode_eq Let_def split: if_splits)

lemma parsePacketNumber_written:
  assumes enc: "encodePacketNumber pn la = Inr r" and "la \<le> pn" "pn < 2 ^ 62"
    and "la \<le> expected" "expected < pn + 2 ^ (8 * per_length r) div 2"
    and len: "parsePacketNumberLength b = per_length r"
  shows "parsePacketNumber b (packetNumBytes (per_result r) (per_length r) @ rest) expected
    = Inr (pn, per_length r)"
proof -
  note L = encodePacketNumber_length [OF assms(1-3)]
  have "per_result r < 256 ^ per_length r" using L(3) by (simp add: power_mult)
  moreover have "(256 :: nat) ^ per_length r \<le> 256 ^ 4" using L(2) by (intro power_increasing) auto
  ultimately have "unat (readBE (packetNumBytes (per_result r) (per_length r))) = per_result r"
    using L(2) by (simp add: packetNumBytes_def unat_readBE be_val_writeBE unat_of_nat)
  moreover have "take (per_length r) (packetNumBytes (per_result r) (per_length r) @ rest) =
      packetNumBytes (per_result r) (per_length r)"
    by (simp add: packetNumBytes_def)
  ultimately show ?thesis
    using decode_encoded_number [OF assms(1-5)] by (simp add: parsePacketNumber_def len)
qed

lemma parseLongHeaderInvariant_written:
  assumes "length dst \<le> kMaxConnectionIdSize" "length src \<le> kMaxConnectionIdSize"
  shows "parseLongHeaderInvariant b (writeBE 4 v @ word_of_nat (length dst) # dst @
      word_of_nat (length src) # src @ rest) =
    Inr (\<lparr>pli_initialByte = b,
          pli_invariant = \<lparr>lhi_version = v, lhi_srcConnId = src, lhi_dstConnId = dst\<rparr>,
          pli_invariantLength = 6 + length dst + length src\<rparr>, rest)"
  using assms by (simp add: parseLongHeaderInvariant_def readVersion_written readConnId_written
      Let_def)

lemma lhi_collapse: "\<lparr>lhi_version = lhi_version i, lhi_srcConnId = lhi_srcConnId i, lhi_dstConnId = lhi_dstConnId i\<rparr> = i"
  by simp

text \<open>A long header followed by the packet length and the packet number is parsed back.\<close>

lemma long_header_parses:
  assumes enc: "encodeLongHeaderHelper h space la = Inr (bs, space', r)"
    and type: "lh_longHeaderType h \<noteq> LH_Retry"
    and dst: "length (lhi_dstConnId (lh_invariant h)) \<le> kMaxConnectionIdSize"
    and src: "length (lhi_srcConnId (lh_invariant h)) \<le> kMaxConnectionIdSize"
    and init: "lh_longHeaderType h = LH_Initial \<Longrightarrow>
      kMinInitialDestinationConnIdLength \<le> length (lhi_dstConnId (lh_invariant h))"
    and tok: "lh_longHeaderType h \<noteq> LH_Initial \<Longrightarrow> lh_token h = []"
    and ver: "lhi_version (lh_invariant h) \<noteq> VERSION_NEGOTIATION"
    and pn: "la \<le> lh_packetSequenceNum h" "lh_packetSequenceNum h < 2 ^ 62"
      "la \<le> expected" "expected < lh_packetSequenceNum h + 2 ^ (8 * per_length r) div 2"
    and len: "QuicInteger_encode (per_length r + length body) = Inr lenBytes"
  shows "let rest = packetNumBytes (per_result r) (per_length r) @ body;
             packet = bs @ lenBytes @ rest
         in parseLongHeader (hd packet) (tl packet) =
              Inr (\<lparr>plr_isVersionNegotiation = False, plr_parsedLongHeader = Some
                \<lparr>plh_header = h\<lparr>lh_packetSequenceNum := 0\<rparr>,
                 plh_packetLength = \<lparr>pl_packetLength = per_length r + length body,
                   pl_lengthLength = length lenBytes\<rparr>\<rparr>\<rparr>, rest)
            \<and> parsePacketNumber (hd packet) rest expected = Inr (lh_packetSequenceNum h, per_length r)"
proof -
  define rest where "rest = packetNumBytes (per_result r) (per_length r) @ body"
  define b where "b = longHeaderInitialByte (lh_longHeaderType h) (per_length r)"
  obtain tokBytes where e: "encodePacketNumber (lh_packetSequenceNum h) la = Inr r"
    and bs: "bs = b # writeBE 4 (lhi_version (lh_invariant h)) @
        word_of_nat (length (lhi_dstConnId (lh_invariant h))) # lhi_dstConnId (lh_invariant h) @
        word_of_nat (length (lhi_srcConnId (lh_invariant h))) # lhi_srcConnId (lh_invariant h) @
        tokBytes"
    and tb: "if lh_longHeaderType h = LH_Initial then \<exists>n. QuicInteger_encode (length (lh_token h)) = Inr n \<and> tokBytes = n @ lh_token h
      else tokBytes = []"
    using enc type by (auto simp: encodeLongHeaderHelper_def Let_def b_def split: if_splits)
  note L = encodePacketNumber_length [OF e pn(1,2)]
  have form: "getHeaderForm b = HF_Long" "parseLongHeaderType b = lh_longHeaderType h"
    "parsePacketNumberLength b = per_length r"
    using longHeaderInitialByte_parse [OF L(1,2)] type by (auto simp: b_def)
  have long: "per_length r \<le> length rest" "length rest = per_length r + length body"
    by (simp_all add: rest_def packetNumBytes_def)
  have "parseLongHeaderVariants (lh_longHeaderType h)
      \<lparr>pli_initialByte = b, pli_invariant = lh_invariant h, pli_invariantLength = n\<rparr>
      (tokBytes @ lenBytes @ rest) Server =
    Inr (\<lparr>plh_header = h\<lparr>lh_packetSequenceNum := 0\<rparr>,
          plh_packetLength = \<lparr>pl_packetLength = per_length r + length body, pl_lengthLength = length lenBytes\<rparr>\<rparr>, rest)" for n
    using tb type init tok readVarint_written [OF len, of rest] long L(2)
    by (auto simp: parseLongHeaderVariants_def readVarint_written form(3) kMaxPacketNumEncodingSize_def mkLongHeader_def
        not_less split: if_splits)
  then have "parseLongHeader b (tl bs @ lenBytes @ rest) =
      Inr (\<lparr>plr_isVersionNegotiation = False, plr_parsedLongHeader = Some
        \<lparr>plh_header = h\<lparr>lh_packetSequenceNum := 0\<rparr>,
         plh_packetLength = \<lparr>pl_packetLength = per_length r + length body, pl_lengthLength = length lenBytes\<rparr>\<rparr>\<rparr>, rest)"
    using ver by (simp add: parseLongHeader_def form bs parseLongHeaderInvariant_written [OF dst src] lhi_collapse Let_def)
  moreover have "parsePacketNumber b rest expected = Inr (lh_packetSequenceNum h, per_length r)"
    unfolding rest_def by (rule parsePacketNumber_written [OF e pn form(3)])
  ultimately show ?thesis by (simp add: bs Let_def flip: rest_def)
qed

section \<open>Properties\<close>

text \<open>C14: short header round trip. With enough space the header is written with the key phase and
  connection id, and parsing it with the length of that id recovers both and, from the bytes
  behind it, the packet number; without the space nothing is written and the counter is zero.\<close>

theorem short_header_roundtrip:
  assumes enc: "encodeShortHeaderHelper h space la = Inr (bs, space', r)"
    and prot: "sh_protectionType h \<in> {PT_KeyPhaseZero, PT_KeyPhaseOne}"
    and conn: "length (sh_connectionId h) \<le> kMaxConnectionIdSize"
    and pn: "la \<le> sh_packetSequenceNum h" "sh_packetSequenceNum h < 2 ^ 62"
  shows "case r of
      None \<Rightarrow> bs = [] \<and> space' = 0 \<and> space < 5 + length (sh_connectionId h)
    | Some e \<Rightarrow> space' + length bs = space \<and> per_length e \<le> space' \<and>
        (let rest = packetNumBytes (per_result e) (per_length e) @ body; packet = bs @ rest in
         parseShortHeader (hd packet) (tl packet) (length (sh_connectionId h)) =
           Inr (h\<lparr>sh_packetSequenceNum := 0\<rparr>, rest) \<and>
         (\<forall>expected. la \<le> expected \<and> expected < sh_packetSequenceNum h + 2 ^ (8 * per_length e) div 2 \<longrightarrow>
            parsePacketNumber (hd packet) rest expected = Inr (sh_packetSequenceNum h, per_length e)))"
proof -
  obtain e where e: "encodePacketNumber (sh_packetSequenceNum h) la = Inr e"
    using enc by (auto simp: encodeShortHeaderHelper_def)
  note L = encodePacketNumber_length [OF e pn]
  let ?b = "shortHeaderInitialByte (sh_protectionType h) (per_length e)"
  note B = shortHeaderInitialByte_parse [OF L(1,2), of "sh_protectionType h"]
  show ?thesis
  proof (cases "space < 1 + per_length e + length (sh_connectionId h)")
    case True
    then show ?thesis using enc L(2) by (auto simp: encodeShortHeaderHelper_def e)
  next
    case False
    then have r: "r = Some e" and bs: "bs = ?b # sh_connectionId h"
      and sp: "space' = space - 1 - length (sh_connectionId h)"
      using enc by (auto simp: encodeShortHeaderHelper_def e Let_def)
    have "parseShortHeader ?b (sh_connectionId h @ rest) (length (sh_connectionId h)) =
        Inr (h\<lparr>sh_packetSequenceNum := 0\<rparr>, rest)" for rest
      using B(1-3) B(4) conn prot by (auto simp: parseShortHeader_def parseShortHeaderInvariants_def Let_def)
    then show ?thesis
      using False parsePacketNumber_written [OF e pn _ _ B(5)] by (auto simp: r bs sp Let_def)
  qed
qed

text \<open>An Initial packet with a token, and a short header packet.\<close>

definition example_long :: LongHeader where
  "example_long = \<lparr>lh_packetSequenceNum = 5, lh_longHeaderType = LH_Initial,
     lh_invariant = \<lparr>lhi_version = 1, lhi_srcConnId = [9], lhi_dstConnId = [1, 2, 3, 4, 5, 6, 7, 8]\<rparr>,
     lh_token = [0xaa]\<rparr>"

definition example_short :: ShortHeader where
  "example_short = \<lparr>sh_packetSequenceNum = 300, sh_protectionType = PT_KeyPhaseOne, sh_connectionId = [1, 2, 3]\<rparr>"

lemma example_long_encode:
  "encodeLongHeaderHelper example_long 1000 2 =
   Inr ([0xc0, 0, 0, 0, 1, 8, 1, 2, 3, 4, 5, 6, 7, 8, 1, 9, 1, 0xaa], 979,
        \<lparr>per_result = 5, per_length = 1\<rparr>)"
  by (simp add: encodeLongHeaderHelper_def example_long_def encode_eq encodedLength_def findLastSet.simps
      QuicInteger_getSize_def getQuicIntegerSize_def QuicInteger_encode_def encodeQuicInteger_def encodeOneByte_def
      quic_limits longHeaderInitialByte_def header_consts writeBE_def upt_rec Let_def)

lemma example_length_encode: "QuicInteger_encode (1 + length [0x11, 0x22 :: byte]) = Inr [3]"
  by (simp add: QuicInteger_encode_def encodeQuicInteger_def encodeOneByte_def quic_limits writeBE_def)

theorem short_header_roundtrip_witness:
  "parseShortHeader 0x45 [1, 2, 3, 1, 44, 0xff] 3 = Inr (example_short\<lparr>sh_packetSequenceNum := 0\<rparr>, [1, 44, 0xff]) \<and>
   parsePacketNumber 0x45 [1, 44, 0xff] 251 = Inr (300, 2)"
proof -
  have e: "encodeShortHeaderHelper example_short 100 100 =
      Inr ([0x45, 1, 2, 3], 96, Some \<lparr>per_result = 300, per_length = 2\<rparr>)"
    by (simp add: encodeShortHeaderHelper_def example_short_def encode_eq encodedLength_def findLastSet.simps
        shortHeaderInitialByte_def header_consts Let_def)
  have "packetNumBytes 300 2 = [1, 44]" by (simp add: packetNumBytes_def writeBE_def upt_rec)
  then show ?thesis
    using short_header_roundtrip [OF e, of "[0xff]"]
    by (simp add: example_short_def kMaxConnectionIdSize_def Let_def numeral_3_eq_3)
qed

end
