(* ===== verification/Packet_Builder.thy ===== *)
theory Packet_Builder
  imports Packet_Header
begin

text \<open>
  The packet builders of \<^verbatim>\<open>quic/codec/QuicPacketBuilder.cpp\<close>: the regular builder the frame
  writers fill, and the builders of version negotiation, retry, pseudo-retry, stateless reset and
  size-enforced packets. Buffers are byte lists; \<^verbatim>\<open>remainingBytes_\<close> is a \<^verbatim>\<open>uint32_t\<close> whose
  subtractions wrap. \<^verbatim>\<open>kDefaultUDPSendPacketLen\<close> and \<^verbatim>\<open>kDefaultMaxUDPPayload\<close> are variables the
  program sets, so they are arguments, as are the random bytes of a stateless reset.
\<close>

section \<open>Model\<close>

definition sub32 :: "nat \<Rightarrow> nat \<Rightarrow> nat" where
  "sub32 a b = nat ((int a - int b) mod 4294967296)"

lemma sub32_exact [u64_simps]: "b \<le> a \<Longrightarrow> a < 4294967296 \<Longrightarrow> sub32 a b = a - b"
  by (simp add: sub32_def flip: of_nat_diff)

lemma rbind_cong [fundef_cong]:
  "m = m' \<Longrightarrow> (\<And>x. m' = Inr x \<Longrightarrow> f x = g x) \<Longrightarrow> rbind m f = rbind m' g"
  by (cases m) auto

definition kSampleSize :: nat where "kSampleSize = 16"

record PacketBuilder =
  pb_remainingBytes :: nat
  pb_largestAckedPacketNum :: PacketNum
  pb_packetHeader :: PacketHeader
  pb_frames :: "QuicWriteFrame list"
  pb_empty :: bool
  pb_header :: "byte list"
  pb_body :: "byte list"
  pb_cipherOverhead :: nat
  pb_packetNumberEncoding :: "PacketNumEncodingResult option"

definition mkPacketBuilder :: "nat \<Rightarrow> PacketHeader \<Rightarrow> PacketNum \<Rightarrow> PacketBuilder" where
  "mkPacketBuilder remainingBytes header largestAckedPacketNum =
     \<lparr>pb_remainingBytes = remainingBytes, pb_largestAckedPacketNum = largestAckedPacketNum,
      pb_packetHeader = header, pb_frames = [], pb_empty = True, pb_header = [], pb_body = [],
      pb_cipherOverhead = 0, pb_packetNumberEncoding = None\<rparr>"

text \<open>Every body write appends bytes and takes their number off the space left.\<close>

definition pb_put :: "byte list \<Rightarrow> PacketBuilder \<Rightarrow> PacketBuilder" where
  "pb_put bs b = b\<lparr>pb_body := pb_body b @ bs, pb_remainingBytes := sub32 (pb_remainingBytes b) (length bs)\<rparr>"

definition getHeaderBytes :: "PacketBuilder \<Rightarrow> nat res" where
  "getHeaderBytes b = (case pb_packetNumberEncoding b of
      None \<Rightarrow> Inl CheckFailed
    | Some e \<Rightarrow> Inr (length (pb_header b) +
        (if ph_getHeaderForm (pb_packetHeader b) = HF_Long then per_length e + kMaxPacketLenSize else 0)))"

definition remainingSpaceInPkt :: "PacketBuilder \<Rightarrow> nat" where
  "remainingSpaceInPkt b = pb_remainingBytes b"

definition pb_writeBE8 :: "8 word \<Rightarrow> PacketBuilder \<Rightarrow> PacketBuilder" where
  "pb_writeBE8 d b = pb_put (writeBE 1 d) b"

definition pb_writeBE16 :: "16 word \<Rightarrow> PacketBuilder \<Rightarrow> PacketBuilder" where
  "pb_writeBE16 d b = pb_put (writeBE 2 d) b"

definition pb_writeBE64 :: "64 word \<Rightarrow> PacketBuilder \<Rightarrow> PacketBuilder" where
  "pb_writeBE64 d b = pb_put (writeBE 8 d) b"

definition pb_write :: "nat \<Rightarrow> PacketBuilder \<Rightarrow> PacketBuilder res" where
  "pb_write quicInteger b = rbind (QuicInteger_encode quicInteger) (\<lambda>bs. Inr (pb_put bs b))"

definition pb_appendBytes :: "PacketNum \<Rightarrow> nat \<Rightarrow> PacketBuilder \<Rightarrow> PacketBuilder" where
  "pb_appendBytes val byteNumber b = pb_put (packetNumBytes val byteNumber) b"

definition pb_appendHeaderBytes :: "PacketNum \<Rightarrow> nat \<Rightarrow> PacketBuilder \<Rightarrow> PacketBuilder" where
  "pb_appendHeaderBytes val byteNumber b =
     b\<lparr>pb_header := pb_header b @ packetNumBytes val byteNumber,
       pb_remainingBytes := sub32 (pb_remainingBytes b) byteNumber\<rparr>"

definition pb_insert :: "byte list \<Rightarrow> PacketBuilder \<Rightarrow> PacketBuilder" where
  "pb_insert buf b = pb_put buf b"

definition pb_insertLimit :: "byte list \<Rightarrow> nat \<Rightarrow> PacketBuilder \<Rightarrow> PacketBuilder res" where
  "pb_insertLimit buf limit b = (if length buf < limit then Inl OutOfRange else Inr (pb_insert (take limit buf) b))"

definition pb_push :: "byte list \<Rightarrow> PacketBuilder \<Rightarrow> PacketBuilder" where
  "pb_push d b = pb_put d b"

definition pb_appendFrame :: "QuicWriteFrame \<Rightarrow> PacketBuilder \<Rightarrow> PacketBuilder" where
  "pb_appendFrame frame b = b\<lparr>pb_empty := False, pb_frames := pb_frames b @ [frame]\<rparr>"

text \<open>The number of padding frames is a \<^verbatim>\<open>uint16_t\<close>.\<close>

definition pb_appendPaddingFrame :: "PacketBuilder \<Rightarrow> PacketBuilder" where
  "pb_appendPaddingFrame b =
     (let fs = pb_frames b in
      b\<lparr>pb_empty := False, pb_frames :=
        (if fs = [] then [WF_Padding 1]
         else case last fs of WF_Padding n \<Rightarrow> butlast fs @ [WF_Padding ((n + 1) mod 65536)] | _ \<Rightarrow> fs @ [WF_Padding 1])\<rparr>)"

definition pb_markNonEmpty :: "PacketBuilder \<Rightarrow> PacketBuilder" where
  "pb_markNonEmpty b = b\<lparr>pb_empty := False\<rparr>"

definition encodeLongHeader :: "LongHeader \<Rightarrow> PacketNum \<Rightarrow> PacketBuilder \<Rightarrow> PacketBuilder res" where
  "encodeLongHeader longHeader largestAckedPacketNum b =
     rbind (encodeLongHeaderHelper longHeader (pb_remainingBytes b) largestAckedPacketNum) (\<lambda>(bs, space, e).
       Inr (b\<lparr>pb_header := pb_header b @ bs, pb_remainingBytes := space, pb_packetNumberEncoding := Some e\<rparr>))"

definition encodeShortHeader :: "ShortHeader \<Rightarrow> PacketNum \<Rightarrow> PacketBuilder \<Rightarrow> PacketBuilder res" where
  "encodeShortHeader shortHeader largestAckedPacketNum b =
     rbind (encodeShortHeaderHelper shortHeader (pb_remainingBytes b) largestAckedPacketNum) (\<lambda>(bs, space, e).
       let b = b\<lparr>pb_header := pb_header b @ bs, pb_remainingBytes := space, pb_packetNumberEncoding := e\<rparr> in
       case e of None \<Rightarrow> Inr b | Some e \<Rightarrow> Inr (pb_appendHeaderBytes (per_result e) (per_length e) b))"

definition encodePacketHeader :: "PacketBuilder \<Rightarrow> PacketBuilder res" where
  "encodePacketHeader b = rbind (check (pb_packetNumberEncoding b = None)) (\<lambda>_.
     case pb_packetHeader b of
       PH_Long h \<Rightarrow> encodeLongHeader h (pb_largestAckedPacketNum b) b
     | PH_Short h \<Rightarrow> encodeShortHeader h (pb_largestAckedPacketNum b) b)"

definition canBuildPacket :: "PacketBuilder \<Rightarrow> bool" where
  "canBuildPacket b \<longleftrightarrow> pb_remainingBytes b \<noteq> 0 \<and> pb_packetNumberEncoding b \<noteq> None"

definition accountForCipherOverhead :: "nat \<Rightarrow> PacketBuilder \<Rightarrow> PacketBuilder" where
  "accountForCipherOverhead overhead b =
     b\<lparr>pb_cipherOverhead := overhead, pb_remainingBytes := sub32 (pb_remainingBytes b) overhead\<rparr>"

definition hasFramesPending :: "PacketBuilder \<Rightarrow> bool" where
  "hasFramesPending b \<longleftrightarrow> pb_frames b \<noteq> []"

text \<open>A padding frame is the type byte 0; its encoding cannot fail.\<close>

definition pb_pad :: "PacketBuilder \<Rightarrow> PacketBuilder" where
  "pb_pad b = pb_put (encodeOneByte (frameTypeCode FT_PADDING)) b"

lemma pb_pad_write: "pb_write (frameTypeCode FT_PADDING) b = Inr (pb_pad b)"
  by (simp add: pb_write_def pb_pad_def QuicInteger_encode_def encodeQuicInteger_def)

lemma padding_byte: "encodeOneByte 0 = [0]"
  by (simp add: encodeOneByte_def writeBE_def)

function padLoop :: "nat \<Rightarrow> PacketBuilder \<Rightarrow> PacketBuilder" where
  "padLoop minBodySize b =
     (if length (pb_body b) + pb_cipherOverhead b < minBodySize \<and> \<not> pb_empty b \<and>
         pb_remainingBytes b > kMaxPacketLenSize
      then padLoop minBodySize (pb_pad b) else b)"
  by pat_completeness auto
termination
  by (relation "measure (\<lambda>(m, b). m - (length (pb_body b) + pb_cipherOverhead b))")
    (auto simp: pb_pad_def pb_put_def padding_byte)

declare padLoop.simps [simp del]

record BuiltPacket =
  bp_packetHeader :: PacketHeader
  bp_frames :: "QuicWriteFrame list"
  bp_empty :: bool
  bp_header :: "byte list"
  bp_body :: "byte list"

definition buildPacket :: "PacketBuilder \<Rightarrow> BuiltPacket res" where
  "buildPacket b = (case pb_packetNumberEncoding b of None \<Rightarrow> Inl CheckFailed | Some e \<Rightarrow>
     (let minBodySize = kMaxPacketNumEncodingSize - per_length e + kSampleSize;
          b = padLoop minBodySize b;
          result = (\<lambda>b. \<lparr>bp_packetHeader = pb_packetHeader b, bp_frames = pb_frames b, bp_empty = pb_empty b,
                       bp_header = pb_header b, bp_body = pb_body b\<rparr>)
      in case pb_packetHeader b of
           PH_Long h \<Rightarrow>
             if lh_longHeaderType h \<noteq> LH_Retry then
               rbind (QuicInteger_encode (per_length e + length (pb_body b) + pb_cipherOverhead b)) (\<lambda>pktLen.
                 Inr (result (pb_appendHeaderBytes (per_result e) (per_length e)
                   (b\<lparr>pb_header := pb_header b @ pktLen\<rparr>))))
             else Inr (result b)
         | PH_Short _ \<Rightarrow> Inr (result b)))"

section \<open>The other builders\<close>

definition writePseudoRetryPacket ::
  "byte \<Rightarrow> ConnectionId \<Rightarrow> ConnectionId \<Rightarrow> ConnectionId \<Rightarrow> QuicVersion \<Rightarrow> byte list \<Rightarrow> byte list" where
  "writePseudoRetryPacket initialByte sourceConnectionId destinationConnectionId
       originalDestinationConnectionId quicVersion token =
     writeBE 1 (word_of_nat (length originalDestinationConnectionId) :: byte) @ originalDestinationConnectionId @
     writeBE 1 initialByte @ writeBE 4 quicVersion @
     writeBE 1 (word_of_nat (length destinationConnectionId) :: byte) @ destinationConnectionId @
     writeBE 1 (word_of_nat (length sourceConnectionId) :: byte) @ sourceConnectionId @ token"

text \<open>The octet count is a \<^verbatim>\<open>uint16_t\<close>; \<open>rand32\<close> and \<open>randomOctets\<close> are the random source.\<close>

definition StatelessResetPacketBuilder :: "nat \<Rightarrow> byte list \<Rightarrow> 32 word \<Rightarrow> (nat \<Rightarrow> byte list) \<Rightarrow> byte list" where
  "StatelessResetPacketBuilder maxPacketSize resetToken rand32 randomOctets =
     (let randomOctetLength = nat ((int maxPacketSize - int (length resetToken) - 1) mod 65536);
          initialByte = sh_kFixedBitMask OR ucast (0x3f AND rand32)
      in writeBE 1 initialByte @ randomOctets randomOctetLength @ resetToken)"

definition sizeEnforcedCanBuildPacket :: "nat \<Rightarrow> BuiltPacket \<Rightarrow> nat \<Rightarrow> nat \<Rightarrow> bool" where
  "sizeEnforcedCanBuildPacket kDefaultMaxUDPPayload packet enforcedSize cipherOverhead \<longleftrightarrow>
     ph_getHeaderForm (bp_packetHeader packet) = HF_Short \<and> enforcedSize \<le> kDefaultMaxUDPPayload \<and>
     length (bp_body packet) + length (bp_header packet) + cipherOverhead < enforcedSize"

definition sizeEnforcedBuildPacket :: "BuiltPacket \<Rightarrow> nat \<Rightarrow> nat \<Rightarrow> BuiltPacket" where
  "sizeEnforcedBuildPacket packet enforcedSize cipherOverhead =
     packet\<lparr>bp_body := bp_body packet @
       concat (replicate (enforcedSize - (length (bp_body packet) + length (bp_header packet) + cipherOverhead))
         (encodeOneByte (frameTypeCode FT_PADDING)))\<rparr>"

text \<open>\<^verbatim>\<open>writeVersionNegotiationPacket\<close>: the loop stops when the space is used up.\<close>

fun vnVersionsLoop :: "QuicVersion list \<Rightarrow> nat \<Rightarrow> byte list \<times> QuicVersion list \<times> nat" where
  "vnVersionsLoop [] remainingBytes = ([], [], remainingBytes)"
| "vnVersionsLoop (v # vs) remainingBytes =
     (if remainingBytes < 4 then ([], [], remainingBytes)
      else case vnVersionsLoop vs (remainingBytes - 4) of (bs, written, rem) \<Rightarrow>
        (writeBE 4 v @ bs, v # written, rem))"

definition writeVersionNegotiationPacket ::
  "nat \<Rightarrow> ConnectionId \<Rightarrow> ConnectionId \<Rightarrow> QuicVersion list \<Rightarrow> VersionNegotiationPacket \<times> byte list \<times> nat" where
  "writeVersionNegotiationPacket kDefaultUDPSendPacketLen sourceConnectionId destinationConnectionId versions =
     (let packetType = kHeaderFormMask;
          header = writeBE 1 packetType @ writeBE 4 VERSION_NEGOTIATION @
            writeBE 1 (word_of_nat (length destinationConnectionId) :: byte) @ destinationConnectionId @
            writeBE 1 (word_of_nat (length sourceConnectionId) :: byte) @ sourceConnectionId;
          (bs, written, rem) = vnVersionsLoop versions (sub32 kDefaultUDPSendPacketLen (length header))
      in (\<lparr>vn_packetType = packetType, vn_sourceConnectionId = sourceConnectionId,
           vn_destinationConnectionId = destinationConnectionId, vn_versions = written\<rparr>, header @ bs, rem))"

definition writeRetryPacket ::
  "nat \<Rightarrow> ConnectionId \<Rightarrow> ConnectionId \<Rightarrow> QuicVersion \<Rightarrow> byte list \<Rightarrow> byte list \<Rightarrow> (byte list \<times> nat) res" where
  "writeRetryPacket kDefaultUDPSendPacketLen sourceConnectionId destinationConnectionId quicVersion retryToken integrityTag =
     (let header = \<lparr>lh_packetSequenceNum = 0, lh_longHeaderType = LH_Retry,
            lh_invariant = \<lparr>lhi_version = quicVersion, lhi_srcConnId = sourceConnectionId,
              lhi_dstConnId = destinationConnectionId\<rparr>, lh_token = retryToken\<rparr>
      in rbind (encodeLongHeaderHelper header kDefaultUDPSendPacketLen 0) (\<lambda>(bs, remainingBytes, _).
           if remainingBytes \<le> kRetryIntegrityTagLen then Inr (bs, 0)
           else Inr (bs @ integrityTag, remainingBytes - kRetryIntegrityTagLen)))"


section \<open>Lemmas on the builders\<close>

lemma pb_put_fields [simp]:
  "pb_packetHeader (pb_put bs b) = pb_packetHeader b" "pb_header (pb_put bs b) = pb_header b"
  "pb_empty (pb_put bs b) = pb_empty b" "pb_frames (pb_put bs b) = pb_frames b"
  "pb_cipherOverhead (pb_put bs b) = pb_cipherOverhead b" "pb_body (pb_put bs b) = pb_body b @ bs"
  "pb_packetNumberEncoding (pb_put bs b) = pb_packetNumberEncoding b"
  "pb_largestAckedPacketNum (pb_put bs b) = pb_largestAckedPacketNum b"
  by (simp_all add: pb_put_def)

lemma padLoop_shape:
  "\<exists>k r. padLoop m b = b\<lparr>pb_body := pb_body b @ replicate k 0, pb_remainingBytes := r\<rparr>"
proof (induction m b rule: padLoop.induct)
  case (1 m b)
  show ?case
  proof (cases "length (pb_body b) + pb_cipherOverhead b < m \<and> \<not> pb_empty b \<and>
         pb_remainingBytes b > kMaxPacketLenSize")
    case True
    then obtain k r where "padLoop m (pb_pad b) =
        (pb_pad b)\<lparr>pb_body := pb_body (pb_pad b) @ replicate k 0, pb_remainingBytes := r\<rparr>"
      using 1 by blast
    then have "padLoop m b = b\<lparr>pb_body := pb_body b @ replicate (Suc k) 0, pb_remainingBytes := r\<rparr>"
      using True by (subst padLoop.simps) (simp add: pb_pad_def pb_put_def padding_byte)
    then show ?thesis by blast
  next
    case False
    then have "padLoop m b = b\<lparr>pb_body := pb_body b @ replicate 0 0, pb_remainingBytes := pb_remainingBytes b\<rparr>"
      by (subst padLoop.simps) auto
    then show ?thesis by blast
  qed
qed

text \<open>The loop reaches the minimum unless the packet is empty or the space is used up.\<close>

lemma padLoop_min:
  assumes "\<not> pb_empty b" "pb_remainingBytes b < 4294967296"
    and "m \<le> length (pb_body b) + pb_cipherOverhead b + (pb_remainingBytes b - kMaxPacketLenSize)"
  shows "m \<le> length (pb_body (padLoop m b)) + pb_cipherOverhead b"
  using assms
proof (induction m b rule: padLoop.induct)
  case (1 m b)
  show ?case
  proof (cases "length (pb_body b) + pb_cipherOverhead b < m")
    case True
    then have rem: "pb_remainingBytes b > kMaxPacketLenSize" using "1.prems"(3) by linarith
    let ?b = "pb_pad b"
    have "pb_remainingBytes ?b = pb_remainingBytes b - 1"
      using "1.prems"(2) rem by (simp add: pb_pad_def pb_put_def padding_byte sub32_exact)
    then have "m \<le> length (pb_body (padLoop m ?b)) + pb_cipherOverhead ?b"
      using "1.prems" rem True by (intro "1.IH") (auto simp: pb_pad_def padding_byte)
    moreover have "padLoop m b = padLoop m ?b"
      using True rem "1.prems"(1) by (subst padLoop.simps) simp
    ultimately show ?thesis by (simp add: pb_pad_def)
  next
    case False
    then show ?thesis by (subst padLoop.simps) simp
  qed
qed

lemma versionsLoop_append: "length xs = 4 \<Longrightarrow> versionsLoop (xs @ ys) = readVersion (xs @ ys) # versionsLoop ys"
  by (cases xs) auto

lemma vnVersionsLoop_written:
  "vnVersionsLoop vs n = (bs, written, rem) \<Longrightarrow>
     versionsLoop bs = written \<and> length bs = 4 * length written \<and> rem + length bs = n \<and>
     written = take (length written) vs \<and> (4 * length vs \<le> n \<longrightarrow> written = vs)"
proof (induction vs arbitrary: n bs written rem)
  case Nil
  then show ?case by simp
next
  case (Cons v vs)
  show ?case
  proof (cases "n < 4")
    case True
    then show ?thesis using Cons.prems by auto
  next
    case False
    then obtain bs' w' where l: "vnVersionsLoop vs (n - 4) = (bs', w', rem)"
      and bs: "bs = writeBE 4 v @ bs'" and w: "written = v # w'"
      using Cons.prems by (auto split: prod.splits)
    have "versionsLoop bs = v # versionsLoop bs'"
      using versionsLoop_append [of "writeBE 4 v" bs'] by (simp add: bs readVersion_written)
    then show ?thesis
      using Cons.IH [OF l] False by (auto simp: bs w)
  qed
qed


section \<open>Properties\<close>

text \<open>C13: what \<^verbatim>\<open>buildPacket\<close> produces for a long header parses back. The frame writers
  change the body, the frames and the space of a builder, not its header; the sealed body is as
  long as the body and the cipher overhead the builder was told about. Then
  \<^verbatim>\<open>parseLongHeader\<close> recovers type, version, connection ids and token, the packet length
  reaches exactly to the end of the sealed body, and \<^verbatim>\<open>parsePacketNumber\<close> recovers the packet
  number for every receiver whose expectation is within the window.\<close>

theorem built_packet_roundtrip:
  assumes hdr: "encodePacketHeader (mkPacketBuilder n (PH_Long h) la) = Inr b1"
    and same: "pb_header b = pb_header b1" "pb_packetHeader b = pb_packetHeader b1"
      "pb_packetNumberEncoding b = pb_packetNumberEncoding b1"
    and build: "buildPacket b = Inr pkt"
    and sealed: "length sealed = length (bp_body pkt) + pb_cipherOverhead b"
    and type: "lh_longHeaderType h \<noteq> LH_Retry"
    and dst: "length (lhi_dstConnId (lh_invariant h)) \<le> kMaxConnectionIdSize"
    and src: "length (lhi_srcConnId (lh_invariant h)) \<le> kMaxConnectionIdSize"
    and init: "lh_longHeaderType h = LH_Initial \<Longrightarrow>
      kMinInitialDestinationConnIdLength \<le> length (lhi_dstConnId (lh_invariant h))"
    and tok: "lh_longHeaderType h \<noteq> LH_Initial \<Longrightarrow> lh_token h = []"
    and ver: "lhi_version (lh_invariant h) \<noteq> VERSION_NEGOTIATION"
    and pn: "la \<le> lh_packetSequenceNum h" "lh_packetSequenceNum h < 2 ^ 62"
    and e: "pb_packetNumberEncoding b1 = Some e"
    and expected: "la \<le> expected" "expected < lh_packetSequenceNum h + 2 ^ (8 * per_length e) div 2"
  shows "let packet = bp_header pkt @ sealed;
             rest = packetNumBytes (per_result e) (per_length e) @ sealed
         in (\<exists>len. parseLongHeader (hd packet) (tl packet) =
              Inr (\<lparr>plr_isVersionNegotiation = False, plr_parsedLongHeader = Some
                \<lparr>plh_header = h\<lparr>lh_packetSequenceNum := 0\<rparr>,
                 plh_packetLength = \<lparr>pl_packetLength = length rest, pl_lengthLength = len\<rparr>\<rparr>\<rparr>, rest))
            \<and> parsePacketNumber (hd packet) rest expected = Inr (lh_packetSequenceNum h, per_length e)"
proof -
  obtain space where enc: "encodeLongHeaderHelper h n la = Inr (pb_header b1, space, e)"
    and ph: "pb_packetHeader b1 = PH_Long h"
    using hdr e by (auto simp: encodePacketHeader_def mkPacketBuilder_def encodeLongHeader_def)
  define m where "m = kMaxPacketNumEncodingSize - per_length e + kSampleSize"
  obtain k r where pad: "padLoop m b = b\<lparr>pb_body := pb_body b @ replicate k 0, pb_remainingBytes := r\<rparr>"
    using padLoop_shape by blast
  obtain lenBytes where len: "QuicInteger_encode (per_length e + length (bp_body pkt) + pb_cipherOverhead b) = Inr lenBytes"
    and bp: "bp_header pkt = pb_header b1 @ lenBytes @ packetNumBytes (per_result e) (per_length e)"
    using build type by (auto simp: buildPacket_def same e ph pad Let_def pb_appendHeaderBytes_def simp flip: m_def)
  have len': "QuicInteger_encode (per_length e + length sealed) = Inr lenBytes"
    using len sealed by (simp add: add.assoc)
  show ?thesis
    using long_header_parses [OF enc type dst src init tok ver pn expected len']
    by (auto simp: bp Let_def packetNumBytes_def)
qed

text \<open>C33: header protection needs a sample. A packet that is built with at least one frame has,
  with its cipher overhead, at least the bytes that header protection samples behind the longest
  packet number, unless the builder ran out of space; only zero bytes (padding frames) are added.\<close>

theorem built_packet_sample:
  assumes "buildPacket b = Inr pkt" and "pb_packetNumberEncoding b = Some e"
    and "\<not> pb_empty b" and "pb_remainingBytes b < 4294967296"
    and "kMaxPacketNumEncodingSize - per_length e + kSampleSize
      \<le> length (pb_body b) + pb_cipherOverhead b + (pb_remainingBytes b - kMaxPacketLenSize)"
  shows "kMaxPacketNumEncodingSize - per_length e + kSampleSize \<le> length (bp_body pkt) + pb_cipherOverhead b
    \<and> (\<exists>k. bp_body pkt = pb_body b @ replicate k 0)"
proof -
  define m where "m = kMaxPacketNumEncodingSize - per_length e + kSampleSize"
  have "bp_body pkt = pb_body (padLoop m b)"
    using assms(1,2) by (auto simp: buildPacket_def Let_def pb_appendHeaderBytes_def
        split: PacketHeader.splits if_splits simp flip: m_def)
  then show ?thesis
    using padLoop_min [of b m] padLoop_shape [of m b] assms(3-5) by (auto simp: m_def)
qed

text \<open>C34: version negotiation round trip. The packet the builder writes is recognised as a version
  negotiation packet, and decoding it gives the connection ids and the versions written, which
  are a prefix of the supported versions and all of them if they fit.\<close>

theorem version_negotiation_roundtrip:
  assumes w: "writeVersionNegotiationPacket maxLen src dst versions = (pkt, bs, rem)"
    and ids: "length src \<le> kMaxConnectionIdSize" "length dst \<le> kMaxConnectionIdSize"
    and len: "11 + length src + length dst \<le> maxLen" "maxLen < 65536" "versions \<noteq> []"
  shows "\<exists>hinv cur. parseLongHeaderInvariant (hd bs) (tl bs) = Inr (hinv, cur) \<and>
      parseLongHeader (hd bs) (tl bs) =
        Inr (\<lparr>plr_isVersionNegotiation = True, plr_parsedLongHeader = None\<rparr>, cur) \<and>
      decodeVersionNegotiation hinv cur = Some pkt \<and>
      vn_versions pkt = take (length (vn_versions pkt)) versions \<and>
      (7 + length src + length dst + 4 * length versions \<le> maxLen \<longrightarrow> vn_versions pkt = versions) \<and>
      length bs + rem = maxLen"
proof -
  define space where "space = maxLen - (7 + length src + length dst)"
  have s: "sub32 maxLen (7 + length src + length dst) = space" "4 \<le> space"
    using len by (auto simp: space_def sub32_exact)
  obtain vbs written where l: "vnVersionsLoop versions space = (vbs, written, rem)"
    and bs: "bs = kHeaderFormMask # writeBE 4 VERSION_NEGOTIATION @ word_of_nat (length dst) # dst @
        word_of_nat (length src) # src @ vbs"
    and pkt: "pkt = \<lparr>vn_packetType = kHeaderFormMask, vn_sourceConnectionId = src,
           vn_destinationConnectionId = dst, vn_versions = written\<rparr>"
    using w s by (auto simp: writeVersionNegotiationPacket_def Let_def add.commute add.left_commute split: prod.splits)
  note L = vnVersionsLoop_written [OF l]
  have "written \<noteq> []"
    using l s(2) len(3) by (cases versions) (auto split: prod.splits)
  then have "4 \<le> length vbs \<and> length vbs mod 4 = 0" using L by (cases written) auto
  moreover have "getHeaderForm kHeaderFormMask = HF_Long"
    by (simp add: getHeaderForm_def header_consts)
  moreover have "7 + (length dst + (length src + 4 * length written)) + rem = maxLen"
    using L len(1) unfolding space_def by linarith
  ultimately show ?thesis
    using L len \<open>written \<noteq> []\<close> by (simp add: bs parseLongHeaderInvariant_written [OF ids(2,1)] parseLongHeader_def
        decodeVersionNegotiation_def pkt space_def Let_def)
qed

text \<open>Witnesses.\<close>

lemma example_long_header:
  "encodePacketHeader (mkPacketBuilder 1000 (PH_Long example_long) 2) =
   Inr (mkPacketBuilder 1000 (PH_Long example_long) 2
     \<lparr>pb_header := [0xc0, 0, 0, 0, 1, 8, 1, 2, 3, 4, 5, 6, 7, 8, 1, 9, 1, 0xaa], pb_remainingBytes := 979,
      pb_packetNumberEncoding := Some \<lparr>per_result = 5, per_length = 1\<rparr>\<rparr>)"
  by (simp add: encodePacketHeader_def encodeLongHeader_def mkPacketBuilder_def check_def example_long_encode)

definition example_builder :: PacketBuilder where
  "example_builder = mkPacketBuilder 1000 (PH_Long example_long) 2
     \<lparr>pb_header := [0xc0, 0, 0, 0, 1, 8, 1, 2, 3, 4, 5, 6, 7, 8, 1, 9, 1, 0xaa], pb_remainingBytes := 962,
      pb_packetNumberEncoding := Some \<lparr>per_result = 5, per_length = 1\<rparr>, pb_body := [1, 1, 1],
      pb_cipherOverhead := 16, pb_empty := False\<rparr>"

lemma example_build:
  "buildPacket example_builder = Inr \<lparr>bp_packetHeader = PH_Long example_long, bp_frames = [], bp_empty = False,
     bp_header = [0xc0, 0, 0, 0, 1, 8, 1, 2, 3, 4, 5, 6, 7, 8, 1, 9, 1, 0xaa, 20, 5], bp_body = [1, 1, 1]\<rparr>"
proof -
  have "padLoop 19 example_builder = example_builder"
    by (subst padLoop.simps) (simp add: example_builder_def mkPacketBuilder_def)
  moreover have "QuicInteger_encode 20 = Inr [20]"
    by (simp add: QuicInteger_encode_def encodeQuicInteger_def encodeOneByte_def quic_limits writeBE_def)
  ultimately show ?thesis
    by (simp add: buildPacket_def example_builder_def mkPacketBuilder_def kMaxPacketNumEncodingSize_def kSampleSize_def
        Let_def example_long_def pb_appendHeaderBytes_def packetNumBytes_def writeBE_def)
qed

theorem built_packet_roundtrip_witness:
  "parsePacketNumber 0xc0 (5 # replicate 19 0xee) 4 = Inr (5, 1) \<and>
   (\<exists>len. parseLongHeader 0xc0 ([0, 0, 0, 1, 8, 1, 2, 3, 4, 5, 6, 7, 8, 1, 9, 1, 0xaa, 20, 5] @ replicate 19 0xee) =
     Inr (\<lparr>plr_isVersionNegotiation = False, plr_parsedLongHeader = Some
       \<lparr>plh_header = example_long\<lparr>lh_packetSequenceNum := 0\<rparr>,
        plh_packetLength = \<lparr>pl_packetLength = 20, pl_lengthLength = len\<rparr>\<rparr>\<rparr>, 5 # replicate 19 0xee))"
proof -
  have "packetNumBytes 5 (Suc 0) = [5]" by (simp add: packetNumBytes_def writeBE_def)
  then show ?thesis
    using built_packet_roundtrip [OF example_long_header, of example_builder _ "replicate 19 0xee"
        "\<lparr>per_result = 5, per_length = 1\<rparr>" 4, OF _ _ _ example_build]
    by (simp add: example_builder_def mkPacketBuilder_def example_long_def kMaxConnectionIdSize_def
        kMinInitialDestinationConnIdLength_def VERSION_NEGOTIATION_def Let_def)
qed

theorem built_packet_sample_witness:
  "kMaxPacketNumEncodingSize - 1 + kSampleSize \<le> length [1, 1, 1 :: byte] + 16"
  using built_packet_sample [OF example_build, of "\<lparr>per_result = 5, per_length = 1\<rparr>"]
  by (simp add: example_builder_def mkPacketBuilder_def kMaxPacketNumEncodingSize_def kSampleSize_def)

theorem version_negotiation_roundtrip_witness:
  "\<exists>hinv cur. parseLongHeaderInvariant 0x80 [0, 0, 0, 0, 1, 7, 1, 9, 0, 0, 0, 1, 0xfa, 0xce, 0xb0, 2] = Inr (hinv, cur) \<and>
     decodeVersionNegotiation hinv cur = Some \<lparr>vn_packetType = 0x80, vn_sourceConnectionId = [9],
       vn_destinationConnectionId = [7], vn_versions = [1, 0xfaceb002]\<rparr>"
proof -
  have "writeVersionNegotiationPacket 1252 [9] [7] [1, 0xfaceb002] =
    (\<lparr>vn_packetType = 0x80, vn_sourceConnectionId = [9], vn_destinationConnectionId = [7],
      vn_versions = [1, 0xfaceb002]\<rparr>,
     [0x80, 0, 0, 0, 0, 1, 7, 1, 9, 0, 0, 0, 1, 0xfa, 0xce, 0xb0, 2], 1235)"
    by (simp add: writeVersionNegotiationPacket_def writeBE_def upt_rec sub32_exact header_consts
        VERSION_NEGOTIATION_def Let_def)
  from version_negotiation_roundtrip [OF this] show ?thesis
    by (auto simp: kMaxConnectionIdSize_def)
qed

end
