(* ===== verification/Frame_Write.thy ===== *)
theory Frame_Write
  imports Packet_Builder Interval_Set
begin

text \<open>
  The frame writers of \<^verbatim>\<open>quic/codec/QuicWriteCodec.cpp\<close> on the packet builder. Each writer
  computes the size of the frame from \<^verbatim>\<open>QuicInteger::getSize\<close> (which throws on a value above 62
  bits), compares it with the space left and writes the fields one by one; it returns the number
  of bytes, or 0 when there is no space, with the builder.

  The properties are the round trips against the decoder of \<open>Frame_Decode\<close> and the accounting: no
  writer takes more than the space left, and what it reports is what it wrote.
\<close>

section \<open>Model\<close>

definition packetSpaceCheck :: "nat \<Rightarrow> nat \<Rightarrow> bool" where
  "packetSpaceCheck limit require \<longleftrightarrow> require \<le> limit"

text \<open>The sizes of several integers added up, and the integers written one after the other.\<close>

fun intsSize :: "nat list \<Rightarrow> nat res" where
  "intsSize [] = Inr 0"
| "intsSize (v # vs) = rbind (QuicInteger_getSize v) (\<lambda>n. rbind (intsSize vs) (\<lambda>m. Inr (n + m)))"

fun writeInts :: "nat list \<Rightarrow> PacketBuilder \<Rightarrow> PacketBuilder res" where
  "writeInts [] b = Inr b"
| "writeInts (v # vs) b = rbind (pb_write v b) (writeInts vs)"

subsection \<open>Stream and crypto frames\<close>

definition streamDataLenLen :: "nat \<Rightarrow> nat res" where
  "streamDataLenLen dataLen =
     (if dataLen \<le> kOneByteLimit - 1 then Inr 1
      else if dataLen \<le> kTwoByteLimit - 2 then Inr 2
      else if dataLen \<le> kFourByteLimit - 4 then Inr 4
      else if dataLen \<le> kEightByteLimit - 8 then Inr 8
      else Inl (QuicInternalException LE_INTERNAL_ERROR))"

definition optInts :: "(bool \<times> nat) list \<Rightarrow> nat list" where
  "optInts xs = map snd (filter fst xs)"

text \<open>The type byte, in the order in which the builder's setters are called.\<close>

definition streamTypeByte :: "bool \<Rightarrow> bool \<Rightarrow> bool \<Rightarrow> bool \<Rightarrow> StreamTypeField" where
  "streamTypeByte grp off len fin =
     (let t = (if grp then switchToStreamGroups stf_builder else stf_builder);
          t = (if off then setOffset t else t);
          t = (if len then setLength t else t)
      in if fin then setFin t else t)"

definition streamInts :: "StreamId \<Rightarrow> StreamGroupId option \<Rightarrow> nat \<Rightarrow> bool \<Rightarrow> nat \<Rightarrow> nat list" where
  "streamInts i g offset hasLen dataLen = i # optInts [(g \<noteq> None, case g of Some x \<Rightarrow> x | None \<Rightarrow> 0),
     (offset \<noteq> 0, offset), (hasLen, dataLen)]"

text \<open>The last part of the accounting: how much data goes with the header, if it fits at all.\<close>

definition streamFrameFit :: "nat \<Rightarrow> nat \<Rightarrow> nat \<Rightarrow> nat \<Rightarrow> nat \<Rightarrow> bool \<Rightarrow> nat option" where
  "streamFrameFit remaining headerSize dataLen dataLenLen writeBufferLen fin =
     (if dataLenLen > 0 \<and> dataLen \<noteq> 0 \<and> headerSize + dataLenLen \<ge> remaining then None
      else
        let headerSize = headerSize + dataLenLen;
            dataLen = (if dataLenLen > 0 \<and> remaining < dataLen + headerSize
                       then sub64 remaining headerSize else dataLen);
            shouldSetFin = (fin \<and> dataLen = writeBufferLen)
        in if dataLen = 0 \<and> \<not> shouldSetFin then None
           else if remaining < headerSize then None
           else Some dataLen)"

text \<open>Done with the accounting: the fields are written and the frame is recorded.\<close>

definition streamFrameEmit ::
  "StreamId \<Rightarrow> nat \<Rightarrow> nat \<Rightarrow> bool \<Rightarrow> bool \<Rightarrow> StreamGroupId option \<Rightarrow> bool \<Rightarrow> PacketBuilder \<Rightarrow> (nat option \<times> PacketBuilder) res" where
  "streamFrameEmit i offset dataLen hasLen shouldSetFin streamGroupId appendFrame builder =
     (let streamType = streamTypeByte (streamGroupId \<noteq> None) (offset \<noteq> 0) hasLen shouldSetFin in
      rbind (writeInts (streamInts i streamGroupId offset hasLen dataLen) (pb_writeBE8 streamType builder)) (\<lambda>builder.
        Inr (Some dataLen,
             if appendFrame then
               pb_appendFrame (WF_Stream \<lparr>ws_streamId = i, ws_streamGroupId = streamGroupId,
                 ws_offset = offset, ws_len = dataLen, ws_fin = hasFin streamType,
                 ws_fromBufMeta = False, ws_streamPacketIdx = 0\<rparr>) builder
             else pb_markNonEmpty builder)))"

definition writeStreamFrameHeader ::
  "StreamId \<Rightarrow> nat \<Rightarrow> nat \<Rightarrow> nat \<Rightarrow> bool \<Rightarrow> bool option \<Rightarrow> StreamGroupId option \<Rightarrow> bool \<Rightarrow> PacketBuilder \<Rightarrow>
   (nat option \<times> PacketBuilder) res" where
  "writeStreamFrameHeader i offset writeBufferLen flowControlLen fin skipLenHint streamGroupId appendFrame builder =
     (let remaining = remainingSpaceInPkt builder in
      if remaining = 0 then Inr (None, builder)
      else if writeBufferLen = 0 \<and> \<not> fin then Inl (QuicInternalException LE_INTERNAL_ERROR)
      else
        rbind (QuicInteger_getSize i) (\<lambda>idSize.
        rbind (case streamGroupId of None \<Rightarrow> Inr 0 | Some g \<Rightarrow> QuicInteger_getSize g) (\<lambda>groupSize.
        if remaining < 1 + idSize + groupSize then Inr (None, builder)
        else
          rbind (if offset \<noteq> 0 then QuicInteger_getSize offset else Inr 0) (\<lambda>offsetSize.
          let headerSize = 1 + idSize + groupSize + offsetSize;
              dataLen = min writeBufferLen flowControlLen;
              shouldSkipLengthField = (case skipLenHint of Some h \<Rightarrow> h
                | None \<Rightarrow> dataLen > 0 \<and> dataLen \<ge> sub64 remaining headerSize);
              dataLen = min dataLen (sub64 remaining headerSize)
          in rbind (if shouldSkipLengthField then Inr 0 else streamDataLenLen dataLen) (\<lambda>dataLenLen.
             case streamFrameFit remaining headerSize dataLen dataLenLen writeBufferLen fin of
               None \<Rightarrow> Inr (None, builder)
             | Some dataLen \<Rightarrow> streamFrameEmit i offset dataLen (dataLenLen > 0) (fin \<and> dataLen = writeBufferLen)
                                 streamGroupId appendFrame builder)))))"

definition writeStreamFrameData :: "byte list \<Rightarrow> nat \<Rightarrow> PacketBuilder \<Rightarrow> PacketBuilder res" where
  "writeStreamFrameData writeBuffer dataLen builder =
     (if dataLen > 0 then pb_insertLimit writeBuffer dataLen builder else Inr builder)"

definition writeCryptoFrame :: "nat \<Rightarrow> byte list \<Rightarrow> PacketBuilder \<Rightarrow> (WriteCryptoFrame option \<times> PacketBuilder) res" where
  "writeCryptoFrame offsetIn data builder =
     (let spaceLeftInPkt = remainingSpaceInPkt builder; lengthBytes = 2; frameType = frameTypeCode FT_CRYPTO_FRAME in
      rbind (intsSize [frameType, offsetIn]) (\<lambda>n.
        let cryptoFrameHeaderSize = n + lengthBytes in
        if spaceLeftInPkt \<le> cryptoFrameHeaderSize then Inr (None, builder)
        else
          let spaceRemaining = spaceLeftInPkt - cryptoFrameHeaderSize;
              writableData = min (length data) spaceRemaining
          in rbind (QuicInteger_getSize writableData) (\<lambda>s.
             if s > lengthBytes then Inl (QuicInternalException LE_CODEC_ERROR)
             else rbind (writeInts [frameType, offsetIn, writableData] builder) (\<lambda>builder.
                  rbind (pb_insertLimit data writableData builder) (\<lambda>builder.
                    let frame = \<lparr>wc_offset = offsetIn, wc_len = writableData\<rparr> in
                    Inr (Some frame, pb_appendFrame (WF_Crypto frame) builder))))))"

subsection \<open>Acknowledgements\<close>

record WriteAckFrameState =
  was_acks :: IntervalSet
  was_lastRecvdPacketInfo :: "(PacketNum \<times> nat) option"

record WriteAckFrameMetaData =
  wam_ackState :: WriteAckFrameState
  wam_ackDelay :: nat
  wam_ackDelayExponent :: nat
  wam_connTime :: nat

text \<open>The blocks below the largest one, in descending order, as long as they fit.\<close>

fun fillLoop :: "Interval list \<Rightarrow> PacketNum \<Rightarrow> nat \<Rightarrow> nat \<Rightarrow> nat \<Rightarrow> AckBlock list res" where
  "fillLoop [] currentSeqNum numAdditionalAckBlocks previousNumAckBlocks bytesLimit = Inr []"
| "fillLoop (currBlock # rest) currentSeqNum numAdditionalAckBlocks previousNumAckBlocks bytesLimit =
     rbind (check (currentSeqNum \<ge> add64 (iv_end currBlock) 2)) (\<lambda>_.
     let gap = sub64 (sub64 currentSeqNum (iv_end currBlock)) 2;
         currBlockLen = sub64 (iv_end currBlock) (iv_start currBlock)
     in rbind (getQuicIntegerSizeThrows gap) (\<lambda>gapSize.
        rbind (getQuicIntegerSizeThrows currBlockLen) (\<lambda>currBlockLenSize.
        rbind (getQuicIntegerSizeThrows (numAdditionalAckBlocks + 1)) (\<lambda>numAdditionalAckBlocksSize.
        rbind (getQuicIntegerSizeThrows previousNumAckBlocks) (\<lambda>previousNumAckBlocksSize.
        let additionalSize = gapSize + currBlockLenSize + (numAdditionalAckBlocksSize - previousNumAckBlocksSize) in
        if bytesLimit < additionalSize then Inr []
        else rbind (fillLoop rest (iv_start currBlock) (numAdditionalAckBlocks + 1)
                      (numAdditionalAckBlocks + 1) (bytesLimit - additionalSize)) (\<lambda>blocks.
               Inr (\<lparr>ab_startPacket = iv_start currBlock, ab_endPacket = iv_end currBlock\<rparr> # blocks)))))))"

definition fillFrameWithAckBlocks :: "IntervalSet \<Rightarrow> nat \<Rightarrow> AckBlock list res" where
  "fillFrameWithAckBlocks ackBlocks bytesLimit =
     (let blocks = rev (intervals ackBlocks) in fillLoop (tl blocks) (iv_start (hd blocks)) 0 0 bytesLimit)"

fun ackBlockInts :: "PacketNum \<Rightarrow> AckBlock list \<Rightarrow> nat list res" where
  "ackBlockInts currentSeqNum [] = Inr []"
| "ackBlockInts currentSeqNum (it # rest) =
     rbind (check (currentSeqNum \<ge> add64 (ab_endPacket it) 2)) (\<lambda>_.
     rbind (ackBlockInts (ab_startPacket it) rest) (\<lambda>vs.
       Inr (sub64 (sub64 currentSeqNum (ab_endPacket it)) 2 # sub64 (ab_endPacket it) (ab_startPacket it) # vs)))"

definition valueOr0 :: "TransportErrorCode + nat \<Rightarrow> nat" where
  "valueOr0 r = (case r of Inl _ \<Rightarrow> 0 | Inr n \<Rightarrow> n)"

text \<open>
  The minimum size of the timestamp fields; the time of the last packet is read from the optional
  even when it is empty, which throws.
\<close>

definition ackTimestampFieldsSize :: "WriteAckFrameMetaData \<Rightarrow> nat res" where
  "ackTimestampFieldsSize meta =
     (case was_lastRecvdPacketInfo (wam_ackState meta) of
        None \<Rightarrow> Inl OutOfRange
      | Some (pktNum, timeStamp) \<Rightarrow>
          let delta = (if timeStamp > wam_connTime meta then timeStamp - wam_connTime meta else 0) in
          Inr (valueOr0 (getQuicIntegerSize 0) + valueOr0 (getQuicIntegerSize pktNum) + valueOr0 (getQuicIntegerSize delta)))"

definition writeAckFrameToPacketBuilder ::
  "WriteAckFrameMetaData \<Rightarrow> FrameType \<Rightarrow> PacketBuilder \<Rightarrow> (WriteAckFrame option \<times> PacketBuilder) res" where
  "writeAckFrameToPacketBuilder meta frameType builder =
     (let acks = was_acks (wam_ackState meta) in
      if intervals acks = [] then Inr (None, builder)
      else
        let back = last (intervals acks);
            largestAckedPacket = iv_end back;
            firstAckBlockLength = sub64 largestAckedPacket (iv_start back);
            spaceLeft = remainingSpaceInPkt builder;
            encodedAckDelay = drop_bit (wam_ackDelayExponent meta) (wam_ackDelay meta);
            typeInt = frameTypeCode frameType mod 256
        in rbind (intsSize [typeInt, largestAckedPacket, encodedAckDelay, 0, firstAckBlockLength]) (\<lambda>headerSize.
           rbind (if frameType = FT_ACK_RECEIVE_TIMESTAMPS then ackTimestampFieldsSize meta else Inr 0) (\<lambda>minTimestampFieldsSize.
           if spaceLeft < headerSize + minTimestampFieldsSize then Inr (None, builder)
           else
             let spaceLeft = spaceLeft - (headerSize + minTimestampFieldsSize) in
             rbind (fillFrameWithAckBlocks acks spaceLeft) (\<lambda>blocks.
             rbind (writeInts [typeInt, largestAckedPacket, encodedAckDelay, length blocks, firstAckBlockLength] builder) (\<lambda>builder.
             rbind (ackBlockInts (iv_start back) blocks) (\<lambda>vs.
             rbind (writeInts vs builder) (\<lambda>builder.
               Inr (Some \<lparr>wa_ackBlocks = \<lparr>ab_startPacket = iv_start back, ab_endPacket = iv_end back\<rparr> # blocks,
                           wa_ackDelay = wam_ackDelay meta, wa_frameType = frameType,
                           wa_maybeLatestRecvdPacketTime = None, wa_maybeLatestRecvdPacketNum = None,
                           wa_recvdPacketsTimestampRanges = []\<rparr>, builder))))))))"

record WriteAckFrameResult =
  war_bytesWritten :: nat
  war_writeAckFrame :: WriteAckFrame
  war_ackBlocksWritten :: nat

text \<open>
  \<^verbatim>\<open>writeAckFrame\<close> moves the frame into the builder before it reads it again for the result, so
  the result has the moved-from frame, whose vector of blocks is empty.
\<close>

definition writeAckFrame ::
  "WriteAckFrameMetaData \<Rightarrow> FrameType \<Rightarrow> PacketBuilder \<Rightarrow> (WriteAckFrameResult option \<times> PacketBuilder) res" where
  "writeAckFrame meta frameType builder =
     (let beginningSpace = remainingSpaceInPkt builder in
      rbind (writeAckFrameToPacketBuilder meta frameType builder) (\<lambda>(maybeWriteAckFrame, builder).
        case maybeWriteAckFrame of
          None \<Rightarrow> Inr (None, builder)
        | Some frame \<Rightarrow>
            let builder = pb_appendFrame (WF_Ack frame) builder;
                moved = frame\<lparr>wa_ackBlocks := [], wa_recvdPacketsTimestampRanges := []\<rparr>
            in Inr (Some \<lparr>war_bytesWritten = sub64 beginningSpace (remainingSpaceInPkt builder),
                           war_writeAckFrame = moved, war_ackBlocksWritten = length (wa_ackBlocks moved)\<rparr>, builder)))"

subsection \<open>Simple frames\<close>

text \<open>The common shape of a case: the size is known, the fields are written if there is space.\<close>

definition writeIfSpace ::
  "nat res \<Rightarrow> (PacketBuilder \<Rightarrow> PacketBuilder res) \<Rightarrow> QuicWriteFrame \<Rightarrow> PacketBuilder \<Rightarrow> (nat \<times> PacketBuilder) res" where
  "writeIfSpace frameSize wr frame builder =
     rbind frameSize (\<lambda>size.
       if packetSpaceCheck (remainingSpaceInPkt builder) size
       then rbind (wr builder) (\<lambda>builder. Inr (size, pb_appendFrame frame builder))
       else Inr (0, builder))"

definition sizePlus :: "nat list \<Rightarrow> nat \<Rightarrow> nat res" where
  "sizePlus vs n = rbind (intsSize vs) (\<lambda>m. Inr (m + n))"

definition writeSimpleFrame :: "QuicSimpleFrame \<Rightarrow> PacketBuilder \<Rightarrow> (nat \<times> PacketBuilder) res" where
  "writeSimpleFrame frame builder =
     (case frame of
        SF_StopSending f \<Rightarrow>
          let vs = [frameTypeCode FT_STOP_SENDING, ss_streamId f, ss_errorCode f] in
          writeIfSpace (intsSize vs) (writeInts vs) (WF_Simple frame) builder
      | SF_PathChallenge pathData \<Rightarrow>
          let vs = [frameTypeCode FT_PATH_CHALLENGE] in
          writeIfSpace (sizePlus vs 8)
            (\<lambda>b. rbind (writeInts vs b) (\<lambda>b. Inr (pb_writeBE64 (word_of_nat pathData) b))) (WF_Simple frame) builder
      | SF_PathResponse pathData \<Rightarrow>
          let vs = [frameTypeCode FT_PATH_RESPONSE] in
          writeIfSpace (sizePlus vs 8)
            (\<lambda>b. rbind (writeInts vs b) (\<lambda>b. Inr (pb_writeBE64 (word_of_nat pathData) b))) (WF_Simple frame) builder
      | SF_NewConnectionId f \<Rightarrow>
          let vs = [frameTypeCode FT_NEW_CONNECTION_ID, nci_sequenceNumber f, nci_retirePriorTo f] in
          writeIfSpace (sizePlus vs (1 + length (nci_connectionId f) + length (nci_token f)))
            (\<lambda>b. rbind (writeInts vs b) (\<lambda>b.
               Inr (pb_push (nci_token f) (pb_push (nci_connectionId f)
                 (pb_writeBE8 (word_of_nat (length (nci_connectionId f))) b))))) (WF_Simple frame) builder
      | SF_MaxStreams f \<Rightarrow>
          let frameType = (if ms_isForBidirectional f then FT_MAX_STREAMS_BIDI else FT_MAX_STREAMS_UNI);
              vs = [frameTypeCode frameType, ms_maxStreams f] in
          writeIfSpace (intsSize vs) (writeInts vs) (WF_Simple frame) builder
      | SF_RetireConnectionId sequence \<Rightarrow>
          let vs = [frameTypeCode FT_RETIRE_CONNECTION_ID, sequence] in
          writeIfSpace (intsSize vs) (writeInts vs) (WF_Simple frame) builder
      | SF_HandshakeDone \<Rightarrow>
          let vs = [frameTypeCode FT_HANDSHAKE_DONE] in
          rbind (check (ph_getHeaderForm (pb_packetHeader builder) = HF_Short)) (\<lambda>_.
            writeIfSpace (intsSize vs) (writeInts vs) (WF_Simple frame) builder)
      | SF_Knob f \<Rightarrow>
          let vs = [frameTypeCode FT_KNOB, kf_knobSpace f, kf_id f, kf_len f] in
          writeIfSpace (sizePlus vs (kf_len f))
            (\<lambda>b. rbind (writeInts vs b) (\<lambda>b. Inr (pb_insert (kf_blob f) b))) (WF_Simple frame) builder
      | SF_AckFrequency f \<Rightarrow>
          let vs = [frameTypeCode FT_ACK_FREQUENCY, af_sequenceNumber f, af_packetTolerance f,
                    af_updateMaxAckDelay f, af_reorderThreshold f] in
          writeIfSpace (intsSize vs) (writeInts vs) (WF_Simple frame) builder
      | SF_NewToken token \<Rightarrow>
          let vs = [frameTypeCode FT_NEW_TOKEN, length token] in
          writeIfSpace (sizePlus vs (length token))
            (\<lambda>b. rbind (writeInts vs b) (\<lambda>b. Inr (pb_push token b))) (WF_Simple frame) builder)"

subsection \<open>All other frames\<close>

text \<open>
  A local error code is neither a transport nor an application code: the code then reads through
  a null pointer, an abort here.
\<close>

definition closeErrorCode :: "QuicErrorCode \<Rightarrow> nat res" where
  "closeErrorCode c = (case c of TransportCode n \<Rightarrow> Inr n | ApplicationCode n \<Rightarrow> Inr n | LocalCode _ \<Rightarrow> Inl CheckFailed)"

definition isTransport :: "QuicErrorCode \<Rightarrow> bool" where
  "isTransport c = (case c of TransportCode _ \<Rightarrow> True | _ \<Rightarrow> False)"

definition writeFrame :: "QuicWriteFrame \<Rightarrow> PacketBuilder \<Rightarrow> (nat \<times> PacketBuilder) res" where
  "writeFrame frame builder =
     (case frame of
        WF_Padding _ \<Rightarrow>
          let vs = [frameTypeCode FT_PADDING] in
          rbind (intsSize vs) (\<lambda>size.
            if packetSpaceCheck (remainingSpaceInPkt builder) size
            then rbind (writeInts vs builder) (\<lambda>builder. Inr (size, pb_appendPaddingFrame builder))
            else Inr (0, builder))
      | WF_RstStream f \<Rightarrow>
          let vs = [frameTypeCode FT_RST_STREAM, rst_streamId f, rst_errorCode f, rst_offset f] in
          writeIfSpace (intsSize vs) (writeInts vs) frame builder
      | WF_MaxData maximumData \<Rightarrow>
          let vs = [frameTypeCode FT_MAX_DATA, maximumData] in
          writeIfSpace (intsSize vs) (writeInts vs) frame builder
      | WF_MaxStreamData f \<Rightarrow>
          let vs = [frameTypeCode FT_MAX_STREAM_DATA, msd_streamId f, msd_maximumData f] in
          writeIfSpace (intsSize vs) (writeInts vs) frame builder
      | WF_DataBlocked dataLimit \<Rightarrow>
          let vs = [frameTypeCode FT_DATA_BLOCKED, dataLimit] in
          writeIfSpace (intsSize vs) (writeInts vs) frame builder
      | WF_StreamDataBlocked f \<Rightarrow>
          let vs = [frameTypeCode FT_STREAM_DATA_BLOCKED, sdb_streamId f, sdb_dataLimit f] in
          writeIfSpace (intsSize vs) (writeInts vs) frame builder
      | WF_StreamsBlocked f \<Rightarrow>
          let frameType = (if sbf_isForBidirectional f then FT_STREAMS_BLOCKED_BIDI else FT_STREAMS_BLOCKED_UNI);
              vs = [frameTypeCode frameType, sbf_streamLimit f] in
          writeIfSpace (intsSize vs) (writeInts vs) frame builder
      | WF_ConnectionClose f \<Rightarrow>
          let transport = isTransport (cc_errorCode f) in
          rbind (closeErrorCode (cc_errorCode f)) (\<lambda>errorCode.
            let vs = [frameTypeCode (if transport then FT_CONNECTION_CLOSE else FT_CONNECTION_CLOSE_APP_ERR), errorCode] @
                  (if transport then [cc_closingFrameType f] else []) @ [length (cc_reasonPhrase f)] in
            writeIfSpace (sizePlus vs (length (cc_reasonPhrase f)))
              (\<lambda>b. rbind (writeInts vs b) (\<lambda>b. Inr (pb_push (cc_reasonPhrase f) b))) frame builder)
      | WF_Ping \<Rightarrow>
          let vs = [frameTypeCode FT_PING] in
          writeIfSpace (intsSize vs) (writeInts vs) frame builder
      | WF_Simple f \<Rightarrow> writeSimpleFrame f builder
      | WF_Datagram data \<Rightarrow>
          let vs = [frameTypeCode FT_DATAGRAM_LEN, length data] in
          writeIfSpace (sizePlus vs (length data))
            (\<lambda>b. rbind (writeInts vs b) (\<lambda>b. pb_insertLimit data (length data) b)) frame builder
      | WF_ImmediateAck \<Rightarrow>
          let vs = [frameTypeCode FT_IMMEDIATE_ACK] in
          writeIfSpace (intsSize vs) (writeInts vs) frame builder
      | _ \<Rightarrow> Inl (QuicTransportException TE_FRAME_ENCODING_ERROR))"


section \<open>What a writer appends\<close>

lemma sub32_add: "sub32 (sub32 r a) b = sub32 r (a + b)"
proof -
  have "int (nat ((int r - int a) mod 4294967296)) = (int r - int a) mod 4294967296" by simp
  then show ?thesis unfolding sub32_def by (simp add: mod_diff_left_eq diff_diff_eq)
qed

lemma pb_put_put [simp]: "pb_put cs (pb_put bs b) = pb_put (bs @ cs) b"
  by (simp add: pb_put_def sub32_add)

lemma pb_put_Nil: "pb_remainingBytes b < 4294967296 \<Longrightarrow> pb_put [] b = b"
  by (simp add: pb_put_def sub32_exact)

lemma pb_remaining_put: "pb_remainingBytes (pb_put bs b) = sub32 (pb_remainingBytes b) (length bs)"
  by (simp add: pb_put_def)

fun encInts :: "nat list \<Rightarrow> byte list res" where
  "encInts [] = Inr []"
| "encInts (v # vs) = rbind (QuicInteger_encode v) (\<lambda>c. rbind (encInts vs) (\<lambda>d. Inr (c @ d)))"

lemma writeInts_put:
  assumes "pb_remainingBytes b < 4294967296"
  shows "writeInts vs b = rbind (encInts vs) (\<lambda>bs. Inr (pb_put bs b))"
proof -
  have "writeInts vs (pb_put bs b) = rbind (encInts vs) (\<lambda>cs. Inr (pb_put (bs @ cs) b))" for bs
  proof (induction vs arbitrary: bs)
    case (Cons v vs)
    show ?case
    proof (cases "QuicInteger_encode v")
      case (Inr c)
      then show ?thesis using Cons [of "bs @ c"] by (cases "encInts vs") (simp_all add: pb_write_def)
    qed (simp add: pb_write_def)
  qed simp
  from this [of "[]"] show ?thesis by (simp add: pb_put_Nil assms)
qed

lemma getSize_encode: "QuicInteger_encode v = Inr c \<Longrightarrow> QuicInteger_getSize v = Inr (length c)"
  by (auto simp: QuicInteger_encode_def QuicInteger_getSize_def split: sum.splits dest: encode_size)

lemma getSize_Inr: "QuicInteger_getSize v = Inr n \<Longrightarrow> \<exists>c. QuicInteger_encode v = Inr c \<and> length c = n"
proof -
  assume a: "QuicInteger_getSize v = Inr n"
  then have "v \<le> kEightByteLimit"
    by (auto simp: QuicInteger_getSize_def getQuicIntegerSize_def quic_limits split: if_splits)
  then obtain c where c: "encodeQuicInteger v = Inr c" using encode_total by blast
  then have "QuicInteger_encode v = Inr c" by (simp add: QuicInteger_encode_def)
  with getSize_encode [OF this] a show ?thesis by auto
qed

lemma intsSize_encInts: "intsSize vs = Inr n \<longleftrightarrow> (\<exists>bs. encInts vs = Inr bs \<and> length bs = n)"
proof (induction vs arbitrary: n)
  case (Cons v vs)
  then show ?case using getSize_encode [of v] getSize_Inr [of v] by fastforce
qed simp

lemma readVarint_enc [simp]: "QuicInteger_encode v = Inr c \<Longrightarrow> readVarint (c @ rest) = Inr (v, length c, rest)"
  by (simp add: readVarint_def readVarint_written)

lemma encode_nonempty: "QuicInteger_encode v = Inr c \<Longrightarrow> c \<noteq> []"
  by (auto simp: QuicInteger_encode_def split: sum.splits dest: encode_length_cases)

text \<open>The integers a frame starts with and the bytes behind them.\<close>

fun simpleInts :: "QuicSimpleFrame \<Rightarrow> nat list" where
  "simpleInts (SF_StopSending f) = [frameTypeCode FT_STOP_SENDING, ss_streamId f, ss_errorCode f]"
| "simpleInts (SF_PathChallenge d) = [frameTypeCode FT_PATH_CHALLENGE]"
| "simpleInts (SF_PathResponse d) = [frameTypeCode FT_PATH_RESPONSE]"
| "simpleInts (SF_NewConnectionId f) = [frameTypeCode FT_NEW_CONNECTION_ID, nci_sequenceNumber f, nci_retirePriorTo f]"
| "simpleInts (SF_MaxStreams f) =
     [frameTypeCode (if ms_isForBidirectional f then FT_MAX_STREAMS_BIDI else FT_MAX_STREAMS_UNI), ms_maxStreams f]"
| "simpleInts (SF_RetireConnectionId n) = [frameTypeCode FT_RETIRE_CONNECTION_ID, n]"
| "simpleInts SF_HandshakeDone = [frameTypeCode FT_HANDSHAKE_DONE]"
| "simpleInts (SF_Knob f) = [frameTypeCode FT_KNOB, kf_knobSpace f, kf_id f, kf_len f]"
| "simpleInts (SF_AckFrequency f) = [frameTypeCode FT_ACK_FREQUENCY, af_sequenceNumber f, af_packetTolerance f,
     af_updateMaxAckDelay f, af_reorderThreshold f]"
| "simpleInts (SF_NewToken t) = [frameTypeCode FT_NEW_TOKEN, length t]"

fun simplePayload :: "QuicSimpleFrame \<Rightarrow> byte list" where
  "simplePayload (SF_PathChallenge d) = writeBE 8 (word_of_nat d :: 64 word)"
| "simplePayload (SF_PathResponse d) = writeBE 8 (word_of_nat d :: 64 word)"
| "simplePayload (SF_NewConnectionId f) = word_of_nat (length (nci_connectionId f)) # nci_connectionId f @ nci_token f"
| "simplePayload (SF_Knob f) = kf_blob f"
| "simplePayload (SF_NewToken t) = t"
| "simplePayload _ = []"

fun frameInts :: "QuicWriteFrame \<Rightarrow> nat list" where
  "frameInts (WF_Padding n) = [frameTypeCode FT_PADDING]"
| "frameInts (WF_RstStream f) = [frameTypeCode FT_RST_STREAM, rst_streamId f, rst_errorCode f, rst_offset f]"
| "frameInts (WF_MaxData n) = [frameTypeCode FT_MAX_DATA, n]"
| "frameInts (WF_MaxStreamData f) = [frameTypeCode FT_MAX_STREAM_DATA, msd_streamId f, msd_maximumData f]"
| "frameInts (WF_DataBlocked n) = [frameTypeCode FT_DATA_BLOCKED, n]"
| "frameInts (WF_StreamDataBlocked f) = [frameTypeCode FT_STREAM_DATA_BLOCKED, sdb_streamId f, sdb_dataLimit f]"
| "frameInts (WF_StreamsBlocked f) =
     [frameTypeCode (if sbf_isForBidirectional f then FT_STREAMS_BLOCKED_BIDI else FT_STREAMS_BLOCKED_UNI), sbf_streamLimit f]"
| "frameInts (WF_ConnectionClose f) = (case cc_errorCode f of
      TransportCode n \<Rightarrow> [frameTypeCode FT_CONNECTION_CLOSE, n, cc_closingFrameType f, length (cc_reasonPhrase f)]
    | ApplicationCode n \<Rightarrow> [frameTypeCode FT_CONNECTION_CLOSE_APP_ERR, n, length (cc_reasonPhrase f)]
    | LocalCode n \<Rightarrow> [])"
| "frameInts WF_Ping = [frameTypeCode FT_PING]"
| "frameInts (WF_Simple f) = simpleInts f"
| "frameInts (WF_Datagram d) = [frameTypeCode FT_DATAGRAM_LEN, length d]"
| "frameInts WF_ImmediateAck = [frameTypeCode FT_IMMEDIATE_ACK]"
| "frameInts _ = []"

fun framePayload :: "QuicWriteFrame \<Rightarrow> byte list" where
  "framePayload (WF_ConnectionClose f) = cc_reasonPhrase f"
| "framePayload (WF_Simple f) = simplePayload f"
| "framePayload (WF_Datagram d) = d"
| "framePayload _ = []"

text \<open>The conditions under which the fields are what the frame type promises.\<close>

fun simple_ok :: "QuicSimpleFrame \<Rightarrow> bool" where
  "simple_ok (SF_PathChallenge d) = (d \<le> u64_max)"
| "simple_ok (SF_PathResponse d) = (d \<le> u64_max)"
| "simple_ok (SF_NewConnectionId f) =
     (length (nci_connectionId f) \<le> kMaxConnectionIdSize \<and> length (nci_token f) = kStatelessResetTokenLength)"
| "simple_ok (SF_MaxStreams f) = (ms_maxStreams f \<le> kMaxMaxStreams)"
| "simple_ok (SF_Knob f) = (kf_len f = length (kf_blob f))"
| "simple_ok _ = True"

fun frame_ok :: "QuicWriteFrame \<Rightarrow> bool" where
  "frame_ok (WF_Simple f) = simple_ok f"
| "frame_ok (WF_ConnectionClose f) = (length (cc_reasonPhrase f) \<le> kMaxReasonPhraseLength \<and>
     (isTransport (cc_errorCode f) \<longrightarrow> cc_closingFrameType f \<le> kOneByteLimit))"
| "frame_ok _ = True"

definition appended :: "QuicWriteFrame \<Rightarrow> byte list \<Rightarrow> PacketBuilder \<Rightarrow> PacketBuilder" where
  "appended f bs b = (case f of WF_Padding _ \<Rightarrow> pb_appendPaddingFrame (pb_put bs b) | _ \<Rightarrow> pb_appendFrame f (pb_put bs b))"

lemma writeIfSpace_put:
  assumes "writeIfSpace sz wr frame b = Inr (n, b')" "0 < n"
  shows "sz = Inr n \<and> n \<le> pb_remainingBytes b \<and> (\<exists>b1. wr b = Inr b1 \<and> b' = pb_appendFrame frame b1)"
  using assms by (auto simp: writeIfSpace_def packetSpaceCheck_def remainingSpaceInPkt_def split: if_splits)

lemmas body_writes = pb_writeBE8_def pb_writeBE16_def pb_writeBE64_def pb_push_def pb_insert_def pb_insertLimit_def

lemma writeSimpleFrame_put:
  assumes w: "writeSimpleFrame f b = Inr (n, b')" and "0 < n" and r: "pb_remainingBytes b < 4294967296"
    and ok: "simple_ok f"
  shows "\<exists>bs. encInts (simpleInts f) = Inr bs \<and> b' = pb_appendFrame (WF_Simple f) (pb_put (bs @ simplePayload f) b) \<and>
    n = length bs + length (simplePayload f) \<and> n \<le> pb_remainingBytes b"
  using w ok by (cases f) (auto simp: writeSimpleFrame_def Let_def sizePlus_def intsSize_encInts writeInts_put [OF r]
      body_writes simp del: encInts.simps intsSize.simps writeInts.simps
      dest!: writeIfSpace_put [OF _ \<open>0 < n\<close>])

lemma writeFrame_put:
  assumes w: "writeFrame f b = Inr (n, b')" and "0 < n" and r: "pb_remainingBytes b < 4294967296"
    and ok: "frame_ok f"
  shows "\<exists>bs. encInts (frameInts f) = Inr bs \<and> b' = appended f (bs @ framePayload f) b \<and>
    n = length bs + length (framePayload f) \<and> n \<le> pb_remainingBytes b"
proof (cases "\<exists>g. f = WF_Simple g")
  case True
  then show ?thesis using writeSimpleFrame_put [OF _ assms(2) r] w ok by (auto simp: writeFrame_def appended_def)
next
  case False
  then show ?thesis
    using w ok \<open>0 < n\<close> by (cases f) (auto simp: writeFrame_def Let_def sizePlus_def intsSize_encInts writeInts_put [OF r]
      body_writes appended_def closeErrorCode_def isTransport_def packetSpaceCheck_def remainingSpaceInPkt_def
      simp del: encInts.simps intsSize.simps writeInts.simps split: QuicErrorCode.splits if_splits
      dest!: writeIfSpace_put [OF _ \<open>0 < n\<close>])
qed


section \<open>What the decoder makes of it\<close>

text \<open>The frame a receiver sees. The close frame of an application carries no frame type.\<close>

fun readBack :: "QuicWriteFrame \<Rightarrow> QuicFrame" where
  "readBack (WF_Padding n) = RF_Padding 1"
| "readBack (WF_RstStream f) = RF_RstStream f"
| "readBack (WF_MaxData n) = RF_MaxData n"
| "readBack (WF_MaxStreamData f) = RF_MaxStreamData f"
| "readBack (WF_DataBlocked n) = RF_DataBlocked n"
| "readBack (WF_StreamDataBlocked f) = RF_StreamDataBlocked f"
| "readBack (WF_StreamsBlocked f) = RF_StreamsBlocked f"
| "readBack (WF_ConnectionClose f) = RF_ConnectionClose
     (if isTransport (cc_errorCode f) then f else f\<lparr>cc_closingFrameType := frameTypeCode FT_PADDING\<rparr>)"
| "readBack (WF_Simple (SF_NewToken t)) = RF_NewToken t"
| "readBack (WF_Simple f) = RF_Simple f"
| "readBack (WF_Datagram d) = RF_Datagram d"
| "readBack WF_ImmediateAck = RF_ImmediateAck"
| "readBack _ = RF_Ping"

lemmas frame_decoders = decodePingFrame_def decodeKnobFrame_def decodeAckFrequencyFrame_def
  decodeImmediateAckFrame_def decodeRstStreamFrame_def decodeStopSendingFrame_def decodeNewTokenFrame_def
  decodeMaxDataFrame_def decodeMaxStreamDataFrame_def decodeBiDiMaxStreamsFrame_def
  decodeUniMaxStreamsFrame_def decodeDataBlockedFrame_def decodeStreamDataBlockedFrame_def
  decodeBiDiStreamsBlockedFrame_def decodeUniStreamsBlockedFrame_def decodeNewConnectionIdFrame_def
  decodeRetireConnectionIdFrame_def decodePathChallengeFrame_def decodePathResponseFrame_def
  decodeConnectionCloseFrame_def decodeApplicationClose_def decodeHandshakeDoneFrame_def
  decodeDatagramFrame_def

lemma encInts_Cons: "encInts (v # vs) = Inr bs \<longleftrightarrow>
    (\<exists>c d. QuicInteger_encode v = Inr c \<and> encInts vs = Inr d \<and> bs = c @ d)"
  by auto

lemma parseFrame_typed:
  assumes "QuicInteger_encode (frameTypeCode t) = Inr c"
  shows "parseFrame (c @ cur) header params = rethrow (parseFrameBody t (frameTypeCode t) cur header params)"
  using assms by (simp add: parseFrame_def)

lemma readBE_written: "d \<le> u64_max \<Longrightarrow> unat (readBE (writeBE 8 (word_of_nat d :: 64 word))) = d"
  by (simp add: unat_readBE be_val_writeBE unat_of_nat u64_max_def)

lemma one_byte_encode: "QuicInteger_encode v = Inr c \<Longrightarrow> v \<le> kOneByteLimit \<Longrightarrow> length c = Suc 0"
  by (auto simp: QuicInteger_encode_def encodeQuicInteger_def encodeOneByte_def)

lemma byte_of_connid: "length c \<le> kMaxConnectionIdSize \<Longrightarrow> unat (word_of_nat (length c) :: byte) = length c"
  by (simp add: byte_of_length kMaxConnectionIdSize_def)

lemma parse_simple:
  assumes "encInts (simpleInts f) = Inr bs" "simple_ok f"
  shows "parseFrame (bs @ simplePayload f @ rest) header params = Inr (readBack (WF_Simple f), rest)"
  using assms
  by (cases f) (auto simp: encInts_Cons parseFrame_typed parseFrameBody_def frame_decoders rethrow_def
      mkKnobFrame_def pull_def ConnectionId_read_def byte_of_connid readBE_written Let_def
      simp del: encInts.simps(2) frameTypeCode.simps split: if_splits)

lemma parse_frame:
  assumes "encInts (frameInts f) = Inr bs" "frame_ok f" "frameInts f \<noteq> []"
    and "\<And>n. f = WF_Padding n \<Longrightarrow> rest = [] \<or> hd rest \<noteq> 0"
  shows "parseFrame (bs @ framePayload f @ rest) header params = Inr (readBack f, rest)"
proof (cases "\<exists>g. f = WF_Simple g")
  case True
  then show ?thesis using parse_simple assms(1,2) by auto
next
  case False
  then show ?thesis
    using assms by (cases f) (auto simp: encInts_Cons parseFrame_typed parseFrameBody_def frame_decoders rethrow_def
      decodePaddingFrame_def pull_def isTransport_def one_byte_encode
      simp del: encInts.simps(2) frameTypeCode.simps split: if_splits QuicErrorCode.splits)
qed


section \<open>Stream frames\<close>

lemma streamDataLenLen_size:
  assumes "streamDataLenLen d = Inr k" "n \<le> d"
  shows "0 < k" and "\<exists>c. QuicInteger_encode n = Inr c \<and> length c \<le> k"
proof -
  show "0 < k" using assms by (auto simp: streamDataLenLen_def split: if_splits)
  have "n \<le> kEightByteLimit" using assms by (auto simp: streamDataLenLen_def quic_limits split: if_splits)
  then obtain c where c: "encodeQuicInteger n = Inr c" using encode_total by blast
  have "length c \<le> k"
    using encode_size [OF c] assms
    by (auto simp: getQuicIntegerSize_def streamDataLenLen_def quic_limits split: if_splits)
  then show "\<exists>c. QuicInteger_encode n = Inr c \<and> length c \<le> k" using c by (auto simp: QuicInteger_encode_def)
qed

lemma streamFrameFit_room:
  assumes "streamFrameFit R h d k wbl fin = Some n" "d \<le> wbl" "h \<le> R \<Longrightarrow> d + h \<le> R"
  shows "n \<le> d \<and> h + k + n \<le> R \<and> (n = 0 \<longrightarrow> fin \<and> wbl = 0) \<and> (k = 0 \<longrightarrow> n = d)"
  using assms by (auto simp: streamFrameFit_def sub64_def Let_def split: if_splits)

lemma streamFrameEmit_put:
  assumes "streamFrameEmit i offset d hasLen sf g app b = Inr (Some n, b1)" "pb_remainingBytes b < 4294967296"
  shows "n = d \<and> (\<exists>ints. encInts (streamInts i g offset hasLen n) = Inr ints \<and>
     pb_body b1 = pb_body b @ streamTypeByte (g \<noteq> None) (offset \<noteq> 0) hasLen sf # ints \<and>
     pb_remainingBytes b1 = sub32 (pb_remainingBytes b) (1 + length ints))"
proof -
  let ?t = "streamTypeByte (g \<noteq> None) (offset \<noteq> 0) hasLen sf"
  have "pb_remainingBytes (pb_put [?t] b) < 4294967296"
    by (simp add: pb_put_def sub32_def nat_less_iff)
  note W = writeInts_put [OF this, of "streamInts i g offset hasLen d"]
  have "pb_writeBE8 ?t b = pb_put [?t] b" by (simp add: pb_writeBE8_def)
  then show ?thesis
    using assms(1) W by (auto simp: streamFrameEmit_def Let_def pb_appendFrame_def pb_markNonEmpty_def
        pb_remaining_put simp del: not_None_eq split: if_splits)
qed

lemma streamInts_size:
  assumes "QuicInteger_getSize i = Inr a" "(case g of None \<Rightarrow> Inr 0 | Some g \<Rightarrow> QuicInteger_getSize g) = Inr c"
    and "(if offset \<noteq> 0 then QuicInteger_getSize offset else Inr 0) = Inr e"
    and "encInts (streamInts i g offset hasLen n) = Inr ints"
    and "hasLen \<Longrightarrow> \<exists>x. QuicInteger_encode n = Inr x \<and> length x \<le> k"
  shows "length ints \<le> a + c + e + (if hasLen then k else 0) \<and> (\<not> hasLen \<longrightarrow> length ints = a + c + e)"
  using assms getSize_encode [of i] getSize_encode [of offset] getSize_encode [of "the g"]
  by (auto simp: streamInts_def optInts_def split: option.splits if_splits)

text \<open>
  Which of the fields of a stream frame depend on the space: \<open>h\<close> bytes go for the type and the
  integers in front of the length. The length field is left out if the caller says so or, without
  a hint, if there is data and it reaches the end of the space. With the length field \<open>k\<close> bytes are
  set aside for it, and the data is all that is there and allowed, or as much as the rest holds.
\<close>

definition stream_frame_fields ::
  "StreamId \<Rightarrow> StreamGroupId option \<Rightarrow> nat \<Rightarrow> nat \<Rightarrow> bool option \<Rightarrow> nat \<Rightarrow> bool \<Rightarrow> nat \<Rightarrow> bool" where
  "stream_frame_fields i g offset avail hint space hasLen n \<longleftrightarrow>
     (\<exists>h k. map_sum id Suc (intsSize (streamInts i g offset False 0)) = Inr h \<and>
        hasLen = (case hint of Some skip \<Rightarrow> \<not> skip | None \<Rightarrow> avail = 0 \<or> h + avail < space) \<and>
        (if hasLen then streamDataLenLen (min avail (space - h)) = Inr k else k = 0) \<and>
        n = min avail (space - (h + k)))"

lemma streamInts_nolen:
  assumes "QuicInteger_getSize i = Inr a" "(case g of None \<Rightarrow> Inr 0 | Some g \<Rightarrow> QuicInteger_getSize g) = Inr c"
    and "(if offset \<noteq> 0 then QuicInteger_getSize offset else Inr 0) = Inr e"
  shows "intsSize (streamInts i g offset False 0) = Inr (a + c + e)"
  using assms by (cases g; cases "offset = 0") (simp_all add: streamInts_def optInts_def)

lemma streamFrameFit_size:
  assumes "streamFrameFit R h d k wbl fin = Some n" "h \<le> R \<Longrightarrow> d + h \<le> R"
  shows "n = min d (R - (h + k))"
  using assms by (auto simp: streamFrameFit_def sub64_def Let_def split: if_splits)

lemma writeStreamFrameHeader_put:
  assumes w: "writeStreamFrameHeader i offset wbl fcl fin hint g app b = Inr (Some n, b1)"
    and r: "pb_remainingBytes b < 4294967296"
  shows "\<exists>hasLen ints. encInts (streamInts i g offset hasLen n) = Inr ints \<and>
     pb_body b1 = pb_body b @ streamTypeByte (g \<noteq> None) (offset \<noteq> 0) hasLen (fin \<and> n = wbl) # ints \<and>
     pb_remainingBytes b1 = pb_remainingBytes b - (1 + length ints) \<and>
     n \<le> wbl \<and> n \<le> fcl \<and> 1 + length ints + n \<le> pb_remainingBytes b \<and> (n = 0 \<longrightarrow> fin \<and> wbl = 0) \<and>
     (hint = None \<and> \<not> hasLen \<longrightarrow> 1 + length ints + n = pb_remainingBytes b) \<and>
     (\<forall>h. hint = Some h \<longrightarrow> hasLen = (\<not> h)) \<and>
     (hint = None \<and> pb_remainingBytes b \<le> wbl \<and> pb_remainingBytes b \<le> fcl \<longrightarrow> \<not> hasLen) \<and>
     stream_frame_fields i g offset (min wbl fcl) hint (pb_remainingBytes b) hasLen n"
proof -
  let ?R = "pb_remainingBytes b"
  obtain idS grS offS where idS: "QuicInteger_getSize i = Inr idS"
    and grS: "(case g of None \<Rightarrow> Inr 0 | Some g \<Rightarrow> QuicInteger_getSize g) = Inr grS"
    and offS: "(if offset \<noteq> 0 then QuicInteger_getSize offset else Inr 0) = Inr offS"
    using w by (auto simp: writeStreamFrameHeader_def Let_def split: if_splits)
  define h where "h = 1 + idS + grS + offS"
  define d0 where "d0 = min (min wbl fcl) (sub64 ?R h)"
  define skip where "skip = (case hint of Some h \<Rightarrow> h | None \<Rightarrow> min wbl fcl > 0 \<and> min wbl fcl \<ge> sub64 ?R h)"
  obtain k where k: "(if skip then Inr 0 else streamDataLenLen d0) = Inr k"
    and e: "case streamFrameFit ?R h d0 k wbl fin of None \<Rightarrow> False
      | Some d \<Rightarrow> streamFrameEmit i offset d (k > 0) (fin \<and> d = wbl) g app b = Inr (Some n, b1)"
    using w unfolding writeStreamFrameHeader_def Let_def remainingSpaceInPkt_def idS grS offS rbind.simps
      h_def [symmetric] skip_def [symmetric] d0_def [symmetric]
    by (auto split: if_splits option.splits)
  then obtain d where fit: "streamFrameFit ?R h d0 k wbl fin = Some d"
    and em: "streamFrameEmit i offset d (k > 0) (fin \<and> d = wbl) g app b = Inr (Some n, b1)"
    by (auto split: option.splits)
  have hasLen: "k > 0 \<longleftrightarrow> \<not> skip" using k streamDataLenLen_size(1) by (auto split: if_splits)
  have d0: "h \<le> ?R \<Longrightarrow> d0 + h \<le> ?R" "d0 \<le> wbl" "d0 \<le> fcl"
    by (auto simp: d0_def sub64_def)
  note F = streamFrameFit_room [OF fit d0(2) d0(1)]
  obtain ints where nd: "n = d" and ints: "encInts (streamInts i g offset (k > 0) n) = Inr ints"
    and body: "pb_body b1 = pb_body b @ streamTypeByte (g \<noteq> None) (offset \<noteq> 0) (k > 0) (fin \<and> d = wbl) # ints"
    and rem: "pb_remainingBytes b1 = sub32 ?R (1 + length ints)"
    using streamFrameEmit_put [OF em r] by blast
  have "k > 0 \<Longrightarrow> \<exists>x. QuicInteger_encode n = Inr x \<and> length x \<le> k"
    using k F streamDataLenLen_size(2) [of d0 k n] nd hasLen by (auto split: if_splits)
  then have len: "length ints \<le> idS + grS + offS + k" "k = 0 \<Longrightarrow> length ints = idS + grS + offS"
    using streamInts_size [OF idS grS offS ints, of k] by (auto split: if_splits)
  have fit': "1 + length ints + n \<le> ?R" using F len(1) nd h_def by linarith
  have "h \<le> ?R" using F by linarith
  then have sub: "sub64 ?R h = ?R - h" by (rule sub64_exact)
  have full: "1 + length ints + n = ?R" if "hint = None" "k = 0"
  proof -
    have "sub64 ?R h \<le> min wbl fcl" using that hasLen by (simp add: skip_def)
    then have "d0 = ?R - h" by (simp add: d0_def sub min_absorb2)
    then show ?thesis using that(2) F nd len(2) \<open>h \<le> ?R\<close> h_def by linarith
  qed
  have rem': "pb_remainingBytes b1 = ?R - (1 + length ints)"
    using rem fit' r by (simp add: sub32_exact)
  have hint: "\<forall>h. hint = Some h \<longrightarrow> (k > 0) = (\<not> h)" using hasLen by (simp add: skip_def)
  have le: "n \<le> wbl" "n \<le> fcl" "n = 0 \<longrightarrow> fin \<and> wbl = 0" using F nd d0(2,3) by auto
  have more: "hint = None \<and> ?R \<le> wbl \<and> ?R \<le> fcl \<longrightarrow> \<not> k > 0"
    unfolding hasLen skip_def using sub fit' by auto
  have kk: "if k > 0 then streamDataLenLen d0 = Inr k else k = 0" using k hasLen by (auto split: if_splits)
  have d0': "d0 = min (min wbl fcl) (?R - h)" by (simp add: d0_def sub)
  have "n = min d0 (?R - (h + k))" using streamFrameFit_size [OF fit d0(1)] nd \<open>h \<le> ?R\<close> by simp
  then have n: "n = min (min wbl fcl) (?R - (h + k))" unfolding d0' by linarith
  have hl: "(k > 0) = (case hint of Some h \<Rightarrow> \<not> h | None \<Rightarrow> min wbl fcl = 0 \<or> h + min wbl fcl < ?R)"
    unfolding hasLen skip_def sub using \<open>h \<le> ?R\<close> by (auto split: option.splits)
  have "stream_frame_fields i g offset (min wbl fcl) hint ?R (k > 0) n"
    unfolding stream_frame_fields_def using streamInts_nolen [OF idS grS offS] kk [unfolded d0'] n hl
    by (intro exI [of _ h] exI [of _ k]) (simp add: h_def)
  then show ?thesis
    using ints body [folded nd] rem' fit' full le hint more by (intro exI [of _ "k > 0"] exI [of _ ints]) blast
qed


lemmas stream_type_defs = streamTypeByte_def stf_builder_def switchToStreamGroups_def setOffset_def setLength_def
  setFin_def kFinBit_def kDataLengthBit_def kOffsetBit_def

lemma streamTypeByte_flags:
  "hasOffset (streamTypeByte grp off len fin) = off" "hasFin (streamTypeByte grp off len fin) = fin"
  "hasDataLength (streamTypeByte grp off len fin) = (len \<or> grp)"
  by (cases grp; cases off; cases len; cases fin; simp add: stream_type_defs hasOffset_def hasFin_def hasDataLength_def)+

lemma streamTypeByte_type:
  "unat (streamTypeByte grp off len fin) < 64 \<and>
   (\<exists>t. frameTypeOfCode (unat (streamTypeByte grp off len fin)) = Some t \<and>
      parseFrameBody t (unat (streamTypeByte grp off len fin)) cur header params =
        decodeStreamFrame cur (streamTypeByte grp off len fin) grp)"
  by (cases grp; cases off; cases len; cases fin;
      simp add: stream_type_defs frameTypeOfCode_def allFrameTypes_def parseFrameBody_def Let_def)

lemma streamTypeByte_parse:
  "parseFrame (streamTypeByte grp off len fin # cur) header params =
   rethrow (decodeStreamFrame cur (streamTypeByte grp off len fin) grp)"
  using streamTypeByte_type [of grp off len fin cur header params]
  by (auto simp: parseFrame_def readVarint_small)

lemma readIf_written:
  "(p \<Longrightarrow> QuicInteger_encode v = Inr c) \<Longrightarrow> (\<not> p \<Longrightarrow> c = []) \<Longrightarrow>
   readIf p (c @ rest) = Inr (if p then Some v else None, rest)"
  by (cases p) (simp_all add: readIf_def)


lemma decode_group_nolen:
  assumes "encInts (streamInts i (Some g) offset False n) = Inr ints"
  shows "decodeStreamFrame (ints @ data) (streamTypeByte True (offset \<noteq> 0) False fin) True =
    rbind (readVarint data) (\<lambda>(len, _, cur). if length cur < len then Inl encodingError
      else Inr (RF_Stream \<lparr>rs_streamId = i, rs_streamGroupId = Some g, rs_offset = offset,
                  rs_data = take len cur, rs_fin = fin\<rparr>, drop len cur))"
  using assms by (cases "offset = 0"; cases "readVarint data")
    (auto simp: decodeStreamFrame_def streamTypeByte_flags streamInts_def optInts_def readIf_def Let_def)

section \<open>Acknowledgement frames\<close>

text \<open>The blocks a writer takes are the first of the descending blocks.\<close>

definition blockOf :: "Interval \<Rightarrow> AckBlock" where
  "blockOf iv = \<lparr>ab_startPacket = iv_start iv, ab_endPacket = iv_end iv\<rparr>"

lemma fillLoop_prefix: "fillLoop ivs s n p limit = Inr blocks \<Longrightarrow> blocks = map blockOf (take (length blocks) ivs)"
proof (induction ivs arbitrary: s n p limit blocks)
  case (Cons iv ivs)
  show ?case
  proof (cases blocks)
    case (Cons bl bls)
    then obtain s' n' p' l' where "fillLoop ivs s' n' p' l' = Inr bls" "bl = blockOf iv"
      using Cons.prems by (auto simp: Let_def blockOf_def split: if_splits)
    with Cons.IH [OF this(1)] show ?thesis by (simp add: Cons)
  qed simp
qed simp

lemma ackBlockInts_decode:
  "ackBlockInts s blocks = Inr vs \<Longrightarrow> encInts vs = Inr bs \<Longrightarrow>
   (\<forall>bl\<in>set blocks. ab_startPacket bl \<le> ab_endPacket bl \<and> ab_endPacket bl < u64_max - 1) \<Longrightarrow> s \<le> u64_max \<Longrightarrow>
   ackBlocksLoop (length blocks) s (bs @ rest) = Inr (blocks, rest)"
proof (induction blocks arbitrary: s vs bs)
  case (Cons bl blocks)
  obtain vs' where c: "s \<ge> add64 (ab_endPacket bl) 2" and vs': "ackBlockInts (ab_startPacket bl) blocks = Inr vs'"
    and vs: "vs = sub64 (sub64 s (ab_endPacket bl)) 2 # sub64 (ab_endPacket bl) (ab_startPacket bl) # vs'"
    using Cons.prems(1) by auto
  have e: "add64 (ab_endPacket bl) 2 = ab_endPacket bl + 2" "ab_startPacket bl \<le> ab_endPacket bl"
    using Cons.prems(3) by (auto simp: add64_def u64_max_def)
  then have g: "sub64 (sub64 s (ab_endPacket bl)) 2 = s - ab_endPacket bl - 2"
    "sub64 (ab_endPacket bl) (ab_startPacket bl) = ab_endPacket bl - ab_startPacket bl"
    using c by (auto simp: sub64_def)
  obtain x y bs' where x: "QuicInteger_encode (s - ab_endPacket bl - 2) = Inr x"
    "QuicInteger_encode (ab_endPacket bl - ab_startPacket bl) = Inr y" and bs': "encInts vs' = Inr bs'" "bs = x @ y @ bs'"
    using Cons.prems(2) by (auto simp: vs g)
  have "ackBlocksLoop (length blocks) (ab_startPacket bl) (bs' @ rest) = Inr (blocks, rest)"
    using Cons.prems(3) e by (intro Cons.IH [OF vs' bs'(1)]) auto
  moreover have "nextAckedPacketGap s (s - ab_endPacket bl - 2) = Inr (ab_endPacket bl)"
    "nextAckedPacketLen (ab_endPacket bl) (ab_endPacket bl - ab_startPacket bl) = Inr (ab_startPacket bl)"
    using c e by (auto simp: nextAckedPacketGap_def nextAckedPacketLen_def)
  ultimately show ?case using readVarint_enc [OF x(1)] readVarint_enc [OF x(2)] by (simp add: bs')
qed simp


lemma sizeThrows_encode: "getQuicIntegerSizeThrows v = Inr k \<longleftrightarrow> (\<exists>c. QuicInteger_encode v = Inr c \<and> length c = k)"
proof -
  have "getQuicIntegerSizeThrows v = QuicInteger_getSize v"
    by (simp add: getQuicIntegerSizeThrows_def QuicInteger_getSize_def getQuicIntegerSize_def)
  then show ?thesis using getSize_encode [of v] getSize_Inr [of v k] by auto
qed

lemma encode_mono: "QuicInteger_encode a = Inr c \<Longrightarrow> QuicInteger_encode b = Inr d \<Longrightarrow> a \<le> b \<Longrightarrow> length c \<le> length d"
  by (drule getSize_encode, drule getSize_encode)
    (auto simp: QuicInteger_getSize_def getQuicIntegerSize_def split: if_splits)

text \<open>The loop keeps account of the bytes: the blocks and the growth of their count fit the limit.\<close>

lemma fillLoop_size:
  "fillLoop ivs s n n limit = Inr blocks \<Longrightarrow> QuicInteger_encode n = Inr c0 \<Longrightarrow>
   \<exists>vs bs c1. ackBlockInts s blocks = Inr vs \<and> encInts vs = Inr bs \<and>
     QuicInteger_encode (n + length blocks) = Inr c1 \<and> length bs + length c1 \<le> limit + length c0"
proof (induction ivs arbitrary: s n limit blocks c0)
  case (Cons iv ivs)
  show ?case
  proof (cases blocks)
    case Nil
    then show ?thesis using Cons.prems(2) by simp
  next
    case (Cons bl bls)
    let ?gap = "sub64 (sub64 s (iv_end iv)) 2" and ?len = "sub64 (iv_end iv) (iv_start iv)"
    obtain g l c2 where g: "QuicInteger_encode ?gap = Inr g" and l: "QuicInteger_encode ?len = Inr l"
      and c2: "QuicInteger_encode (Suc n) = Inr c2" and chk: "s \<ge> add64 (iv_end iv) 2"
      and lim: "length g + length l + (length c2 - length c0) \<le> limit"
      and rec: "fillLoop ivs (iv_start iv) (Suc n) (Suc n) (limit - (length g + length l + (length c2 - length c0))) = Inr bls"
      and bl: "bl = blockOf iv"
      using Cons.prems by (auto simp: Let_def blockOf_def sizeThrows_encode Cons split: if_splits)
    obtain vs bs c1 where IH: "ackBlockInts (iv_start iv) bls = Inr vs" "encInts vs = Inr bs"
        "QuicInteger_encode (Suc n + length bls) = Inr c1"
        "length bs + length c1 \<le> limit - (length g + length l + (length c2 - length c0)) + length c2"
      using Cons.IH [OF rec c2] by blast
    have "length c0 \<le> length c2" by (rule encode_mono [OF Cons.prems(2) c2]) simp
    with IH(4) lim have "length (g @ l @ bs) + length c1 \<le> limit + length c0" by simp
    moreover have "ackBlockInts s blocks = Inr (?gap # ?len # vs)" using chk IH(1) by (simp add: Cons bl blockOf_def)
    moreover have "encInts (?gap # ?len # vs) = Inr (g @ l @ bs)" using g l IH(2) by simp
    moreover have "QuicInteger_encode (n + length blocks) = Inr c1" using IH(3) by (simp add: Cons)
    ultimately show ?thesis by blast
  qed
qed simp

text \<open>The loop stops only at the end of the blocks or at a block that does not fit.\<close>

lemma fillLoop_max:
  "fillLoop ivs s n n limit = Inr blocks \<Longrightarrow> QuicInteger_encode n = Inr c0 \<Longrightarrow> length blocks < length ivs \<Longrightarrow>
   \<exists>vs bs c1. ackBlockInts s (map blockOf (take (Suc (length blocks)) ivs)) = Inr vs \<and> encInts vs = Inr bs \<and>
     QuicInteger_encode (n + Suc (length blocks)) = Inr c1 \<and> limit + length c0 < length bs + length c1"
proof (induction ivs arbitrary: s n limit blocks c0)
  case (Cons iv ivs)
  let ?gap = "sub64 (sub64 s (iv_end iv)) 2" and ?len = "sub64 (iv_end iv) (iv_start iv)"
  obtain g l c2 where g: "QuicInteger_encode ?gap = Inr g" and l: "QuicInteger_encode ?len = Inr l"
    and c2: "QuicInteger_encode (Suc n) = Inr c2" and chk: "s \<ge> add64 (iv_end iv) 2"
    and stop: "blocks = [] \<Longrightarrow> limit < length g + length l + (length c2 - length c0)"
    and rec: "blocks \<noteq> [] \<Longrightarrow> length g + length l + (length c2 - length c0) \<le> limit \<and>
      fillLoop ivs (iv_start iv) (Suc n) (Suc n) (limit - (length g + length l + (length c2 - length c0))) = Inr (tl blocks)"
    using Cons.prems(1,2) by (auto simp: Let_def sizeThrows_encode split: if_splits)
  have c: "length c0 \<le> length c2" by (rule encode_mono [OF Cons.prems(2) c2]) simp
  show ?case
  proof (cases blocks)
    case Nil
    then show ?thesis
      using stop g l c2 chk c by (intro exI [of _ "[?gap, ?len]"] exI [of _ "g @ l"] exI [of _ c2]) (simp add: blockOf_def)
  next
    case (Cons bl bls)
    then have lim: "length g + length l + (length c2 - length c0) \<le> limit"
      and loop: "fillLoop ivs (iv_start iv) (Suc n) (Suc n) (limit - (length g + length l + (length c2 - length c0))) = Inr bls"
      using rec by simp_all
    obtain vs bs c1 where IH: "ackBlockInts (iv_start iv) (map blockOf (take (Suc (length bls)) ivs)) = Inr vs"
        "encInts vs = Inr bs" "QuicInteger_encode (Suc n + Suc (length bls)) = Inr c1"
        "limit - (length g + length l + (length c2 - length c0)) + length c2 < length bs + length c1"
      using Cons.IH [OF loop c2] Cons.prems(3) Cons by auto
    have "ackBlockInts s (map blockOf (take (Suc (length blocks)) (iv # ivs))) = Inr (?gap # ?len # vs)"
      using chk IH(1) by (simp add: Cons blockOf_def [of iv])
    moreover have "encInts (?gap # ?len # vs) = Inr (g @ l @ bs)" using g l IH(2) by simp
    moreover have "QuicInteger_encode (n + Suc (length blocks)) = Inr c1" using IH(3) by (simp add: Cons)
    moreover have "limit + length c0 < length (g @ l @ bs) + length c1" using IH(4) c lim by simp
    ultimately show ?thesis by blast
  qed
qed simp

text \<open>The integers of an acknowledgement frame with the largest block and the next \<open>k\<close> below it.\<close>

definition ackFrameInts :: "WriteAckFrameMetaData \<Rightarrow> nat \<Rightarrow> nat list res" where
  "ackFrameInts meta k =
     (let ivs = rev (intervals (was_acks (wam_ackState meta))); largest = hd ivs in
      rbind (ackBlockInts (iv_start largest) (map blockOf (take k (tl ivs)))) (\<lambda>vs.
        Inr ([frameTypeCode FT_ACK, iv_end largest, wam_ackDelay meta div 2 ^ wam_ackDelayExponent meta, k,
              sub64 (iv_end largest) (iv_start largest)] @ vs)))"

lemma encInts_append: "encInts vs = Inr a \<Longrightarrow> encInts ws = Inr c \<Longrightarrow> encInts (vs @ ws) = Inr (a @ c)"
  by (induction vs arbitrary: a) auto

lemma convert_delay:
  assumes "0 < e" "e < 64" "x < 2 ^ (63 - e)"
  shows "convertEncodedDurationToMicroseconds e x = Inr (x * 2 ^ e)"
proof -
  let ?w = "word_of_nat x :: 64 word"
  have "(2::nat) ^ (63 - e) \<le> 2 ^ (64 - e)" by (rule power_increasing) auto
  then have lt: "x < 2 ^ (64 - e)" using assms(3) by (rule less_le_trans [rotated])
  have "(2::nat) ^ (64 - e) \<le> 2 ^ 64" by (rule power_increasing) auto
  then have w: "unat ?w = x" using lt by (simp add: unat_of_nat)
  then have "take_bit (64 - e) ?w = ?w"
    using lt by (simp add: word_unat_eq_iff unsigned_take_bit_eq take_bit_nat_def)
  then have "\<not> bit ?w n" if "64 - e \<le> n" for n using that by (metis bit_take_bit_iff not_le)
  then have "?w AND push_bit (64 - e) (- 1) = 0" by (intro bit_word_eqI, auto simp: bit_simps, meson not_le)
  moreover have b: "x * 2 ^ e < 2 ^ 63"
  proof -
    have "x * 2 ^ e < 2 ^ (63 - e) * 2 ^ e" using assms(3) by simp
    also have "\<dots> = 2 ^ 63" using assms(2) by (simp flip: power_add)
    finally show ?thesis .
  qed
  moreover have "unat (push_bit e ?w) = x * 2 ^ e"
    using b w by (subst unsigned_push_bit_eq) (simp add: take_bit_nat_def push_bit_nat_def)
  ultimately show ?thesis using assms(1,2) by (simp add: convertEncodedDurationToMicroseconds_def check_def Let_def)
qed


lemma separated_le_last:
  assumes "separated xs" "list_all valid_interval xs" "a \<in> set xs"
  shows "iv_end a \<le> iv_end (last xs)"
proof -
  obtain ys z where xs: "xs = ys @ [z]" using assms(3) by (cases xs rule: rev_cases) auto
  show ?thesis
  proof (cases "a = z")
    case False
    then have "iv_end a + 1 < iv_start z" using assms(1,3) by (auto simp: xs)
    moreover have "iv_start z \<le> iv_end z" using assms(2) by (simp add: xs valid_interval_def)
    ultimately show ?thesis by (simp add: xs)
  qed (simp add: xs)
qed

lemma encode_bound: "QuicInteger_encode v = Inr c \<Longrightarrow> v \<le> kEightByteLimit"
  by (auto simp: QuicInteger_encode_def encodeQuicInteger_def quic_limits split: if_splits)

lemma encode_zero: "QuicInteger_encode 0 = Inr [0]"
  by (simp add: QuicInteger_encode_def encodeQuicInteger_def encodeOneByte_def writeBE_def)

text \<open>The largest block is ahead of the others, whose integers the loop reads back.\<close>

lemma fill_decode:
  assumes inv: "list_all valid_interval ivs" "separated ivs" "ivs \<noteq> []" "iv_end (last ivs) \<le> kEightByteLimit"
    and fill: "fillLoop (tl (rev ivs)) (iv_start (last ivs)) 0 0 limit = Inr blocks"
  shows "\<exists>vs bs c. ackBlockInts (iv_start (last ivs)) blocks = Inr vs \<and> encInts vs = Inr bs \<and>
      QuicInteger_encode (length blocks) = Inr c \<and> length bs + length c \<le> limit + 1 \<and>
      ackBlocksLoop (length blocks) (iv_start (last ivs)) (bs @ rest) = Inr (blocks, rest) \<and>
      blockOf (last ivs) # blocks = map blockOf (take (Suc (length blocks)) (rev ivs))"
proof -
  obtain vs bs c where v: "ackBlockInts (iv_start (last ivs)) blocks = Inr vs" "encInts vs = Inr bs"
      "QuicInteger_encode (length blocks) = Inr c" "length bs + length c \<le> limit + 1"
    using fillLoop_size [OF fill encode_zero] by auto
  note pre = fillLoop_prefix [OF fill]
  have "set (take (length blocks) (tl (rev ivs))) \<subseteq> set ivs"
    by (metis list.set_sel(2) rev_is_Nil_conv set_rev set_take_subset subset_code(1) tl_Nil)
  then have sub: "set blocks \<subseteq> blockOf ` set ivs"
    by (subst pre) auto
  have u: "kEightByteLimit < u64_max - 1" by (simp add: quic_limits u64_max_def)
  have "ab_startPacket bl \<le> ab_endPacket bl \<and> ab_endPacket bl < u64_max - 1" if "bl \<in> set blocks" for bl
  proof -
    obtain iv where iv: "iv \<in> set ivs" "bl = blockOf iv" using sub \<open>bl \<in> set blocks\<close> by blast
    then have "iv_start iv \<le> iv_end iv" using inv(1) by (auto simp: list_all_iff valid_interval_def)
    then show ?thesis using separated_le_last [OF inv(2,1) iv(1)] inv(4) u iv(2) by (simp add: blockOf_def)
  qed
  moreover have "iv_start (last ivs) \<le> u64_max"
    using inv by (auto simp: list_all_iff valid_interval_def last_in_set dest!: bspec [of _ _ "last ivs"])
  ultimately have "ackBlocksLoop (length blocks) (iv_start (last ivs)) (bs @ rest) = Inr (blocks, rest)"
    by (intro ackBlockInts_decode [OF v(1,2)]) blast+
  moreover have "blockOf (last ivs) # blocks = map blockOf (take (Suc (length blocks)) (rev ivs))"
    using pre inv(3) by (metis hd_rev list.map(2) list.collapse rev_is_Nil_conv take_Suc_Cons)
  ultimately show ?thesis using v by (intro exI [of _ vs] exI [of _ bs] exI [of _ c] conjI)
qed

text \<open>The frame with the blocks of the loop has the integers above; one block more is too long.\<close>

lemma ack_frame_maximal:
  fixes meta
  defines "ivs \<equiv> intervals (was_acks (wam_ackState meta))"
  assumes ne: "ivs \<noteq> []" and fill: "fillLoop (tl (rev ivs)) (iv_start (last ivs)) 0 0 limit = Inr blocks"
    and enc: "QuicInteger_encode (frameTypeCode FT_ACK) = Inr tyB" "QuicInteger_encode (iv_end (last ivs)) = Inr lB"
      "QuicInteger_encode (wam_ackDelay meta div 2 ^ wam_ackDelayExponent meta) = Inr xB"
      "QuicInteger_encode (sub64 (iv_end (last ivs)) (iv_start (last ivs))) = Inr fB"
    and blocks: "ackBlockInts (iv_start (last ivs)) blocks = Inr vs" "encInts vs = Inr bs2"
      "QuicInteger_encode (length blocks) = Inr c"
  shows "Suc (length blocks) \<le> length ivs"
    and "rbind (ackFrameInts meta (length blocks)) encInts = Inr ((tyB @ lB @ xB @ c @ fB) @ bs2)"
    and "Suc (length blocks) < length ivs \<Longrightarrow> \<exists>bs'. rbind (ackFrameInts meta (Suc (length blocks))) encInts = Inr bs' \<and>
      length tyB + length lB + length xB + 1 + length fB + limit < length bs'"
proof -
  have pre: "map blockOf (take (length blocks) (tl (rev ivs))) = blocks" by (rule fillLoop_prefix [OF fill, symmetric])
  then have "length blocks \<le> length (tl (rev ivs))" by (metis length_map length_take min.cobounded1)
  then show "Suc (length blocks) \<le> length ivs" using ne by (cases ivs) auto
  have hdl: "hd (rev ivs) = last ivs" using ne by (simp add: hd_rev)
  have head: "encInts [frameTypeCode FT_ACK, iv_end (last ivs), wam_ackDelay meta div 2 ^ wam_ackDelayExponent meta, k,
      sub64 (iv_end (last ivs)) (iv_start (last ivs))] = Inr (tyB @ lB @ xB @ ck @ fB)" if "QuicInteger_encode k = Inr ck" for k ck
    using enc that by simp
  show "rbind (ackFrameInts meta (length blocks)) encInts = Inr ((tyB @ lB @ xB @ c @ fB) @ bs2)"
    unfolding ackFrameInts_def Let_def ivs_def [symmetric] hdl pre blocks(1) rbind.simps
    by (rule encInts_append [OF head [OF blocks(3)] blocks(2)])
  assume "Suc (length blocks) < length ivs"
  then have "length blocks < length (tl (rev ivs))" by simp
  from fillLoop_max [OF fill encode_zero this] obtain vs' bs' c1 where
    next': "ackBlockInts (iv_start (last ivs)) (map blockOf (take (Suc (length blocks)) (tl (rev ivs)))) = Inr vs'"
      "encInts vs' = Inr bs'" "QuicInteger_encode (Suc (length blocks)) = Inr c1" "limit + 1 < length bs' + length c1"
    by auto
  have "rbind (ackFrameInts meta (Suc (length blocks))) encInts = Inr ((tyB @ lB @ xB @ c1 @ fB) @ bs')"
    unfolding ackFrameInts_def Let_def ivs_def [symmetric] hdl next'(1) rbind.simps
    by (rule encInts_append [OF head [OF next'(3)] next'(2)])
  then show "\<exists>bs'. rbind (ackFrameInts meta (Suc (length blocks))) encInts = Inr bs' \<and>
      length tyB + length lB + length xB + 1 + length fB + limit < length bs'"
    using next'(4) by (intro exI [of _ "(tyB @ lB @ xB @ c1 @ fB) @ bs'"]) simp
qed

text \<open>The delay is written in units of the exponent, rounded down, and read back.\<close>

lemma scaled_delay:
  fixes d :: nat
  assumes "0 < e" "e < 64" "d \<le> 1000000000"
  shows "convertEncodedDurationToMicroseconds e (d div 2 ^ e) = Inr (d div 2 ^ e * 2 ^ e)" "d div 2 ^ e * 2 ^ e \<le> d"
    "d < d div 2 ^ e * 2 ^ e + 2 ^ e"
proof -
  let ?x = "d div 2 ^ e"
  show xe: "?x * 2 ^ e \<le> d" "d < ?x * 2 ^ e + 2 ^ e" using dividend_less_div_times [of "2 ^ e" d] by (auto simp: add.commute)
  have "?x < 2 ^ (63 - e)"
  proof (rule ccontr)
    assume "\<not> ?x < 2 ^ (63 - e)"
    then have "2 ^ (63 - e) * 2 ^ e \<le> ?x * 2 ^ e" by simp
    also have "\<dots> \<le> 1000000000" using xe(1) assms(3) by linarith
    finally show False using assms(2) by (simp flip: power_add)
  qed
  then show "convertEncodedDurationToMicroseconds e ?x = Inr (?x * 2 ^ e)" using assms(1,2) by (intro convert_delay) auto
qed

lemma parse_written_ack:
  assumes enc: "QuicInteger_encode (frameTypeCode FT_ACK) = Inr tyB" "QuicInteger_encode (iv_end iv) = Inr lB" "QuicInteger_encode x = Inr xB"
      "QuicInteger_encode (sub64 (iv_end iv) (iv_start iv)) = Inr fB" "QuicInteger_encode (length blocks) = Inr c"
    and iv: "iv_start iv \<le> iv_end iv" and conv: "convertEncodedDurationToMicroseconds e x = Inr d"
    and loop: "ackBlocksLoop (length blocks) (iv_start iv) (bs @ rest) = Inr (blocks, rest)"
    and e: "e = (if header = HF_Long then kDefaultAckDelayExponent else peerAckDelayExponent params)" and d: "d \<le> 1000000000"
  shows "parseFrame (((tyB @ lB @ xB @ c @ fB) @ bs) @ rest) header params = Inr (RF_Ack \<lparr>ra_largestAcked = iv_end iv, ra_ackDelay = d,
      ra_ackBlocks = blockOf iv # blocks, ra_frameType = FT_ACK, ra_maybeLatestRecvdPacketTime = None, ra_maybeLatestRecvdPacketNum = None,
      ra_recvdPacketsTimestampRanges = []\<rparr>, rest)"
proof -
  have "nextAckedPacketLen (iv_end iv) (sub64 (iv_end iv) (iv_start iv)) = Inr (iv_start iv)"
    using iv by (simp add: nextAckedPacketLen_def sub64_def)
  then have "decodeAckFrame (lB @ xB @ c @ fB @ bs @ rest) header params FT_ACK = Inr (\<lparr>ra_largestAcked = iv_end iv, ra_ackDelay = d,
      ra_ackBlocks = blockOf iv # blocks, ra_frameType = FT_ACK, ra_maybeLatestRecvdPacketTime = None, ra_maybeLatestRecvdPacketNum = None,
      ra_recvdPacketsTimestampRanges = []\<rparr>, rest)"
    using enc conv loop d e by (auto simp: decodeAckFrame_def Let_def blockOf_def)
  then show ?thesis using parseFrame_typed [OF enc(1), of "lB @ xB @ c @ fB @ bs @ rest" header params]
    by (simp add: parseFrameBody_def rethrow_def)
qed

section \<open>Properties\<close>

text \<open>C10: frame round trip. A frame that \<^verbatim>\<open>writeFrame\<close> writes takes exactly the reported number
  of bytes, at most the space that was left, and \<^verbatim>\<open>parseFrame\<close> reads the same frame back from the
  front of the packet and leaves what follows, provided that the fields are within the limits of
  the decoder (\<open>frame_ok\<close>): a close frame of the transport names a closing frame type of at most 63
  and the reason phrase is within its maximum, a connection id is at most 20 bytes and its token 16,
  a stream limit is at most \<^verbatim>\<open>kMaxMaxStreams\<close>, a knob has the length it states, and path data has
  64 bits. The closing frame type of an application's close frame is not on the wire and is read
  back as \<^verbatim>\<open>PADDING\<close>; a padding frame is followed by something that is not padding, or by nothing,
  since the decoder merges runs of padding.\<close>

theorem write_frame_roundtrip:
  assumes w: "writeFrame f b = Inr (n, b')" "0 < n" and r: "pb_remainingBytes b < 4294967296"
    and ok: "frame_ok f" and pad: "\<And>n. f = WF_Padding n \<Longrightarrow> rest = [] \<or> hd rest \<noteq> 0"
  shows "\<exists>bs. pb_body b' = pb_body b @ bs \<and> length bs = n \<and> n \<le> pb_remainingBytes b \<and>
    pb_remainingBytes b' = pb_remainingBytes b - n \<and> parseFrame (bs @ rest) header params = Inr (readBack f, rest)"
proof -
  obtain bs where bs: "encInts (frameInts f) = Inr bs" and b': "b' = appended f (bs @ framePayload f) b"
    and n: "n = length bs + length (framePayload f)" "n \<le> pb_remainingBytes b"
    using writeFrame_put [OF w r ok] by blast
  have "frameInts f \<noteq> []" using w by (cases f rule: frameInts.cases)
      (auto simp: writeFrame_def closeErrorCode_def elim: simpleInts.elims split: QuicErrorCode.splits)
  from parse_frame [OF bs ok this pad]
  have "parseFrame ((bs @ framePayload f) @ rest) header params = Inr (readBack f, rest)" by simp
  moreover have "pb_body b' = pb_body b @ (bs @ framePayload f)"
    "pb_remainingBytes b' = sub32 (pb_remainingBytes b) (length (bs @ framePayload f))"
    by (cases f; simp add: b' appended_def pb_appendFrame_def pb_appendPaddingFrame_def pb_remaining_put Let_def)+
  ultimately show ?thesis using n r by (metis length_append sub32_exact)
qed



text \<open>C12: acknowledgement round trip. The frame holds the block of the largest packet and the next
  \<open>k\<close> blocks below it, and \<open>k\<close> is the largest number that fits: either these are all the blocks, or
  the encoding with one block more is longer than the space left. The frame takes the reported
  number of bytes, and the decoder reads back the largest packet, those blocks and the delay
  rounded down to the exponent both sides use, if the delay is at most the thousand seconds the
  decoder accepts.\<close>

theorem ack_frame_roundtrip:
  assumes w: "writeAckFrame meta FT_ACK b = Inr (Some res, b')" and r: "pb_remainingBytes b < 4294967296"
    and inv: "iset_inv (was_acks (wam_ackState meta))"
    and ex: "wam_ackDelayExponent meta = (if header = HF_Long then kDefaultAckDelayExponent else peerAckDelayExponent params)"
      "0 < wam_ackDelayExponent meta" "wam_ackDelayExponent meta < 64" and delay: "wam_ackDelay meta \<le> 1000000000"
  shows "\<exists>bs k f. pb_body b' = pb_body b @ bs \<and> war_bytesWritten res = length bs \<and> length bs \<le> pb_remainingBytes b \<and>
     Suc k \<le> length (intervals (was_acks (wam_ackState meta))) \<and>
     rbind (ackFrameInts meta k) encInts = Inr bs \<and>
     (Suc k < length (intervals (was_acks (wam_ackState meta))) \<longrightarrow>
        (\<exists>bs'. rbind (ackFrameInts meta (Suc k)) encInts = Inr bs' \<and> pb_remainingBytes b < length bs')) \<and>
     parseFrame (bs @ rest) header params = Inr (RF_Ack f, rest) \<and>
     ra_ackBlocks f = map blockOf (take (Suc k) (rev (intervals (was_acks (wam_ackState meta))))) \<and>
     ra_largestAcked f = iv_end (last (intervals (was_acks (wam_ackState meta)))) \<and>
     ra_ackDelay f \<le> wam_ackDelay meta \<and> wam_ackDelay meta < ra_ackDelay f + 2 ^ wam_ackDelayExponent meta"
proof -
  define ivs where "ivs = intervals (was_acks (wam_ackState meta))"
  define e where "e = wam_ackDelayExponent meta"
  define x where "x = wam_ackDelay meta div 2 ^ e"
  define ty where "ty = frameTypeCode FT_ACK"
  have ty: "frameTypeCode FT_ACK mod 256 = ty" by (simp add: ty_def)
  obtain frame b1 where fr: "writeAckFrameToPacketBuilder meta FT_ACK b = Inr (Some frame, b1)"
    and res: "war_bytesWritten res = sub64 (pb_remainingBytes b) (pb_remainingBytes b1)"
    and b': "pb_body b' = pb_body b1"
    using w by (auto simp: writeAckFrame_def Let_def remainingSpaceInPkt_def pb_appendFrame_def split: option.splits)
  let ?l = "last ivs" and ?R = "pb_remainingBytes b"
  obtain hs blocks vs b2 where ne: "ivs \<noteq> []" and hs: "intsSize [ty, iv_end ?l, x, 0, sub64 (iv_end ?l) (iv_start ?l)] = Inr hs"
    and sp: "hs \<le> ?R" and fill: "fillLoop (tl (rev ivs)) (iv_start (hd (rev ivs))) 0 0 (?R - hs) = Inr blocks"
    and w1: "writeInts [ty, iv_end ?l, x, length blocks, sub64 (iv_end ?l) (iv_start ?l)] b = Inr b2"
    and vs: "ackBlockInts (iv_start ?l) blocks = Inr vs" and w2: "writeInts vs b2 = Inr b1"
    using fr unfolding writeAckFrameToPacketBuilder_def fillFrameWithAckBlocks_def Let_def ty ivs_def [symmetric] e_def [symmetric]
    by (auto simp: remainingSpaceInPkt_def drop_bit_nat_def simp flip: x_def split: if_splits)
  obtain tyB lB xB fB where enc: "QuicInteger_encode ty = Inr tyB" "QuicInteger_encode (iv_end ?l) = Inr lB"
      "QuicInteger_encode x = Inr xB" "QuicInteger_encode (sub64 (iv_end ?l) (iv_start ?l)) = Inr fB"
    and hs': "hs = length tyB + length lB + length xB + 1 + length fB"
    using hs by (auto simp: intsSize_encInts encode_zero simp del: intsSize.simps)
  have v: "list_all valid_interval ivs" "separated ivs" using inv by (auto simp: iset_inv_def ivs_def)
  then have lv: "iv_start ?l \<le> iv_end ?l" using ne by (auto simp: list_all_iff valid_interval_def)
  obtain bs2 c where bs2: "encInts vs = Inr bs2" "QuicInteger_encode (length blocks) = Inr c"
      "length bs2 + length c \<le> ?R - hs + 1"
    and loop: "ackBlocksLoop (length blocks) (iv_start ?l) (bs2 @ rest) = Inr (blocks, rest)"
    and bl: "blockOf ?l # blocks = map blockOf (take (Suc (length blocks)) (rev ivs))"
    using fill_decode [OF v ne encode_bound [OF enc(2)], of "?R - hs" blocks rest] fill vs
    by (auto simp: hd_rev)
  let ?bs = "(tyB @ lB @ xB @ c @ fB) @ bs2"
  have len: "length ?bs \<le> ?R" using bs2(3) sp hs' by simp
  have b2: "b2 = pb_put (tyB @ lB @ xB @ c @ fB) b"
    using w1 enc bs2(2) by (simp add: writeInts_put [OF r] del: writeInts.simps)
  have "pb_remainingBytes b2 < 4294967296" by (simp add: b2 pb_remaining_put sub32_def nat_less_iff)
  then have b1: "b1 = pb_put ?bs b" using w2 bs2(1) by (simp add: writeInts_put b2)
  have "sub32 ?R (length ?bs) = ?R - length ?bs" by (rule sub32_exact [OF len r])
  then have wr: "war_bytesWritten res = length ?bs" using res len by (simp add: b1 pb_remaining_put sub64_def)
  note xe = scaled_delay [OF ex(2,3) delay, folded e_def, folded x_def]
  let ?f = "\<lparr>ra_largestAcked = iv_end ?l, ra_ackDelay = x * 2 ^ e, ra_ackBlocks = blockOf ?l # blocks,
      ra_frameType = FT_ACK, ra_maybeLatestRecvdPacketTime = None, ra_maybeLatestRecvdPacketNum = None,
      ra_recvdPacketsTimestampRanges = []\<rparr>"
  have "parseFrame (?bs @ rest) header params = Inr (RF_Ack ?f, rest)"
    using parse_written_ack [OF enc [unfolded ty_def] bs2(2) lv xe(1) loop, of header params] xe(2) delay ex(1) by (simp add: e_def)
  moreover note mx = ack_frame_maximal [OF ne [unfolded ivs_def] _ enc [unfolded ivs_def x_def e_def ty_def]
      vs [unfolded ivs_def] bs2(1,2), folded ivs_def]
  moreover have "\<exists>bs'. rbind (ackFrameInts meta (Suc (length blocks))) encInts = Inr bs' \<and> ?R < length bs'"
    if more: "Suc (length blocks) < length ivs"
  proof -
    obtain bs' where "rbind (ackFrameInts meta (Suc (length blocks))) encInts = Inr bs'" "hs + (?R - hs) < length bs'"
      using mx(3) [OF fill [unfolded hd_rev] more] hs' by auto
    then show ?thesis using sp by auto
  qed
  ultimately show ?thesis
    using wr len bl xe(2,3) b' fill [unfolded hd_rev]
    by (intro exI [of _ ?bs] exI [of _ "length blocks"] exI [of _ ?f]) (simp add: b1 e_def flip: ivs_def)
qed

text \<open>C40: a close frame whose closing frame type needs two bytes is written and cannot be read: the
  decoder rejects a frame type that is not one byte long.\<close>

theorem close_frame_long_type_rejected:
  assumes w: "writeFrame (WF_ConnectionClose f) b = Inr (n, b')" "0 < n" and r: "pb_remainingBytes b < 4294967296"
    and code: "cc_errorCode f = TransportCode c" and type: "cc_closingFrameType f > kOneByteLimit"
  shows "\<exists>bs. pb_body b' = pb_body b @ bs \<and> parseFrame (bs @ rest) header params = Inl encodingError"
proof -
  let ?vs = "[frameTypeCode FT_CONNECTION_CLOSE, c, cc_closingFrameType f, length (cc_reasonPhrase f)]"
  obtain bs where bs: "encInts ?vs = Inr bs" and b': "pb_body b' = pb_body b @ (bs @ cc_reasonPhrase f)"
    using w(1) \<open>0 < n\<close> by (auto simp: writeFrame_def Let_def sizePlus_def writeInts_put [OF r] code closeErrorCode_def isTransport_def
      pb_push_def pb_appendFrame_def simp del: encInts.simps intsSize.simps writeInts.simps
      dest!: writeIfSpace_put [OF _ \<open>0 < n\<close>])
  have len: "length c' \<noteq> 1" if "QuicInteger_encode (cc_closingFrameType f) = Inr c'" for c'
    using type getSize_encode [OF that] by (auto simp: QuicInteger_getSize_def getQuicIntegerSize_def split: if_splits)
  have "parseFrame ((bs @ cc_reasonPhrase f) @ rest) header params = Inl encodingError"
    using bs len by (auto simp: encInts_Cons parseFrame_typed parseFrameBody_def decodeConnectionCloseFrame_def
        rethrow_def encodingError_def simp del: encInts.simps(2) frameTypeCode.simps)
  then show ?thesis using b' by blast
qed


text \<open>C38: stream group frames lose their data when the length field is omitted. The type byte of a group
  frame always has the length bit set, so the decoder takes the first bytes of the data for the
  length: it never returns the data that was written. The field is omitted whenever the data fills
  the packet.\<close>

theorem group_stream_without_length_misread:
  assumes h: "writeStreamFrameHeader i offset (length buf) flowControlLen fin hint (Some g) app b = Inr (Some n, b1)"
    and d: "writeStreamFrameData buf n b1 = Inr b2" and r: "pb_remainingBytes b < 4294967296" and n: "0 < n"
    and skip: "hint = Some True \<or> hint = None \<and> pb_remainingBytes b \<le> length buf \<and> pb_remainingBytes b \<le> flowControlLen"
  shows "\<exists>bs. pb_body b2 = pb_body b @ bs \<and> n \<le> length bs \<and>
    (\<forall>f rest. parseFrame bs header params = Inr (RF_Stream f, rest) \<longrightarrow> length (rs_data f) < n)"
proof -
  obtain hasLen ints where e: "encInts (streamInts i (Some g) offset hasLen n) = Inr ints"
    and body: "pb_body b1 = pb_body b @ streamTypeByte (Some g \<noteq> None) (offset \<noteq> 0) hasLen (fin \<and> n = length buf) # ints"
    and hint: "\<forall>h. hint = Some h \<longrightarrow> hasLen = (\<not> h)"
      "hint = None \<and> pb_remainingBytes b \<le> length buf \<and> pb_remainingBytes b \<le> flowControlLen \<longrightarrow> \<not> hasLen"
    using writeStreamFrameHeader_put [OF h r] by blast
  have "\<not> hasLen" using skip hint by blast
  then have e: "encInts (streamInts i (Some g) offset False n) = Inr ints"
    and body: "pb_body b1 = pb_body b @ streamTypeByte True (offset \<noteq> 0) False (fin \<and> n = length buf) # ints"
    using e body by simp_all
  let ?t = "streamTypeByte True (offset \<noteq> 0) False (fin \<and> n = length buf)"
  let ?data = "take n buf"
  have b2: "pb_body b2 = pb_body b @ ?t # ints @ ?data" and len: "length ?data = n"
    using d n body by (auto simp: writeStreamFrameData_def pb_insertLimit_def pb_insert_def split: if_splits)
  have short: "length (take v c) < n" if "readVarint ?data = Inr (v, k, c)" for v k c
    using that decodeQuicInteger_cases [of ?data 8] n
    by (auto simp: readVarint_def split: option.splits prod.splits)
  have "length (rs_data f) < n" if "parseFrame (?t # ints @ ?data) header params = Inr (RF_Stream f, rest)" for f rest
    using that short unfolding streamTypeByte_parse rethrow_Inr decode_group_nolen [OF e]
    by (auto split: if_splits)
  then show ?thesis using b2 len by (intro exI [of _ "?t # ints @ ?data"]) auto
qed

text \<open>The result of \<^verbatim>\<open>writeAckFrame\<close> reports no block although the frame in the packet has at least one.\<close>

lemma ack_result_blocks_moved:
  assumes "writeAckFrame meta frameType b = Inr (Some res, b')"
  shows "war_ackBlocksWritten res = 0 \<and> (\<exists>frame. last (pb_frames b') = WF_Ack frame \<and> wa_ackBlocks frame \<noteq> [])"
  using assms by (auto simp: writeAckFrame_def writeAckFrameToPacketBuilder_def Let_def pb_appendFrame_def
      split: if_splits option.splits)

text \<open>Witnesses.\<close>

lemmas varint_eval = QuicInteger_encode_def QuicInteger_getSize_def encodeQuicInteger_def getQuicIntegerSize_def
  encodeOneByte_def encodeTwoBytes_def quic_limits writeBE_def upt_rec

definition example_pb :: PacketBuilder where
  "example_pb = mkPacketBuilder 100 (PH_Short example_short) 0"

lemma example_pb_fields [simp]: "pb_remainingBytes example_pb = 100" "pb_body example_pb = []"
  "pb_frames example_pb = []"
  by (simp_all add: example_pb_def mkPacketBuilder_def)

lemmas writer_eval = writeIfSpace_def packetSpaceCheck_def remainingSpaceInPkt_def pb_write_def pb_put_def
  sub32_exact pb_appendFrame_def Let_def

theorem write_frame_roundtrip_witness:
  "\<exists>b'. writeFrame (WF_MaxData 5000) example_pb = Inr (3, b') \<and>
     (\<exists>bs. pb_body b' = bs \<and> length bs = 3 \<and> parseFrame (bs @ [1]) HF_Short defaultParams = Inr (RF_MaxData 5000, [1]))"
proof -
  obtain b' where w: "writeFrame (WF_MaxData 5000) example_pb = Inr (3, b')"
    by (simp add: writeFrame_def writer_eval varint_eval)
  show ?thesis
    using w write_frame_roundtrip [OF w, of "[1]" HF_Short defaultParams] by auto
qed


definition example_meta :: WriteAckFrameMetaData where
  "example_meta = \<lparr>wam_ackState = \<lparr>was_acks = \<lparr>intervals = [\<lparr>iv_start = 1, iv_end = 3\<rparr>, \<lparr>iv_start = 7, iv_end = 9\<rparr>],
       insertVersion = 2\<rparr>, was_lastRecvdPacketInfo = None\<rparr>,
     wam_ackDelay = 1000, wam_ackDelayExponent = 3, wam_connTime = 0\<rparr>"

theorem ack_frame_roundtrip_witness:
  "\<exists>res b' f. writeAckFrame example_meta FT_ACK example_pb = Inr (Some res, b') \<and>
     parseFrame (pb_body b' @ [1]) HF_Short defaultParams = Inr (RF_Ack f, [1]) \<and> ra_largestAcked f = 9 \<and>
     ra_ackBlocks f = map blockOf [\<lparr>iv_start = 7, iv_end = 9\<rparr>, \<lparr>iv_start = 1, iv_end = 3\<rparr>]"
proof -
  obtain res b' where w: "writeAckFrame example_meta FT_ACK example_pb = Inr (Some res, b')"
    by (simp add: example_meta_def writeAckFrame_def writeAckFrameToPacketBuilder_def fillFrameWithAckBlocks_def
        writer_eval varint_eval check_def getQuicIntegerSizeThrows_def add64_def sub64_def drop_bit_nat_def)
  have "iset_inv (was_acks (wam_ackState example_meta))"
    by (simp add: example_meta_def iset_inv_def valid_interval_def separated_def u64_max_def)
  note rt = ack_frame_roundtrip [OF w _ this, of HF_Short defaultParams "[1]"]
  have "map_sum id length (rbind (ackFrameInts example_meta 1) encInts) = Inr 8"
    by (simp add: example_meta_def ackFrameInts_def blockOf_def check_def add64_def sub64_def varint_eval)
  then have short: "rbind (ackFrameInts example_meta 1) encInts = Inr bs' \<Longrightarrow> length bs' = 8" for bs'
    by (simp only: map_sum.simps sum.inject)
  obtain k f where k: "Suc k \<le> 2" "Suc k < 2 \<longrightarrow> (\<exists>bs'. rbind (ackFrameInts example_meta (Suc k)) encInts = Inr bs' \<and> 100 < length bs')"
    and f: "parseFrame (pb_body b' @ [1]) HF_Short defaultParams = Inr (RF_Ack f, [1])" "ra_largestAcked f = 9"
      "ra_ackBlocks f = map blockOf (take (Suc k) [\<lparr>iv_start = 7, iv_end = 9\<rparr>, \<lparr>iv_start = 1, iv_end = 3\<rparr>])"
    using rt by (auto simp: example_meta_def defaultParams_def)
  have "k \<noteq> 0"
  proof
    assume "k = 0"
    then obtain bs' where "rbind (ackFrameInts example_meta 1) encInts = Inr bs'" "100 < length bs'"
      using k(2) unfolding One_nat_def by auto
    then show False using short by fastforce
  qed
  then have "k = 1" using k(1) by simp
  then show ?thesis using w f by auto
qed

theorem close_frame_long_type_rejected_witness:
  "\<exists>n b'. writeFrame (WF_ConnectionClose \<lparr>cc_errorCode = TransportCode 7, cc_reasonPhrase = [], cc_closingFrameType = 0x1550\<rparr>)
       example_pb = Inr (n, b') \<and> parseFrame (pb_body b') HF_Short defaultParams = Inl encodingError"
proof -
  let ?f = "\<lparr>cc_errorCode = TransportCode 7, cc_reasonPhrase = [], cc_closingFrameType = 0x1550\<rparr>"
  obtain b' where w: "writeFrame (WF_ConnectionClose ?f) example_pb = Inr (5, b')"
    by (simp add: writeFrame_def isTransport_def closeErrorCode_def sizePlus_def pb_push_def writer_eval varint_eval)
  show ?thesis
    using w close_frame_long_type_rejected [OF w, of 7 "[]" HF_Short defaultParams] by (auto simp: quic_limits)
qed

theorem group_stream_without_length_misread_witness:
  "\<exists>b1 b2. writeStreamFrameHeader 4 0 (length [1, 2, 3 :: byte]) 100 False (Some True) (Some 2) True example_pb = Inr (Some 3, b1) \<and>
     writeStreamFrameData [1, 2, 3] 3 b1 = Inr b2 \<and>
     (\<forall>f rest. parseFrame (pb_body b2) HF_Short defaultParams = Inr (RF_Stream f, rest) \<longrightarrow> length (rs_data f) < 3)"
proof -
  obtain b1 where h: "writeStreamFrameHeader 4 0 (length [1, 2, 3 :: byte]) 100 False (Some True) (Some 2) True example_pb = Inr (Some 3, b1)"
    by (simp add: writeStreamFrameHeader_def streamDataLenLen_def streamFrameFit_def streamFrameEmit_def streamInts_def optInts_def
        pb_writeBE8_def writer_eval varint_eval sub64_def)
  obtain b2 where d: "writeStreamFrameData [1, 2, 3] 3 b1 = Inr b2"
    by (simp add: writeStreamFrameData_def pb_insertLimit_def)
  show ?thesis using h d group_stream_without_length_misread [OF h d, of HF_Short defaultParams] by auto
qed

end
