(* ===== verification/Conn_State.thy ===== *)
theory Conn_State
  imports Stream_Data Quic_Frames
begin

text \<open>
  What the streams see of their connection: the settings of \<^verbatim>\<open>quic/state/TransportSettings.h\<close>
  that the stream layer reads, the connection flow control counters of
  \<^verbatim>\<open>quic/state/StateData.h\<close>, and the constructors of \<^verbatim>\<open>QuicStreamState\<close> in
  \<^verbatim>\<open>quic/state/StateData.cpp\<close> that take the initial windows from both. The record
  \<open>ConnBase\<close> is extended to the whole modelled connection in \<open>Flow_Controller\<close>.
\<close>

record TransportSettings =
  ts_advertisedInitialConnectionWindowSize :: nat
  ts_advertisedInitialBidiLocalStreamWindowSize :: nat
  ts_advertisedInitialBidiRemoteStreamWindowSize :: nat
  ts_advertisedInitialUniStreamWindowSize :: nat
  ts_advertisedInitialMaxStreamsBidi :: nat
  ts_advertisedInitialMaxStreamsUni :: nat
  ts_flowControlRttFrequency :: nat
  ts_flowControlWindowFrequency :: nat
  ts_autotuneReceiveConnFlowControl :: bool
  ts_notifyOnNewStreamsExplicitly :: bool
  ts_advertisedMaxStreamGroups :: nat
  ts_defaultPriority :: Priority
  ts_priorityQueueWritesPerStream :: nat

record ConnectionFlowControlState =
  cfc_windowSize :: nat
  cfc_advertisedMaxOffset :: nat
  cfc_peerAdvertisedMaxOffset :: nat
  cfc_sumCurReadOffset :: nat
  cfc_sumMaxObservedOffset :: nat
  cfc_sumCurWriteOffset :: nat
  cfc_sumCurStreamBufferLen :: nat
  cfc_largestMaxOffsetReceived :: "nat option"
  cfc_peerAdvertisedInitialMaxStreamOffsetBidiLocal :: nat
  cfc_peerAdvertisedInitialMaxStreamOffsetBidiRemote :: nat
  cfc_peerAdvertisedInitialMaxStreamOffsetUni :: nat
  cfc_timeOfLastFlowControlUpdate :: "int option"

record ConnBase =
  conn_nodeType :: QuicNodeType
  conn_transportSettings :: TransportSettings
  conn_flowControlState :: ConnectionFlowControlState

section \<open>New streams\<close>

text \<open>The member initialisers of \<^verbatim>\<open>QuicStreamLike\<close> and \<^verbatim>\<open>QuicStreamState\<close>.\<close>

definition defaultStream :: "StreamId \<Rightarrow> QuicStreamState" where
  "defaultStream i = \<lparr>readBuffer = [], writeBuffer = [], retransmissionBuffer = Map.empty,
     ackedIntervals = emptyIntervalSet, lossBuffer = [], currentWriteOffset = 0,
     minimumRetransmittableOffset = 0, currentReadOffset = 0, currentReceiveOffset = 0,
     maxOffsetObserved = 0, finalReadOffset = None, numPacketsTxWithNewData = 0,
     st_id = i, groupId = None, finalWriteOffset = None,
     flowControlState = \<lparr>sfc_windowSize = 0, sfc_advertisedMaxOffset = 0, sfc_peerAdvertisedMaxOffset = 0,
                         sfc_timeOfLastFlowControlUpdate = None\<rparr>,
     streamReadError = None, streamWriteError = None, sendState = SendOpen, recvState = RecvOpen,
     isControl = False, lastHolbTime = None, totalHolbTime = 0, holbCount = 0,
     priority = kDefaultPriority, streamPacketIdx = 0, dsrSender = False, writeBufMeta = emptyWriteBufferMeta,
     retransmissionBufMetas = Map.empty, lossBufMetas = [], streamLossCount = 0\<rparr>"

definition mkQuicStreamState :: "StreamId \<Rightarrow> 'a ConnBase_scheme \<Rightarrow> QuicStreamState" where
  "mkQuicStreamState i conn =
     (let ts = conn_transportSettings conn; fc = conn_flowControlState conn;
          uni = isUnidirectionalStream i; loc = isLocalStream (conn_nodeType conn) i;
          win = (if uni then ts_advertisedInitialUniStreamWindowSize ts
                 else if loc then ts_advertisedInitialBidiLocalStreamWindowSize ts
                 else ts_advertisedInitialBidiRemoteStreamWindowSize ts);
          peer = (if uni then cfc_peerAdvertisedInitialMaxStreamOffsetUni fc
                  else if loc then cfc_peerAdvertisedInitialMaxStreamOffsetBidiRemote fc
                  else cfc_peerAdvertisedInitialMaxStreamOffsetBidiLocal fc);
          s = (defaultStream i)\<lparr>flowControlState := \<lparr>sfc_windowSize = win, sfc_advertisedMaxOffset = win,
                 sfc_peerAdvertisedMaxOffset = peer, sfc_timeOfLastFlowControlUpdate = None\<rparr>\<rparr>;
          s = (if uni then (if loc then s\<lparr>recvState := RecvInvalid\<rparr> else s\<lparr>sendState := SendInvalid\<rparr>) else s)
      in s\<lparr>priority := ts_defaultPriority ts\<rparr>)"

definition mkGroupedStreamState :: "StreamId \<Rightarrow> StreamGroupId option \<Rightarrow> 'a ConnBase_scheme \<Rightarrow> QuicStreamState" where
  "mkGroupedStreamState i g conn = (mkQuicStreamState i conn)\<lparr>groupId := g\<rparr>"

section \<open>Crypto streams\<close>

datatype EncryptionLevel = EL_Initial | EL_Handshake | EL_EarlyData | EL_AppData

text \<open>The member initialisers of \<^verbatim>\<open>QuicStreamLike\<close>, which is all a crypto stream has.\<close>

definition newCryptoStream :: QuicStreamLike where
  "newCryptoStream = \<lparr>readBuffer = [], writeBuffer = [], retransmissionBuffer = Map.empty,
     ackedIntervals = emptyIntervalSet, lossBuffer = [], currentWriteOffset = 0,
     minimumRetransmittableOffset = 0, currentReadOffset = 0, currentReceiveOffset = 0,
     maxOffsetObserved = 0, finalReadOffset = None, numPacketsTxWithNewData = 0\<rparr>"

record QuicCryptoState =
  initialStream :: QuicStreamLike
  handshakeStream :: QuicStreamLike
  oneRttStream :: QuicStreamLike

lemma mkQuicStreamState_simps [simp]:
  "st_id (mkQuicStreamState i conn) = i" "isControl (mkQuicStreamState i conn) = False"
  "readBuffer (mkQuicStreamState i conn) = []" "writeBuffer (mkQuicStreamState i conn) = []"
  "lossBuffer (mkQuicStreamState i conn) = []" "lossBufMetas (mkQuicStreamState i conn) = []"
  by (simp_all add: mkQuicStreamState_def defaultStream_def Let_def)

lemma mkGroupedStreamState_simps [simp]:
  "st_id (mkGroupedStreamState i g conn) = i" "isControl (mkGroupedStreamState i g conn) = False"
  "groupId (mkGroupedStreamState i g conn) = g"
  by (simp_all add: mkGroupedStreamState_def)

end
