(* ===== verification/Stream_Manager.thy ===== *)
theory Stream_Manager
  imports Conn_State
begin

text \<open>
  The stream manager of \<^verbatim>\<open>quic/state/QuicStreamManager.h\<close> and \<^verbatim>\<open>.cpp\<close>: which streams a
  connection has, which identifiers may be opened next by either side, the limits that each side
  granted, and the work sets (readable, writable, blocked, \<open>\<dots>\<close>) that the write and read
  paths consume. The class is the record \<open>QuicStreamManager\<close>, one field per member variable;
  hash sets are sets, hash maps partial maps. A pointer to a stream is the key of the stream in
  \<open>sm_streams\<close>; an operation that gets a reference to a stream takes the stream and returns it
  changed. The connection that the manager refers to is an argument of the operations that read
  it. The observer of priority changes, the statistics and the notification of the congestion
  controller are not part of the model.

  The iteration order of a hash set is a parameter (\<open>enum\<close>, \<open>pick\<close>) of the operations that
  expose it.
\<close>

section \<open>Model\<close>

definition kStreamIncrement :: nat where "kStreamIncrement = 4"
definition kStreamGroupIncrement :: nat where "kStreamGroupIncrement = 4"
definition kMaxStreamGroupId :: nat where "kMaxStreamGroupId = 128 * kStreamGroupIncrement"

record QuicStreamManager =
  sm_nodeType :: QuicNodeType
  nextAcceptablePeerBidirectionalStreamId :: StreamId
  nextAcceptablePeerUnidirectionalStreamId :: StreamId
  nextAcceptableLocalBidirectionalStreamId :: StreamId
  nextAcceptableLocalUnidirectionalStreamId :: StreamId
  nextBidirectionalStreamId :: StreamId
  nextBidirectionalStreamGroupId :: StreamGroupId
  nextUnidirectionalStreamId :: StreamId
  nextUnidirectionalStreamGroupId :: StreamGroupId
  maxLocalBidirectionalStreamId :: StreamId
  maxLocalUnidirectionalStreamId :: StreamId
  maxRemoteBidirectionalStreamId :: StreamId
  maxRemoteUnidirectionalStreamId :: StreamId
  initialLocalBidirectionalStreamId :: StreamId
  initialLocalUnidirectionalStreamId :: StreamId
  initialRemoteBidirectionalStreamId :: StreamId
  initialRemoteUnidirectionalStreamId :: StreamId
  streamLimitWindowingFraction :: nat
  remoteBidiStreamLimitUpdate :: "nat option"
  remoteUniStreamLimitUpdate :: "nat option"
  numControlStreams :: nat
  openBidirectionalPeerStreams :: "StreamId set"
  openUnidirectionalPeerStreams :: "StreamId set"
  openBidirectionalLocalStreams :: "StreamId set"
  openUnidirectionalLocalStreams :: "StreamId set"
  openBidirectionalLocalStreamGroups :: "StreamGroupId set"
  openUnidirectionalLocalStreamGroups :: "StreamGroupId set"
  sm_streams :: "StreamId \<rightharpoonup> QuicStreamState"
  newPeerStreams :: "StreamId list"
  newGroupedPeerStreams :: "StreamId list"
  newPeerStreamGroups :: "StreamGroupId set"
  peerStreamGroupsSeen :: "StreamGroupId set"
  blockedStreams :: "StreamId \<rightharpoonup> StreamDataBlockedFrame"
  stopSendingStreams :: "StreamId \<rightharpoonup> ApplicationErrorCode"
  streamPriorityLevelsNoCtrl :: "StreamId \<rightharpoonup> nat"
  windowUpdates :: "StreamId set"
  flowControlUpdated :: "StreamId set"
  lossStreams :: "StreamId set"
  lossDSRStreams :: "StreamId set"
  readableStreams :: "StreamId set"
  peekableStreams :: "StreamId set"
  writeQueue :: PriorityQueue
  controlWriteQueue :: "StreamId set"
  writableStreams :: "StreamId set"
  writableDSRStreams :: "StreamId set"
  txStreams :: "StreamId set"
  deliverableStreams :: "StreamId set"
  closedStreams :: "StreamId set"
  isAppIdle :: bool
  sm_transportSettings :: TransportSettings
  maxLocalBidirectionalStreamIdIncreased :: bool
  maxLocalUnidirectionalStreamIdIncreased :: bool

text \<open>\<^verbatim>\<open>emplace\<close> on a map inserts only a new key.\<close>

definition map_emplace :: "'k \<Rightarrow> 'v \<Rightarrow> ('k \<rightharpoonup> 'v) \<Rightarrow> ('k \<rightharpoonup> 'v)" where
  "map_emplace k v m = (if m k = None then m(k \<mapsto> v) else m)"

text \<open>The references that the code chooses with \<^verbatim>\<open>isUnidirectionalStream(streamId) ? \<dots> : \<dots>\<close>.\<close>

definition openPeer :: "bool \<Rightarrow> QuicStreamManager \<Rightarrow> StreamId set" where
  "openPeer uni m = (if uni then openUnidirectionalPeerStreams m else openBidirectionalPeerStreams m)"

definition setOpenPeer :: "bool \<Rightarrow> StreamId set \<Rightarrow> QuicStreamManager \<Rightarrow> QuicStreamManager" where
  "setOpenPeer uni S m = (if uni then m\<lparr>openUnidirectionalPeerStreams := S\<rparr> else m\<lparr>openBidirectionalPeerStreams := S\<rparr>)"

definition openLocal :: "bool \<Rightarrow> QuicStreamManager \<Rightarrow> StreamId set" where
  "openLocal uni m = (if uni then openUnidirectionalLocalStreams m else openBidirectionalLocalStreams m)"

definition setOpenLocal :: "bool \<Rightarrow> StreamId set \<Rightarrow> QuicStreamManager \<Rightarrow> QuicStreamManager" where
  "setOpenLocal uni S m = (if uni then m\<lparr>openUnidirectionalLocalStreams := S\<rparr> else m\<lparr>openBidirectionalLocalStreams := S\<rparr>)"

definition nextPeer :: "bool \<Rightarrow> QuicStreamManager \<Rightarrow> StreamId" where
  "nextPeer uni m = (if uni then nextAcceptablePeerUnidirectionalStreamId m
                     else nextAcceptablePeerBidirectionalStreamId m)"

definition setNextPeer :: "bool \<Rightarrow> StreamId \<Rightarrow> QuicStreamManager \<Rightarrow> QuicStreamManager" where
  "setNextPeer uni i m = (if uni then m\<lparr>nextAcceptablePeerUnidirectionalStreamId := i\<rparr>
                          else m\<lparr>nextAcceptablePeerBidirectionalStreamId := i\<rparr>)"

definition nextLocal :: "bool \<Rightarrow> QuicStreamManager \<Rightarrow> StreamId" where
  "nextLocal uni m = (if uni then nextAcceptableLocalUnidirectionalStreamId m
                      else nextAcceptableLocalBidirectionalStreamId m)"

definition setNextLocal :: "bool \<Rightarrow> StreamId \<Rightarrow> QuicStreamManager \<Rightarrow> QuicStreamManager" where
  "setNextLocal uni i m = (if uni then m\<lparr>nextAcceptableLocalUnidirectionalStreamId := i\<rparr>
                           else m\<lparr>nextAcceptableLocalBidirectionalStreamId := i\<rparr>)"

definition maxRemote :: "bool \<Rightarrow> QuicStreamManager \<Rightarrow> StreamId" where
  "maxRemote uni m = (if uni then maxRemoteUnidirectionalStreamId m else maxRemoteBidirectionalStreamId m)"

definition maxLocal :: "bool \<Rightarrow> QuicStreamManager \<Rightarrow> StreamId" where
  "maxLocal uni m = (if uni then maxLocalUnidirectionalStreamId m else maxLocalBidirectionalStreamId m)"

definition initialRemote :: "bool \<Rightarrow> QuicStreamManager \<Rightarrow> StreamId" where
  "initialRemote uni m = (if uni then initialRemoteUnidirectionalStreamId m else initialRemoteBidirectionalStreamId m)"

definition initialLocal :: "bool \<Rightarrow> QuicStreamManager \<Rightarrow> StreamId" where
  "initialLocal uni m = (if uni then initialLocalUnidirectionalStreamId m else initialLocalBidirectionalStreamId m)"

subsection \<open>Head-of-line blocking\<close>

definition updateHolBlockedTime :: "int \<Rightarrow> QuicStreamState \<Rightarrow> QuicStreamState" where
  "updateHolBlockedTime now stream =
     (if readBuffer stream = [] \<or> currentReadOffset stream = sb_offset (hd (readBuffer stream)) then
        (case lastHolbTime stream of
           Some t \<Rightarrow> stream\<lparr>totalHolbTime := totalHolbTime stream + (now - t), lastHolbTime := None\<rparr>
         | None \<Rightarrow> stream)
      else if lastHolbTime stream \<noteq> None then stream
      else stream\<lparr>lastHolbTime := Some now, holbCount := holbCount stream + 1\<rparr>)"

subsection \<open>Opening streams\<close>

definition isStreamUnopened :: "StreamId \<Rightarrow> StreamId \<Rightarrow> bool" where
  "isStreamUnopened streamId nextAcceptableStreamId \<longleftrightarrow> streamId \<ge> nextAcceptableStreamId"

text \<open>The loop of both functions: the identifiers from \<open>start\<close> to \<open>streamId\<close> are added to the
  open streams and, for peer streams, recorded as new. It starts below the stream limit, so that
  \<open>start\<close> stays far below \<open>2 ^ 64\<close>.\<close>

function openLoop :: "StreamId \<Rightarrow> StreamId \<Rightarrow> StreamId set \<Rightarrow> StreamId list option \<Rightarrow> StreamId set \<times> StreamId list option" where
  "openLoop start streamId openStreams newStreams =
     (if start \<le> streamId
      then openLoop (start + kStreamIncrement) streamId (insert start openStreams)
             (map_option (\<lambda>xs. xs @ [start]) newStreams)
      else (openStreams, newStreams))"
  by pat_completeness auto

termination by (relation "measure (\<lambda>(start, streamId, _, _). Suc streamId - start)") (auto simp: kStreamIncrement_def)

declare openLoop.simps [simp del]

text \<open>The result of the functions with reference parameters: the code and the new values.\<close>

definition openPeerStreamIfNotClosed ::
  "StreamId \<Rightarrow> StreamId set \<Rightarrow> StreamId \<Rightarrow> StreamId \<Rightarrow> StreamId list option \<Rightarrow>
   LocalErrorCode \<times> StreamId set \<times> StreamId \<times> StreamId list option" where
  "openPeerStreamIfNotClosed streamId openStreams nextAcceptableStreamId maxStreamId newStreams =
     (if streamId < nextAcceptableStreamId
      then (LE_CREATING_EXISTING_STREAM, openStreams, nextAcceptableStreamId, newStreams)
      else if streamId \<ge> maxStreamId
      then (LE_STREAM_LIMIT_EXCEEDED, openStreams, nextAcceptableStreamId, newStreams)
      else let (openStreams', newStreams') = openLoop nextAcceptableStreamId streamId openStreams newStreams
           in (LE_NO_ERROR, openStreams', streamId + kStreamIncrement, newStreams'))"

definition openLocalStreamIfNotClosed ::
  "StreamId \<Rightarrow> StreamId set \<Rightarrow> StreamId \<Rightarrow> StreamId \<Rightarrow> LocalErrorCode \<times> StreamId set \<times> StreamId" where
  "openLocalStreamIfNotClosed streamId openStreams nextAcceptableStreamId maxStreamId =
     (if streamId < nextAcceptableStreamId then (LE_CREATING_EXISTING_STREAM, openStreams, nextAcceptableStreamId)
      else if streamId \<ge> maxStreamId then (LE_STREAM_LIMIT_EXCEEDED, openStreams, nextAcceptableStreamId)
      else let (openStreams', _) = openLoop nextAcceptableStreamId streamId openStreams None
           in (LE_NO_ERROR, openStreams', streamId + kStreamIncrement))"

definition streamExists :: "StreamId \<Rightarrow> QuicStreamManager \<Rightarrow> bool" where
  "streamExists streamId m =
     (if isLocalStream (sm_nodeType m) streamId
      then if isUnidirectionalStream streamId then streamId \<in> openUnidirectionalLocalStreams m
           else streamId \<in> openBidirectionalLocalStreams m
      else if isUnidirectionalStream streamId then streamId \<in> openUnidirectionalPeerStreams m
           else streamId \<in> openBidirectionalPeerStreams m)"

definition findStream :: "StreamId \<Rightarrow> QuicStreamManager \<Rightarrow> QuicStreamState option" where
  "findStream streamId m = sm_streams m streamId"

subsection \<open>Limits\<close>

definition setMaxLocalBidirectionalStreams :: "nat \<Rightarrow> bool \<Rightarrow> QuicStreamManager \<Rightarrow> QuicStreamManager res" where
  "setMaxLocalBidirectionalStreams maxStreams force m =
     (if maxStreams > kMaxMaxStreams then Inl (QuicTransportException TE_STREAM_LIMIT_ERROR)
      else let maxStreamId = maxStreams * kStreamIncrement + initialLocalBidirectionalStreamId m
           in if force \<or> maxStreamId > maxLocalBidirectionalStreamId m
              then Inr (m\<lparr>maxLocalBidirectionalStreamId := maxStreamId, maxLocalBidirectionalStreamIdIncreased := True\<rparr>)
              else Inr m)"

definition setMaxLocalUnidirectionalStreams :: "nat \<Rightarrow> bool \<Rightarrow> QuicStreamManager \<Rightarrow> QuicStreamManager res" where
  "setMaxLocalUnidirectionalStreams maxStreams force m =
     (if maxStreams > kMaxMaxStreams then Inl (QuicTransportException TE_STREAM_LIMIT_ERROR)
      else let maxStreamId = maxStreams * kStreamIncrement + initialLocalUnidirectionalStreamId m
           in if force \<or> maxStreamId > maxLocalUnidirectionalStreamId m
              then Inr (m\<lparr>maxLocalUnidirectionalStreamId := maxStreamId, maxLocalUnidirectionalStreamIdIncreased := True\<rparr>)
              else Inr m)"

definition setMaxRemoteBidirectionalStreamsInternal :: "nat \<Rightarrow> bool \<Rightarrow> QuicStreamManager \<Rightarrow> QuicStreamManager res" where
  "setMaxRemoteBidirectionalStreamsInternal maxStreams force m =
     (if maxStreams > kMaxMaxStreams then Inl (QuicTransportException TE_STREAM_LIMIT_ERROR)
      else let maxStreamId = maxStreams * kStreamIncrement + initialRemoteBidirectionalStreamId m
           in if force \<or> maxStreamId > maxRemoteBidirectionalStreamId m
              then Inr (m\<lparr>maxRemoteBidirectionalStreamId := maxStreamId\<rparr>) else Inr m)"

definition setMaxRemoteUnidirectionalStreamsInternal :: "nat \<Rightarrow> bool \<Rightarrow> QuicStreamManager \<Rightarrow> QuicStreamManager res" where
  "setMaxRemoteUnidirectionalStreamsInternal maxStreams force m =
     (if maxStreams > kMaxMaxStreams then Inl (QuicTransportException TE_STREAM_LIMIT_ERROR)
      else let maxStreamId = maxStreams * kStreamIncrement + initialRemoteUnidirectionalStreamId m
           in if force \<or> maxStreamId > maxRemoteUnidirectionalStreamId m
              then Inr (m\<lparr>maxRemoteUnidirectionalStreamId := maxStreamId\<rparr>) else Inr m)"

definition setMaxRemoteBidirectionalStreams :: "nat \<Rightarrow> QuicStreamManager \<Rightarrow> QuicStreamManager res" where
  "setMaxRemoteBidirectionalStreams maxStreams m = setMaxRemoteBidirectionalStreamsInternal maxStreams False m"

definition setMaxRemoteUnidirectionalStreams :: "nat \<Rightarrow> QuicStreamManager \<Rightarrow> QuicStreamManager res" where
  "setMaxRemoteUnidirectionalStreams maxStreams m = setMaxRemoteUnidirectionalStreamsInternal maxStreams False m"

definition consumeMaxLocalBidirectionalStreamIdIncreased :: "QuicStreamManager \<Rightarrow> bool \<times> QuicStreamManager" where
  "consumeMaxLocalBidirectionalStreamIdIncreased m =
     (maxLocalBidirectionalStreamIdIncreased m, m\<lparr>maxLocalBidirectionalStreamIdIncreased := False\<rparr>)"

definition consumeMaxLocalUnidirectionalStreamIdIncreased :: "QuicStreamManager \<Rightarrow> bool \<times> QuicStreamManager" where
  "consumeMaxLocalUnidirectionalStreamIdIncreased m =
     (maxLocalUnidirectionalStreamIdIncreased m, m\<lparr>maxLocalUnidirectionalStreamIdIncreased := False\<rparr>)"

definition setStreamPriority :: "StreamId \<Rightarrow> Priority \<Rightarrow> QuicStreamManager \<Rightarrow> (bool \<times> QuicStreamManager) res" where
  "setStreamPriority i newPriority m = (case findStream i m of
      None \<Rightarrow> Inr (False, m)
    | Some stream \<Rightarrow>
        if priority stream = newPriority then Inr (False, m)
        else if \<not> isControl stream \<and> streamPriorityLevelsNoCtrl m i = None
        then Inl (QuicTransportException TE_STREAM_STATE_ERROR)
        else let m = m\<lparr>sm_streams := (sm_streams m)(i \<mapsto> stream\<lparr>priority := newPriority\<rparr>)\<rparr>;
                 m = (if isControl stream then m
                      else m\<lparr>streamPriorityLevelsNoCtrl := (streamPriorityLevelsNoCtrl m)(i \<mapsto> pri_level newPriority)\<rparr>)
             in Inr (True, m\<lparr>writeQueue := updateIfExist i newPriority (writeQueue m)\<rparr>))"

definition refreshTransportSettings :: "TransportSettings \<Rightarrow> QuicStreamManager \<Rightarrow> QuicStreamManager res" where
  "refreshTransportSettings settings m =
     rbind (setMaxRemoteBidirectionalStreamsInternal (ts_advertisedInitialMaxStreamsBidi settings) True
              (m\<lparr>sm_transportSettings := settings\<rparr>)) (\<lambda>m.
       setMaxRemoteUnidirectionalStreamsInternal (ts_advertisedInitialMaxStreamsUni settings) True m)"

subsection \<open>Control streams and priorities\<close>

definition hasNonCtrlStreams :: "QuicStreamManager \<Rightarrow> bool" where
  "hasNonCtrlStreams m \<longleftrightarrow> card (dom (sm_streams m)) \<noteq> numControlStreams m"

definition updateAppIdleState :: "QuicStreamManager \<Rightarrow> QuicStreamManager" where
  "updateAppIdleState m =
     (let currentNonCtrlStreams = hasNonCtrlStreams m
      in if isAppIdle m \<and> \<not> currentNonCtrlStreams then m
         else if \<not> isAppIdle m \<and> currentNonCtrlStreams then m
         else m\<lparr>isAppIdle := \<not> currentNonCtrlStreams\<rparr>)"

definition setStreamAsControl :: "QuicStreamState \<Rightarrow> QuicStreamManager \<Rightarrow> QuicStreamState \<times> QuicStreamManager" where
  "setStreamAsControl stream m =
     (if \<not> isControl stream
      then (stream\<lparr>isControl := True\<rparr>,
            updateAppIdleState (m\<lparr>numControlStreams := add64 (numControlStreams m) 1,
              streamPriorityLevelsNoCtrl := (streamPriorityLevelsNoCtrl m)(st_id stream := None)\<rparr>))
      else (stream, updateAppIdleState m))"

fun highestLoop :: "nat \<Rightarrow> nat list \<Rightarrow> nat" where
  "highestLoop least [] = least"
| "highestLoop least (level # entries) =
     (let least = (if level < least then level else least)
      in if least = 0 then least else highestLoop least entries)"

text \<open>\<open>enum\<close> lists the keys of a hash map in the order of its iterators.\<close>

definition getHighestPriorityLevel :: "(StreamId set \<Rightarrow> StreamId list) \<Rightarrow> QuicStreamManager \<Rightarrow> nat" where
  "getHighestPriorityLevel enum m = highestLoop kDefaultMaxPriority
     (map (\<lambda>i. the (streamPriorityLevelsNoCtrl m i)) (enum (dom (streamPriorityLevelsNoCtrl m))))"

text \<open>The last check of the function compares the entry with the value just inserted and cannot
  fail.\<close>

definition addToStreamPriorityMap :: "QuicStreamState \<Rightarrow> QuicStreamManager \<Rightarrow> QuicStreamManager res" where
  "addToStreamPriorityMap streamState m =
     (if isControl streamState then Inr m
      else if streamPriorityLevelsNoCtrl m (st_id streamState) \<noteq> None
      then Inl (QuicTransportException TE_STREAM_STATE_ERROR)
      else Inr (m\<lparr>streamPriorityLevelsNoCtrl :=
             (streamPriorityLevelsNoCtrl m)(st_id streamState \<mapsto> pri_level (priority streamState))\<rparr>))"

subsection \<open>Getting and creating streams\<close>

definition getOrCreateOpenedLocalStream ::
  "'a ConnBase_scheme \<Rightarrow> StreamId \<Rightarrow> QuicStreamManager \<Rightarrow> (StreamId option \<times> QuicStreamManager) res" where
  "getOrCreateOpenedLocalStream conn streamId m =
     (if streamId \<in> openLocal (isUnidirectionalStream streamId) m then
        if sm_streams m streamId \<noteq> None then Inl (QuicTransportException TE_STREAM_STATE_ERROR)
        else let stream = mkQuicStreamState streamId conn
             in rbind (addToStreamPriorityMap stream (m\<lparr>sm_streams := (sm_streams m)(streamId \<mapsto> stream)\<rparr>))
                  (\<lambda>m. Inr (Some streamId, m))
      else Inr (None, m))"

definition instantiatePeerStream ::
  "'a ConnBase_scheme \<Rightarrow> StreamId \<Rightarrow> StreamGroupId option \<Rightarrow> QuicStreamManager \<Rightarrow> (StreamId option \<times> QuicStreamManager) res" where
  "instantiatePeerStream conn streamId g m =
     (let m = (case g of
                 Some i \<Rightarrow> if i \<notin> peerStreamGroupsSeen m
                           then m\<lparr>newPeerStreamGroups := insert i (newPeerStreamGroups m),
                                  peerStreamGroupsSeen := insert i (peerStreamGroupsSeen m)\<rparr> else m
               | None \<Rightarrow> m);
          m = (if ts_notifyOnNewStreamsExplicitly (sm_transportSettings m)
               then if g = None then m\<lparr>newPeerStreams := newPeerStreams m @ [streamId]\<rparr>
                    else m\<lparr>newGroupedPeerStreams := newGroupedPeerStreams m @ [streamId]\<rparr>
               else m);
          m = m\<lparr>sm_streams := map_emplace streamId (mkGroupedStreamState streamId g conn) (sm_streams m)\<rparr>
      in rbind (addToStreamPriorityMap (the (sm_streams m streamId)) m) (\<lambda>m. Inr (Some streamId, m)))"

definition maxStreamGroupId :: "QuicStreamManager \<Rightarrow> nat" where
  "maxStreamGroupId m =
     min (mul64 (ts_advertisedMaxStreamGroups (sm_transportSettings m)) kStreamGroupIncrement) kMaxStreamGroupId"

text \<open>The validity checks at the start of \<^verbatim>\<open>getOrCreatePeerStream\<close>.\<close>

definition checkPeerStreamId :: "StreamId \<Rightarrow> StreamGroupId option \<Rightarrow> QuicStreamManager \<Rightarrow> unit res" where
  "checkPeerStreamId streamId streamGroupId m =
     (if sm_nodeType m = Client \<and> isClientStream streamId then Inl (QuicTransportException TE_STREAM_STATE_ERROR)
      else if sm_nodeType m = Server \<and> isServerStream streamId then Inl (QuicTransportException TE_STREAM_STATE_ERROR)
      else if \<not> isClientStream streamId \<and> \<not> isServerStream streamId then Inl (QuicTransportException TE_STREAM_STATE_ERROR)
      else case streamGroupId of None \<Rightarrow> Inr ()
        | Some g \<Rightarrow>
            if sm_nodeType m = Client \<and> isClientStreamGroup g then Inl (QuicTransportException TE_STREAM_STATE_ERROR)
            else if sm_nodeType m = Server \<and> isServerStreamGroup g then Inl (QuicTransportException TE_STREAM_STATE_ERROR)
            else if g \<ge> maxStreamGroupId m then Inl (QuicTransportException TE_STREAM_LIMIT_ERROR)
            else Inr ())"

definition getOrCreatePeerStream ::
  "'a ConnBase_scheme \<Rightarrow> StreamId \<Rightarrow> StreamGroupId option \<Rightarrow> QuicStreamManager \<Rightarrow> (StreamId option \<times> QuicStreamManager) res" where
  "getOrCreatePeerStream conn streamId streamGroupId m =
     rbind (checkPeerStreamId streamId streamGroupId m) (\<lambda>_.
       if sm_streams m streamId \<noteq> None then Inr (Some streamId, m)
       else let uni = isUnidirectionalStream streamId in
         if streamId \<in> openPeer uni m then instantiatePeerStream conn streamId streamGroupId m
         else
           let new = (if ts_notifyOnNewStreamsExplicitly (sm_transportSettings m) then None
                      else Some (if streamGroupId \<noteq> None then newGroupedPeerStreams m else newPeerStreams m));
               (openedResult, openPeerStreams, nextAcceptableStreamId, new') =
                 openPeerStreamIfNotClosed streamId (openPeer uni m) (nextPeer uni m) (maxRemote uni m) new;
               m = setNextPeer uni nextAcceptableStreamId (setOpenPeer uni openPeerStreams m);
               m = (case new' of None \<Rightarrow> m
                      | Some xs \<Rightarrow> if streamGroupId \<noteq> None then m\<lparr>newGroupedPeerStreams := xs\<rparr>
                                  else m\<lparr>newPeerStreams := xs\<rparr>)
           in if openedResult = LE_CREATING_EXISTING_STREAM then Inr (None, m)
              else if openedResult = LE_STREAM_LIMIT_EXCEEDED then Inl (QuicTransportException TE_STREAM_LIMIT_ERROR)
              else instantiatePeerStream conn streamId streamGroupId m)"

definition getStream ::
  "'a ConnBase_scheme \<Rightarrow> StreamId \<Rightarrow> StreamGroupId option \<Rightarrow> QuicStreamManager \<Rightarrow> (StreamId option \<times> QuicStreamManager) res" where
  "getStream conn streamId streamGroupId m =
     (if isRemoteStream (sm_nodeType m) streamId
      then rbind (getOrCreatePeerStream conn streamId streamGroupId m) (\<lambda>(stream, m). Inr (stream, updateAppIdleState m))
      else if sm_streams m streamId \<noteq> None then Inr (Some streamId, m)
      else rbind (getOrCreateOpenedLocalStream conn streamId m) (\<lambda>(stream, m).
             if stream = None \<and> isStreamUnopened streamId (nextLocal (isUnidirectionalStream streamId) m)
             then Inl (QuicTransportException TE_STREAM_STATE_ERROR)
             else Inr (stream, updateAppIdleState m)))"

text \<open>The validity checks at the start of \<^verbatim>\<open>createStream\<close>.\<close>

definition checkLocalStreamId :: "StreamId \<Rightarrow> StreamGroupId option \<Rightarrow> QuicStreamManager \<Rightarrow> unit res" where
  "checkLocalStreamId streamId streamGroupId m =
     (if sm_nodeType m = Client \<and> \<not> isClientStream streamId then Inl (QuicTransportException TE_STREAM_STATE_ERROR)
      else if sm_nodeType m = Server \<and> \<not> isServerStream streamId then Inl (QuicTransportException TE_STREAM_STATE_ERROR)
      else case streamGroupId of None \<Rightarrow> Inr ()
        | Some g \<Rightarrow>
            let openGroups = (if isUnidirectionalStream streamId then openUnidirectionalLocalStreamGroups m
                              else openBidirectionalLocalStreamGroups m)
            in if g \<notin> openGroups then Inl (QuicTransportException TE_STREAM_STATE_ERROR)
               else if sm_nodeType m = Client \<and> \<not> isClientStreamGroup g then Inl (QuicTransportException TE_STREAM_STATE_ERROR)
               else if sm_nodeType m = Server \<and> \<not> isServerStreamGroup g then Inl (QuicTransportException TE_STREAM_STATE_ERROR)
               else Inr ())"

text \<open>A \<^verbatim>\<open>folly::Expected\<close> is a sum with the error on the left; the manager goes with both.\<close>

definition createStream ::
  "'a ConnBase_scheme \<Rightarrow> StreamId \<Rightarrow> StreamGroupId option \<Rightarrow> QuicStreamManager \<Rightarrow>
   ((LocalErrorCode + StreamId) \<times> QuicStreamManager) res" where
  "createStream conn streamId streamGroupId m =
     rbind (checkLocalStreamId streamId streamGroupId m) (\<lambda>_.
     rbind (getOrCreateOpenedLocalStream conn streamId m) (\<lambda>(existingStream, m).
       case existingStream of Some i \<Rightarrow> Inr (Inr i, m)
       | None \<Rightarrow>
         let isUni = isUnidirectionalStream streamId;
             (openedResult, openLocalStreams, nextAcceptableStreamId) =
               openLocalStreamIfNotClosed streamId (openLocal isUni m) (nextLocal isUni m) (maxLocal isUni m);
             m = setNextLocal isUni nextAcceptableStreamId (setOpenLocal isUni openLocalStreams m)
         in if openedResult \<noteq> LE_NO_ERROR then Inr (Inl openedResult, m)
            else let m = m\<lparr>sm_streams := map_emplace streamId (mkGroupedStreamState streamId streamGroupId conn) (sm_streams m)\<rparr>
                 in rbind (addToStreamPriorityMap (the (sm_streams m streamId)) m)
                      (\<lambda>m. Inr (Inr streamId, updateAppIdleState m))))"

definition createNextBidirectionalStream ::
  "'a ConnBase_scheme \<Rightarrow> StreamGroupId option \<Rightarrow> QuicStreamManager \<Rightarrow> ((LocalErrorCode + StreamId) \<times> QuicStreamManager) res" where
  "createNextBidirectionalStream conn streamGroupId m =
     rbind (createStream conn (nextBidirectionalStreamId m) streamGroupId m) (\<lambda>(stream, m).
       Inr (stream, if isl stream then m
                    else m\<lparr>nextBidirectionalStreamId := nextBidirectionalStreamId m + kStreamIncrement\<rparr>))"

definition createNextUnidirectionalStream ::
  "'a ConnBase_scheme \<Rightarrow> StreamGroupId option \<Rightarrow> QuicStreamManager \<Rightarrow> ((LocalErrorCode + StreamId) \<times> QuicStreamManager) res" where
  "createNextUnidirectionalStream conn streamGroupId m =
     rbind (createStream conn (nextUnidirectionalStreamId m) streamGroupId m) (\<lambda>(stream, m).
       Inr (stream, if isl stream then m
                    else m\<lparr>nextUnidirectionalStreamId := nextUnidirectionalStreamId m + kStreamIncrement\<rparr>))"

definition createNextStreamGroup ::
  "StreamGroupId \<Rightarrow> StreamGroupId set \<Rightarrow> QuicStreamManager \<Rightarrow> (LocalErrorCode + StreamGroupId) \<times> StreamGroupId \<times> StreamGroupId set" where
  "createNextStreamGroup g streamGroups m =
     (if g \<ge> maxStreamGroupId m then (Inl LE_STREAM_LIMIT_EXCEEDED, g, streamGroups)
      else (Inr g, g + kStreamIncrement, insert g streamGroups))"

definition createNextBidirectionalStreamGroup ::
  "QuicStreamManager \<Rightarrow> (LocalErrorCode + StreamGroupId) \<times> QuicStreamManager" where
  "createNextBidirectionalStreamGroup m =
     (let (r, g, S) = createNextStreamGroup (nextBidirectionalStreamGroupId m) (openBidirectionalLocalStreamGroups m) m
      in (r, m\<lparr>nextBidirectionalStreamGroupId := g, openBidirectionalLocalStreamGroups := S\<rparr>))"

definition createNextUnidirectionalStreamGroup ::
  "QuicStreamManager \<Rightarrow> (LocalErrorCode + StreamGroupId) \<times> QuicStreamManager" where
  "createNextUnidirectionalStreamGroup m =
     (let (r, g, S) = createNextStreamGroup (nextUnidirectionalStreamGroupId m) (openUnidirectionalLocalStreamGroups m) m
      in (r, m\<lparr>nextUnidirectionalStreamGroupId := g, openUnidirectionalLocalStreamGroups := S\<rparr>))"

subsection \<open>Openable and acceptable streams\<close>

definition openableStreams :: "StreamId \<Rightarrow> StreamId \<Rightarrow> nat res" where
  "openableStreams maxId nextId = rbind (check (maxId \<ge> nextId)) (\<lambda>_. Inr ((maxId - nextId) div kStreamIncrement))"

definition openableLocalBidirectionalStreams :: "QuicStreamManager \<Rightarrow> nat res" where
  "openableLocalBidirectionalStreams m =
     openableStreams (maxLocalBidirectionalStreamId m) (nextAcceptableLocalBidirectionalStreamId m)"

definition openableLocalUnidirectionalStreams :: "QuicStreamManager \<Rightarrow> nat res" where
  "openableLocalUnidirectionalStreams m =
     openableStreams (maxLocalUnidirectionalStreamId m) (nextAcceptableLocalUnidirectionalStreamId m)"

definition openableRemoteBidirectionalStreams :: "QuicStreamManager \<Rightarrow> nat res" where
  "openableRemoteBidirectionalStreams m =
     openableStreams (maxRemoteBidirectionalStreamId m) (nextAcceptablePeerBidirectionalStreamId m)"

definition openableRemoteUnidirectionalStreams :: "QuicStreamManager \<Rightarrow> nat res" where
  "openableRemoteUnidirectionalStreams m =
     openableStreams (maxRemoteUnidirectionalStreamId m) (nextAcceptablePeerUnidirectionalStreamId m)"

definition nextAcceptableOf :: "StreamId \<Rightarrow> StreamId \<Rightarrow> StreamId option res" where
  "nextAcceptableOf maxId nextId =
     rbind (check (maxId \<ge> nextId)) (\<lambda>_. Inr (if maxId = nextId then None else Some nextId))"

definition nextAcceptablePeerBidirectional :: "QuicStreamManager \<Rightarrow> StreamId option res" where
  "nextAcceptablePeerBidirectional m =
     nextAcceptableOf (maxRemoteBidirectionalStreamId m) (nextAcceptablePeerBidirectionalStreamId m)"

definition nextAcceptablePeerUnidirectional :: "QuicStreamManager \<Rightarrow> StreamId option res" where
  "nextAcceptablePeerUnidirectional m =
     nextAcceptableOf (maxRemoteUnidirectionalStreamId m) (nextAcceptablePeerUnidirectionalStreamId m)"

definition nextAcceptableLocalBidirectional :: "QuicStreamManager \<Rightarrow> StreamId option res" where
  "nextAcceptableLocalBidirectional m =
     nextAcceptableOf (maxLocalBidirectionalStreamId m) (nextAcceptableLocalBidirectionalStreamId m)"

definition nextAcceptableLocalUnidirectional :: "QuicStreamManager \<Rightarrow> StreamId option res" where
  "nextAcceptableLocalUnidirectional m =
     nextAcceptableOf (maxLocalUnidirectionalStreamId m) (nextAcceptableLocalUnidirectionalStreamId m)"

subsection \<open>Work sets\<close>

definition res_or :: "bool res \<Rightarrow> bool res \<Rightarrow> bool res" where
  "res_or a b = rbind a (\<lambda>x. if x then Inr True else b)"

definition sm_hasLoss :: "QuicStreamManager \<Rightarrow> bool" where
  "sm_hasLoss m \<longleftrightarrow> lossStreams m \<noteq> {} \<or> lossDSRStreams m \<noteq> {}"

definition hasNonDSRLoss :: "QuicStreamManager \<Rightarrow> bool" where "hasNonDSRLoss m \<longleftrightarrow> lossStreams m \<noteq> {}"

definition hasDSRLoss :: "QuicStreamManager \<Rightarrow> bool" where "hasDSRLoss m \<longleftrightarrow> lossDSRStreams m \<noteq> {}"

definition removeLoss :: "StreamId \<Rightarrow> QuicStreamManager \<Rightarrow> QuicStreamManager" where
  "removeLoss i m = m\<lparr>lossStreams := lossStreams m - {i}, lossDSRStreams := lossDSRStreams m - {i}\<rparr>"

definition addLoss :: "StreamId \<Rightarrow> QuicStreamManager \<Rightarrow> QuicStreamManager" where
  "addLoss i m = m\<lparr>lossStreams := insert i (lossStreams m)\<rparr>"

definition hasWritable :: "QuicStreamManager \<Rightarrow> bool" where
  "hasWritable m \<longleftrightarrow> \<not> pq_empty (writeQueue m) \<or> controlWriteQueue m \<noteq> {}"

definition hasDSRWritable :: "QuicStreamManager \<Rightarrow> bool" where "hasDSRWritable m \<longleftrightarrow> writableDSRStreams m \<noteq> {}"

definition hasNonDSRWritable :: "QuicStreamManager \<Rightarrow> bool" where
  "hasNonDSRWritable m \<longleftrightarrow> writableStreams m \<noteq> {} \<or> controlWriteQueue m \<noteq> {}"

definition addWritable :: "QuicStreamState \<Rightarrow> QuicStreamManager \<Rightarrow> QuicStreamManager res" where
  "addWritable stream m =
     rbind (if isControl stream
            then rbind (hasSchedulableData stream) (\<lambda>b. rbind (check b) (\<lambda>_.
                   Inr (m\<lparr>controlWriteQueue := insert (st_id stream) (controlWriteQueue m)\<rparr>)))
            else rbind (res_or (hasSchedulableData stream) (hasSchedulableDsr stream)) (\<lambda>b. rbind (check b) (\<lambda>_.
                   Inr (m\<lparr>writeQueue := insertOrUpdate (st_id stream) (priority stream) (writeQueue m)\<rparr>)))) (\<lambda>m.
     rbind (hasWritableData stream) (\<lambda>w.
     rbind (hasWritableBufMeta stream) (\<lambda>wm.
       Inr (m\<lparr>writableStreams := (if w then insert (st_id stream) (writableStreams m) else writableStreams m),
              writableDSRStreams := (if wm then insert (st_id stream) (writableDSRStreams m) else writableDSRStreams m),
              lossStreams := (if lossBuffer stream \<noteq> [] then insert (st_id stream) (lossStreams m) else lossStreams m),
              lossDSRStreams := (if lossBufMetas stream \<noteq> [] then insert (st_id stream) (lossDSRStreams m)
                                 else lossDSRStreams m)\<rparr>))))"

definition eraseFromWriteQueues :: "QuicStreamState \<Rightarrow> QuicStreamManager \<Rightarrow> QuicStreamManager" where
  "eraseFromWriteQueues stream m =
     (if isControl stream then m\<lparr>controlWriteQueue := controlWriteQueue m - {st_id stream}\<rparr>
      else m\<lparr>writeQueue := pq_erase (st_id stream) (writeQueue m)\<rparr>)"

definition removeWritable :: "QuicStreamState \<Rightarrow> QuicStreamManager \<Rightarrow> QuicStreamManager" where
  "removeWritable stream m =
     (let m = eraseFromWriteQueues stream m; i = st_id stream
      in m\<lparr>writableStreams := writableStreams m - {i}, writableDSRStreams := writableDSRStreams m - {i},
           lossStreams := lossStreams m - {i}, lossDSRStreams := lossDSRStreams m - {i}\<rparr>)"

definition clearWritable :: "QuicStreamManager \<Rightarrow> QuicStreamManager" where
  "clearWritable m = m\<lparr>writableStreams := {}, writableDSRStreams := {}, writeQueue := pq_clear (writeQueue m),
     controlWriteQueue := {}\<rparr>"

definition queueBlocked :: "StreamId \<Rightarrow> nat \<Rightarrow> QuicStreamManager \<Rightarrow> QuicStreamManager" where
  "queueBlocked streamId offset m = m\<lparr>blockedStreams :=
     map_emplace streamId \<lparr>sdb_streamId = streamId, sdb_dataLimit = offset\<rparr> (blockedStreams m)\<rparr>"

definition removeBlocked :: "StreamId \<Rightarrow> QuicStreamManager \<Rightarrow> QuicStreamManager" where
  "removeBlocked streamId m = m\<lparr>blockedStreams := (blockedStreams m)(streamId := None)\<rparr>"

definition hasBlocked :: "QuicStreamManager \<Rightarrow> bool" where "hasBlocked m \<longleftrightarrow> dom (blockedStreams m) \<noteq> {}"

definition setStreamLimitWindowingFraction :: "nat \<Rightarrow> QuicStreamManager \<Rightarrow> QuicStreamManager" where
  "setStreamLimitWindowingFraction fraction m =
     (if fraction > 0 then m\<lparr>streamLimitWindowingFraction := fraction\<rparr> else m)"

definition remoteBidirectionalStreamLimitUpdate :: "QuicStreamManager \<Rightarrow> nat option \<times> QuicStreamManager" where
  "remoteBidirectionalStreamLimitUpdate m =
     (remoteBidiStreamLimitUpdate m, m\<lparr>remoteBidiStreamLimitUpdate := None\<rparr>)"

definition remoteUnidirectionalStreamLimitUpdate :: "QuicStreamManager \<Rightarrow> nat option \<times> QuicStreamManager" where
  "remoteUnidirectionalStreamLimitUpdate m =
     (remoteUniStreamLimitUpdate m, m\<lparr>remoteUniStreamLimitUpdate := None\<rparr>)"

definition pendingWindowUpdate :: "StreamId \<Rightarrow> QuicStreamManager \<Rightarrow> bool" where
  "pendingWindowUpdate streamId m \<longleftrightarrow> streamId \<in> windowUpdates m"

definition queueWindowUpdate :: "StreamId \<Rightarrow> QuicStreamManager \<Rightarrow> QuicStreamManager" where
  "queueWindowUpdate streamId m = m\<lparr>windowUpdates := insert streamId (windowUpdates m)\<rparr>"

definition removeWindowUpdate :: "StreamId \<Rightarrow> QuicStreamManager \<Rightarrow> QuicStreamManager" where
  "removeWindowUpdate streamId m = m\<lparr>windowUpdates := windowUpdates m - {streamId}\<rparr>"

definition hasWindowUpdates :: "QuicStreamManager \<Rightarrow> bool" where "hasWindowUpdates m \<longleftrightarrow> windowUpdates m \<noteq> {}"

definition addClosed :: "StreamId \<Rightarrow> QuicStreamManager \<Rightarrow> QuicStreamManager" where
  "addClosed streamId m = m\<lparr>closedStreams := insert streamId (closedStreams m)\<rparr>"

definition addDeliverable :: "StreamId \<Rightarrow> QuicStreamManager \<Rightarrow> QuicStreamManager" where
  "addDeliverable streamId m = m\<lparr>deliverableStreams := insert streamId (deliverableStreams m)\<rparr>"

definition removeDeliverable :: "StreamId \<Rightarrow> QuicStreamManager \<Rightarrow> QuicStreamManager" where
  "removeDeliverable streamId m = m\<lparr>deliverableStreams := deliverableStreams m - {streamId}\<rparr>"

text \<open>\<open>pick\<close> is the element at \<^verbatim>\<open>begin()\<close> of a hash set that is not empty.\<close>

definition popDeliverable :: "(StreamId set \<Rightarrow> StreamId) \<Rightarrow> QuicStreamManager \<Rightarrow> StreamId option \<times> QuicStreamManager" where
  "popDeliverable pick m =
     (if deliverableStreams m = {} then (None, m)
      else let ret = pick (deliverableStreams m)
           in (Some ret, m\<lparr>deliverableStreams := deliverableStreams m - {ret}\<rparr>))"

definition hasDeliverable :: "QuicStreamManager \<Rightarrow> bool" where "hasDeliverable m \<longleftrightarrow> deliverableStreams m \<noteq> {}"

definition deliverableContains :: "StreamId \<Rightarrow> QuicStreamManager \<Rightarrow> bool" where
  "deliverableContains streamId m \<longleftrightarrow> streamId \<in> deliverableStreams m"

definition addTx :: "StreamId \<Rightarrow> QuicStreamManager \<Rightarrow> QuicStreamManager" where
  "addTx streamId m = m\<lparr>txStreams := insert streamId (txStreams m)\<rparr>"

definition removeTx :: "StreamId \<Rightarrow> QuicStreamManager \<Rightarrow> QuicStreamManager" where
  "removeTx streamId m = m\<lparr>txStreams := txStreams m - {streamId}\<rparr>"

definition popTx :: "(StreamId set \<Rightarrow> StreamId) \<Rightarrow> QuicStreamManager \<Rightarrow> StreamId option \<times> QuicStreamManager" where
  "popTx pick m =
     (if txStreams m = {} then (None, m)
      else let ret = pick (txStreams m) in (Some ret, m\<lparr>txStreams := txStreams m - {ret}\<rparr>))"

definition hasTx :: "QuicStreamManager \<Rightarrow> bool" where "hasTx m \<longleftrightarrow> txStreams m \<noteq> {}"

definition txContains :: "StreamId \<Rightarrow> QuicStreamManager \<Rightarrow> bool" where
  "txContains streamId m \<longleftrightarrow> streamId \<in> txStreams m"

definition consumeFlowControlUpdated :: "(StreamId set \<Rightarrow> StreamId list) \<Rightarrow> QuicStreamManager \<Rightarrow> StreamId list \<times> QuicStreamManager" where
  "consumeFlowControlUpdated enum m = (enum (flowControlUpdated m), m\<lparr>flowControlUpdated := {}\<rparr>)"

definition queueFlowControlUpdated :: "StreamId \<Rightarrow> QuicStreamManager \<Rightarrow> QuicStreamManager" where
  "queueFlowControlUpdated streamId m = m\<lparr>flowControlUpdated := insert streamId (flowControlUpdated m)\<rparr>"

definition popFlowControlUpdated :: "(StreamId set \<Rightarrow> StreamId) \<Rightarrow> QuicStreamManager \<Rightarrow> StreamId option \<times> QuicStreamManager" where
  "popFlowControlUpdated pick m =
     (if flowControlUpdated m = {} then (None, m)
      else let ret = pick (flowControlUpdated m)
           in (Some ret, m\<lparr>flowControlUpdated := flowControlUpdated m - {ret}\<rparr>))"

definition removeFlowControlUpdated :: "StreamId \<Rightarrow> QuicStreamManager \<Rightarrow> QuicStreamManager" where
  "removeFlowControlUpdated streamId m = m\<lparr>flowControlUpdated := flowControlUpdated m - {streamId}\<rparr>"

definition flowControlUpdatedContains :: "StreamId \<Rightarrow> QuicStreamManager \<Rightarrow> bool" where
  "flowControlUpdatedContains streamId m \<longleftrightarrow> streamId \<in> flowControlUpdated m"

definition clearFlowControlUpdated :: "QuicStreamManager \<Rightarrow> QuicStreamManager" where
  "clearFlowControlUpdated m = m\<lparr>flowControlUpdated := {}\<rparr>"

definition consumeNewPeerStreams :: "QuicStreamManager \<Rightarrow> StreamId list \<times> QuicStreamManager" where
  "consumeNewPeerStreams m = (newPeerStreams m, m\<lparr>newPeerStreams := []\<rparr>)"

definition consumeNewGroupedPeerStreams :: "QuicStreamManager \<Rightarrow> StreamId list \<times> QuicStreamManager" where
  "consumeNewGroupedPeerStreams m = (newGroupedPeerStreams m, m\<lparr>newGroupedPeerStreams := []\<rparr>)"

definition consumeNewPeerStreamGroups :: "QuicStreamManager \<Rightarrow> StreamGroupId set \<times> QuicStreamManager" where
  "consumeNewPeerStreamGroups m = (newPeerStreamGroups m, m\<lparr>newPeerStreamGroups := {}\<rparr>)"

definition consumeStopSending ::
  "(StreamId set \<Rightarrow> StreamId list) \<Rightarrow> QuicStreamManager \<Rightarrow> (StreamId \<times> ApplicationErrorCode) list \<times> QuicStreamManager" where
  "consumeStopSending enum m =
     (map (\<lambda>i. (i, the (stopSendingStreams m i))) (enum (dom (stopSendingStreams m))), m\<lparr>stopSendingStreams := Map.empty\<rparr>)"

definition clearStopSending :: "QuicStreamManager \<Rightarrow> QuicStreamManager" where
  "clearStopSending m = m\<lparr>stopSendingStreams := Map.empty\<rparr>"

definition addStopSending :: "StreamId \<Rightarrow> ApplicationErrorCode \<Rightarrow> QuicStreamManager \<Rightarrow> QuicStreamManager" where
  "addStopSending streamId error m = m\<lparr>stopSendingStreams := map_emplace streamId error (stopSendingStreams m)\<rparr>"

definition clearActionable :: "QuicStreamManager \<Rightarrow> QuicStreamManager" where
  "clearActionable m = m\<lparr>deliverableStreams := {}, txStreams := {}, readableStreams := {},
     peekableStreams := {}, flowControlUpdated := {}\<rparr>"

definition clearOpenStreams :: "QuicStreamManager \<Rightarrow> QuicStreamManager" where
  "clearOpenStreams m = m\<lparr>openBidirectionalLocalStreams := {}, openUnidirectionalLocalStreams := {},
     openBidirectionalPeerStreams := {}, openUnidirectionalPeerStreams := {},
     openBidirectionalLocalStreamGroups := {}, openUnidirectionalLocalStreamGroups := {},
     peerStreamGroupsSeen := {}, sm_streams := Map.empty\<rparr>"

definition updateReadableStreams :: "int \<Rightarrow> QuicStreamState \<Rightarrow> QuicStreamManager \<Rightarrow> QuicStreamState \<times> QuicStreamManager" where
  "updateReadableStreams now stream m =
     (let stream = updateHolBlockedTime now stream
      in (stream, m\<lparr>readableStreams := (if hasReadableData stream \<or> streamReadError stream \<noteq> None
            then insert (st_id stream) (readableStreams m) else readableStreams m - {st_id stream})\<rparr>))"

definition updatePeekableStreams :: "QuicStreamState \<Rightarrow> QuicStreamManager \<Rightarrow> QuicStreamManager" where
  "updatePeekableStreams stream m = m\<lparr>peekableStreams := (if hasPeekableData stream \<or> streamReadError stream \<noteq> None
     then insert (st_id stream) (peekableStreams m) else peekableStreams m - {st_id stream})\<rparr>"

text \<open>\<^verbatim>\<open>emplace\<close> or \<^verbatim>\<open>erase\<close>, as the condition says.\<close>

definition set_if :: "bool \<Rightarrow> 'a \<Rightarrow> 'a set \<Rightarrow> 'a set" where
  "set_if b x S = (if b then insert x S else S - {x})"

definition setWritableSets :: "bool \<Rightarrow> bool \<Rightarrow> QuicStreamState \<Rightarrow> QuicStreamManager \<Rightarrow> QuicStreamManager" where
  "setWritableSets w wm stream m =
     (let i = st_id stream
      in m\<lparr>writableStreams := set_if w i (writableStreams m), writableDSRStreams := set_if wm i (writableDSRStreams m),
           lossStreams := set_if (lossBuffer stream \<noteq> []) i (lossStreams m),
           lossDSRStreams := set_if (lossBufMetas stream \<noteq> []) i (lossDSRStreams m)\<rparr>)"

definition scheduleStream :: "bool \<Rightarrow> QuicStreamState \<Rightarrow> QuicStreamManager \<Rightarrow> QuicStreamManager" where
  "scheduleStream schedulable stream m =
     (if schedulable then
        if isControl stream then m\<lparr>controlWriteQueue := insert (st_id stream) (controlWriteQueue m)\<rparr>
        else m\<lparr>writeQueue := insertOrUpdate (st_id stream) (priority stream) (writeQueue m)\<rparr>
      else eraseFromWriteQueues stream m)"

definition updateWritableStreams :: "QuicStreamState \<Rightarrow> QuicStreamManager \<Rightarrow> QuicStreamManager res" where
  "updateWritableStreams stream m =
     (if streamWriteError stream \<noteq> None then
        rbind (check (lossBuffer stream = [])) (\<lambda>_.
        rbind (check (lossBufMetas stream = [])) (\<lambda>_.
          Inr (eraseFromWriteQueues stream (setWritableSets False False stream (removeWritable stream m)))))
      else
        rbind (hasWritableData stream) (\<lambda>w.
        rbind (hasWritableBufMeta stream) (\<lambda>wm.
        rbind (res_or (hasSchedulableData stream) (hasSchedulableDsr stream)) (\<lambda>schedulable.
          Inr (scheduleStream schedulable stream (setWritableSets w wm stream m))))))"

subsection \<open>Closing a stream\<close>

text \<open>The work sets from which a closed stream is removed first.\<close>

definition forgetStream :: "StreamId \<Rightarrow> QuicStreamState \<Rightarrow> QuicStreamManager \<Rightarrow> QuicStreamManager" where
  "forgetStream i stream m =
     (let m = m\<lparr>readableStreams := readableStreams m - {i}, peekableStreams := peekableStreams m - {i}\<rparr>;
          m = removeWritable stream m
      in m\<lparr>blockedStreams := (blockedStreams m)(i := None), deliverableStreams := deliverableStreams m - {i},
           txStreams := txStreams m - {i}, windowUpdates := windowUpdates m - {i},
           stopSendingStreams := (stopSendingStreams m)(i := None), flowControlUpdated := flowControlUpdated m - {i}\<rparr>)"

text \<open>The stream limit update after a peer stream was closed.\<close>

definition updateStreamLimit :: "bool \<Rightarrow> QuicStreamManager \<Rightarrow> QuicStreamManager res" where
  "updateStreamLimit uni m =
     (let ts = sm_transportSettings m;
          initialStreamLimit = (if uni then ts_advertisedInitialMaxStreamsUni ts else ts_advertisedInitialMaxStreamsBidi ts);
          streamWindow = initialStreamLimit div streamLimitWindowingFraction m
      in rbind (if uni then openableRemoteUnidirectionalStreams m else openableRemoteBidirectionalStreams m) (\<lambda>openableRemoteStreams.
         let streamCredit = sub64 (sub64 initialStreamLimit openableRemoteStreams) (card (openPeer uni m)) in
         if streamCredit \<ge> streamWindow then
           let maxStreams = sub64 (maxRemote uni m) (initialRemote uni m) div kStreamIncrement;
               newLimit = add64 maxStreams streamCredit in
           if uni then rbind (setMaxRemoteUnidirectionalStreams newLimit m)
                         (\<lambda>m. Inr (m\<lparr>remoteUniStreamLimitUpdate := Some newLimit\<rparr>))
           else rbind (setMaxRemoteBidirectionalStreams newLimit m)
                  (\<lambda>m. Inr (m\<lparr>remoteBidiStreamLimitUpdate := Some newLimit\<rparr>))
         else Inr m))"

definition removeClosedStream :: "StreamId \<Rightarrow> QuicStreamManager \<Rightarrow> QuicStreamManager res" where
  "removeClosedStream streamId m = (case sm_streams m streamId of
      None \<Rightarrow> Inr m
    | Some stream \<Rightarrow>
        let m = forgetStream streamId stream m in
        if \<not> isControl stream \<and> streamPriorityLevelsNoCtrl m streamId = None
        then Inl (QuicTransportException TE_STREAM_STATE_ERROR)
        else
          let m = (if isControl stream then m\<lparr>numControlStreams := sub64 (numControlStreams m) 1\<rparr>
                   else m\<lparr>streamPriorityLevelsNoCtrl := (streamPriorityLevelsNoCtrl m)(streamId := None)\<rparr>);
              m = m\<lparr>sm_streams := (sm_streams m)(streamId := None)\<rparr>;
              uni = isUnidirectionalStream streamId
          in rbind (if isRemoteStream (sm_nodeType m) streamId
                    then updateStreamLimit uni (setOpenPeer uni (openPeer uni m - {streamId}) m)
                    else Inr (setOpenLocal uni (openLocal uni m - {streamId}) m))
               (\<lambda>m. Inr (updateAppIdleState m)))"

subsection \<open>Construction\<close>

definition emptyStreamManager :: "QuicNodeType \<Rightarrow> TransportSettings \<Rightarrow> QuicStreamManager" where
  "emptyStreamManager nodeType ts = \<lparr>sm_nodeType = nodeType,
     nextAcceptablePeerBidirectionalStreamId = 0, nextAcceptablePeerUnidirectionalStreamId = 0,
     nextAcceptableLocalBidirectionalStreamId = 0, nextAcceptableLocalUnidirectionalStreamId = 0,
     nextBidirectionalStreamId = 0, nextBidirectionalStreamGroupId = 0, nextUnidirectionalStreamId = 0,
     nextUnidirectionalStreamGroupId = 0, maxLocalBidirectionalStreamId = 0, maxLocalUnidirectionalStreamId = 0,
     maxRemoteBidirectionalStreamId = 0, maxRemoteUnidirectionalStreamId = 0,
     initialLocalBidirectionalStreamId = 0, initialLocalUnidirectionalStreamId = 0,
     initialRemoteBidirectionalStreamId = 0, initialRemoteUnidirectionalStreamId = 0,
     streamLimitWindowingFraction = 2, remoteBidiStreamLimitUpdate = None,
     remoteUniStreamLimitUpdate = None, numControlStreams = 0,
     openBidirectionalPeerStreams = {}, openUnidirectionalPeerStreams = {},
     openBidirectionalLocalStreams = {}, openUnidirectionalLocalStreams = {},
     openBidirectionalLocalStreamGroups = {}, openUnidirectionalLocalStreamGroups = {},
     sm_streams = Map.empty, newPeerStreams = [], newGroupedPeerStreams = [], newPeerStreamGroups = {},
     peerStreamGroupsSeen = {}, blockedStreams = Map.empty, stopSendingStreams = Map.empty,
     streamPriorityLevelsNoCtrl = Map.empty, windowUpdates = {}, flowControlUpdated = {}, lossStreams = {},
     lossDSRStreams = {}, readableStreams = {}, peekableStreams = {}, writeQueue = emptyPriorityQueue,
     controlWriteQueue = {}, writableStreams = {}, writableDSRStreams = {}, txStreams = {},
     deliverableStreams = {}, closedStreams = {}, isAppIdle = False, sm_transportSettings = ts,
     maxLocalBidirectionalStreamIdIncreased = False, maxLocalUnidirectionalStreamIdIncreased = False\<rparr>"

definition mkQuicStreamManager :: "QuicNodeType \<Rightarrow> TransportSettings \<Rightarrow> QuicStreamManager res" where
  "mkQuicStreamManager nodeType ts =
     (let m = emptyStreamManager nodeType ts;
          m = (if nodeType = Server then
                 m\<lparr>nextAcceptablePeerBidirectionalStreamId := 0, nextAcceptablePeerUnidirectionalStreamId := 2,
                   nextAcceptableLocalBidirectionalStreamId := 1, nextAcceptableLocalUnidirectionalStreamId := 3,
                   nextBidirectionalStreamId := 1, nextUnidirectionalStreamId := 3,
                   initialLocalBidirectionalStreamId := 1, initialLocalUnidirectionalStreamId := 3,
                   initialRemoteBidirectionalStreamId := 0, initialRemoteUnidirectionalStreamId := 2\<rparr>
               else
                 m\<lparr>nextAcceptablePeerBidirectionalStreamId := 1, nextAcceptablePeerUnidirectionalStreamId := 3,
                   nextAcceptableLocalBidirectionalStreamId := 0, nextAcceptableLocalUnidirectionalStreamId := 2,
                   nextBidirectionalStreamId := 0, nextUnidirectionalStreamId := 2,
                   initialLocalBidirectionalStreamId := 0, initialLocalUnidirectionalStreamId := 2,
                   initialRemoteBidirectionalStreamId := 1, initialRemoteUnidirectionalStreamId := 3\<rparr>);
          m = m\<lparr>nextBidirectionalStreamGroupId := nextBidirectionalStreamId m,
                nextUnidirectionalStreamGroupId := nextUnidirectionalStreamId m\<rparr>
      in rbind (refreshTransportSettings ts m) (\<lambda>m.
           Inr (m\<lparr>writeQueue := setMaxNextsPerStream (ts_priorityQueueWritesPerStream ts) (writeQueue m)\<rparr>)))"

text \<open>The constructors that migrate a stream and a manager to another connection. The one of the
  stream copies every member but \<^verbatim>\<open>streamPacketIdx\<close>, which keeps its initial value.\<close>

definition migrateStream :: "QuicStreamState \<Rightarrow> QuicStreamState" where
  "migrateStream other = other\<lparr>streamPacketIdx := 0\<rparr>"

definition migrateStreamManager :: "QuicNodeType \<Rightarrow> TransportSettings \<Rightarrow> QuicStreamManager \<Rightarrow> QuicStreamManager" where
  "migrateStreamManager nodeType ts other = other\<lparr>sm_nodeType := nodeType, sm_transportSettings := ts,
     sm_streams := (\<lambda>i. map_option migrateStream (sm_streams other i))\<rparr>"

end
