(* ===== verification/Stream_Manager_Inv.thy ===== *)
theory Stream_Manager_Inv
  imports Stream_Manager
begin

text \<open>
  The invariant of the stream manager and its histories. The invariant \<open>sm_inv\<close> has three
  parts: the identifiers (every open stream is of the kind of its set and below the next
  acceptable identifier of that kind), the streams (every stream with state is open, the priority
  map has exactly the streams that are not control streams, the control streams are counted), and
  the limits (the streams the peer may still open plus the ones it has open never exceed the
  advertised number). Every operation keeps it; \<open>sm_reachable\<close> are the managers that a
  connection can reach by the operations of the class.
\<close>

section \<open>The invariant\<close>

lemma kStreamIncrement [simp]: "kStreamIncrement = 4"
  by (simp add: kStreamIncrement_def)

text \<open>The identifiers of a residue class in a range.\<close>

definition ids_between :: "StreamId \<Rightarrow> StreamId \<Rightarrow> StreamId list" where
  "ids_between lo hi = filter (\<lambda>k. k mod 4 = lo mod 4) [lo..<Suc hi]"

lemma ids_between_gt [simp]: "hi < lo \<Longrightarrow> ids_between lo hi = []"
  by (simp add: ids_between_def)

lemma mod4_near:
  fixes lo k :: nat
  assumes "lo < k" "k < lo + 4"
  shows "k mod 4 \<noteq> lo mod 4"
proof
  assume "k mod 4 = lo mod 4"
  with assms(1) have "4 dvd k - lo" by (simp add: mod_eq_dvd_iff_nat)
  then have "4 \<le> k - lo" using assms(1) by (intro dvd_imp_le) simp_all
  with assms(2) show False by linarith
qed

lemma ids_between_step: "lo \<le> hi \<Longrightarrow> ids_between lo hi = lo # ids_between (lo + 4) hi"
proof -
  assume le: "lo \<le> hi"
  have "filter (\<lambda>k. k mod 4 = lo mod 4) [Suc lo..<Suc hi] = filter (\<lambda>k. k mod 4 = lo mod 4) [lo + 4..<Suc hi]"
  proof (cases "lo + 4 \<le> Suc hi")
    case True
    then have "[Suc lo..<Suc hi] = [Suc lo, Suc (Suc lo), Suc (Suc (Suc lo))] @ [lo + 4..<Suc hi]"
      using upt_add_eq_append [of "Suc lo" "lo + 4" "Suc hi - (lo + 4)"] by (simp add: upt_conv_Cons)
    moreover have "\<forall>k \<in> {Suc lo, Suc (Suc lo), Suc (Suc (Suc lo))}. k mod 4 \<noteq> lo mod 4"
      by (intro ballI mod4_near) auto
    ultimately show ?thesis by simp
  next
    case False
    then have "\<forall>k \<in> set [Suc lo..<Suc hi]. k mod 4 \<noteq> lo mod 4"
      by (intro ballI mod4_near) (simp_all del: upt_Suc)
    with False show ?thesis by (simp add: filter_empty_conv)
  qed
  moreover have "[lo..<Suc hi] = lo # [Suc lo..<Suc hi]" using le by (simp add: upt_conv_Cons del: upt_Suc)
  ultimately show ?thesis by (simp add: ids_between_def del: upt_Suc)
qed

lemma openLoop_eq:
  "openLoop start streamId S new =
     (S \<union> set (ids_between start streamId), map_option (\<lambda>xs. xs @ ids_between start streamId) new)"
proof (induction start streamId S new rule: openLoop.induct)
  case (1 start streamId S new)
  show ?case
  proof (cases "start \<le> streamId")
    case True
    with 1 [OF True] show ?thesis
      by (subst openLoop.simps) (simp add: ids_between_step option.map_comp o_def)
  next
    case False
    then show ?thesis by (subst openLoop.simps) (simp add: option.map_ident)
  qed
qed

lemma set_ids_between: "set (ids_between lo hi) = {k. lo \<le> k \<and> k \<le> hi \<and> k mod 4 = lo mod 4}"
  by (auto simp: ids_between_def)

text \<open>The residue classes of the four kinds of streams, seen from a node.\<close>

definition remoteClass :: "QuicNodeType \<Rightarrow> bool \<Rightarrow> nat" where
  "remoteClass nt uni = (if uni then 2 else 0) + (if nt = Client then 1 else 0)"

definition localClass :: "QuicNodeType \<Rightarrow> bool \<Rightarrow> nat" where
  "localClass nt uni = (if uni then 2 else 0) + (if nt = Client then 0 else 1)"

text \<open>What holds of one kind: the open streams were seen before (they are below the next
  acceptable one), and all numbers are in the residue class of the kind.\<close>

definition kind_inv :: "nat \<Rightarrow> StreamId set \<Rightarrow> StreamId \<Rightarrow> bool" where
  "kind_inv c openStreams nextId \<longleftrightarrow>
     finite openStreams \<and> nextId mod 4 = c \<and> (\<forall>i \<in> openStreams. i mod 4 = c \<and> i < nextId)"

definition control_ids :: "QuicStreamManager \<Rightarrow> StreamId set" where
  "control_ids m = {i. \<exists>s. sm_streams m i = Some s \<and> isControl s}"

definition streams_inv :: "QuicStreamManager \<Rightarrow> bool" where
  "streams_inv m \<longleftrightarrow>
     (\<forall>i s. sm_streams m i = Some s \<longrightarrow> st_id s = i \<and> streamExists i m) \<and>
     dom (streamPriorityLevelsNoCtrl m) = dom (sm_streams m) - control_ids m \<and>
     numControlStreams m = card (control_ids m)"

definition ids_inv :: "QuicStreamManager \<Rightarrow> bool" where
  "ids_inv m \<longleftrightarrow> (\<forall>uni.
     initialRemote uni m = remoteClass (sm_nodeType m) uni \<and> initialLocal uni m = localClass (sm_nodeType m) uni \<and>
     kind_inv (remoteClass (sm_nodeType m) uni) (openPeer uni m) (nextPeer uni m) \<and>
     kind_inv (localClass (sm_nodeType m) uni) (openLocal uni m) (nextLocal uni m)) \<and>
     nextBidirectionalStreamId m mod 4 = localClass (sm_nodeType m) False \<and>
     nextUnidirectionalStreamId m mod 4 = localClass (sm_nodeType m) True \<and>
     nextBidirectionalStreamId m \<le> nextLocal False m \<and> nextUnidirectionalStreamId m \<le> nextLocal True m"

text \<open>The streams the peer may still open and the ones it has open never exceed the advertised
  number of concurrent streams.\<close>

definition initialLimit :: "bool \<Rightarrow> QuicStreamManager \<Rightarrow> nat" where
  "initialLimit uni m = (if uni then ts_advertisedInitialMaxStreamsUni (sm_transportSettings m)
                         else ts_advertisedInitialMaxStreamsBidi (sm_transportSettings m))"

definition limit_inv :: "QuicStreamManager \<Rightarrow> bool" where
  "limit_inv m \<longleftrightarrow> streamLimitWindowingFraction m > 0 \<and> (\<forall>uni.
     initialLimit uni m \<le> kMaxMaxStreams \<and>
     maxRemote uni m mod 4 = remoteClass (sm_nodeType m) uni \<and>
     maxRemote uni m \<le> 4 * kMaxMaxStreams + 3 \<and> nextPeer uni m \<le> maxRemote uni m \<and>
     (maxRemote uni m - nextPeer uni m) div 4 + card (openPeer uni m) \<le> initialLimit uni m)"

definition sm_inv :: "QuicStreamManager \<Rightarrow> bool" where
  "sm_inv m \<longleftrightarrow> ids_inv m \<and> streams_inv m \<and> limit_inv m"

lemmas kind_defs = openPeer_def openLocal_def nextPeer_def nextLocal_def maxRemote_def maxLocal_def
  initialRemote_def initialLocal_def initialLimit_def

lemma card_open_bound:
  assumes "kind_inv c S nextId" "c < 4"
  shows "card S \<le> (nextId - c) div 4"
proof -
  let ?n = "(nextId - c) div 4"
  have "S \<subseteq> (\<lambda>k. c + 4 * k) ` {..<?n}"
  proof
    fix i assume "i \<in> S"
    with assms have i: "i mod 4 = c" "i < nextId" "nextId mod 4 = c" by (auto simp: kind_inv_def)
    then have "i = c + 4 * (i div 4)" "nextId = c + 4 * (nextId div 4)"
      using mod_mult_div_eq [of i 4] mod_mult_div_eq [of nextId 4] by simp_all
    with i(2) have "i = c + 4 * (i div 4)" "nextId - c = 4 * (nextId div 4)" "i div 4 < nextId div 4" by linarith+
    then have "i = c + 4 * (i div 4)" "i div 4 < ?n" by simp_all
    then show "i \<in> (\<lambda>k. c + 4 * k) ` {..<?n}" by blast
  qed
  then have "card S \<le> card ((\<lambda>k. c + 4 * k) ` {..<?n})" by (intro card_mono) auto
  also have "\<dots> \<le> ?n" using card_image_le [of "{..<?n}"] by simp
  finally show ?thesis .
qed

lemma remoteClass_less [simp]: "remoteClass nt uni < 4" "remoteClass nt uni mod 4 = remoteClass nt uni"
  by (simp_all add: remoteClass_def)

lemma localClass_less [simp]: "localClass nt uni < 4" "localClass nt uni mod 4 = localClass nt uni"
  by (simp_all add: localClass_def)

lemma ids_invD:
  assumes "ids_inv m"
  shows "initialRemote uni m = remoteClass (sm_nodeType m) uni" "initialLocal uni m = localClass (sm_nodeType m) uni"
    and "kind_inv (remoteClass (sm_nodeType m) uni) (openPeer uni m) (nextPeer uni m)"
    and "kind_inv (localClass (sm_nodeType m) uni) (openLocal uni m) (nextLocal uni m)"
  using assms by (auto simp: ids_inv_def)

lemma refresh_fields:
  assumes "refreshTransportSettings ts m = Inr m'"
  shows "m' = m\<lparr>sm_transportSettings := ts,
      maxRemoteBidirectionalStreamId := ts_advertisedInitialMaxStreamsBidi ts * 4 + initialRemoteBidirectionalStreamId m,
      maxRemoteUnidirectionalStreamId := ts_advertisedInitialMaxStreamsUni ts * 4 + initialRemoteUnidirectionalStreamId m\<rparr>"
    and "ts_advertisedInitialMaxStreamsBidi ts \<le> kMaxMaxStreams" "ts_advertisedInitialMaxStreamsUni ts \<le> kMaxMaxStreams"
  using assms
  by (auto simp: refreshTransportSettings_def setMaxRemoteBidirectionalStreamsInternal_def
      setMaxRemoteUnidirectionalStreamsInternal_def Let_def split: if_splits)

lemma refresh_inv:
  assumes refresh: "refreshTransportSettings ts m = Inr m'"
    and m: "ids_inv m" "streams_inv m" "streamLimitWindowingFraction m > 0"
    and fresh: "\<forall>uni. nextPeer uni m = initialRemote uni m"
  shows "sm_inv m'"
proof -
  note f = refresh_fields [OF refresh]
  have "ids_inv m' = ids_inv m" "streams_inv m' = streams_inv m"
    unfolding f(1) by (simp_all add: ids_inv_def kind_defs streams_inv_def streamExists_def control_ids_def)
  moreover have "limit_inv m'"
  proof -
    have none: "card (openPeer uni m) = 0" for uni
      using fresh ids_invD(1) [OF m(1)] card_open_bound [OF ids_invD(3) [OF m(1)], of uni] by simp
    have small: "initialRemote uni m \<le> 3" for uni
      using ids_invD(1) [OF m(1), of uni] remoteClass_less(1) [of "sm_nodeType m" uni] by linarith
    show ?thesis
      using fresh m(3) f(2,3) none [of True] none [of False] small [of True] small [of False]
        ids_invD(1) [OF m(1), of True] ids_invD(1) [OF m(1), of False]
        remoteClass_less(2) [of "sm_nodeType m" True] remoteClass_less(2) [of "sm_nodeType m" False]
      unfolding f(1) limit_inv_def
      by (simp add: kind_defs all_bool_eq)
  qed
  ultimately show ?thesis using m by (simp add: sm_inv_def)
qed

lemma sm_inv_new:
  assumes "mkQuicStreamManager nt ts = Inr m"
  shows "sm_inv m"
proof -
  obtain m0 m1 where m1: "refreshTransportSettings ts m0 = Inr m1"
    "ids_inv m0" "streams_inv m0" "streamLimitWindowingFraction m0 > 0" "\<forall>uni. nextPeer uni m0 = initialRemote uni m0"
    and m: "m = m1\<lparr>writeQueue := setMaxNextsPerStream (ts_priorityQueueWritesPerStream ts) (writeQueue m1)\<rparr>"
    using assms
    by (cases nt) (auto simp: mkQuicStreamManager_def emptyStreamManager_def Let_def
      ids_inv_def streams_inv_def kind_defs kind_inv_def remoteClass_def localClass_def control_ids_def)
  have "sm_inv m = sm_inv m1" unfolding m
    by (simp add: sm_inv_def ids_inv_def kind_defs streams_inv_def streamExists_def control_ids_def limit_inv_def)
  with refresh_inv [OF m1] show ?thesis by simp
qed

subsection \<open>Replacing the open streams of a kind\<close>

lemma streamExists_alt:
  "streamExists i m = (if isLocalStream (sm_nodeType m) i then i \<in> openLocal (isUnidirectionalStream i) m
                       else i \<in> openPeer (isUnidirectionalStream i) m)"
  by (simp add: streamExists_def kind_defs)

lemma setOpenPeer_simps [simp]:
  "openPeer u (setOpenPeer uni S m) = (if u = uni then S else openPeer u m)"
  "openLocal u (setOpenPeer uni S m) = openLocal u m" "nextPeer u (setOpenPeer uni S m) = nextPeer u m"
  "nextLocal u (setOpenPeer uni S m) = nextLocal u m" "maxRemote u (setOpenPeer uni S m) = maxRemote u m"
  "initialRemote u (setOpenPeer uni S m) = initialRemote u m" "initialLocal u (setOpenPeer uni S m) = initialLocal u m"
  "sm_nodeType (setOpenPeer uni S m) = sm_nodeType m" "sm_streams (setOpenPeer uni S m) = sm_streams m"
  "streamPriorityLevelsNoCtrl (setOpenPeer uni S m) = streamPriorityLevelsNoCtrl m"
  "numControlStreams (setOpenPeer uni S m) = numControlStreams m"
  "streamLimitWindowingFraction (setOpenPeer uni S m) = streamLimitWindowingFraction m"
  "sm_transportSettings (setOpenPeer uni S m) = sm_transportSettings m"
  "nextBidirectionalStreamId (setOpenPeer uni S m) = nextBidirectionalStreamId m"
  "nextUnidirectionalStreamId (setOpenPeer uni S m) = nextUnidirectionalStreamId m"
  by (auto simp: setOpenPeer_def kind_defs)

lemma setNextPeer_simps [simp]:
  "nextPeer u (setNextPeer uni i m) = (if u = uni then i else nextPeer u m)"
  "openPeer u (setNextPeer uni i m) = openPeer u m" "openLocal u (setNextPeer uni i m) = openLocal u m"
  "nextLocal u (setNextPeer uni i m) = nextLocal u m" "maxRemote u (setNextPeer uni i m) = maxRemote u m"
  "initialRemote u (setNextPeer uni i m) = initialRemote u m" "initialLocal u (setNextPeer uni i m) = initialLocal u m"
  "sm_nodeType (setNextPeer uni i m) = sm_nodeType m" "sm_streams (setNextPeer uni i m) = sm_streams m"
  "streamPriorityLevelsNoCtrl (setNextPeer uni i m) = streamPriorityLevelsNoCtrl m"
  "numControlStreams (setNextPeer uni i m) = numControlStreams m"
  "streamLimitWindowingFraction (setNextPeer uni i m) = streamLimitWindowingFraction m"
  "sm_transportSettings (setNextPeer uni i m) = sm_transportSettings m"
  "nextBidirectionalStreamId (setNextPeer uni i m) = nextBidirectionalStreamId m"
  "nextUnidirectionalStreamId (setNextPeer uni i m) = nextUnidirectionalStreamId m"
  by (auto simp: setNextPeer_def kind_defs)

lemma setOpenLocal_simps [simp]:
  "openLocal u (setOpenLocal uni S m) = (if u = uni then S else openLocal u m)"
  "openPeer u (setOpenLocal uni S m) = openPeer u m" "nextPeer u (setOpenLocal uni S m) = nextPeer u m"
  "nextLocal u (setOpenLocal uni S m) = nextLocal u m" "maxRemote u (setOpenLocal uni S m) = maxRemote u m"
  "initialRemote u (setOpenLocal uni S m) = initialRemote u m" "initialLocal u (setOpenLocal uni S m) = initialLocal u m"
  "sm_nodeType (setOpenLocal uni S m) = sm_nodeType m" "sm_streams (setOpenLocal uni S m) = sm_streams m"
  "streamPriorityLevelsNoCtrl (setOpenLocal uni S m) = streamPriorityLevelsNoCtrl m"
  "numControlStreams (setOpenLocal uni S m) = numControlStreams m"
  "streamLimitWindowingFraction (setOpenLocal uni S m) = streamLimitWindowingFraction m"
  "sm_transportSettings (setOpenLocal uni S m) = sm_transportSettings m"
  "nextBidirectionalStreamId (setOpenLocal uni S m) = nextBidirectionalStreamId m"
  "nextUnidirectionalStreamId (setOpenLocal uni S m) = nextUnidirectionalStreamId m"
  by (auto simp: setOpenLocal_def kind_defs)

lemma setNextLocal_simps [simp]:
  "nextLocal u (setNextLocal uni i m) = (if u = uni then i else nextLocal u m)"
  "openPeer u (setNextLocal uni i m) = openPeer u m" "openLocal u (setNextLocal uni i m) = openLocal u m"
  "nextPeer u (setNextLocal uni i m) = nextPeer u m" "maxRemote u (setNextLocal uni i m) = maxRemote u m"
  "initialRemote u (setNextLocal uni i m) = initialRemote u m" "initialLocal u (setNextLocal uni i m) = initialLocal u m"
  "sm_nodeType (setNextLocal uni i m) = sm_nodeType m" "sm_streams (setNextLocal uni i m) = sm_streams m"
  "streamPriorityLevelsNoCtrl (setNextLocal uni i m) = streamPriorityLevelsNoCtrl m"
  "numControlStreams (setNextLocal uni i m) = numControlStreams m"
  "streamLimitWindowingFraction (setNextLocal uni i m) = streamLimitWindowingFraction m"
  "sm_transportSettings (setNextLocal uni i m) = sm_transportSettings m"
  "nextBidirectionalStreamId (setNextLocal uni i m) = nextBidirectionalStreamId m"
  "nextUnidirectionalStreamId (setNextLocal uni i m) = nextUnidirectionalStreamId m"
  by (auto simp: setNextLocal_def kind_defs)

lemma initialLimit_set [simp]:
  "initialLimit u (setOpenPeer uni S m) = initialLimit u m" "initialLimit u (setNextPeer uni i m) = initialLimit u m"
  "initialLimit u (setOpenLocal uni S m) = initialLimit u m" "initialLimit u (setNextLocal uni i m) = initialLimit u m"
  by (simp_all add: initialLimit_def)

lemma set_peer_inv:
  assumes m: "sm_inv m"
    and kind: "kind_inv (remoteClass (sm_nodeType m) uni) S n"
    and streams: "\<And>i. i \<in> dom (sm_streams m) \<Longrightarrow> i \<in> openPeer uni m \<Longrightarrow> i \<in> S"
    and limit: "n \<le> maxRemote uni m" "(maxRemote uni m - n) div 4 + card S \<le> initialLimit uni m"
  shows "sm_inv (setNextPeer uni n (setOpenPeer uni S m))" (is "sm_inv ?m")
proof -
  have "ids_inv ?m" using m kind by (auto simp: sm_inv_def ids_inv_def)
  moreover have "control_ids ?m = control_ids m" by (simp add: control_ids_def)
  then have "streams_inv ?m"
    using m streams by (fastforce simp: sm_inv_def streams_inv_def streamExists_alt split: if_splits)
  moreover have "limit_inv ?m"
    using m limit by (auto simp: sm_inv_def limit_inv_def)
  ultimately show ?thesis by (simp add: sm_inv_def)
qed

lemma set_local_inv:
  assumes m: "sm_inv m"
    and kind: "kind_inv (localClass (sm_nodeType m) uni) S n"
    and streams: "\<And>i. i \<in> dom (sm_streams m) \<Longrightarrow> i \<in> openLocal uni m \<Longrightarrow> i \<in> S"
    and n: "nextLocal uni m \<le> n"
  shows "sm_inv (setNextLocal uni n (setOpenLocal uni S m))" (is "sm_inv ?m")
proof -
  have "ids_inv ?m" using m kind n by (auto simp: sm_inv_def ids_inv_def)
  moreover have "control_ids ?m = control_ids m" by (simp add: control_ids_def)
  then have "streams_inv ?m"
    using m streams by (fastforce simp: sm_inv_def streams_inv_def streamExists_alt split: if_splits)
  moreover have "limit_inv ?m"
    using m by (auto simp: sm_inv_def limit_inv_def)
  ultimately show ?thesis by (simp add: sm_inv_def)
qed

text \<open>The work sets and the local limits have no part in the invariant.\<close>

lemma sm_inv_frame [simp]:
  "sm_inv (m\<lparr>nextBidirectionalStreamGroupId := x0\<rparr>) = sm_inv m"
  "sm_inv (m\<lparr>nextUnidirectionalStreamGroupId := x1\<rparr>) = sm_inv m"
  "sm_inv (m\<lparr>maxLocalBidirectionalStreamId := x2\<rparr>) = sm_inv m"
  "sm_inv (m\<lparr>maxLocalUnidirectionalStreamId := x3\<rparr>) = sm_inv m"
  "sm_inv (m\<lparr>remoteBidiStreamLimitUpdate := x4\<rparr>) = sm_inv m"
  "sm_inv (m\<lparr>remoteUniStreamLimitUpdate := x5\<rparr>) = sm_inv m"
  "sm_inv (m\<lparr>openBidirectionalLocalStreamGroups := x6\<rparr>) = sm_inv m"
  "sm_inv (m\<lparr>openUnidirectionalLocalStreamGroups := x7\<rparr>) = sm_inv m"
  "sm_inv (m\<lparr>newPeerStreams := x8\<rparr>) = sm_inv m"
  "sm_inv (m\<lparr>newGroupedPeerStreams := x9\<rparr>) = sm_inv m"
  "sm_inv (m\<lparr>newPeerStreamGroups := x10\<rparr>) = sm_inv m"
  "sm_inv (m\<lparr>peerStreamGroupsSeen := x11\<rparr>) = sm_inv m"
  "sm_inv (m\<lparr>blockedStreams := x12\<rparr>) = sm_inv m"
  "sm_inv (m\<lparr>stopSendingStreams := x13\<rparr>) = sm_inv m"
  "sm_inv (m\<lparr>windowUpdates := x14\<rparr>) = sm_inv m"
  "sm_inv (m\<lparr>flowControlUpdated := x15\<rparr>) = sm_inv m"
  "sm_inv (m\<lparr>lossStreams := x16\<rparr>) = sm_inv m"
  "sm_inv (m\<lparr>lossDSRStreams := x17\<rparr>) = sm_inv m"
  "sm_inv (m\<lparr>readableStreams := x18\<rparr>) = sm_inv m"
  "sm_inv (m\<lparr>peekableStreams := x19\<rparr>) = sm_inv m"
  "sm_inv (m\<lparr>writeQueue := x20\<rparr>) = sm_inv m"
  "sm_inv (m\<lparr>controlWriteQueue := x21\<rparr>) = sm_inv m"
  "sm_inv (m\<lparr>writableStreams := x22\<rparr>) = sm_inv m"
  "sm_inv (m\<lparr>writableDSRStreams := x23\<rparr>) = sm_inv m"
  "sm_inv (m\<lparr>txStreams := x24\<rparr>) = sm_inv m"
  "sm_inv (m\<lparr>deliverableStreams := x25\<rparr>) = sm_inv m"
  "sm_inv (m\<lparr>closedStreams := x26\<rparr>) = sm_inv m"
  "sm_inv (m\<lparr>isAppIdle := x27\<rparr>) = sm_inv m"
  "sm_inv (m\<lparr>maxLocalBidirectionalStreamIdIncreased := x28\<rparr>) = sm_inv m"
  "sm_inv (m\<lparr>maxLocalUnidirectionalStreamIdIncreased := x29\<rparr>) = sm_inv m"
  by (simp_all add: sm_inv_def ids_inv_def streams_inv_def limit_inv_def kind_defs streamExists_def control_ids_def)

lemma streams_frame [simp]:
  "ids_inv (m\<lparr>sm_streams := x\<rparr>) = ids_inv m" "limit_inv (m\<lparr>sm_streams := x\<rparr>) = limit_inv m"
  "ids_inv (m\<lparr>streamPriorityLevelsNoCtrl := y\<rparr>) = ids_inv m" "limit_inv (m\<lparr>streamPriorityLevelsNoCtrl := y\<rparr>) = limit_inv m"
  "ids_inv (m\<lparr>numControlStreams := z\<rparr>) = ids_inv m" "limit_inv (m\<lparr>numControlStreams := z\<rparr>) = limit_inv m"
  by (simp_all add: ids_inv_def limit_inv_def kind_defs)

lemma sm_inv_idle [simp]: "sm_inv (updateAppIdleState m) = sm_inv m"
  by (simp add: updateAppIdleState_def Let_def)

subsection \<open>Opening and creating streams\<close>

lemma ids_between_mult: "ids_between lo (lo + 4 * k) = map (\<lambda>j. lo + 4 * j) [0..<Suc k]"
proof (induction k arbitrary: lo)
  case 0
  show ?case by (simp add: ids_between_step)
next
  case (Suc k)
  have "ids_between lo (lo + 4 * Suc k) = lo # ids_between (lo + 4) ((lo + 4) + 4 * k)"
    by (subst ids_between_step) (simp_all add: add.assoc)
  also have "\<dots> = lo # map (\<lambda>j. (lo + 4) + 4 * j) [0..<Suc k]" by (simp only: Suc)
  also have "\<dots> = map (\<lambda>j. lo + 4 * j) [0..<Suc (Suc k)]"
    by (simp add: upt_conv_Cons [of 0 "Suc (Suc k)"] map_Suc_upt [symmetric] del: upt_Suc)
  finally show ?case .
qed

lemma same_class_diff:
  fixes a b :: nat
  assumes "a mod 4 = b mod 4" "a \<le> b"
  obtains k where "b = a + 4 * k"
  using assms that by (metis le_add_diff_inverse mod_eq_dvd_iff_nat dvdE)

lemma open_kind_inv:
  assumes "kind_inv c S n" "n \<le> i" "i mod 4 = c"
  shows "kind_inv c (S \<union> set (ids_between n i)) (i + 4)"
  using assms by (fastforce simp: kind_inv_def set_ids_between)

lemma open_peer_inv:
  assumes m: "sm_inv m" and i: "i mod 4 = remoteClass (sm_nodeType m) uni" "nextPeer uni m \<le> i" "i < maxRemote uni m"
  shows "sm_inv (setNextPeer uni (i + 4) (setOpenPeer uni (openPeer uni m \<union> set (ids_between (nextPeer uni m) i)) m))"
proof (rule set_peer_inv [OF m])
  have ids: "ids_inv m" and lim: "maxRemote uni m mod 4 = remoteClass (sm_nodeType m) uni"
    "(maxRemote uni m - nextPeer uni m) div 4 + card (openPeer uni m) \<le> initialLimit uni m"
    using m by (auto simp: sm_inv_def limit_inv_def)
  note kind = ids_invD(3) [OF ids, of uni]
  show "kind_inv (remoteClass (sm_nodeType m) uni) (openPeer uni m \<union> set (ids_between (nextPeer uni m) i)) (i + 4)"
    by (rule open_kind_inv [OF kind i(2,1)])
  show "\<And>j. j \<in> openPeer uni m \<Longrightarrow> j \<in> openPeer uni m \<union> set (ids_between (nextPeer uni m) i)" by simp
  obtain k where k: "i = nextPeer uni m + 4 * k"
    using same_class_diff [of "nextPeer uni m" i] i kind by (auto simp: kind_inv_def)
  obtain r where r: "maxRemote uni m = i + 4 * r"
    using same_class_diff [of i "maxRemote uni m"] i lim by auto
  with i(3) have "r > 0" by simp
  with r show "i + 4 \<le> maxRemote uni m" by simp
  have "card (openPeer uni m \<union> set (ids_between (nextPeer uni m) i)) \<le> card (openPeer uni m) + Suc k"
    using card_Un_le [of "openPeer uni m" "set (ids_between (nextPeer uni m) i)"]
      card_length [of "ids_between (nextPeer uni m) i"]
    by (simp add: k ids_between_mult)
  moreover have "(maxRemote uni m - nextPeer uni m) div 4 = k + r" "(maxRemote uni m - (i + 4)) div 4 = r - 1"
    using r k by auto
  ultimately show "(maxRemote uni m - (i + 4)) div 4 + card (openPeer uni m \<union> set (ids_between (nextPeer uni m) i))
      \<le> initialLimit uni m"
    using lim(2) \<open>r > 0\<close> by simp
qed

lemma open_local_inv:
  assumes m: "sm_inv m" and i: "i mod 4 = localClass (sm_nodeType m) uni" "nextLocal uni m \<le> i"
  shows "sm_inv (setNextLocal uni (i + 4) (setOpenLocal uni (openLocal uni m \<union> set (ids_between (nextLocal uni m) i)) m))"
proof (rule set_local_inv [OF m])
  have "ids_inv m" using m by (simp add: sm_inv_def)
  then show "kind_inv (localClass (sm_nodeType m) uni) (openLocal uni m \<union> set (ids_between (nextLocal uni m) i)) (i + 4)"
    by (intro open_kind_inv [OF ids_invD(4) i(2,1)])
qed (use i in auto)

lemma add_stream:
  assumes m: "sm_inv m" and i: "sm_streams m i = None" "streamExists i m" and s: "st_id s = i" "\<not> isControl s"
  defines "m' \<equiv> m\<lparr>sm_streams := (sm_streams m)(i \<mapsto> s),
                    streamPriorityLevelsNoCtrl := (streamPriorityLevelsNoCtrl m)(i \<mapsto> pri_level (priority s))\<rparr>"
  shows "addToStreamPriorityMap s (m\<lparr>sm_streams := (sm_streams m)(i \<mapsto> s)\<rparr>) = Inr m'" and "sm_inv m'"
proof -
  have dom: "dom (streamPriorityLevelsNoCtrl m) = dom (sm_streams m) - control_ids m"
    and st: "\<And>j t. sm_streams m j = Some t \<Longrightarrow> st_id t = j \<and> streamExists j m"
    and num: "numControlStreams m = card (control_ids m)"
    using m by (auto simp: sm_inv_def streams_inv_def)
  have none: "streamPriorityLevelsNoCtrl m i = None"
    using dom i(1) by (metis DiffD1 domIff)
  with s show "addToStreamPriorityMap s (m\<lparr>sm_streams := (sm_streams m)(i \<mapsto> s)\<rparr>) = Inr m'"
    by (simp add: addToStreamPriorityMap_def m'_def)
  have ctrl: "control_ids m' = control_ids m"
    using s i(1) by (auto simp: control_ids_def m'_def)
  have "streams_inv m'"
    unfolding streams_inv_def ctrl
  proof (intro conjI allI impI)
    fix j t assume "sm_streams m' j = Some t"
    then show "st_id t = j" "streamExists j m'"
      using st [of j t] i(2) s by (auto simp: m'_def streamExists_def split: if_splits)
  next
    show "dom (streamPriorityLevelsNoCtrl m') = dom (sm_streams m') - control_ids m"
      using dom i(1) by (auto simp: m'_def control_ids_def)
    show "numControlStreams m' = card (control_ids m)" using num by (simp add: m'_def)
  qed
  moreover have "ids_inv m'" "limit_inv m'"
    using m by (simp_all add: m'_def sm_inv_def)
  ultimately show "sm_inv m'" by (simp add: sm_inv_def)
qed

lemma local_class_iff: "i mod 4 = localClass nt uni \<longleftrightarrow> isLocalStream nt i \<and> isUnidirectionalStream i = uni"
  and remote_class_iff: "i mod 4 = remoteClass nt uni \<longleftrightarrow> isRemoteStream nt i \<and> isUnidirectionalStream i = uni"
proof -
  have "i mod 4 < 4" by simp
  then have "i mod 4 \<in> {0, 1, 2, 3}" by auto
  then show "i mod 4 = localClass nt uni \<longleftrightarrow> isLocalStream nt i \<and> isUnidirectionalStream i = uni"
    "i mod 4 = remoteClass nt uni \<longleftrightarrow> isRemoteStream nt i \<and> isUnidirectionalStream i = uni"
    by (cases nt; cases uni; auto simp: localClass_def remoteClass_def isLocalStream_def isRemoteStream_def stream_class_mod4)+
qed

lemma open_class:
  assumes "sm_inv m"
  shows "i \<in> openLocal uni m \<Longrightarrow> isLocalStream (sm_nodeType m) i \<and> isUnidirectionalStream i = uni \<and> i < nextLocal uni m"
    and "i \<in> openPeer uni m \<Longrightarrow> isRemoteStream (sm_nodeType m) i \<and> isUnidirectionalStream i = uni \<and> i < nextPeer uni m"
  using assms ids_invD(3,4) [of m uni]
  by (auto simp: sm_inv_def kind_inv_def local_class_iff [symmetric] remote_class_iff [symmetric])

lemma getOrCreateOpenedLocal_inv:
  assumes m: "sm_inv m" and r: "getOrCreateOpenedLocalStream conn i m = Inr (r, m')"
  shows "sm_inv m'" and "r = None \<Longrightarrow> m' = m \<and> i \<notin> openLocal (isUnidirectionalStream i) m"
    and "nextLocal uni m' = nextLocal uni m"
proof -
  have *: "sm_inv m' \<and> (r = None \<longrightarrow> m' = m \<and> i \<notin> openLocal (isUnidirectionalStream i) m) \<and> nextLocal uni m' = nextLocal uni m"
  proof (cases "i \<in> openLocal (isUnidirectionalStream i) m")
    case False
    with r m show ?thesis by (simp add: getOrCreateOpenedLocalStream_def)
  next
    case True
    then have "streamExists i m" using open_class(1) [OF m True] by (simp add: streamExists_alt)
    moreover have none: "sm_streams m i = None"
      using True r by (auto simp: getOrCreateOpenedLocalStream_def split: if_splits)
    ultimately show ?thesis
      using add_stream [OF m none, of "mkQuicStreamState i conn"] True r
      by (auto simp: getOrCreateOpenedLocalStream_def Let_def nextLocal_def)
  qed
  then show "sm_inv m'" "r = None \<Longrightarrow> m' = m \<and> i \<notin> openLocal (isUnidirectionalStream i) m"
    "nextLocal uni m' = nextLocal uni m" by blast+
qed

lemma instantiatePeer:
  assumes m: "sm_inv m" and i: "sm_streams m i = None" "streamExists i m"
  obtains m' where "instantiatePeerStream conn i g m = Inr (Some i, m')" "sm_inv m'"
    "sm_streams m' = (sm_streams m)(i \<mapsto> mkGroupedStreamState i g conn)"
    "\<And>uni. openPeer uni m' = openPeer uni m" "\<And>uni. nextPeer uni m' = nextPeer uni m"
    "newPeerStreams m' = (if ts_notifyOnNewStreamsExplicitly (sm_transportSettings m) \<and> g = None
                          then newPeerStreams m @ [i] else newPeerStreams m)"
proof -
  define m1 where "m1 = (case g of
      Some j \<Rightarrow> if j \<notin> peerStreamGroupsSeen m
                then m\<lparr>newPeerStreamGroups := insert j (newPeerStreamGroups m),
                       peerStreamGroupsSeen := insert j (peerStreamGroupsSeen m)\<rparr> else m
    | None \<Rightarrow> m)"
  define m2 where "m2 = (if ts_notifyOnNewStreamsExplicitly (sm_transportSettings m1)
               then if g = None then m1\<lparr>newPeerStreams := newPeerStreams m1 @ [i]\<rparr>
                    else m1\<lparr>newGroupedPeerStreams := newGroupedPeerStreams m1 @ [i]\<rparr>
               else m1)"
  have m1: "sm_inv m1" "sm_streams m1 = sm_streams m" "sm_transportSettings m1 = sm_transportSettings m"
    "newPeerStreams m1 = newPeerStreams m" "\<And>uni. openPeer uni m1 = openPeer uni m" "\<And>uni. nextPeer uni m1 = nextPeer uni m"
    "streamExists i m1 = streamExists i m"
    using m by (auto simp: m1_def kind_defs streamExists_def split: option.splits)
  have m2: "sm_inv m2" "sm_streams m2 i = None" "streamExists i m2"
    using m1 i by (auto simp: m2_def streamExists_def)
  note add = add_stream [OF m2, of "mkGroupedStreamState i g conn", simplified]
  define m3 where "m3 = m2\<lparr>sm_streams := (sm_streams m2)(i \<mapsto> mkGroupedStreamState i g conn),
    streamPriorityLevelsNoCtrl := (streamPriorityLevelsNoCtrl m2)(i \<mapsto> pri_level (priority (mkGroupedStreamState i g conn)))\<rparr>"
  show thesis
  proof (rule that)
    show "instantiatePeerStream conn i g m = Inr (Some i, m3)"
      unfolding instantiatePeerStream_def m1_def [symmetric] Let_def m2_def [symmetric]
      using add(1) m2(2) by (simp add: map_emplace_def m3_def)
    show "sm_inv m3" using add(2) by (simp add: m3_def)
    show "sm_streams m3 = (sm_streams m)(i \<mapsto> mkGroupedStreamState i g conn)"
      using m1(2) by (simp add: m3_def m2_def)
    show "openPeer uni m3 = openPeer uni m" "nextPeer uni m3 = nextPeer uni m" for uni
      using m1(5,6) [of uni] by (auto simp: m3_def m2_def kind_defs)
    show "newPeerStreams m3 = (if ts_notifyOnNewStreamsExplicitly (sm_transportSettings m) \<and> g = None
                          then newPeerStreams m @ [i] else newPeerStreams m)"
      using m1(3,4) by (simp add: m3_def m2_def)
  qed
qed

lemma set_same [simp]:
  "setNextPeer uni (nextPeer uni m) m = m" "setOpenPeer uni (openPeer uni m) m = m"
  "setNextLocal uni (nextLocal uni m) m = m" "setOpenLocal uni (openLocal uni m) m = m"
  by (simp_all add: setNextPeer_def setOpenPeer_def setNextLocal_def setOpenLocal_def kind_defs)

lemma checkPeerStreamId_remote: "checkPeerStreamId i g m = Inr u \<Longrightarrow> isRemoteStream (sm_nodeType m) i"
  by (cases "sm_nodeType m") (auto simp: checkPeerStreamId_def isRemoteStream_def split: if_splits)

lemma checkPeerStreamId_None: "isRemoteStream (sm_nodeType m) i \<Longrightarrow> checkPeerStreamId i None m = Inr ()"
  by (cases "sm_nodeType m") (auto simp: checkPeerStreamId_def isRemoteStream_def stream_id_simps)

lemma peer_stream_seen:
  assumes "checkPeerStreamId i g m = Inr u" "sm_streams m i = None" "i \<notin> openPeer (isUnidirectionalStream i) m"
    "i < nextPeer (isUnidirectionalStream i) m"
  shows "getOrCreatePeerStream conn i g m = Inr (None, m)"
  using assms by (auto simp: getOrCreatePeerStream_def Let_def openPeerStreamIfNotClosed_def)

lemma peer_stream_over_limit:
  assumes "checkPeerStreamId i g m = Inr u" "sm_streams m i = None" "i \<notin> openPeer (isUnidirectionalStream i) m"
    "nextPeer (isUnidirectionalStream i) m \<le> i" "maxRemote (isUnidirectionalStream i) m \<le> i"
  shows "getOrCreatePeerStream conn i g m = Inl (QuicTransportException TE_STREAM_LIMIT_ERROR)"
  using assms by (auto simp: getOrCreatePeerStream_def Let_def openPeerStreamIfNotClosed_def)

lemma peer_stream_new:
  fixes m :: QuicStreamManager
  defines "next \<equiv> \<lambda>uni. nextPeer uni m"
  assumes m: "sm_inv m" and c: "checkPeerStreamId i g m = Inr u" and none: "sm_streams m i = None"
    and uni: "uni = isUnidirectionalStream i"
    and i: "next uni \<le> i" "i < maxRemote uni m"
  obtains m' where "getOrCreatePeerStream conn i g m = Inr (Some i, m')" "sm_inv m'"
    "sm_streams m' = (sm_streams m)(i \<mapsto> mkGroupedStreamState i g conn)"
    "openPeer uni m' = openPeer uni m \<union> set (ids_between (next uni) i)" "nextPeer uni m' = i + 4"
    "openPeer (\<not> uni) m' = openPeer (\<not> uni) m" "nextPeer (\<not> uni) m' = nextPeer (\<not> uni) m"
    "g = None \<Longrightarrow> newPeerStreams m' = newPeerStreams m @
       (if ts_notifyOnNewStreamsExplicitly (sm_transportSettings m) then [i] else ids_between (next uni) i)"
proof -
  have rem: "i mod 4 = remoteClass (sm_nodeType m) uni"
    using checkPeerStreamId_remote [OF c] uni by (simp add: remote_class_iff)
  have notin: "i \<notin> openPeer uni m" using open_class(2) [OF m, of i uni] i by (auto simp: next_def)
  define ids where "ids = ids_between (next uni) i"
  define m1 where "m1 = setNextPeer uni (i + 4) (setOpenPeer uni (openPeer uni m \<union> set ids) m)"
  define m2 where "m2 = (if ts_notifyOnNewStreamsExplicitly (sm_transportSettings m) then m1
    else if g \<noteq> None then m1\<lparr>newGroupedPeerStreams := newGroupedPeerStreams m @ ids\<rparr>
    else m1\<lparr>newPeerStreams := newPeerStreams m @ ids\<rparr>)"
  have m1: "sm_inv m1" using open_peer_inv [OF m rem i [unfolded next_def]] by (simp add: m1_def ids_def next_def)
  have "next uni mod 4 = i mod 4" using ids_invD(3) [of m uni] m rem by (auto simp: sm_inv_def kind_inv_def next_def)
  then have mem: "i \<in> set ids" using i by (auto simp: ids_def set_ids_between)
  have m2: "sm_inv m2" "sm_streams m2 i = None" using m1 none by (auto simp: m2_def m1_def)
  have ex: "streamExists i m2"
    using mem rem uni by (auto simp: m2_def m1_def streamExists_alt remote_class_iff isRemote_iff_not_isLocal kind_defs
        setNextPeer_def setOpenPeer_def)
  have eq: "getOrCreatePeerStream conn i g m = instantiatePeerStream conn i g m2"
    using c none notin i uni
    by (auto simp: getOrCreatePeerStream_def Let_def openPeerStreamIfNotClosed_def openLoop_eq m2_def m1_def ids_def next_def
        split: prod.splits)
  have keep: "sm_streams m2 = sm_streams m" "openPeer uni m2 = openPeer uni m \<union> set ids" "nextPeer uni m2 = i + 4"
    "openPeer (\<not> uni) m2 = openPeer (\<not> uni) m" "nextPeer (\<not> uni) m2 = nextPeer (\<not> uni) m"
    "sm_transportSettings m2 = sm_transportSettings m"
    by (auto simp: m2_def m1_def kind_defs setNextPeer_def setOpenPeer_def)
  have new: "g = None \<Longrightarrow> newPeerStreams m2 = newPeerStreams m @
      (if ts_notifyOnNewStreamsExplicitly (sm_transportSettings m) then [] else ids)"
    by (auto simp: m2_def m1_def setNextPeer_def setOpenPeer_def)
  from instantiatePeer [OF m2 ex, of conn g] obtain m' where m':
    "instantiatePeerStream conn i g m2 = Inr (Some i, m')" "sm_inv m'"
    "sm_streams m' = (sm_streams m2)(i \<mapsto> mkGroupedStreamState i g conn)"
    "\<And>uni. openPeer uni m' = openPeer uni m2" "\<And>uni. nextPeer uni m' = nextPeer uni m2"
    "newPeerStreams m' = (if ts_notifyOnNewStreamsExplicitly (sm_transportSettings m2) \<and> g = None
                          then newPeerStreams m2 @ [i] else newPeerStreams m2)" by blast
  show thesis
    by (rule that [of m']) (use m' eq keep new in \<open>auto simp: ids_def\<close>)
qed

lemma peer_stream_lazy:
  fixes m :: QuicStreamManager
  assumes m: "sm_inv m" and c: "checkPeerStreamId i None m = Inr u" and none: "sm_streams m i = None"
    and uni: "uni = isUnidirectionalStream i" and i: "i \<in> openPeer uni m"
  shows "\<exists>m'. getOrCreatePeerStream conn i None m = Inr (Some i, m') \<and>
    sm_streams m' = (sm_streams m)(i \<mapsto> mkGroupedStreamState i None conn) \<and>
    openPeer uni m' = openPeer uni m \<and> nextPeer uni m' = nextPeer uni m \<and>
    newPeerStreams m' = newPeerStreams m @
      (if ts_notifyOnNewStreamsExplicitly (sm_transportSettings m) then [i] else [])"
proof -
  have ex: "streamExists i m"
    using open_class(2) [OF m i] i uni by (simp add: streamExists_alt isRemote_iff_not_isLocal)
  have eq: "getOrCreatePeerStream conn i None m = instantiatePeerStream conn i None m"
    using c none i uni by (simp add: getOrCreatePeerStream_def Let_def)
  show ?thesis
  proof (rule instantiatePeer [OF m none ex, of conn None])
    fix m'
    assume "instantiatePeerStream conn i None m = Inr (Some i, m')"
      "sm_streams m' = (sm_streams m)(i \<mapsto> mkGroupedStreamState i None conn)"
      "\<And>uni. openPeer uni m' = openPeer uni m" "\<And>uni. nextPeer uni m' = nextPeer uni m"
      "newPeerStreams m' = (if ts_notifyOnNewStreamsExplicitly (sm_transportSettings m) \<and> None = (None :: StreamGroupId option)
                            then newPeerStreams m @ [i] else newPeerStreams m)"
    then show ?thesis unfolding eq by (intro exI [of _ m'] conjI) simp_all
  qed
qed

lemma getOrCreatePeerStream_inv:
  assumes m: "sm_inv m" and r: "getOrCreatePeerStream conn i g m = Inr (r, m')"
  shows "sm_inv m'"
proof -
  let ?uni = "isUnidirectionalStream i"
  obtain u where c: "checkPeerStreamId i g m = Inr u" using r by (auto simp: getOrCreatePeerStream_def)
  consider "sm_streams m i \<noteq> None" | "sm_streams m i = None" "i \<in> openPeer ?uni m"
    | "sm_streams m i = None" "i \<notin> openPeer ?uni m" "i < nextPeer ?uni m"
    | "sm_streams m i = None" "nextPeer ?uni m \<le> i" "i < maxRemote ?uni m"
    | "sm_streams m i = None" "i \<notin> openPeer ?uni m" "nextPeer ?uni m \<le> i" "maxRemote ?uni m \<le> i"
    by fastforce
  then show ?thesis
  proof cases
    case 1
    with r c m show ?thesis by (auto simp: getOrCreatePeerStream_def)
  next
    case 2
    then have "streamExists i m"
      using open_class(2) [OF m 2(2)] by (simp add: streamExists_alt isRemote_iff_not_isLocal)
    moreover have "instantiatePeerStream conn i g m = Inr (r, m')"
      using r c 2 by (auto simp: getOrCreatePeerStream_def Let_def)
    ultimately show ?thesis
      using instantiatePeer [OF m 2(1), of conn g] by (metis Inr_inject prod.inject)
  next
    case 3
    with r m peer_stream_seen [OF c 3, of conn] show ?thesis by simp
  next
    case 4
    with r peer_stream_new [OF m c 4(1) refl 4(2,3), of conn] show ?thesis by (metis Inr_inject prod.inject)
  next
    case 5
    with r peer_stream_over_limit [OF c 5, of conn] show ?thesis by simp
  qed
qed

lemma getStream_inv:
  assumes "sm_inv m" "getStream conn i g m = Inr (r, m')"
  shows "sm_inv m'"
  using assms getOrCreatePeerStream_inv [OF assms(1)] getOrCreateOpenedLocal_inv(1) [OF assms(1)]
  by (auto simp: getStream_def split: if_splits prod.splits)

lemma checkLocalStreamId_local: "checkLocalStreamId i g m = Inr u \<Longrightarrow> isLocalStream (sm_nodeType m) i"
  by (cases "sm_nodeType m") (auto simp: checkLocalStreamId_def isLocalStream_def split: if_splits)

lemma checkLocalStreamId_None: "isLocalStream (sm_nodeType m) i \<Longrightarrow> checkLocalStreamId i None m = Inr ()"
  by (cases "sm_nodeType m") (auto simp: checkLocalStreamId_def isLocalStream_def)

lemma local_stream_refused:
  assumes "checkLocalStreamId i g m = Inr u" "i \<notin> openLocal (isUnidirectionalStream i) m"
  shows "i < nextLocal (isUnidirectionalStream i) m \<Longrightarrow> createStream conn i g m = Inr (Inl LE_CREATING_EXISTING_STREAM, m)"
    and "nextLocal (isUnidirectionalStream i) m \<le> i \<Longrightarrow> maxLocal (isUnidirectionalStream i) m \<le> i \<Longrightarrow>
      createStream conn i g m = Inr (Inl LE_STREAM_LIMIT_EXCEEDED, m)"
  using assms by (simp_all add: createStream_def getOrCreateOpenedLocalStream_def openLocalStreamIfNotClosed_def Let_def)

lemma local_stream_new:
  assumes m: "sm_inv m" and c: "checkLocalStreamId i g m = Inr u"
    and uni: "uni = isUnidirectionalStream i" and i: "nextLocal uni m \<le> i" "i < maxLocal uni m"
  obtains m' where "createStream conn i g m = Inr (Inr i, m')" "sm_inv m'" "sm_streams m i = None"
    "sm_streams m' = (sm_streams m)(i \<mapsto> mkGroupedStreamState i g conn)"
    "openLocal uni m' = openLocal uni m \<union> set (ids_between (nextLocal uni m) i)" "nextLocal uni m' = i + 4"
    "maxLocal uni m' = maxLocal uni m" "sm_nodeType m' = sm_nodeType m"
    "nextBidirectionalStreamId m' = nextBidirectionalStreamId m" "nextUnidirectionalStreamId m' = nextUnidirectionalStreamId m"
proof -
  have loc: "i mod 4 = localClass (sm_nodeType m) uni"
    using checkLocalStreamId_local [OF c] uni by (simp add: local_class_iff)
  then have isloc: "isLocalStream (sm_nodeType m) i" by (simp add: local_class_iff)
  have notin: "i \<notin> openLocal uni m" using open_class(1) [OF m, of i uni] i by auto
  have none: "sm_streams m i = None"
  proof (rule ccontr)
    assume "sm_streams m i \<noteq> None"
    then have "streamExists i m" using m by (auto simp: sm_inv_def streams_inv_def)
    with isloc notin uni show False by (simp add: streamExists_alt)
  qed
  define m1 where "m1 = setNextLocal uni (i + 4) (setOpenLocal uni (openLocal uni m \<union> set (ids_between (nextLocal uni m) i)) m)"
  have m1: "sm_inv m1" using open_local_inv [OF m loc i(1)] by (simp add: m1_def)
  have "nextLocal uni m mod 4 = i mod 4" using ids_invD(4) [of m uni] m loc by (auto simp: sm_inv_def kind_inv_def)
  then have "i \<in> set (ids_between (nextLocal uni m) i)" using i by (auto simp: set_ids_between)
  then have ex: "streamExists i m1" using isloc uni by (simp add: m1_def streamExists_alt)
  have same: "sm_streams m1 = sm_streams m" by (simp add: m1_def)
  with none have none1: "sm_streams m1 i = None" by simp
  note add = add_stream [OF m1 none1 ex, of "mkGroupedStreamState i g conn", simplified]
  define m2 where "m2 = m1\<lparr>sm_streams := (sm_streams m1)(i \<mapsto> mkGroupedStreamState i g conn),
    streamPriorityLevelsNoCtrl := (streamPriorityLevelsNoCtrl m1)(i \<mapsto> pri_level (priority (mkGroupedStreamState i g conn)))\<rparr>"
  have "createStream conn i g m = Inr (Inr i, updateAppIdleState m2)"
    using c notin i add(1) none same
    by (simp add: uni [symmetric] createStream_def getOrCreateOpenedLocalStream_def openLocalStreamIfNotClosed_def openLoop_eq Let_def
        m1_def [symmetric] map_emplace_def m2_def)
  moreover have "sm_inv m2" using add(2) by (simp add: m2_def)
  moreover have "sm_streams m2 = (sm_streams m)(i \<mapsto> mkGroupedStreamState i g conn)" "nextLocal uni m2 = i + 4"
    "openLocal uni m2 = openLocal uni m \<union> set (ids_between (nextLocal uni m) i)"
    "maxLocal uni m2 = maxLocal uni m" "sm_nodeType m2 = sm_nodeType m"
    "nextBidirectionalStreamId m2 = nextBidirectionalStreamId m" "nextUnidirectionalStreamId m2 = nextUnidirectionalStreamId m"
    by (simp_all add: m2_def m1_def kind_defs setNextLocal_def setOpenLocal_def)
  ultimately show thesis
    by (intro that [of "updateAppIdleState m2"]) (use none in \<open>auto simp: updateAppIdleState_def Let_def kind_defs\<close>)
qed

lemma createStream_inv:
  assumes m: "sm_inv m" and r: "createStream conn i g m = Inr (r, m')"
  shows "sm_inv m'" and "i < nextLocal (isUnidirectionalStream i) m' \<or> isl r"
proof -
  let ?uni = "isUnidirectionalStream i"
  obtain u where c: "checkLocalStreamId i g m = Inr u" using r by (auto simp: createStream_def)
  consider "i \<in> openLocal ?uni m" | "i \<notin> openLocal ?uni m" "i < nextLocal ?uni m"
    | "nextLocal ?uni m \<le> i" "i < maxLocal ?uni m" | "i \<notin> openLocal ?uni m" "nextLocal ?uni m \<le> i" "maxLocal ?uni m \<le> i"
    by fastforce
  then have "sm_inv m' \<and> (i < nextLocal (isUnidirectionalStream i) m' \<or> isl r)"
  proof cases
    case 1
    from r c obtain e m1 where e: "getOrCreateOpenedLocalStream conn i m = Inr (e, m1)" by (auto simp: createStream_def)
    then have "e \<noteq> None" using 1 by (auto simp: getOrCreateOpenedLocalStream_def Let_def split: if_splits)
    then have "m' = m1" using r c e by (auto simp: createStream_def)
    with getOrCreateOpenedLocal_inv [OF m e] open_class(1) [OF m 1] show ?thesis by simp
  next
    case 2
    with r c m local_stream_refused(1) [OF c 2(1), of conn] show ?thesis by auto
  next
    case 3
    from local_stream_new [OF m c refl 3, of conn] obtain m1 where "createStream conn i g m = Inr (Inr i, m1)" "sm_inv m1"
      "nextLocal ?uni m1 = i + 4" by blast
    with r show ?thesis by simp
  next
    case 4
    with r c m local_stream_refused(2) [OF c 4(1), of conn] show ?thesis by auto
  qed
  then show "sm_inv m'" "i < nextLocal (isUnidirectionalStream i) m' \<or> isl r" by blast+
qed

lemma createStream_keeps:
  assumes "createStream conn i g m = Inr (r, m')"
  shows "nextBidirectionalStreamId m' = nextBidirectionalStreamId m"
    and "nextUnidirectionalStreamId m' = nextUnidirectionalStreamId m" and "sm_nodeType m' = sm_nodeType m"
  using assms
  by (auto simp: createStream_def getOrCreateOpenedLocalStream_def addToStreamPriorityMap_def Let_def updateAppIdleState_def
      split: if_splits prod.splits)

lemma next_id_inv:
  assumes m: "sm_inv m" and i: "i mod 4 = localClass (sm_nodeType m) uni" "i < nextLocal uni m"
  shows "i + 4 \<le> nextLocal uni m"
proof -
  have "nextLocal uni m mod 4 = i mod 4" using m i ids_invD(4) [of m uni] by (simp add: sm_inv_def kind_inv_def)
  then obtain k where "nextLocal uni m = i + 4 * k" using i(2) same_class_diff [of i "nextLocal uni m"] by auto
  with i(2) show ?thesis by (cases k) simp_all
qed

lemma next_id_frame [simp]:
  "streams_inv (m\<lparr>nextBidirectionalStreamId := i\<rparr>) = streams_inv m" "limit_inv (m\<lparr>nextBidirectionalStreamId := i\<rparr>) = limit_inv m"
  "streams_inv (m\<lparr>nextUnidirectionalStreamId := i\<rparr>) = streams_inv m" "limit_inv (m\<lparr>nextUnidirectionalStreamId := i\<rparr>) = limit_inv m"
  "openPeer u (m\<lparr>nextBidirectionalStreamId := i\<rparr>) = openPeer u m" "openPeer u (m\<lparr>nextUnidirectionalStreamId := i\<rparr>) = openPeer u m"
  "openLocal u (m\<lparr>nextBidirectionalStreamId := i\<rparr>) = openLocal u m" "openLocal u (m\<lparr>nextUnidirectionalStreamId := i\<rparr>) = openLocal u m"
  "nextPeer u (m\<lparr>nextBidirectionalStreamId := i\<rparr>) = nextPeer u m" "nextPeer u (m\<lparr>nextUnidirectionalStreamId := i\<rparr>) = nextPeer u m"
  "nextLocal u (m\<lparr>nextBidirectionalStreamId := i\<rparr>) = nextLocal u m" "nextLocal u (m\<lparr>nextUnidirectionalStreamId := i\<rparr>) = nextLocal u m"
  "initialRemote u (m\<lparr>nextBidirectionalStreamId := i\<rparr>) = initialRemote u m" "initialRemote u (m\<lparr>nextUnidirectionalStreamId := i\<rparr>) = initialRemote u m"
  "initialLocal u (m\<lparr>nextBidirectionalStreamId := i\<rparr>) = initialLocal u m" "initialLocal u (m\<lparr>nextUnidirectionalStreamId := i\<rparr>) = initialLocal u m"
  "maxLocal u (m\<lparr>nextBidirectionalStreamId := i\<rparr>) = maxLocal u m" "maxLocal u (m\<lparr>nextUnidirectionalStreamId := i\<rparr>) = maxLocal u m"
  by (simp_all add: streams_inv_def limit_inv_def kind_defs streamExists_def control_ids_def)

lemma set_next_ids_inv:
  assumes "sm_inv m"
  shows "i mod 4 = localClass (sm_nodeType m) False \<Longrightarrow> i \<le> nextLocal False m \<Longrightarrow>
      sm_inv (m\<lparr>nextBidirectionalStreamId := i\<rparr>)"
    and "i mod 4 = localClass (sm_nodeType m) True \<Longrightarrow> i \<le> nextLocal True m \<Longrightarrow>
      sm_inv (m\<lparr>nextUnidirectionalStreamId := i\<rparr>)"
  using assms by (simp_all add: sm_inv_def ids_inv_def)

lemma createNextBidirectionalStream_inv:
  assumes m: "sm_inv m" and r: "createNextBidirectionalStream conn g m = Inr (r, m')"
  shows "sm_inv m'"
proof -
  from r obtain m1 where c: "createStream conn (nextBidirectionalStreamId m) g m = Inr (r, m1)"
    and m': "m' = (if isl r then m1 else m1\<lparr>nextBidirectionalStreamId := nextBidirectionalStreamId m1 + 4\<rparr>)"
    by (auto simp: createNextBidirectionalStream_def)
  note inv = createStream_inv [OF m c] and keep = createStream_keeps [OF c]
  have cl: "nextBidirectionalStreamId m mod 4 = localClass (sm_nodeType m) False"
    using m by (simp add: sm_inv_def ids_inv_def)
  then have "\<not> isUnidirectionalStream (nextBidirectionalStreamId m)" by (simp add: local_class_iff)
  with inv(2) have "\<not> isl r \<Longrightarrow> nextBidirectionalStreamId m + 4 \<le> nextLocal False m1"
    using next_id_inv [OF inv(1), of _ False] cl keep by simp
  with inv(1) cl keep show ?thesis
    unfolding m' by (auto intro: set_next_ids_inv(1))
qed

lemma createNextUnidirectionalStream_inv:
  assumes m: "sm_inv m" and r: "createNextUnidirectionalStream conn g m = Inr (r, m')"
  shows "sm_inv m'"
proof -
  from r obtain m1 where c: "createStream conn (nextUnidirectionalStreamId m) g m = Inr (r, m1)"
    and m': "m' = (if isl r then m1 else m1\<lparr>nextUnidirectionalStreamId := nextUnidirectionalStreamId m1 + 4\<rparr>)"
    by (auto simp: createNextUnidirectionalStream_def)
  note inv = createStream_inv [OF m c] and keep = createStream_keeps [OF c]
  have cl: "nextUnidirectionalStreamId m mod 4 = localClass (sm_nodeType m) True"
    using m by (simp add: sm_inv_def ids_inv_def)
  then have "isUnidirectionalStream (nextUnidirectionalStreamId m)" by (simp add: local_class_iff)
  with inv(2) have "\<not> isl r \<Longrightarrow> nextUnidirectionalStreamId m + 4 \<le> nextLocal True m1"
    using next_id_inv [OF inv(1), of _ True] cl keep by simp
  with inv(1) cl keep show ?thesis
    unfolding m' by (auto intro: set_next_ids_inv(2))
qed

subsection \<open>Closing a stream\<close>

lemma finite_streams: "sm_inv m \<Longrightarrow> finite (dom (sm_streams m))"
proof -
  assume m: "sm_inv m"
  have "dom (sm_streams m) \<subseteq> (\<Union>uni. openLocal uni m \<union> openPeer uni m)"
    using m by (force simp: sm_inv_def streams_inv_def streamExists_alt split: if_splits)
  moreover have "finite (openLocal uni m)" "finite (openPeer uni m)" for uni
    using m ids_invD(3,4) [of m uni] by (auto simp: sm_inv_def kind_inv_def)
  then have "finite (\<Union>uni. openLocal uni m \<union> openPeer uni m)" by simp
  ultimately show ?thesis by (rule finite_subset)
qed

lemma finite_control: "sm_inv m \<Longrightarrow> finite (control_ids m)"
  by (rule finite_subset [OF _ finite_streams]) (auto simp: control_ids_def)

lemma forgetStream_simps [simp]:
  "sm_inv (forgetStream i s m) = sm_inv m" "sm_streams (forgetStream i s m) = sm_streams m"
  "streamPriorityLevelsNoCtrl (forgetStream i s m) = streamPriorityLevelsNoCtrl m"
  "numControlStreams (forgetStream i s m) = numControlStreams m" "sm_nodeType (forgetStream i s m) = sm_nodeType m"
  "openPeer uni (forgetStream i s m) = openPeer uni m" "nextPeer uni (forgetStream i s m) = nextPeer uni m"
  "openLocal uni (forgetStream i s m) = openLocal uni m" "nextLocal uni (forgetStream i s m) = nextLocal uni m" "maxRemote uni (forgetStream i s m) = maxRemote uni m"
  "initialLimit uni (forgetStream i s m) = initialLimit uni m" "initialRemote uni (forgetStream i s m) = initialRemote uni m"
  "streamLimitWindowingFraction (forgetStream i s m) = streamLimitWindowingFraction m"
  by (simp_all add: forgetStream_def removeWritable_def eraseFromWriteQueues_def kind_defs Let_def)

definition dropStream :: "StreamId \<Rightarrow> QuicStreamState \<Rightarrow> QuicStreamManager \<Rightarrow> QuicStreamManager" where
  "dropStream i s m = (if isControl s then m\<lparr>numControlStreams := sub64 (numControlStreams m) 1\<rparr>
     else m\<lparr>streamPriorityLevelsNoCtrl := (streamPriorityLevelsNoCtrl m)(i := None)\<rparr>)\<lparr>sm_streams := (sm_streams m)(i := None)\<rparr>"

lemma dropStream_inv:
  assumes m: "sm_inv m" and s: "sm_streams m i = Some s"
  shows "sm_inv (dropStream i s m)"
proof -
  have ctrl: "control_ids (dropStream i s m) = control_ids m - {i}"
    by (auto simp: control_ids_def dropStream_def)
  have st: "streams_inv m" using m by (simp add: sm_inv_def)
  have "streams_inv (dropStream i s m)"
    unfolding streams_inv_def ctrl
  proof (intro conjI allI impI)
    fix j t assume "sm_streams (dropStream i s m) j = Some t"
    then show "st_id t = j" "streamExists j (dropStream i s m)"
      using st by (auto simp: streams_inv_def dropStream_def streamExists_def split: if_splits)
  next
    show "dom (streamPriorityLevelsNoCtrl (dropStream i s m)) = dom (sm_streams (dropStream i s m)) - (control_ids m - {i})"
      using st s by (auto simp: streams_inv_def dropStream_def control_ids_def)
  next
    have "isControl s \<longleftrightarrow> i \<in> control_ids m" using s by (simp add: control_ids_def)
    moreover have "i \<in> control_ids m \<Longrightarrow> card (control_ids m) \<ge> 1"
      using finite_control [OF m] by (auto simp: Suc_le_eq card_gt_0_iff)
    ultimately show "numControlStreams (dropStream i s m) = card (control_ids m - {i})"
      using st finite_control [OF m] by (simp add: streams_inv_def dropStream_def sub64_exact)
  qed
  moreover have "ids_inv (dropStream i s m)" "limit_inv (dropStream i s m)"
    using m by (simp_all add: dropStream_def sm_inv_def)
  ultimately show ?thesis by (simp add: sm_inv_def)
qed

definition openableRemote :: "bool \<Rightarrow> QuicStreamManager \<Rightarrow> nat" where
  "openableRemote uni m = (maxRemote uni m - nextPeer uni m) div 4"

text \<open>Raising the limit of peer streams of a kind.\<close>

definition raiseLimit :: "bool \<Rightarrow> nat \<Rightarrow> QuicStreamManager \<Rightarrow> QuicStreamManager" where
  "raiseLimit uni newLimit m =
     (if uni then m\<lparr>maxRemoteUnidirectionalStreamId := newLimit * 4 + initialRemoteUnidirectionalStreamId m,
                    remoteUniStreamLimitUpdate := Some newLimit\<rparr>
      else m\<lparr>maxRemoteBidirectionalStreamId := newLimit * 4 + initialRemoteBidirectionalStreamId m,
             remoteBidiStreamLimitUpdate := Some newLimit\<rparr>)"

lemma raiseLimit_simps [simp]:
  "maxRemote u (raiseLimit uni n m) = (if u = uni then n * 4 + initialRemote u m else maxRemote u m)"
  "openPeer u (raiseLimit uni n m) = openPeer u m" "nextPeer u (raiseLimit uni n m) = nextPeer u m"
  "sm_streams (raiseLimit uni n m) = sm_streams m" "ids_inv (raiseLimit uni n m) = ids_inv m"
  "streams_inv (raiseLimit uni n m) = streams_inv m" "initialLimit u (raiseLimit uni n m) = initialLimit u m"
  "streamLimitWindowingFraction (raiseLimit uni n m) = streamLimitWindowingFraction m"
  "sm_nodeType (raiseLimit uni n m) = sm_nodeType m"
  by (auto simp: raiseLimit_def kind_defs ids_inv_def streams_inv_def streamExists_def control_ids_def)

lemma maxRemote_limit:
  assumes "sm_inv m"
  shows "maxRemote uni m = (maxRemote uni m - initialRemote uni m) div 4 * 4 + initialRemote uni m"
    "initialRemote uni m \<le> maxRemote uni m" "(maxRemote uni m - initialRemote uni m) div 4 \<le> kMaxMaxStreams"
proof -
  have mx: "maxRemote uni m mod 4 = remoteClass (sm_nodeType m) uni" "initialRemote uni m = remoteClass (sm_nodeType m) uni"
    "maxRemote uni m \<le> 4 * kMaxMaxStreams + 3"
    using assms ids_invD(1) [of m uni] by (auto simp: sm_inv_def limit_inv_def)
  then have "initialRemote uni m \<le> maxRemote uni m" using mod_less_eq_dividend [of "maxRemote uni m" 4] by simp
  moreover have "4 dvd maxRemote uni m - initialRemote uni m" using mx by (metis dvd_minus_mod)
  ultimately show "initialRemote uni m \<le> maxRemote uni m"
    "maxRemote uni m = (maxRemote uni m - initialRemote uni m) div 4 * 4 + initialRemote uni m" by simp_all
  show "(maxRemote uni m - initialRemote uni m) div 4 \<le> kMaxMaxStreams" using mx(3) by linarith
qed

lemma updateStreamLimit_spec:
  fixes m uni
  defines "credit \<equiv> initialLimit uni m - openableRemote uni m - card (openPeer uni m)"
    and "newLimit \<equiv> (maxRemote uni m - initialRemote uni m) div 4 +
      (initialLimit uni m - openableRemote uni m - card (openPeer uni m))"
  assumes m: "sm_inv m" and strict: "openableRemote uni m + card (openPeer uni m) < initialLimit uni m"
  shows "updateStreamLimit uni m =
     (if credit < initialLimit uni m div streamLimitWindowingFraction m then Inr m
      else if newLimit > kMaxMaxStreams then Inl (QuicTransportException TE_STREAM_LIMIT_ERROR)
      else Inr (raiseLimit uni newLimit m))"
proof -
  have lim: "nextPeer uni m \<le> maxRemote uni m" "initialLimit uni m \<le> kMaxMaxStreams"
    using m by (auto simp: sm_inv_def limit_inv_def)
  note mx = maxRemote_limit [OF m, of uni]
  have opn: "(if uni then openableRemoteUnidirectionalStreams m else openableRemoteBidirectionalStreams m) = Inr (openableRemote uni m)"
    using lim(1) by (cases uni) (auto simp: openableRemoteUnidirectionalStreams_def openableRemoteBidirectionalStreams_def openableStreams_def
        openableRemote_def kind_defs check_def)
  have cr: "sub64 (sub64 (initialLimit uni m) (openableRemote uni m)) (card (openPeer uni m)) = credit"
    using strict by (simp add: sub64_exact credit_def)
  have nl: "add64 (sub64 (maxRemote uni m) (initialRemote uni m) div kStreamIncrement) credit = newLimit"
    using mx(2,3) lim(2) by (simp add: sub64_exact add64_exact newLimit_def credit_def u64_max_def kMaxMaxStreams_def)
  have gt: "newLimit * 4 + initialRemote uni m > maxRemote uni m"
    using mx(1) strict by (simp add: newLimit_def)
  have "updateStreamLimit uni m =
    (if credit \<ge> initialLimit uni m div streamLimitWindowingFraction m then
       if uni then rbind (setMaxRemoteUnidirectionalStreams newLimit m) (\<lambda>m. Inr (m\<lparr>remoteUniStreamLimitUpdate := Some newLimit\<rparr>))
       else rbind (setMaxRemoteBidirectionalStreams newLimit m) (\<lambda>m. Inr (m\<lparr>remoteBidiStreamLimitUpdate := Some newLimit\<rparr>))
     else Inr m)"
    unfolding updateStreamLimit_def Let_def opn initialLimit_def [symmetric] rbind.simps cr nl ..
  with gt show ?thesis
    by (cases uni) (auto simp: setMaxRemoteUnidirectionalStreams_def setMaxRemoteBidirectionalStreams_def Let_def raiseLimit_def kind_defs
        setMaxRemoteUnidirectionalStreamsInternal_def setMaxRemoteBidirectionalStreamsInternal_def)
qed

lemma raiseLimit_inv:
  fixes m uni
  defines "newLimit \<equiv> (maxRemote uni m - initialRemote uni m) div 4 +
      (initialLimit uni m - openableRemote uni m - card (openPeer uni m))"
  assumes m: "sm_inv m" and le: "openableRemote uni m + card (openPeer uni m) \<le> initialLimit uni m"
    and bound: "newLimit \<le> kMaxMaxStreams"
  shows "sm_inv (raiseLimit uni newLimit m)"
    and "openableRemote uni (raiseLimit uni newLimit m) + card (openPeer uni m) = initialLimit uni m"
proof -
  let ?c = "initialLimit uni m - openableRemote uni m - card (openPeer uni m)"
  have lim: "limit_inv m" and ids: "ids_inv m" using m by (simp_all add: sm_inv_def)
  have new: "newLimit * 4 + initialRemote uni m = maxRemote uni m + 4 * ?c"
    using maxRemote_limit(1) [OF m, of uni] by (simp add: newLimit_def)
  have nm: "nextPeer uni m \<le> maxRemote uni m" using lim by (simp add: limit_inv_def)
  have op: "openableRemote uni (raiseLimit uni newLimit m) = openableRemote uni m + ?c"
  proof -
    have "maxRemote uni m + 4 * ?c - nextPeer uni m = (maxRemote uni m - nextPeer uni m) + 4 * ?c" using nm by simp
    then show ?thesis using new by (simp only: openableRemote_def [of uni "raiseLimit uni newLimit m"] raiseLimit_simps
          openableRemote_def [of uni m, symmetric]) (simp add: openableRemote_def)
  qed
  then show eq: "openableRemote uni (raiseLimit uni newLimit m) + card (openPeer uni m) = initialLimit uni m"
    using le by simp
  have small: "initialRemote uni m \<le> 3"
    using ids_invD(1) [OF ids, of uni] remoteClass_less(1) [of "sm_nodeType m" uni] by linarith
  have "limit_inv (raiseLimit uni newLimit m)"
    unfolding limit_inv_def
  proof (intro conjI allI)
    fix u
    have u: "initialLimit u m \<le> kMaxMaxStreams" "maxRemote u m mod 4 = remoteClass (sm_nodeType m) u"
      "maxRemote u m \<le> 4 * kMaxMaxStreams + 3" "nextPeer u m \<le> maxRemote u m"
      "(maxRemote u m - nextPeer u m) div 4 + card (openPeer u m) \<le> initialLimit u m"
      using lim by (auto simp: limit_inv_def)
    show "initialLimit u (raiseLimit uni newLimit m) \<le> kMaxMaxStreams" using u by simp
    show "maxRemote u (raiseLimit uni newLimit m) mod 4 = remoteClass (sm_nodeType (raiseLimit uni newLimit m)) u"
      using u(2) ids_invD(1) [OF ids, of uni] by (cases "u = uni") simp_all
    show "maxRemote u (raiseLimit uni newLimit m) \<le> 4 * kMaxMaxStreams + 3" using u(3) bound small by (cases "u = uni") simp_all
    show "nextPeer u (raiseLimit uni newLimit m) \<le> maxRemote u (raiseLimit uni newLimit m)" using u(4) new by (cases "u = uni") simp_all
    show "(maxRemote u (raiseLimit uni newLimit m) - nextPeer u (raiseLimit uni newLimit m)) div 4 +
        card (openPeer u (raiseLimit uni newLimit m)) \<le> initialLimit u (raiseLimit uni newLimit m)"
      using u(5) eq by (cases "u = uni") (simp_all add: openableRemote_def)
  qed (use lim in \<open>simp add: limit_inv_def\<close>)
  with m show "sm_inv (raiseLimit uni newLimit m)" by (simp add: sm_inv_def)
qed

text \<open>No work set holds the stream.\<close>

definition untracked :: "StreamId \<Rightarrow> QuicStreamManager \<Rightarrow> bool" where
  "untracked i m \<longleftrightarrow> i \<notin> readableStreams m \<union> peekableStreams m \<union> writableStreams m \<union> writableDSRStreams m \<union>
     lossStreams m \<union> lossDSRStreams m \<union> deliverableStreams m \<union> txStreams m \<union> windowUpdates m \<union> flowControlUpdated m \<and>
     blockedStreams m i = None \<and> stopSendingStreams m i = None"

lemma untracked_forget: "st_id s = i \<Longrightarrow> untracked i (forgetStream i s m)"
  by (simp add: untracked_def forgetStream_def removeWritable_def eraseFromWriteQueues_def Let_def)

lemma untracked_simps [simp]:
  "untracked i (dropStream j s m) = untracked i m" "untracked i (setOpenPeer uni S m) = untracked i m"
  "untracked i (setOpenLocal uni S m) = untracked i m" "untracked i (raiseLimit uni n m) = untracked i m"
  "untracked i (updateAppIdleState m) = untracked i m"
  by (simp_all add: untracked_def dropStream_def setOpenPeer_def setOpenLocal_def raiseLimit_def updateAppIdleState_def Let_def)

lemma queues_forget:
  "st_id s = i \<Longrightarrow> isControl s \<Longrightarrow> writeQueue (forgetStream i s m) = writeQueue m \<and> i \<notin> controlWriteQueue (forgetStream i s m)"
  "st_id s = i \<Longrightarrow> \<not> isControl s \<Longrightarrow> pq_count i (writeQueue (forgetStream i s m)) = 0"
  by (auto simp: forgetStream_def removeWritable_def eraseFromWriteQueues_def Let_def pq_count_def pq_erase_def
      eraseFromLevel_def split: option.splits)

lemma queues_simps [simp]:
  "writeQueue (dropStream j s m) = writeQueue m" "writeQueue (setOpenPeer uni S m) = writeQueue m"
  "writeQueue (setOpenLocal uni S m) = writeQueue m" "writeQueue (raiseLimit uni n m) = writeQueue m"
  "writeQueue (updateAppIdleState m) = writeQueue m"
  "controlWriteQueue (dropStream j s m) = controlWriteQueue m" "controlWriteQueue (setOpenPeer uni S m) = controlWriteQueue m"
  "controlWriteQueue (setOpenLocal uni S m) = controlWriteQueue m" "controlWriteQueue (raiseLimit uni n m) = controlWriteQueue m"
  "controlWriteQueue (updateAppIdleState m) = controlWriteQueue m"
  by (simp_all add: dropStream_def setOpenPeer_def setOpenLocal_def raiseLimit_def updateAppIdleState_def Let_def)

lemma dropStream_simps [simp]:
  "sm_streams (dropStream i s m) = (sm_streams m)(i := None)" "sm_nodeType (dropStream i s m) = sm_nodeType m"
  "openPeer uni (dropStream i s m) = openPeer uni m" "nextPeer uni (dropStream i s m) = nextPeer uni m"
  "openLocal uni (dropStream i s m) = openLocal uni m" "maxRemote uni (dropStream i s m) = maxRemote uni m"
  "nextLocal uni (dropStream i s m) = nextLocal uni m"
  "initialLimit uni (dropStream i s m) = initialLimit uni m" "initialRemote uni (dropStream i s m) = initialRemote uni m"
  "streamLimitWindowingFraction (dropStream i s m) = streamLimitWindowingFraction m"
  by (simp_all add: dropStream_def kind_defs)

lemma idle_simps [simp]:
  "sm_streams (updateAppIdleState m) = sm_streams m" "openPeer uni (updateAppIdleState m) = openPeer uni m"
  "openLocal uni (updateAppIdleState m) = openLocal uni m" "nextPeer uni (updateAppIdleState m) = nextPeer uni m"
  "nextLocal uni (updateAppIdleState m) = nextLocal uni m"
  "maxRemote uni (updateAppIdleState m) = maxRemote uni m" "initialLimit uni (updateAppIdleState m) = initialLimit uni m"
  "sm_nodeType (updateAppIdleState m) = sm_nodeType m" "openableRemote uni (updateAppIdleState m) = openableRemote uni m"
  by (simp_all add: updateAppIdleState_def Let_def kind_defs openableRemote_def)

lemma open_frame [simp]:
  "openPeer u (m\<lparr>numControlStreams := x\<rparr>) = openPeer u m" "openLocal u (m\<lparr>numControlStreams := x\<rparr>) = openLocal u m"
  "openPeer u (m\<lparr>streamPriorityLevelsNoCtrl := y\<rparr>) = openPeer u m"
  "openLocal u (m\<lparr>streamPriorityLevelsNoCtrl := y\<rparr>) = openLocal u m"
  "openPeer u (m\<lparr>sm_streams := z\<rparr>) = openPeer u m" "openLocal u (m\<lparr>sm_streams := z\<rparr>) = openLocal u m"
  by (simp_all add: kind_defs)

lemma removeClosedStream_eq:
  assumes m: "sm_inv m" and s: "sm_streams m i = Some s"
  shows "removeClosedStream i m =
    (let m1 = dropStream i s (forgetStream i s m); uni = isUnidirectionalStream i
     in rbind (if isRemoteStream (sm_nodeType m) i then updateStreamLimit uni (setOpenPeer uni (openPeer uni m - {i}) m1)
               else Inr (setOpenLocal uni (openLocal uni m - {i}) m1)) (\<lambda>m. Inr (updateAppIdleState m)))"
proof -
  have "\<not> isControl s \<Longrightarrow> streamPriorityLevelsNoCtrl m i \<noteq> None"
    using m s by (auto simp: sm_inv_def streams_inv_def control_ids_def dom_def)
  then show ?thesis
    using s by (cases "isControl s") (simp_all add: removeClosedStream_def Let_def dropStream_def del: not_None_eq)
qed

lemma setNextPeer_open [simp]: "setNextPeer uni (nextPeer uni m) (setOpenPeer uni S m) = setOpenPeer uni S m"
  and setNextLocal_open [simp]: "setNextLocal uni (nextLocal uni m) (setOpenLocal uni S m) = setOpenLocal uni S m"
  by (simp_all add: setNextPeer_def setOpenPeer_def setNextLocal_def setOpenLocal_def kind_defs)

text \<open>The manager of a peer stream that is closed, before the limit update.\<close>

lemma close_peer:
  fixes m i s
  defines "uni \<equiv> isUnidirectionalStream i"
  defines "m2 \<equiv> setOpenPeer uni (openPeer uni m - {i}) (dropStream i s (forgetStream i s m))"
  assumes m: "sm_inv m" and s: "sm_streams m i = Some s" and rem: "isRemoteStream (sm_nodeType m) i"
  shows "sm_inv m2" "openableRemote uni m2 + card (openPeer uni m2) < initialLimit uni m2" "i \<in> openPeer uni m"
proof -
  have lim: "openableRemote uni m + card (openPeer uni m) \<le> initialLimit uni m" "nextPeer uni m \<le> maxRemote uni m"
    using m by (auto simp: sm_inv_def limit_inv_def openableRemote_def)
  have kind: "kind_inv (remoteClass (sm_nodeType m) uni) (openPeer uni m) (nextPeer uni m)"
    using m ids_invD(3) by (simp add: sm_inv_def)
  have "streamExists i m" using m s by (auto simp: sm_inv_def streams_inv_def)
  then show mem: "i \<in> openPeer uni m" using rem by (simp add: streamExists_alt isRemote_iff_not_isLocal uni_def)
  have "card (openPeer uni m - {i}) + 1 = card (openPeer uni m)"
    using kind mem card_Suc_Diff1 [of "openPeer uni m" i] by (simp add: kind_inv_def)
  then have lt: "openableRemote uni m + card (openPeer uni m - {i}) < initialLimit uni m" using lim(1) by simp
  then show "openableRemote uni m2 + card (openPeer uni m2) < initialLimit uni m2"
    by (simp add: m2_def openableRemote_def)
  have "sm_inv (dropStream i s (forgetStream i s m))" using m s by (simp add: dropStream_inv)
  from set_peer_inv [OF this, of uni "openPeer uni m - {i}" "nextPeer uni (dropStream i s (forgetStream i s m))"] show "sm_inv m2"
    using kind lt lim(2) unfolding setNextPeer_open
    by (simp add: m2_def kind_inv_def openableRemote_def split: if_splits)
qed

lemma removeClosedStream_inv:
  assumes m: "sm_inv m" and r: "removeClosedStream i m = Inr m'"
  shows "sm_inv m'"
proof (cases "sm_streams m i")
  case None
  with m r show ?thesis by (simp add: removeClosedStream_def)
next
  case (Some s)
  let ?uni = "isUnidirectionalStream i" and ?m1 = "dropStream i s (forgetStream i s m)"
  have m1: "sm_inv ?m1" using m Some by (simp add: dropStream_inv)
  show ?thesis
  proof (cases "isRemoteStream (sm_nodeType m) i")
    case True
    let ?m2 = "setOpenPeer ?uni (openPeer ?uni m - {i}) ?m1"
    note cl = close_peer(1,2) [OF m Some True]
    obtain m3 where m3: "updateStreamLimit ?uni ?m2 = Inr m3" "m' = updateAppIdleState m3"
      using r True removeClosedStream_eq [OF m Some] by (auto simp: Let_def)
    with updateStreamLimit_spec [OF cl] raiseLimit_inv(1) [OF cl(1) less_imp_le [OF cl(2)]] cl(1) show ?thesis
      by (auto split: if_splits)
  next
    case False
    have "sm_inv (setOpenLocal ?uni (openLocal ?uni m - {i}) ?m1)"
      using set_local_inv [OF m1, of ?uni "openLocal ?uni m - {i}" "nextLocal ?uni ?m1"] m ids_invD(4) [of m ?uni]
      unfolding setNextLocal_open by (auto simp: sm_inv_def kind_inv_def split: if_splits)
    with False r removeClosedStream_eq [OF m Some] show ?thesis by (auto simp: Let_def)
  qed
qed

section \<open>Histories\<close>

text \<open>The state of a stream that an operation changed goes back to its place.\<close>

definition putStream :: "QuicStreamState \<Rightarrow> QuicStreamManager \<Rightarrow> QuicStreamManager" where
  "putStream s m = m\<lparr>sm_streams := (sm_streams m)(st_id s \<mapsto> s)\<rparr>"

lemma putStream_inv:
  assumes m: "sm_inv m" and s: "sm_streams m (st_id s) = Some t" "isControl s = isControl t"
  shows "sm_inv (putStream s m)"
proof -
  have c: "control_ids (putStream s m) = control_ids m" using s by (auto simp: control_ids_def putStream_def)
  have "streams_inv (putStream s m)"
    using m s unfolding streams_inv_def c sm_inv_def
    by (auto simp: putStream_def streamExists_def)
  moreover have "ids_inv (putStream s m)" "limit_inv (putStream s m)"
    using m by (simp_all add: putStream_def sm_inv_def)
  ultimately show ?thesis by (simp add: sm_inv_def)
qed

lemma setStreamAsControl_inv:
  assumes m: "sm_inv m" and s: "sm_streams m i = Some s" and r: "setStreamAsControl s m = (s', m')"
    and few: "card (control_ids m) < u64_max"
  shows "sm_inv (putStream s' m')"
proof (cases "isControl s")
  case True
  have "st_id s = i" using m s by (auto simp: sm_inv_def streams_inv_def)
  with True r m s show ?thesis
    by (auto simp: setStreamAsControl_def intro: putStream_inv)
next
  case False
  have id: "st_id s = i" using m s by (auto simp: sm_inv_def streams_inv_def)
  have s': "s' = s\<lparr>isControl := True\<rparr>" and m': "m' = updateAppIdleState (m\<lparr>numControlStreams := add64 (numControlStreams m) 1,
      streamPriorityLevelsNoCtrl := (streamPriorityLevelsNoCtrl m)(i := None)\<rparr>)"
    using r False id by (auto simp: setStreamAsControl_def)
  let ?m = "m\<lparr>numControlStreams := add64 (numControlStreams m) 1,
      streamPriorityLevelsNoCtrl := (streamPriorityLevelsNoCtrl m)(i := None), sm_streams := (sm_streams m)(i \<mapsto> s\<lparr>isControl := True\<rparr>)\<rparr>"
  have c: "control_ids ?m = insert i (control_ids m)" "i \<notin> control_ids m"
    using s False by (auto simp: control_ids_def)
  have st: "streams_inv m" using m by (simp add: sm_inv_def)
  have ex: "streamExists j ?m = streamExists j m" for j by (simp add: streamExists_def)
  have "streams_inv ?m"
    unfolding streams_inv_def c ex
  proof (intro conjI allI impI)
    fix j t assume "sm_streams ?m j = Some t"
    then show "st_id t = j" "streamExists j m"
      using st s id by (auto simp: streams_inv_def split: if_splits)
  next
    show "dom (streamPriorityLevelsNoCtrl ?m) = dom (sm_streams ?m) - insert i (control_ids m)"
      using st s by (auto simp: streams_inv_def control_ids_def)
  next
    show "numControlStreams ?m = card (insert i (control_ids m))"
      using st c(2) finite_control [OF m] few by (simp add: streams_inv_def add64_exact)
  qed
  then have "sm_inv ?m" using m by (simp add: sm_inv_def)
  moreover have "putStream s' m' = ?m\<lparr>isAppIdle := isAppIdle (putStream s' m')\<rparr>"
    using id by (simp add: s' m' putStream_def updateAppIdleState_def Let_def)
  ultimately show ?thesis by (metis sm_inv_frame(28))
qed

text \<open>The operations on the work sets, the local limits and the stream groups.\<close>

inductive sm_work :: "QuicStreamManager \<Rightarrow> QuicStreamManager \<Rightarrow> bool" where
  "sm_work m (removeLoss i m)"
| "sm_work m (addLoss i m)"
| "addWritable s m = Inr m' \<Longrightarrow> sm_work m m'"
| "sm_work m (removeWritable s m)"
| "sm_work m (clearWritable m)"
| "sm_work m (queueBlocked i offset m)"
| "sm_work m (removeBlocked i m)"
| "remoteBidirectionalStreamLimitUpdate m = (r, m') \<Longrightarrow> sm_work m m'"
| "remoteUnidirectionalStreamLimitUpdate m = (r, m') \<Longrightarrow> sm_work m m'"
| "sm_work m (queueWindowUpdate i m)"
| "sm_work m (removeWindowUpdate i m)"
| "sm_work m (addClosed i m)"
| "sm_work m (addDeliverable i m)"
| "sm_work m (removeDeliverable i m)"
| "popDeliverable pick m = (r, m') \<Longrightarrow> sm_work m m'"
| "sm_work m (addTx i m)"
| "sm_work m (removeTx i m)"
| "popTx pick m = (r, m') \<Longrightarrow> sm_work m m'"
| "consumeFlowControlUpdated enum m = (rs, m') \<Longrightarrow> sm_work m m'"
| "sm_work m (queueFlowControlUpdated i m)"
| "popFlowControlUpdated pick m = (r, m') \<Longrightarrow> sm_work m m'"
| "sm_work m (removeFlowControlUpdated i m)"
| "sm_work m (clearFlowControlUpdated m)"
| "consumeNewPeerStreams m = (rs, m') \<Longrightarrow> sm_work m m'"
| "consumeNewGroupedPeerStreams m = (rs, m') \<Longrightarrow> sm_work m m'"
| "consumeNewPeerStreamGroups m = (S, m') \<Longrightarrow> sm_work m m'"
| "consumeStopSending enum m = (ps, m') \<Longrightarrow> sm_work m m'"
| "sm_work m (clearStopSending m)"
| "sm_work m (addStopSending i e m)"
| "sm_work m (clearActionable m)"
| "sm_work m (updatePeekableStreams s m)"
| "updateWritableStreams s m = Inr m' \<Longrightarrow> sm_work m m'"
| "setMaxLocalBidirectionalStreams n force m = Inr m' \<Longrightarrow> sm_work m m'"
| "setMaxLocalUnidirectionalStreams n force m = Inr m' \<Longrightarrow> sm_work m m'"
| "consumeMaxLocalBidirectionalStreamIdIncreased m = (b, m') \<Longrightarrow> sm_work m m'"
| "consumeMaxLocalUnidirectionalStreamIdIncreased m = (b, m') \<Longrightarrow> sm_work m m'"
| "createNextBidirectionalStreamGroup m = (g, m') \<Longrightarrow> sm_work m m'"
| "createNextUnidirectionalStreamGroup m = (g, m') \<Longrightarrow> sm_work m m'"

lemmas work_defs = removeLoss_def addLoss_def clearWritable_def queueBlocked_def
  removeBlocked_def remoteBidirectionalStreamLimitUpdate_def remoteUnidirectionalStreamLimitUpdate_def
  queueWindowUpdate_def removeWindowUpdate_def addClosed_def addDeliverable_def removeDeliverable_def popDeliverable_def
  addTx_def removeTx_def popTx_def consumeFlowControlUpdated_def queueFlowControlUpdated_def popFlowControlUpdated_def
  removeFlowControlUpdated_def clearFlowControlUpdated_def consumeNewPeerStreams_def consumeNewGroupedPeerStreams_def
  consumeNewPeerStreamGroups_def consumeStopSending_def clearStopSending_def addStopSending_def clearActionable_def
  updatePeekableStreams_def setMaxLocalBidirectionalStreams_def
  setMaxLocalUnidirectionalStreams_def consumeMaxLocalBidirectionalStreamIdIncreased_def
  consumeMaxLocalUnidirectionalStreamIdIncreased_def

lemma eraseFromWriteQueues_frame [simp]: "sm_inv (eraseFromWriteQueues s m) = sm_inv m"
  by (simp add: eraseFromWriteQueues_def)

lemma removeWritable_frame [simp]: "sm_inv (removeWritable s m) = sm_inv m"
  by (simp add: removeWritable_def Let_def)

lemma addWritable_frame: "addWritable s m = Inr m' \<Longrightarrow> sm_inv m' = sm_inv m"
  by (cases "isControl s") (auto simp: addWritable_def)

lemma setWritableSets_frame [simp]: "sm_inv (setWritableSets w wm s m) = sm_inv m"
  by (simp add: setWritableSets_def Let_def)

lemma scheduleStream_frame [simp]: "sm_inv (scheduleStream b s m) = sm_inv m"
  by (simp add: scheduleStream_def)

lemma updateWritableStreams_frame: "updateWritableStreams s m = Inr m' \<Longrightarrow> sm_inv m' = sm_inv m"
  by (auto simp: updateWritableStreams_def split: if_splits)

lemma sm_work_inv: "sm_work m m' \<Longrightarrow> sm_inv m' = sm_inv m"
proof (induction rule: sm_work.induct)
  case (37 m g m')
  then show ?case by (simp add: createNextBidirectionalStreamGroup_def split: prod.splits) (metis sm_inv_frame)
next
  case (38 m g m')
  then show ?case by (simp add: createNextUnidirectionalStreamGroup_def split: prod.splits) (metis sm_inv_frame)
qed (auto simp: addWritable_frame updateWritableStreams_frame work_defs Let_def split: if_splits)

text \<open>
  One step of a connection on its manager. The settings are refreshed only before the transport
  parameters are sent, when the peer cannot have opened a stream; a handler changes the state of
  a stream without changing its identifier or its control flag. \<^verbatim>\<open>clearOpenStreams\<close>, the last
  operation of a connection that closes, is not a step.
\<close>

inductive sm_step :: "QuicStreamManager \<Rightarrow> QuicStreamManager \<Rightarrow> bool" where
  refresh: "refreshTransportSettings ts m = Inr m' \<Longrightarrow> \<forall>uni. nextPeer uni m = initialRemote uni m \<Longrightarrow> sm_step m m'"
| fraction: "sm_step m (setStreamLimitWindowingFraction n m)"
| get: "getStream (conn :: ConnBase) i g m = Inr (r, m') \<Longrightarrow> sm_step m m'"
| create: "createStream (conn :: ConnBase) i g m = Inr (e, m') \<Longrightarrow> sm_step m m'"
| next_bidi: "createNextBidirectionalStream (conn :: ConnBase) g m = Inr (e, m') \<Longrightarrow> sm_step m m'"
| next_uni: "createNextUnidirectionalStream (conn :: ConnBase) g m = Inr (e, m') \<Longrightarrow> sm_step m m'"
| remove: "removeClosedStream i m = Inr m' \<Longrightarrow> sm_step m m'"
| priority: "setStreamPriority i p m = Inr (b, m') \<Longrightarrow> sm_step m m'"
| control: "sm_streams m i = Some s \<Longrightarrow> card (dom (sm_streams m)) < u64_max \<Longrightarrow> setStreamAsControl s m = (s', m') \<Longrightarrow>
    sm_step m (putStream s' m')"
| handler: "sm_streams m i = Some s \<Longrightarrow> st_id s' = i \<Longrightarrow> isControl s' = isControl s \<Longrightarrow> sm_step m (putStream s' m)"
| readable: "sm_streams m i = Some s \<Longrightarrow> updateReadableStreams now s m = (s', m') \<Longrightarrow> sm_step m (putStream s' m')"
| work: "sm_work m m' \<Longrightarrow> sm_step m m'"

inductive sm_reachable :: "QuicStreamManager \<Rightarrow> bool" where
  new: "mkQuicStreamManager nt ts = Inr m \<Longrightarrow> sm_reachable m"
| step: "sm_reachable m \<Longrightarrow> sm_step m m' \<Longrightarrow> sm_reachable m'"

lemma priority_frame [simp]:
  "streamExists i (m\<lparr>streamPriorityLevelsNoCtrl := y\<rparr>) = streamExists i m"
  "control_ids (m\<lparr>streamPriorityLevelsNoCtrl := y\<rparr>) = control_ids m"
  by (simp_all add: streamExists_def control_ids_def)

lemma priority_map_inv:
  "sm_inv m \<Longrightarrow> dom y = dom (streamPriorityLevelsNoCtrl m) \<Longrightarrow> sm_inv (m\<lparr>streamPriorityLevelsNoCtrl := y\<rparr>)"
  by (simp add: sm_inv_def streams_inv_def)

lemma setStreamPriority_inv:
  assumes m: "sm_inv m" and r: "setStreamPriority i p m = Inr (b, m')"
  shows "sm_inv m'"
proof (cases "sm_streams m i")
  case None
  with m r show ?thesis by (simp add: setStreamPriority_def findStream_def)
next
  case (Some s)
  have id: "st_id s = i" using m Some by (auto simp: sm_inv_def streams_inv_def)
  have put: "sm_inv (m\<lparr>sm_streams := (sm_streams m)(i \<mapsto> s\<lparr>priority := p\<rparr>)\<rparr>)" (is "sm_inv ?m")
    using putStream_inv [OF m, of "s\<lparr>priority := p\<rparr>" s] Some id by (simp add: putStream_def)
  have "\<not> isControl s \<Longrightarrow> i \<in> dom (streamPriorityLevelsNoCtrl m)"
    using m Some by (auto simp: sm_inv_def streams_inv_def control_ids_def)
  then have "\<not> isControl s \<Longrightarrow> sm_inv (?m\<lparr>streamPriorityLevelsNoCtrl := (streamPriorityLevelsNoCtrl m)(i \<mapsto> x)\<rparr>)" for x
    using put by (intro priority_map_inv) auto
  with put m Some r show ?thesis
    by (auto simp: setStreamPriority_def findStream_def Let_def split: if_splits)
qed

lemma updateHolBlockedTime_simps [simp]:
  "st_id (updateHolBlockedTime now s) = st_id s" "isControl (updateHolBlockedTime now s) = isControl s"
  by (simp_all add: updateHolBlockedTime_def split: option.splits)

lemma fraction_frame [simp]:
  "ids_inv (m\<lparr>streamLimitWindowingFraction := n\<rparr>) = ids_inv m" "streams_inv (m\<lparr>streamLimitWindowingFraction := n\<rparr>) = streams_inv m"
  "openPeer u (m\<lparr>streamLimitWindowingFraction := n\<rparr>) = openPeer u m" "nextPeer u (m\<lparr>streamLimitWindowingFraction := n\<rparr>) = nextPeer u m"
  "maxRemote u (m\<lparr>streamLimitWindowingFraction := n\<rparr>) = maxRemote u m"
  "initialLimit u (m\<lparr>streamLimitWindowingFraction := n\<rparr>) = initialLimit u m"
  by (simp_all add: ids_inv_def streams_inv_def kind_defs streamExists_def control_ids_def)

lemma sm_step_inv: "sm_step m m' \<Longrightarrow> sm_inv m \<Longrightarrow> sm_inv m'"
proof (induction rule: sm_step.induct)
  case (refresh ts m m')
  then show ?case using refresh_inv by (simp add: sm_inv_def limit_inv_def)
next
  case (fraction m n)
  then show ?case by (simp add: setStreamLimitWindowingFraction_def sm_inv_def limit_inv_def)
next
  case (control m i s s' m')
  have "card (control_ids m) \<le> card (dom (sm_streams m))"
    by (rule card_mono [OF finite_streams [OF control.prems]]) (auto simp: control_ids_def)
  with control show ?case by (auto intro: setStreamAsControl_inv)
next
  case (handler m i s s')
  then show ?case by (auto intro: putStream_inv)
next
  case (readable m i s now s' m')
  then have "st_id s = i" by (auto simp: sm_inv_def streams_inv_def)
  with readable have "sm_inv (putStream (updateHolBlockedTime now s) (m\<lparr>readableStreams := S\<rparr>))" for S
    by (intro putStream_inv [of _ _ s]) simp_all
  with readable.hyps(2) show ?case by (auto simp: updateReadableStreams_def Let_def)
next
  case (work m m')
  then show ?case by (simp add: sm_work_inv)
qed (auto intro: getStream_inv createStream_inv(1) createNextBidirectionalStream_inv createNextUnidirectionalStream_inv
    removeClosedStream_inv setStreamPriority_inv)

lemma sm_reachable_inv: "sm_reachable m \<Longrightarrow> sm_inv m"
  by (induction rule: sm_reachable.induct) (auto intro: sm_inv_new sm_step_inv)

lemma peer_stream_reached:
  assumes m: "sm_reachable m" and rem: "isRemoteStream (sm_nodeType m) i"
  shows "sm_inv m" "checkPeerStreamId i None m = Inr ()"
    "getStream conn i None m = rbind (getOrCreatePeerStream conn i None m) (\<lambda>(stream, m). Inr (stream, updateAppIdleState m))"
  using sm_reachable_inv [OF m] checkPeerStreamId_None [OF rem] rem by (simp_all add: getStream_def)

text \<open>A client that opens streams one after the other.\<close>

fun createStreams :: "'a ConnBase_scheme \<Rightarrow> nat \<Rightarrow> QuicStreamManager \<Rightarrow> (StreamId list \<times> QuicStreamManager) res" where
  "createStreams conn 0 m = Inr ([], m)"
| "createStreams conn (Suc n) m = rbind (createNextBidirectionalStream conn None m) (\<lambda>(stream, m).
     case stream of Inl e \<Rightarrow> Inr ([], m)
     | Inr i \<Rightarrow> rbind (createStreams conn n m) (\<lambda>(ids, m). Inr (i # ids, m)))"

lemma nextBidirectional_local:
  assumes "sm_inv m"
  shows "isLocalStream (sm_nodeType m) (nextBidirectionalStreamId m)" "\<not> isUnidirectionalStream (nextBidirectionalStreamId m)"
  using assms by (auto simp: sm_inv_def ids_inv_def local_class_iff)

lemma create_next:
  assumes m: "sm_inv m" and i: "nextBidirectionalStreamId m = nextLocal False m" "nextLocal False m < maxLocal False m"
  obtains m' where "createNextBidirectionalStream conn None m = Inr (Inr (nextBidirectionalStreamId m), m')" "sm_inv m'"
    "nextBidirectionalStreamId m' = nextBidirectionalStreamId m + 4" "nextLocal False m' = nextLocal False m + 4"
    "maxLocal False m' = maxLocal False m" "sm_streams m (nextBidirectionalStreamId m) = None"
    "sm_streams m' = (sm_streams m)(nextBidirectionalStreamId m \<mapsto> mkGroupedStreamState (nextBidirectionalStreamId m) None conn)"
proof -
  let ?i = "nextBidirectionalStreamId m"
  note nb = nextBidirectional_local [OF m]
  from local_stream_new [OF m checkLocalStreamId_None [OF nb(1)], of False conn] i nb(2)
  obtain m1 where m1: "createStream conn ?i None m = Inr (Inr ?i, m1)" "sm_inv m1" "sm_streams m ?i = None"
    "sm_streams m1 = (sm_streams m)(?i \<mapsto> mkGroupedStreamState ?i None conn)" "nextLocal False m1 = ?i + 4"
    "maxLocal False m1 = maxLocal False m" "nextBidirectionalStreamId m1 = ?i" by auto
  let ?m = "m1\<lparr>nextBidirectionalStreamId := ?i + 4\<rparr>"
  have c: "createNextBidirectionalStream conn None m = Inr (Inr ?i, ?m)"
    using m1 by (simp add: createNextBidirectionalStream_def)
  show thesis
    by (rule that [OF c createNextBidirectionalStream_inv [OF m c]]) (use m1 i in simp_all)
qed

lemma createStreams_ids:
  assumes "sm_inv m" "nextBidirectionalStreamId m = nextLocal False m" "nextLocal False m + 4 * n \<le> maxLocal False m"
  shows "\<exists>m'. createStreams conn n m = Inr (map (\<lambda>k. nextBidirectionalStreamId m + 4 * k) [0..<n], m') \<and> sm_inv m' \<and>
    nextBidirectionalStreamId m' = nextBidirectionalStreamId m + 4 * n \<and> nextLocal False m' = nextBidirectionalStreamId m' \<and>
    maxLocal False m' = maxLocal False m \<and>
    dom (sm_streams m') = dom (sm_streams m) \<union> {nextBidirectionalStreamId m + 4 * k |k. k < n}"
  using assms
proof (induction n arbitrary: m)
  case 0
  then show ?case by simp
next
  case (Suc n)
  then have "nextLocal False m < maxLocal False m" by simp
  from create_next [OF Suc.prems(1,2) this, of conn] obtain m1 where m1:
    "createNextBidirectionalStream conn None m = Inr (Inr (nextBidirectionalStreamId m), m1)" "sm_inv m1"
    "nextBidirectionalStreamId m1 = nextBidirectionalStreamId m + 4" "nextLocal False m1 = nextLocal False m + 4"
    "maxLocal False m1 = maxLocal False m"
    "sm_streams m1 = (sm_streams m)(nextBidirectionalStreamId m \<mapsto> mkGroupedStreamState (nextBidirectionalStreamId m) None conn)"
    by blast
  have "nextBidirectionalStreamId m1 = nextLocal False m1" "nextLocal False m1 + 4 * n \<le> maxLocal False m1"
    using m1 Suc.prems by simp_all
  from Suc.IH [OF m1(2) this] obtain m' where m':
    "createStreams conn n m1 = Inr (map (\<lambda>k. nextBidirectionalStreamId m1 + 4 * k) [0..<n], m')" "sm_inv m'"
    "nextBidirectionalStreamId m' = nextBidirectionalStreamId m1 + 4 * n" "nextLocal False m' = nextBidirectionalStreamId m'"
    "maxLocal False m' = maxLocal False m1"
    "dom (sm_streams m') = dom (sm_streams m1) \<union> {nextBidirectionalStreamId m1 + 4 * k |k. k < n}" by blast
  have "map (\<lambda>k. nextBidirectionalStreamId m + 4 * k) [0..<Suc n] =
      nextBidirectionalStreamId m # map (\<lambda>k. nextBidirectionalStreamId m + 4 + 4 * k) [0..<n]"
    by (simp add: upt_conv_Cons [of 0 "Suc n"] map_Suc_upt [symmetric] del: upt_Suc)
  moreover have "{nextBidirectionalStreamId m + 4 * k |k. k < Suc n} =
      insert (nextBidirectionalStreamId m) {nextBidirectionalStreamId m + 4 + 4 * k |k. k < n}" (is "?A = insert ?x ?B")
  proof -
    have "?A = (\<lambda>k. ?x + 4 * k) ` {..<Suc n}" "?B = (\<lambda>k. ?x + 4 * Suc k) ` {..<n}" by auto
    then show ?thesis by (simp add: lessThan_Suc_eq_insert_0 image_image)
  qed
  ultimately show ?case using m1 m' by (auto simp: add.assoc)
qed

section \<open>Properties\<close>

text \<open>C15: in every state a connection can reach, every stream with state is open under its own
  identifier; the open streams of each kind were seen before (they lie below the next acceptable
  identifier of the kind) and are of that kind; the priority map has exactly the streams that are
  not control streams, and the control streams are counted; the peer never has more streams open
  or openable than the advertised limit allows.\<close>

theorem stream_manager_invariant:
  assumes "sm_reachable m"
  shows "(\<forall>i s. sm_streams m i = Some s \<longrightarrow> st_id s = i \<and> streamExists i m) \<and>
    (\<forall>uni i. i \<in> openPeer uni m \<longrightarrow> isRemoteStream (sm_nodeType m) i \<and> isUnidirectionalStream i = uni \<and> i < nextPeer uni m) \<and>
    (\<forall>uni i. i \<in> openLocal uni m \<longrightarrow> isLocalStream (sm_nodeType m) i \<and> isUnidirectionalStream i = uni \<and> i < nextLocal uni m) \<and>
    dom (streamPriorityLevelsNoCtrl m) = dom (sm_streams m) - control_ids m \<and>
    numControlStreams m = card (control_ids m) \<and>
    (\<forall>uni. nextPeer uni m \<le> maxRemote uni m \<and> openableRemote uni m + card (openPeer uni m) \<le> initialLimit uni m)"
proof -
  have m: "sm_inv m" by (rule sm_reachable_inv [OF assms])
  then show ?thesis using open_class [OF m]
    by (auto simp: sm_inv_def streams_inv_def limit_inv_def openableRemote_def)
qed

text \<open>C16: a frame for a peer stream that has no state, on every branch. If the stream is open
  already (a higher stream of its kind opened it) it gets its state, and nothing is opened. If it
  was seen before and is not open it is closed: no state is created and nothing is returned.
  Beyond the limit it is a stream limit error. Otherwise the stream and all lower streams of its
  kind that were not seen become open, and the stream gets its state. The state has the initial
  windows of its kind. The new streams reported to the application are the streams that became
  open, in ascending order; under \<^verbatim>\<open>notifyOnNewStreamsExplicitly\<close> they are the one stream that
  got its state.\<close>

theorem peer_stream_opening:
  fixes m :: QuicStreamManager and i :: StreamId
  defines "uni \<equiv> isUnidirectionalStream i" and "explicit \<equiv> ts_notifyOnNewStreamsExplicitly (sm_transportSettings m)"
  assumes "sm_reachable m" "isRemoteStream (sm_nodeType m) i" "sm_streams m i = None"
  shows "(i \<in> openPeer uni m \<longrightarrow> (\<exists>m'. getStream conn i None m = Inr (Some i, m') \<and>
       openPeer uni m' = openPeer uni m \<and> nextPeer uni m' = nextPeer uni m \<and>
       sm_streams m' = (sm_streams m)(i \<mapsto> mkGroupedStreamState i None conn) \<and>
       newPeerStreams m' = newPeerStreams m @ (if explicit then [i] else []))) \<and>
    (i \<notin> openPeer uni m \<and> i < nextPeer uni m \<longrightarrow> getStream conn i None m = Inr (None, updateAppIdleState m)) \<and>
    (nextPeer uni m \<le> i \<and> maxRemote uni m \<le> i \<longrightarrow>
       getStream conn i None m = Inl (QuicTransportException TE_STREAM_LIMIT_ERROR)) \<and>
    (nextPeer uni m \<le> i \<and> i < maxRemote uni m \<longrightarrow> (\<exists>m'. getStream conn i None m = Inr (Some i, m') \<and>
       openPeer uni m' = openPeer uni m \<union> {k. nextPeer uni m \<le> k \<and> k \<le> i \<and> k mod 4 = i mod 4} \<and>
       nextPeer uni m' = i + 4 \<and> sm_streams m' = (sm_streams m)(i \<mapsto> mkGroupedStreamState i None conn) \<and>
       newPeerStreams m' = newPeerStreams m @
         (if explicit then [i] else [k \<leftarrow> [nextPeer uni m..<Suc i]. k mod 4 = i mod 4])))"
proof -
  note r = peer_stream_reached [OF assms(3,4)]
  have u: "uni = isUnidirectionalStream i" by (simp add: uni_def)
  have new: "newPeerStreams (updateAppIdleState m') = newPeerStreams m'" for m'
    by (simp add: updateAppIdleState_def Let_def)
  have lazy: "\<exists>m'. getStream conn i None m = Inr (Some i, m') \<and>
       openPeer uni m' = openPeer uni m \<and> nextPeer uni m' = nextPeer uni m \<and>
       sm_streams m' = (sm_streams m)(i \<mapsto> mkGroupedStreamState i None conn) \<and>
       newPeerStreams m' = newPeerStreams m @ (if explicit then [i] else [])" if op: "i \<in> openPeer uni m"
  proof -
    obtain m' where "getOrCreatePeerStream conn i None m = Inr (Some i, m')"
      "sm_streams m' = (sm_streams m)(i \<mapsto> mkGroupedStreamState i None conn)"
      "openPeer uni m' = openPeer uni m" "nextPeer uni m' = nextPeer uni m"
      "newPeerStreams m' = newPeerStreams m @ (if explicit then [i] else [])"
      using peer_stream_lazy [OF r(1,2) assms(5) u op, of conn] unfolding explicit_def by blast
    then show ?thesis
      by (intro exI [of _ "updateAppIdleState m'"] conjI) (simp_all add: r(3) new)
  qed
  have seen: "getStream conn i None m = Inr (None, updateAppIdleState m)" if "i \<notin> openPeer uni m" "i < nextPeer uni m"
    using peer_stream_seen [OF r(2) assms(5), of conn] that by (simp add: r(3) u)
  have over: "getStream conn i None m = Inl (QuicTransportException TE_STREAM_LIMIT_ERROR)"
    if "nextPeer uni m \<le> i" "maxRemote uni m \<le> i"
  proof -
    have "i \<notin> openPeer uni m" using open_class(2) [OF r(1), of i uni] that(1) by auto
    then show ?thesis using peer_stream_over_limit [OF r(2) assms(5), of conn] that by (simp add: r(3) u)
  qed
  have opened: "\<exists>m'. getStream conn i None m = Inr (Some i, m') \<and>
       openPeer uni m' = openPeer uni m \<union> {k. nextPeer uni m \<le> k \<and> k \<le> i \<and> k mod 4 = i mod 4} \<and>
       nextPeer uni m' = i + 4 \<and> sm_streams m' = (sm_streams m)(i \<mapsto> mkGroupedStreamState i None conn) \<and>
       newPeerStreams m' = newPeerStreams m @
         (if explicit then [i] else [k \<leftarrow> [nextPeer uni m..<Suc i]. k mod 4 = i mod 4])"
    if i: "nextPeer uni m \<le> i" "i < maxRemote uni m"
  proof -
    have "i mod 4 = remoteClass (sm_nodeType m) uni" using assms(4) by (simp add: remote_class_iff uni_def)
    then have cls: "nextPeer uni m mod 4 = i mod 4"
      using r(1) ids_invD(3) [of m uni] by (simp add: sm_inv_def kind_inv_def)
    obtain m' where m': "getOrCreatePeerStream conn i None m = Inr (Some i, m')"
      "sm_streams m' = (sm_streams m)(i \<mapsto> mkGroupedStreamState i None conn)"
      "openPeer uni m' = openPeer uni m \<union> set (ids_between (nextPeer uni m) i)" "nextPeer uni m' = i + 4"
      "newPeerStreams m' = newPeerStreams m @ (if explicit then [i] else ids_between (nextPeer uni m) i)"
      unfolding explicit_def by (rule peer_stream_new [OF r(1,2) assms(5) u i, of conn]) simp
    show ?thesis
      by (rule exI [of _ "updateAppIdleState m'"])
        (use m' cls new in \<open>simp add: r(3) set_ids_between ids_between_def less_Suc_eq_le del: upt_Suc\<close>)
  qed
  show ?thesis using lazy seen over opened by blast
qed

text \<open>C18: local streams are numbered without gaps. An endpoint that opens its bidirectional streams
  one after the other gets the identifiers in steps of four from the next one on, as many as the
  peer's limit allows, none of which had state before; the state changes nothing else, and at the
  limit the creation fails without changing anything.\<close>

theorem local_streams_consecutive:
  assumes "sm_reachable m" "nextBidirectionalStreamId m = nextLocal False m" "nextLocal False m + 4 * n \<le> maxLocal False m"
  shows "\<exists>m'. createStreams conn n m = Inr (map (\<lambda>k. nextBidirectionalStreamId m + 4 * k) [0..<n], m') \<and>
    dom (sm_streams m') = dom (sm_streams m) \<union> {nextBidirectionalStreamId m + 4 * k |k. k < n} \<and>
    dom (sm_streams m) \<inter> {nextBidirectionalStreamId m + 4 * k |k. k < n} = {} \<and>
    (nextLocal False m + 4 * n = maxLocal False m \<longrightarrow>
       createNextBidirectionalStream conn None m' = Inr (Inl LE_STREAM_LIMIT_EXCEEDED, m'))"
proof -
  have m: "sm_inv m" by (rule sm_reachable_inv [OF assms(1)])
  from createStreams_ids [OF m assms(2,3), of conn] obtain m' where m':
    "createStreams conn n m = Inr (map (\<lambda>k. nextBidirectionalStreamId m + 4 * k) [0..<n], m')" "sm_inv m'"
    "nextBidirectionalStreamId m' = nextBidirectionalStreamId m + 4 * n" "nextLocal False m' = nextBidirectionalStreamId m'"
    "maxLocal False m' = maxLocal False m"
    "dom (sm_streams m') = dom (sm_streams m) \<union> {nextBidirectionalStreamId m + 4 * k |k. k < n}" by blast
  have fresh: "sm_streams m (nextBidirectionalStreamId m + 4 * k) = None" for k
  proof (rule ccontr)
    let ?j = "nextBidirectionalStreamId m + 4 * k"
    assume "sm_streams m ?j \<noteq> None"
    then have ex: "streamExists ?j m" using m by (auto simp: sm_inv_def streams_inv_def)
    have "isLocalStream (sm_nodeType m) ?j" "\<not> isUnidirectionalStream ?j"
      using nextBidirectional_local [OF m] stream_class_eq [of ?j "nextBidirectionalStreamId m"] by simp_all
    with ex have "?j \<in> openLocal False m" by (simp add: streamExists_alt)
    with open_class(1) [OF m] assms(2) show False by fastforce
  qed
  note nb = nextBidirectional_local [OF m'(2)]
  have "nextBidirectionalStreamId m' \<notin> openLocal False m'" using open_class(1) [OF m'(2)] m'(4) by fastforce
  then have "nextLocal False m + 4 * n = maxLocal False m \<Longrightarrow>
      createNextBidirectionalStream conn None m' = Inr (Inl LE_STREAM_LIMIT_EXCEEDED, m')"
    using local_stream_refused(2) [OF checkLocalStreamId_None [OF nb(1)], of conn] nb(2) m' assms(2)
    by (simp add: createNextBidirectionalStream_def)
  with m' fresh show ?thesis by (intro exI [of _ m']) auto
qed

text \<open>C17: closing a peer stream that is not a control stream. The credit is the advertised number
  of streams less the streams that stay open and those the peer may still open; if it reaches the
  windowing fraction of the advertised number, the limit is due to rise by the credit. If the new
  limit is beyond the protocol's maximum the call fails with a stream limit error. In every other
  case the state of the stream, its entry in the open streams, in the priority map, in all work
  sets and in the map of the write queue are gone, the other streams stay, and so do the lists of
  new and of closed streams that the application has not fetched yet. Then either the credit is
  below the fraction and the limit stays, or the streams open and openable are again exactly the
  advertised number, and the new limit is recorded for a \<^verbatim>\<open>MAX_STREAMS\<close> frame.\<close>

theorem closed_peer_stream_credited:
  fixes m :: QuicStreamManager and i :: StreamId
  defines "uni \<equiv> isUnidirectionalStream i"
  defines "credit \<equiv> initialLimit uni m - openableRemote uni m - card (openPeer uni m - {i})"
  defines "due \<equiv> initialLimit uni m div streamLimitWindowingFraction m \<le> credit"
    and "newLimit \<equiv> (maxRemote uni m - initialRemote uni m) div 4 + credit"
  assumes "sm_reachable m" "sm_streams m i = Some s" "\<not> isControl s" "isRemoteStream (sm_nodeType m) i"
  shows "if due \<and> kMaxMaxStreams < newLimit
    then removeClosedStream i m = Inl (QuicTransportException TE_STREAM_LIMIT_ERROR)
    else \<exists>m'. removeClosedStream i m = Inr m' \<and>
      sm_streams m' = (sm_streams m)(i := None) \<and> openPeer uni m' = openPeer uni m - {i} \<and>
      streamPriorityLevelsNoCtrl m' i = None \<and> untracked i m' \<and> pq_count i (writeQueue m') = 0 \<and>
      newPeerStreams m' = newPeerStreams m \<and> closedStreams m' = closedStreams m \<and>
      (if due then openableRemote uni m' + card (openPeer uni m') = initialLimit uni m \<and>
         maxRemote uni m < maxRemote uni m' \<and> maxRemote uni m' = newLimit * 4 + initialRemote uni m \<and>
         (if uni then remoteUniStreamLimitUpdate m' else remoteBidiStreamLimitUpdate m') = Some newLimit
       else maxRemote uni m' = maxRemote uni m)"
proof -
  have m: "sm_inv m" by (rule sm_reachable_inv [OF assms(5)])
  have id: "st_id s = i" using m assms(6) by (auto simp: sm_inv_def streams_inv_def)
  define m2 where "m2 = setOpenPeer uni (openPeer uni m - {i}) (dropStream i s (forgetStream i s m))"
  note cl = close_peer(1,2) [OF m assms(6,8), folded uni_def, folded m2_def]
  have rm: "removeClosedStream i m = rbind (updateStreamLimit uni m2) (\<lambda>m. Inr (updateAppIdleState m))"
    using assms(8) removeClosedStream_eq [OF m assms(6)] by (simp add: Let_def uni_def m2_def)
  have same: "sm_streams m2 = (sm_streams m)(i := None)" "openPeer uni m2 = openPeer uni m - {i}" "untracked i m2"
    "pq_count i (writeQueue m2) = 0" "maxRemote uni m2 = maxRemote uni m" "openableRemote uni m2 = openableRemote uni m"
    "initialLimit uni m2 = initialLimit uni m" "streamLimitWindowingFraction m2 = streamLimitWindowingFraction m"
    "initialRemote uni m2 = initialRemote uni m"
    using untracked_forget [OF id, of m] queues_forget(2) [OF id assms(7), of m] by (simp_all add: m2_def openableRemote_def)
  have lists: "newPeerStreams m2 = newPeerStreams m" "closedStreams m2 = closedStreams m"
    "streamPriorityLevelsNoCtrl m2 i = None"
    using assms(7) by (simp_all add: m2_def setOpenPeer_def dropStream_def forgetStream_def removeWritable_def
        eraseFromWriteQueues_def Let_def)
  have spec: "updateStreamLimit uni m2 = (if \<not> due then Inr m2
      else if kMaxMaxStreams < newLimit then Inl (QuicTransportException TE_STREAM_LIMIT_ERROR)
      else Inr (raiseLimit uni newLimit m2))"
    using updateStreamLimit_spec [OF cl] by (simp add: same credit_def due_def newLimit_def not_le)
  have idle: "newPeerStreams (updateAppIdleState x) = newPeerStreams x" "closedStreams (updateAppIdleState x) = closedStreams x"
    "streamPriorityLevelsNoCtrl (updateAppIdleState x) = streamPriorityLevelsNoCtrl x" for x
    by (simp_all add: updateAppIdleState_def Let_def)
  consider (refused) "due" "kMaxMaxStreams < newLimit" | (kept) "\<not> due" | (raised) "due" "newLimit \<le> kMaxMaxStreams"
    by linarith
  then show ?thesis
  proof cases
    case refused
    then show ?thesis by (simp add: rm spec)
  next
    case kept
    then show ?thesis using same lists by (simp add: rm spec idle)
  next
    case raised
    let ?m = "raiseLimit uni newLimit m2"
    have eq: "openableRemote uni ?m + card (openPeer uni m2) = initialLimit uni m2"
      using raiseLimit_inv(2) [OF cl(1) less_imp_le [OF cl(2)]] raised(2) by (simp add: newLimit_def credit_def same)
    have mx: "maxRemote uni ?m = newLimit * 4 + initialRemote uni m" by (simp add: same)
    have gt: "maxRemote uni m < maxRemote uni ?m"
      unfolding mx using maxRemote_limit(1) [OF cl(1), of uni] cl(2) by (simp add: newLimit_def credit_def same)
    have keep: "newPeerStreams ?m = newPeerStreams m2" "closedStreams ?m = closedStreams m2"
      "streamPriorityLevelsNoCtrl ?m = streamPriorityLevelsNoCtrl m2"
      "(if uni then remoteUniStreamLimitUpdate (updateAppIdleState ?m) else remoteBidiStreamLimitUpdate (updateAppIdleState ?m)) = Some newLimit"
      by (simp_all add: raiseLimit_def updateAppIdleState_def Let_def)
    from raised eq gt mx keep same lists show ?thesis by (simp add: rm spec idle)
  qed
qed

text \<open>C39: marking a queued stream as a control stream does not move it to the queue of the control
  streams, and closing a control stream does not look for it in the other queue: its identifier
  stays in the write queue after the state of the stream is gone.\<close>

theorem control_stream_left_in_write_queue:
  assumes "sm_reachable m" "sm_streams m i = Some s" "\<not> isControl s" "pq_count i (writeQueue m) = 1"
    and "card (dom (sm_streams m)) < u64_max" "setStreamAsControl s m = (s', m1)"
    and "removeClosedStream i (putStream s' m1) = Inr m2"
  shows "sm_streams m2 i = None \<and> pq_count i (writeQueue m2) = 1"
proof -
  have m: "sm_inv m" by (rule sm_reachable_inv [OF assms(1)])
  have id: "st_id s = i" using m assms(2) by (auto simp: sm_inv_def streams_inv_def)
  let ?m = "putStream s' m1"
  have step: "sm_step m ?m" by (rule sm_step.control [OF assms(2,5,6)])
  then have inv: "sm_inv ?m" using m sm_step_inv by blast
  have s': "s' = s\<lparr>isControl := True\<rparr>" and q: "writeQueue ?m = writeQueue m"
    using assms(3,6) by (auto simp: setStreamAsControl_def putStream_def updateAppIdleState_def Let_def)
  have i: "sm_streams ?m i = Some s'" using id by (simp add: putStream_def s')
  have q2: "writeQueue (forgetStream i s' ?m) = writeQueue m" using queues_forget(1) [of s' i ?m] id q by (simp add: s')
  have *: "sm_streams x = (sm_streams ?m)(i := None) \<and> writeQueue x = writeQueue m"
    if "updateStreamLimit uni y = Inr x" "sm_streams y = (sm_streams ?m)(i := None)" "writeQueue y = writeQueue m" for x y uni
    using that by (auto simp: updateStreamLimit_def setMaxRemoteUnidirectionalStreams_def setMaxRemoteBidirectionalStreams_def
        setMaxRemoteUnidirectionalStreamsInternal_def setMaxRemoteBidirectionalStreamsInternal_def Let_def split: if_splits)
  have "sm_streams m2 = (sm_streams ?m)(i := None) \<and> writeQueue m2 = writeQueue m"
    using assms(7) q2 unfolding removeClosedStream_eq [OF inv i] Let_def
    by (auto split: if_splits dest!: *)
  with assms(4) show ?thesis by simp
qed

section \<open>Witnesses\<close>

definition example_settings :: TransportSettings where
  "example_settings = \<lparr>ts_advertisedInitialConnectionWindowSize = 1000,
     ts_advertisedInitialBidiLocalStreamWindowSize = 100, ts_advertisedInitialBidiRemoteStreamWindowSize = 100,
     ts_advertisedInitialUniStreamWindowSize = 100, ts_advertisedInitialMaxStreamsBidi = 2,
     ts_advertisedInitialMaxStreamsUni = 2, ts_flowControlRttFrequency = 2, ts_flowControlWindowFrequency = 2,
     ts_autotuneReceiveConnFlowControl = False, ts_notifyOnNewStreamsExplicitly = False,
     ts_advertisedMaxStreamGroups = 0, ts_defaultPriority = kDefaultPriority, ts_priorityQueueWritesPerStream = 1\<rparr>"

definition example_flow :: ConnectionFlowControlState where
  "example_flow = \<lparr>cfc_windowSize = 1000, cfc_advertisedMaxOffset = 1000, cfc_peerAdvertisedMaxOffset = 1000,
     cfc_sumCurReadOffset = 0, cfc_sumMaxObservedOffset = 0, cfc_sumCurWriteOffset = 0, cfc_sumCurStreamBufferLen = 0,
     cfc_largestMaxOffsetReceived = None, cfc_peerAdvertisedInitialMaxStreamOffsetBidiLocal = 100,
     cfc_peerAdvertisedInitialMaxStreamOffsetBidiRemote = 100, cfc_peerAdvertisedInitialMaxStreamOffsetUni = 100,
     cfc_timeOfLastFlowControlUpdate = None\<rparr>"

definition example_conn :: ConnBase where
  "example_conn = \<lparr>conn_nodeType = Server, conn_transportSettings = example_settings, conn_flowControlState = example_flow\<rparr>"

text \<open>A new server, and the server after the peer opened stream 0.\<close>

definition example_server :: QuicStreamManager where
  "example_server = projr (mkQuicStreamManager Server example_settings)"

definition example_opened :: QuicStreamManager where
  "example_opened = snd (projr (getStream example_conn 0 None example_server))"

lemma example_server_new: "mkQuicStreamManager Server example_settings = Inr example_server"
  by (simp add: example_server_def mkQuicStreamManager_def refreshTransportSettings_def example_settings_def Let_def
      setMaxRemoteBidirectionalStreamsInternal_def setMaxRemoteUnidirectionalStreamsInternal_def kMaxMaxStreams_def)

lemma example_server_reachable: "sm_reachable example_server"
  by (rule sm_reachable.new [OF example_server_new])

lemma example_server_fields:
  "sm_nodeType example_server = Server" "sm_streams example_server = Map.empty" "openPeer uni example_server = {}"
  "nextPeer False example_server = 0" "maxRemote False example_server = 8" "initialRemote False example_server = 0"
  "sm_transportSettings example_server = example_settings" "newPeerStreams example_server = []"
  "streamLimitWindowingFraction example_server = 2" "streamPriorityLevelsNoCtrl example_server = Map.empty"
  "numControlStreams example_server = 0" "writeQueue example_server = setMaxNextsPerStream 1 emptyPriorityQueue"
  by (simp_all add: example_server_def mkQuicStreamManager_def refreshTransportSettings_def example_settings_def Let_def
      setMaxRemoteBidirectionalStreamsInternal_def setMaxRemoteUnidirectionalStreamsInternal_def kMaxMaxStreams_def
      emptyStreamManager_def kind_defs)

lemma zero_class [simp]: "\<not> isUnidirectionalStream 0" "isRemoteStream Server 0"
  by (simp_all add: stream_id_simps isRemoteStream_def)

lemma peer_fields [simp]:
  "maxRemote u (m\<lparr>sm_streams := z\<rparr>) = maxRemote u m" "maxRemote u (m\<lparr>streamPriorityLevelsNoCtrl := y\<rparr>) = maxRemote u m"
  "maxRemote u (m\<lparr>newPeerStreams := x\<rparr>) = maxRemote u m" "openPeer u (m\<lparr>newPeerStreams := x\<rparr>) = openPeer u m"
  "nextPeer u (m\<lparr>sm_streams := z\<rparr>) = nextPeer u m" "nextPeer u (m\<lparr>streamPriorityLevelsNoCtrl := y\<rparr>) = nextPeer u m"
  "nextPeer u (m\<lparr>newPeerStreams := x\<rparr>) = nextPeer u m"
  "initialRemote u (m\<lparr>sm_streams := z\<rparr>) = initialRemote u m" "initialRemote u (m\<lparr>streamPriorityLevelsNoCtrl := y\<rparr>) = initialRemote u m"
  "initialRemote u (m\<lparr>newPeerStreams := x\<rparr>) = initialRemote u m" "initialRemote u (updateAppIdleState m) = initialRemote u m"
  by (simp_all add: kind_defs updateAppIdleState_def Let_def)

lemma example_opened_eq:
  "getStream example_conn 0 None example_server = Inr (Some 0, example_opened)"
  "example_opened = updateAppIdleState ((setNextPeer False 4 (setOpenPeer False {0} example_server))\<lparr>newPeerStreams := [0],
     sm_streams := [0 \<mapsto> mkGroupedStreamState 0 None example_conn],
     streamPriorityLevelsNoCtrl := [0 \<mapsto> pri_level (priority (mkGroupedStreamState 0 None example_conn))]\<rparr>)"
proof -
  have "isRemoteStream (sm_nodeType example_server) 0" by (simp add: example_server_fields)
  note r = peer_stream_reached [OF example_server_reachable this]
  have "getOrCreatePeerStream example_conn 0 None example_server = Inr (Some 0,
    (setNextPeer False 4 (setOpenPeer False {0} example_server))\<lparr>newPeerStreams := [0],
     sm_streams := [0 \<mapsto> mkGroupedStreamState 0 None example_conn],
     streamPriorityLevelsNoCtrl := [0 \<mapsto> pri_level (priority (mkGroupedStreamState 0 None example_conn))]\<rparr>)"
    by (simp add: getOrCreatePeerStream_def r(2) example_server_fields openPeerStreamIfNotClosed_def openLoop_eq
        ids_between_def instantiatePeerStream_def map_emplace_def addToStreamPriorityMap_def Let_def example_settings_def)
  then have "getStream example_conn 0 None example_server = Inr (Some 0, updateAppIdleState
    ((setNextPeer False 4 (setOpenPeer False {0} example_server))\<lparr>newPeerStreams := [0],
     sm_streams := [0 \<mapsto> mkGroupedStreamState 0 None example_conn],
     streamPriorityLevelsNoCtrl := [0 \<mapsto> pri_level (priority (mkGroupedStreamState 0 None example_conn))]\<rparr>))"
    by (simp add: r(3))
  then show "getStream example_conn 0 None example_server = Inr (Some 0, example_opened)"
    "example_opened = updateAppIdleState ((setNextPeer False 4 (setOpenPeer False {0} example_server))\<lparr>newPeerStreams := [0],
     sm_streams := [0 \<mapsto> mkGroupedStreamState 0 None example_conn],
     streamPriorityLevelsNoCtrl := [0 \<mapsto> pri_level (priority (mkGroupedStreamState 0 None example_conn))]\<rparr>)"
    by (simp_all add: example_opened_def)
qed

lemma example_opened_reachable: "sm_reachable example_opened"
  by (rule sm_reachable.step [OF example_server_reachable sm_step.get [OF example_opened_eq(1)]])

theorem stream_manager_invariant_witness:
  "sm_reachable example_opened \<and> streamExists 0 example_opened"
  using stream_manager_invariant [OF example_opened_reachable] example_opened_reachable
  by (simp add: example_opened_eq(2))

text \<open>Stream 4 opens stream 0 as well, which gets its state with its own first frame.\<close>

definition example_lazy :: QuicStreamManager where
  "example_lazy = snd (projr (getStream example_conn 4 None example_server))"

lemma example_lazy_eq:
  "example_lazy = updateAppIdleState ((setNextPeer False 8 (setOpenPeer False {0, 4} example_server))\<lparr>newPeerStreams := [0, 4],
     sm_streams := [4 \<mapsto> mkGroupedStreamState 4 None example_conn],
     streamPriorityLevelsNoCtrl := [4 \<mapsto> pri_level (priority (mkGroupedStreamState 4 None example_conn))]\<rparr>)"
  (is "_ = updateAppIdleState ?m")
proof -
  have four: "\<not> isUnidirectionalStream 4" "isRemoteStream (sm_nodeType example_server) 4"
    by (simp_all add: stream_id_simps isRemoteStream_def example_server_fields)
  have ids: "ids_between 0 4 = [0, 4]" by (simp add: ids_between_def upt_rec)
  note r = peer_stream_reached [OF example_server_reachable four(2)]
  have "getOrCreatePeerStream example_conn 4 None example_server = Inr (Some 4, ?m)"
    by (simp add: getOrCreatePeerStream_def r(2) four(1) example_server_fields openPeerStreamIfNotClosed_def openLoop_eq
        ids instantiatePeerStream_def map_emplace_def addToStreamPriorityMap_def Let_def example_settings_def)
  then show ?thesis by (simp add: example_lazy_def r(3))
qed

theorem peer_stream_opening_witness:
  "getStream example_conn 4 None example_server = Inr (Some 4, example_lazy) \<and> nextPeer False example_lazy = 8 \<and>
   newPeerStreams example_lazy = [0, 4] \<and>
   (\<exists>m'. getStream example_conn 0 None example_lazy = Inr (Some 0, m') \<and> newPeerStreams m' = [0, 4])"
proof -
  have four: "\<not> isUnidirectionalStream 4" "isRemoteStream Server 4"
    by (simp_all add: stream_id_simps isRemoteStream_def)
  obtain m' where m': "getStream example_conn 4 None example_server = Inr (Some 4, m')"
    "openPeer False m' = {k. k \<le> 4 \<and> k mod 4 = 0}" "nextPeer False m' = 8"
    "sm_streams m' = [4 \<mapsto> mkGroupedStreamState 4 None example_conn]"
    using peer_stream_opening [of example_server 4 example_conn] four
    by (auto simp: example_server_reachable example_server_fields example_settings_def simp del: upt_Suc)
  have lz: "example_lazy = m'" using m'(1) by (simp add: example_lazy_def)
  have "sm_reachable m'" by (rule sm_reachable.step [OF example_server_reachable sm_step.get [OF m'(1)]])
  moreover have "sm_nodeType m' = Server" "sm_transportSettings m' = example_settings"
    using example_lazy_eq unfolding lz
    by (simp_all add: example_server_fields updateAppIdleState_def setNextPeer_def setOpenPeer_def Let_def)
  ultimately have "\<exists>m''. getStream example_conn 0 None m' = Inr (Some 0, m'') \<and> newPeerStreams m'' = newPeerStreams m'"
    using peer_stream_opening [of m' 0 example_conn] m'(2,4) by (auto simp: example_settings_def)
  moreover have "newPeerStreams m' = [0, 4]" 
    using example_lazy_eq unfolding lz by (simp add: updateAppIdleState_def setNextPeer_def setOpenPeer_def Let_def)
  ultimately show ?thesis using m'(1,3) by (simp add: lz)
qed

text \<open>A client whose peer allows three bidirectional streams.\<close>

definition example_client :: QuicStreamManager where
  "example_client = projr (rbind (mkQuicStreamManager Client example_settings) (setMaxLocalBidirectionalStreams 3 False))"

lemma example_client_reachable: "sm_reachable example_client"
proof -
  let ?m = "projr (mkQuicStreamManager Client example_settings)"
  have new: "mkQuicStreamManager Client example_settings = Inr ?m"
    by (simp add: mkQuicStreamManager_def refreshTransportSettings_def example_settings_def Let_def
      setMaxRemoteBidirectionalStreamsInternal_def setMaxRemoteUnidirectionalStreamsInternal_def kMaxMaxStreams_def)
  then have "example_client = projr (setMaxLocalBidirectionalStreams 3 False ?m)"
    unfolding example_client_def by (metis rbind.simps(2))
  moreover have "\<not> isl (setMaxLocalBidirectionalStreams 3 False ?m)"
    by (simp add: setMaxLocalBidirectionalStreams_def kMaxMaxStreams_def Let_def)
  ultimately have "setMaxLocalBidirectionalStreams 3 False ?m = Inr example_client" by (metis sum.collapse(2))
  then show ?thesis by (intro sm_reachable.step [OF sm_reachable.new [OF new]] sm_step.work sm_work.intros)
qed

lemma example_client_fields:
  "nextBidirectionalStreamId example_client = 0" "nextLocal False example_client = 0" "maxLocal False example_client = 12"
  by (simp_all add: example_client_def mkQuicStreamManager_def refreshTransportSettings_def example_settings_def Let_def
      setMaxRemoteBidirectionalStreamsInternal_def setMaxRemoteUnidirectionalStreamsInternal_def kMaxMaxStreams_def
      emptyStreamManager_def setMaxLocalBidirectionalStreams_def kind_defs)

theorem local_streams_consecutive_witness:
  "\<exists>m'. createStreams example_conn 3 example_client = Inr ([0, 4, 8], m') \<and>
    createNextBidirectionalStream example_conn None m' = Inr (Inl LE_STREAM_LIMIT_EXCEEDED, m')"
  using local_streams_consecutive [OF example_client_reachable, of 3 example_conn]
  by (simp add: example_client_fields eval_nat_numeral) blast

lemma opened_simps [simp]:
  "streamLimitWindowingFraction (updateAppIdleState m) = streamLimitWindowingFraction m"
  "writeQueue (setNextPeer uni i m) = writeQueue m"
  "initialLimit u (m\<lparr>sm_streams := z\<rparr>) = initialLimit u m" "initialLimit u (m\<lparr>streamPriorityLevelsNoCtrl := y\<rparr>) = initialLimit u m"
  "initialLimit u (m\<lparr>newPeerStreams := x\<rparr>) = initialLimit u m" "initialLimit False example_server = 2"
  by (simp_all add: updateAppIdleState_def Let_def setNextPeer_def initialLimit_def example_server_fields example_settings_def)

lemma example_opened_fields:
  "sm_nodeType example_opened = Server" "sm_streams example_opened 0 = Some (mkGroupedStreamState 0 None example_conn)"
  "openPeer False example_opened = {0}" "nextPeer False example_opened = 4" "maxRemote False example_opened = 8"
  "initialRemote False example_opened = 0" "initialLimit False example_opened = 2" "openableRemote False example_opened = 1"
  "streamLimitWindowingFraction example_opened = 2" "card (dom (sm_streams example_opened)) = 1"
  "writeQueue example_opened = setMaxNextsPerStream 1 emptyPriorityQueue"
  by (simp_all add: example_opened_eq(2) example_server_fields openableRemote_def [of False "updateAppIdleState m" for m]
      openableRemote_def)

lemma remove_peer_succeeds:
  fixes m i
  defines "uni \<equiv> isUnidirectionalStream i"
  assumes m: "sm_inv m" and s: "sm_streams m i = Some s" and rem: "isRemoteStream (sm_nodeType m) i"
    and room: "(maxRemote uni m - initialRemote uni m) div 4 + initialLimit uni m \<le> kMaxMaxStreams"
  obtains m' where "removeClosedStream i m = Inr m'"
proof -
  let ?m = "setOpenPeer uni (openPeer uni m - {i}) (dropStream i s (forgetStream i s m))"
  note cl = close_peer(1,2) [OF m s rem, folded uni_def]
  have same: "maxRemote uni ?m = maxRemote uni m" "initialRemote uni ?m = initialRemote uni m"
    "initialLimit uni ?m = initialLimit uni m" by simp_all
  obtain m3 where "updateStreamLimit uni ?m = Inr m3"
    using updateStreamLimit_spec [OF cl, unfolded same] room by (cases "updateStreamLimit uni ?m") (auto split: if_splits)
  then show thesis using that rem by (simp add: removeClosedStream_eq [OF m s] Let_def uni_def)
qed

theorem closed_peer_stream_credited_witness:
  "\<exists>m'. removeClosedStream 0 example_opened = Inr m' \<and> sm_streams m' 0 = None \<and> untracked 0 m' \<and>
     maxRemote False example_opened = 8 \<and> remoteBidiStreamLimitUpdate m' = Some ((maxRemote False m') div 4) \<and> 8 < maxRemote False m'"
proof -
  note s = example_opened_fields(2)
  have "kMaxMaxStreams \<ge> 4" by (simp add: kMaxMaxStreams_def)
  then show ?thesis
    using closed_peer_stream_credited [OF example_opened_reachable s] by (auto simp: example_opened_fields)
qed

lemma limit_frame [simp]:
  "maxRemote u (m\<lparr>writeQueue := a\<rparr>) = maxRemote u m"
  "maxRemote u (m\<lparr>lossStreams := b\<rparr>) = maxRemote u m"
  "maxRemote u (m\<lparr>numControlStreams := c\<rparr>) = maxRemote u m"
  "initialRemote u (m\<lparr>writeQueue := a\<rparr>) = initialRemote u m"
  "initialRemote u (m\<lparr>lossStreams := b\<rparr>) = initialRemote u m"
  "initialRemote u (m\<lparr>numControlStreams := c\<rparr>) = initialRemote u m"
  "initialLimit u (m\<lparr>writeQueue := a\<rparr>) = initialLimit u m"
  "initialLimit u (m\<lparr>lossStreams := b\<rparr>) = initialLimit u m"
  "initialLimit u (m\<lparr>numControlStreams := c\<rparr>) = initialLimit u m"
  "initialLimit u (putStream s m) = initialLimit u m" "maxRemote u (putStream s m) = maxRemote u m"
  "initialRemote u (putStream s m) = initialRemote u m" "sm_nodeType (putStream s m) = sm_nodeType m"
  by (simp_all add: kind_defs putStream_def)

definition example_queued :: QuicStreamManager where
  "example_queued = projr (addWritable ((mkGroupedStreamState 0 None example_conn)
     \<lparr>lossBuffer := [\<lparr>sb_data = [7], sb_offset = 0, sb_eof = False\<rparr>]\<rparr>) example_opened)"

theorem control_stream_left_in_write_queue_witness:
  "\<exists>s' m1 m2. sm_reachable example_queued \<and>
     setStreamAsControl (mkGroupedStreamState 0 None example_conn) example_queued = (s', m1) \<and>
     removeClosedStream 0 (putStream s' m1) = Inr m2 \<and> pq_count 0 (writeQueue m2) = 1"
proof -
  let ?s = "mkGroupedStreamState 0 None example_conn"
  let ?q = "insertOrUpdate 0 (priority ?s) (writeQueue example_opened)"
  have w: "addWritable (?s\<lparr>lossBuffer := [\<lparr>sb_data = [7], sb_offset = 0, sb_eof = False\<rparr>]\<rparr>) example_opened = Inr
      (example_opened\<lparr>writeQueue := ?q, lossStreams := insert 0 (lossStreams example_opened)\<rparr>)"
    by (simp add: addWritable_def hasSchedulableData_def hasWritableData_def hasWritableBufMeta_def res_or_def check_def
        mkGroupedStreamState_def mkQuicStreamState_def defaultStream_def emptyWriteBufferMeta_def Let_def)
  then have eq: "example_queued = example_opened\<lparr>writeQueue := ?q, lossStreams := insert 0 (lossStreams example_opened)\<rparr>"
    by (simp add: example_queued_def)
  have reach: "sm_reachable example_queued"
    unfolding eq by (rule sm_reachable.step [OF example_opened_reachable sm_step.work [OF sm_work.intros(3) [OF w]]])
  have s: "sm_streams example_queued 0 = Some ?s" "card (dom (sm_streams example_queued)) < u64_max"
    by (simp_all add: eq example_opened_fields u64_max_def)
  have q: "pq_count 0 (writeQueue example_queued) = 1"
    by (simp add: eq example_opened_fields insertOrUpdate_def pq_count_def setMaxNextsPerStream_def emptyPriorityQueue_def Let_def)
  define s' where "s' = ?s\<lparr>isControl := True\<rparr>"
  define m1 where "m1 = updateAppIdleState (example_queued\<lparr>numControlStreams := add64 (numControlStreams example_queued) 1,
    streamPriorityLevelsNoCtrl := (streamPriorityLevelsNoCtrl example_queued)(0 := None)\<rparr>)"
  have c: "setStreamAsControl ?s example_queued = (s', m1)" by (simp add: setStreamAsControl_def s'_def m1_def)
  have step: "sm_reachable (putStream s' m1)" by (rule sm_reachable.step [OF reach sm_step.control [OF s c]])
  have s': "sm_streams (putStream s' m1) 0 = Some s'" "sm_nodeType (putStream s' m1) = Server"
    "maxRemote False (putStream s' m1) = 8" "initialRemote False (putStream s' m1) = 0" "initialLimit False (putStream s' m1) = 2"
    by (simp_all add: m1_def eq example_opened_fields) (simp add: s'_def putStream_def)
  have "kMaxMaxStreams \<ge> 4" by (simp add: kMaxMaxStreams_def)
  then obtain m2 where m2: "removeClosedStream 0 (putStream s' m1) = Inr m2"
    using remove_peer_succeeds [OF sm_reachable_inv [OF step] s'(1)] by (auto simp: m1_def eq example_opened_fields)
  from control_stream_left_in_write_queue [OF reach s(1) _ q s(2) c m2] have "pq_count 0 (writeQueue m2) = 1" by simp
  with reach c m2 show ?thesis by blast
qed

end
