(* ===== verification/Flow_Controller.thy ===== *)
theory Flow_Controller
  imports Stream_Manager
begin

text \<open>
  The flow controller of \<^verbatim>\<open>quic/flowcontrol/QuicFlowController.cpp\<close>. The connection is the record
  \<open>QuicConnectionStateBase\<close>, the extension of \<open>ConnBase\<close> by the pending events, the loss state counters
  that the modelled code reads, the crypto streams, the path validation and the stream manager. A function on \<^verbatim>\<open>QuicStreamState&\<close> that changes the connection
  through \<^verbatim>\<open>stream.conn\<close> takes both and returns what it changes. Counters are 64-bit: sums and
  differences wrap where the code does not check them. Times are microseconds. Statistics and the
  event log are not modelled.
\<close>

section \<open>Model\<close>

record PendingEvents =
  pe_resets :: "StreamId \<rightharpoonup> RstStreamFrame"
  pe_pathChallenge :: "nat option"
  pe_frames :: "QuicSimpleFrame list"
  pe_schedulePathValidationTimeout :: bool
  pe_connWindowUpdate :: bool
  pe_sendDataBlocked :: bool

text \<open>The field of \<^verbatim>\<open>QuicStreamGroupRetransmissionPolicy\<close> that the stream layer reads.\<close>

record QuicStreamGroupRetransmissionPolicy =
  rp_disableRetransmission :: bool

record QuicConnectionStateBase = ConnBase +
  conn_pendingEvents :: PendingEvents
  conn_srtt :: int
  conn_totalBytesRetransmitted :: nat
  conn_totalStreamBytesCloned :: nat
  conn_cryptoState :: QuicCryptoState
  conn_outstandingPathValidation :: "nat option"
  conn_pathChallengeStartTime :: int
  conn_retransmissionPolicies :: "StreamGroupId \<rightharpoonup> QuicStreamGroupRetransmissionPolicy"
  conn_streamManager :: QuicStreamManager

definition updManager :: "(QuicStreamManager \<Rightarrow> QuicStreamManager) \<Rightarrow> QuicConnectionStateBase \<Rightarrow> QuicConnectionStateBase" where
  "updManager f conn = conn\<lparr>conn_streamManager := f (conn_streamManager conn)\<rparr>"

definition updFlow :: "(ConnectionFlowControlState \<Rightarrow> ConnectionFlowControlState) \<Rightarrow> QuicConnectionStateBase \<Rightarrow> QuicConnectionStateBase" where
  "updFlow f conn = conn\<lparr>conn_flowControlState := f (conn_flowControlState conn)\<rparr>"

definition updEvents :: "(PendingEvents \<Rightarrow> PendingEvents) \<Rightarrow> QuicConnectionStateBase \<Rightarrow> QuicConnectionStateBase" where
  "updEvents f conn = conn\<lparr>conn_pendingEvents := f (conn_pendingEvents conn)\<rparr>"

subsection \<open>Window updates\<close>

definition calculateNewWindowUpdate ::
  "nat \<Rightarrow> nat \<Rightarrow> nat \<Rightarrow> int \<Rightarrow> TransportSettings \<Rightarrow> int option \<Rightarrow> int \<Rightarrow> nat option" where
  "calculateNewWindowUpdate curReadOffset curAdvertisedOffset windowSize srtt ts lastSendTime updateTime =
     (let nextAdvertisedOffset = add64 curReadOffset windowSize;
          enoughTimeElapsed = (case lastSendTime of None \<Rightarrow> False
            | Some t \<Rightarrow> updateTime > t \<and> updateTime - t > int (ts_flowControlRttFrequency ts) * srtt);
          enoughWindowElapsed =
            (mul64 (sub64 curAdvertisedOffset curReadOffset) (ts_flowControlWindowFrequency ts) < windowSize)
      in if nextAdvertisedOffset = curAdvertisedOffset then None
         else if enoughTimeElapsed \<and> \<not> ts_autotuneReceiveConnFlowControl ts then Some nextAdvertisedOffset
         else if enoughWindowElapsed then Some nextAdvertisedOffset
         else None)"

definition incrementWithOverFlowCheck :: "nat \<Rightarrow> nat \<Rightarrow> nat res" where
  "incrementWithOverFlowCheck num diff =
     (if num > u64_max - diff then Inl (QuicInternalException LE_INTERNAL_ERROR) else Inr (num + diff))"

definition decrementWithOverFlowCheck :: "nat \<Rightarrow> nat \<Rightarrow> nat res" where
  "decrementWithOverFlowCheck num diff =
     (if num < diff then Inl (QuicInternalException LE_INTERNAL_ERROR) else Inr (num - diff))"

definition calculateMaximumData :: "QuicStreamState \<Rightarrow> nat" where
  "calculateMaximumData stream = max (add64 (currentReadOffset stream) (sfc_windowSize (flowControlState stream)))
     (sfc_advertisedMaxOffset (flowControlState stream))"

definition maybeIncreaseConnectionFlowControlWindow ::
  "ConnectionFlowControlState \<Rightarrow> int \<Rightarrow> int \<Rightarrow> ConnectionFlowControlState res" where
  "maybeIncreaseConnectionFlowControlWindow fc updateTime srtt =
     (case cfc_timeOfLastFlowControlUpdate fc of None \<Rightarrow> Inr fc
      | Some t \<Rightarrow> if srtt = 0 then Inr fc
          else rbind (check (updateTime > t)) (\<lambda>_.
                 if updateTime - t < 2 * srtt then Inr (fc\<lparr>cfc_windowSize := mul64 (cfc_windowSize fc) 2\<rparr>) else Inr fc))"

definition maybeSendConnWindowUpdate :: "QuicConnectionStateBase \<Rightarrow> int \<Rightarrow> (bool \<times> QuicConnectionStateBase) res" where
  "maybeSendConnWindowUpdate conn updateTime =
     (if pe_connWindowUpdate (conn_pendingEvents conn) then Inr (False, conn)
      else let fc = conn_flowControlState conn in
        case calculateNewWindowUpdate (cfc_sumCurReadOffset fc) (cfc_advertisedMaxOffset fc) (cfc_windowSize fc)
               (conn_srtt conn) (conn_transportSettings conn) (cfc_timeOfLastFlowControlUpdate fc) updateTime of
          None \<Rightarrow> Inr (False, conn)
        | Some _ \<Rightarrow>
            let conn = updEvents (\<lambda>e. e\<lparr>pe_connWindowUpdate := True\<rparr>) conn
            in if ts_autotuneReceiveConnFlowControl (conn_transportSettings conn)
               then rbind (maybeIncreaseConnectionFlowControlWindow fc updateTime (conn_srtt conn)) (\<lambda>fc.
                      Inr (True, conn\<lparr>conn_flowControlState := fc\<rparr>))
               else Inr (True, conn))"

definition maybeSendStreamWindowUpdate ::
  "QuicConnectionStateBase \<Rightarrow> QuicStreamState \<Rightarrow> int \<Rightarrow> bool \<times> QuicConnectionStateBase" where
  "maybeSendStreamWindowUpdate conn stream updateTime =
     (let fc = flowControlState stream in
      if \<not> shouldSendFlowControl stream then (False, conn)
      else if pendingWindowUpdate (st_id stream) (conn_streamManager conn) then (False, conn)
      else case calculateNewWindowUpdate (currentReadOffset stream) (sfc_advertisedMaxOffset fc) (sfc_windowSize fc)
                  (conn_srtt conn) (conn_transportSettings conn) (sfc_timeOfLastFlowControlUpdate fc) updateTime of
             None \<Rightarrow> (False, conn)
           | Some _ \<Rightarrow> (True, updManager (queueWindowUpdate (st_id stream)) conn))"

subsection \<open>Accounting of received data\<close>

definition updateFlowControlOnStreamData ::
  "QuicConnectionStateBase \<Rightarrow> QuicStreamState \<Rightarrow> nat \<Rightarrow> nat \<Rightarrow> QuicConnectionStateBase res" where
  "updateFlowControlOnStreamData conn stream previousMaxOffsetObserved bufferEndOffset =
     (if sfc_advertisedMaxOffset (flowControlState stream) < bufferEndOffset
      then Inl (QuicTransportException TE_FLOW_CONTROL_ERROR)
      else
        let curMaxOffsetObserved = max previousMaxOffsetObserved bufferEndOffset;
            fc = conn_flowControlState conn;
            diff = sub64 curMaxOffsetObserved previousMaxOffsetObserved
        in rbind (incrementWithOverFlowCheck (cfc_sumMaxObservedOffset fc) diff) (\<lambda>connMaxObservedOffset.
             if connMaxObservedOffset > cfc_advertisedMaxOffset fc then Inl (QuicTransportException TE_FLOW_CONTROL_ERROR)
             else rbind (incrementWithOverFlowCheck (cfc_sumMaxObservedOffset fc) diff) (\<lambda>s.
                    Inr (conn\<lparr>conn_flowControlState := fc\<lparr>cfc_sumMaxObservedOffset := s\<rparr>\<rparr>))))"

definition updateFlowControlOnRead ::
  "QuicConnectionStateBase \<Rightarrow> QuicStreamState \<Rightarrow> nat \<Rightarrow> int \<Rightarrow> QuicConnectionStateBase res" where
  "updateFlowControlOnRead conn stream lastReadOffset readTime =
     (let diff = sub64 (currentReadOffset stream) lastReadOffset; fc = conn_flowControlState conn
      in rbind (incrementWithOverFlowCheck (cfc_sumCurReadOffset fc) diff) (\<lambda>s.
         rbind (maybeSendConnWindowUpdate (conn\<lparr>conn_flowControlState := fc\<lparr>cfc_sumCurReadOffset := s\<rparr>\<rparr>) readTime) (\<lambda>(_, conn).
           Inr (snd (maybeSendStreamWindowUpdate conn stream readTime)))))"

subsection \<open>Accounting of written data\<close>

definition updateFlowControlOnWriteToSocket :: "QuicConnectionStateBase \<Rightarrow> nat \<Rightarrow> QuicConnectionStateBase res" where
  "updateFlowControlOnWriteToSocket conn len =
     (let fc = conn_flowControlState conn
      in rbind (incrementWithOverFlowCheck (cfc_sumCurWriteOffset fc) len) (\<lambda>s.
           Inr (conn\<lparr>conn_flowControlState := fc\<lparr>cfc_sumCurWriteOffset := s,
                  cfc_sumCurStreamBufferLen := sub64 (cfc_sumCurStreamBufferLen fc) len\<rparr>\<rparr>)))"

definition updateFlowControlOnWriteToStream :: "QuicConnectionStateBase \<Rightarrow> nat \<Rightarrow> QuicConnectionStateBase res" where
  "updateFlowControlOnWriteToStream conn len =
     rbind (incrementWithOverFlowCheck (cfc_sumCurStreamBufferLen (conn_flowControlState conn)) len) (\<lambda>s.
       Inr (updFlow (\<lambda>fc. fc\<lparr>cfc_sumCurStreamBufferLen := s\<rparr>) conn))"

definition updateFlowControlOnResetStream :: "QuicConnectionStateBase \<Rightarrow> QuicStreamState \<Rightarrow> QuicConnectionStateBase res" where
  "updateFlowControlOnResetStream conn stream =
     rbind (decrementWithOverFlowCheck (cfc_sumCurStreamBufferLen (conn_flowControlState conn))
              (length (writeBuffer stream) + wbm_length (writeBufMeta stream))) (\<lambda>s.
       Inr (updFlow (\<lambda>fc. fc\<lparr>cfc_sumCurStreamBufferLen := s\<rparr>) conn))"

definition getSendStreamFlowControlBytesWire :: "QuicStreamState \<Rightarrow> nat" where
  "getSendStreamFlowControlBytesWire stream =
     sub64 (sfc_peerAdvertisedMaxOffset (flowControlState stream)) (nextOffsetToWrite stream)"

definition getSendStreamFlowControlBytesAPI :: "QuicStreamState \<Rightarrow> nat" where
  "getSendStreamFlowControlBytesAPI stream =
     (let sendFlowControlBytes = getSendStreamFlowControlBytesWire stream;
          dataInBuffer = length (writeBuffer stream) + wbm_length (writeBufMeta stream)
      in if dataInBuffer > sendFlowControlBytes then 0 else sendFlowControlBytes - dataInBuffer)"

definition getSendConnFlowControlBytesWire :: "QuicConnectionStateBase \<Rightarrow> nat" where
  "getSendConnFlowControlBytesWire conn =
     (let fc = conn_flowControlState conn in sub64 (cfc_peerAdvertisedMaxOffset fc) (cfc_sumCurWriteOffset fc))"

definition getSendConnFlowControlBytesAPI :: "QuicConnectionStateBase \<Rightarrow> nat" where
  "getSendConnFlowControlBytesAPI conn =
     (let connFlowControlBytes = getSendConnFlowControlBytesWire conn;
          len = cfc_sumCurStreamBufferLen (conn_flowControlState conn)
      in if len > connFlowControlBytes then 0 else connFlowControlBytes - len)"

definition getRecvStreamFlowControlBytes :: "QuicStreamState \<Rightarrow> nat" where
  "getRecvStreamFlowControlBytes stream =
     (let adv = sfc_advertisedMaxOffset (flowControlState stream)
      in if adv < currentReadOffset stream then 0 else adv - currentReadOffset stream)"

definition getRecvConnFlowControlBytes :: "QuicConnectionStateBase \<Rightarrow> nat" where
  "getRecvConnFlowControlBytes conn =
     (let fc = conn_flowControlState conn in sub64 (cfc_advertisedMaxOffset fc) (cfc_sumCurReadOffset fc))"

definition queueStreamBlocked :: "QuicConnectionStateBase \<Rightarrow> QuicStreamState \<Rightarrow> QuicConnectionStateBase" where
  "queueStreamBlocked conn stream =
     updManager (queueBlocked (st_id stream) (sfc_peerAdvertisedMaxOffset (flowControlState stream))) conn"

definition maybeWriteBlockAfterAPIWrite :: "QuicConnectionStateBase \<Rightarrow> QuicStreamState \<Rightarrow> QuicConnectionStateBase" where
  "maybeWriteBlockAfterAPIWrite conn stream =
     (if getSendStreamFlowControlBytesWire stream = 0 \<and> writeBuffer stream = [] \<and> wbm_length (writeBufMeta stream) = 0
      then queueStreamBlocked conn stream else conn)"

definition maybeWriteDataBlockedAfterSocketWrite :: "QuicConnectionStateBase \<Rightarrow> QuicConnectionStateBase" where
  "maybeWriteDataBlockedAfterSocketWrite conn =
     (if getSendConnFlowControlBytesWire conn = 0 then updEvents (\<lambda>e. e\<lparr>pe_sendDataBlocked := True\<rparr>) conn else conn)"

definition maybeWriteBlockAfterSocketWrite :: "QuicConnectionStateBase \<Rightarrow> QuicStreamState \<Rightarrow> QuicConnectionStateBase" where
  "maybeWriteBlockAfterSocketWrite conn stream =
     (if streamWriteError stream \<noteq> None then conn
      else if finalWriteOffset stream \<noteq> None \<and> hasSentFIN stream then conn
      else if getSendStreamFlowControlBytesWire stream = 0 \<and>
              (writeBuffer stream \<noteq> [] \<or> wbm_length (writeBufMeta stream) > 0)
      then queueStreamBlocked conn stream else conn)"

subsection \<open>Frames\<close>

definition updateFlowControlList :: "QuicConnectionStateBase \<Rightarrow> QuicStreamState \<Rightarrow> QuicConnectionStateBase" where
  "updateFlowControlList conn stream = updManager (queueFlowControlUpdated (st_id stream)) conn"

definition handleStreamWindowUpdate ::
  "QuicConnectionStateBase \<Rightarrow> QuicStreamState \<Rightarrow> nat \<Rightarrow> (QuicConnectionStateBase \<times> QuicStreamState) res" where
  "handleStreamWindowUpdate conn stream maximumData =
     (if sfc_peerAdvertisedMaxOffset (flowControlState stream) \<le> maximumData then
        let stream = stream\<lparr>flowControlState := (flowControlState stream)\<lparr>sfc_peerAdvertisedMaxOffset := maximumData\<rparr>\<rparr>;
            conn = (if maximumData > currentWriteOffset stream + length (writeBuffer stream) + wbm_length (writeBufMeta stream)
                    then updateFlowControlList conn stream else conn)
        in rbind (updateWritableStreams stream (conn_streamManager conn)) (\<lambda>m.
             Inr (conn\<lparr>conn_streamManager := m\<rparr>, stream))
      else Inr (conn, stream))"

definition handleConnWindowUpdate :: "QuicConnectionStateBase \<Rightarrow> nat \<Rightarrow> QuicConnectionStateBase" where
  "handleConnWindowUpdate conn maximumData =
     (if cfc_peerAdvertisedMaxOffset (conn_flowControlState conn) \<le> maximumData
      then updFlow (\<lambda>fc. fc\<lparr>cfc_peerAdvertisedMaxOffset := maximumData\<rparr>) conn else conn)"

definition handleConnBlocked :: "QuicConnectionStateBase \<Rightarrow> QuicConnectionStateBase" where
  "handleConnBlocked conn = updEvents (\<lambda>e. e\<lparr>pe_connWindowUpdate := True\<rparr>) conn"

definition handleStreamBlocked :: "QuicConnectionStateBase \<Rightarrow> QuicStreamState \<Rightarrow> QuicConnectionStateBase" where
  "handleStreamBlocked conn stream = updManager (queueWindowUpdate (st_id stream)) conn"

definition onConnWindowUpdateSent :: "QuicConnectionStateBase \<Rightarrow> nat \<Rightarrow> int \<Rightarrow> QuicConnectionStateBase" where
  "onConnWindowUpdateSent conn maximumDataSent sentTime =
     updEvents (\<lambda>e. e\<lparr>pe_connWindowUpdate := False\<rparr>)
       (updFlow (\<lambda>fc. fc\<lparr>cfc_advertisedMaxOffset := maximumDataSent, cfc_timeOfLastFlowControlUpdate := Some sentTime\<rparr>) conn)"

definition onStreamWindowUpdateSent ::
  "QuicConnectionStateBase \<Rightarrow> QuicStreamState \<Rightarrow> nat \<Rightarrow> int \<Rightarrow> QuicConnectionStateBase \<times> QuicStreamState" where
  "onStreamWindowUpdateSent conn stream maximumDataSent sentTime =
     (updManager (removeWindowUpdate (st_id stream)) conn,
      stream\<lparr>flowControlState := (flowControlState stream)\<lparr>sfc_advertisedMaxOffset := maximumDataSent,
               sfc_timeOfLastFlowControlUpdate := Some sentTime\<rparr>\<rparr>)"

definition onConnWindowUpdateLost :: "QuicConnectionStateBase \<Rightarrow> QuicConnectionStateBase" where
  "onConnWindowUpdateLost conn = updEvents (\<lambda>e. e\<lparr>pe_connWindowUpdate := True\<rparr>) conn"

definition onStreamWindowUpdateLost :: "QuicConnectionStateBase \<Rightarrow> QuicStreamState \<Rightarrow> QuicConnectionStateBase" where
  "onStreamWindowUpdateLost conn stream =
     (if \<not> shouldSendFlowControl stream then conn else updManager (queueWindowUpdate (st_id stream)) conn)"

definition onBlockedLost :: "QuicConnectionStateBase \<Rightarrow> QuicStreamState \<Rightarrow> QuicConnectionStateBase" where
  "onBlockedLost conn stream = maybeWriteBlockAfterSocketWrite conn stream"

definition onDataBlockedLost :: "QuicConnectionStateBase \<Rightarrow> QuicConnectionStateBase" where
  "onDataBlockedLost conn = maybeWriteDataBlockedAfterSocketWrite conn"

definition updateFlowControlStateWithSettings ::
  "ConnectionFlowControlState \<Rightarrow> TransportSettings \<Rightarrow> ConnectionFlowControlState" where
  "updateFlowControlStateWithSettings fc ts = fc\<lparr>cfc_windowSize := ts_advertisedInitialConnectionWindowSize ts,
     cfc_advertisedMaxOffset := ts_advertisedInitialConnectionWindowSize ts\<rparr>"

definition generateMaxDataFrame :: "QuicConnectionStateBase \<Rightarrow> nat" where
  "generateMaxDataFrame conn =
     (let fc = conn_flowControlState conn
      in max (add64 (cfc_sumCurReadOffset fc) (cfc_windowSize fc)) (cfc_advertisedMaxOffset fc))"

definition generateMaxStreamDataFrame :: "QuicStreamState \<Rightarrow> MaxStreamDataFrame" where
  "generateMaxStreamDataFrame stream = \<lparr>msd_streamId = st_id stream, msd_maximumData = calculateMaximumData stream\<rparr>"

end
