(* ===== verification/Stream_Functions.thy ===== *)
theory Stream_Functions
  imports Flow_Controller
begin

text \<open>
  The stream functions of \<^verbatim>\<open>quic/state/QuicStreamFunctions.cpp\<close>: writing to a stream, the
  reassembly of received data in the read buffer, reading in order, and the offsets that the
  transport reports. A null \<^verbatim>\<open>Buf\<close> is the empty list of bytes. The clock is the argument \<open>now\<close>.

  The reassembly is specified against the byte stream of the peer: if every received segment
  carries the bytes of one stream at its offsets, the read buffer always holds exactly the bytes
  received and not yet read, in order and merged, and a read returns exactly the next ones.
\<close>

section \<open>Model\<close>

subsection \<open>Writing\<close>

definition updateWritable ::
  "QuicConnectionStateBase \<Rightarrow> QuicStreamState \<Rightarrow> (QuicConnectionStateBase \<times> QuicStreamState) res" where
  "updateWritable conn stream = rbind (updateWritableStreams stream (conn_streamManager conn)) (\<lambda>m.
     Inr (conn\<lparr>conn_streamManager := m\<rparr>, stream))"

definition writeDataToQuicStream ::
  "QuicConnectionStateBase \<Rightarrow> QuicStreamState \<Rightarrow> byte list \<Rightarrow> bool \<Rightarrow> (QuicConnectionStateBase \<times> QuicStreamState) res" where
  "writeDataToQuicStream conn stream data eof =
     rbind (check (wbm_offset (writeBufMeta stream) = 0)) (\<lambda>_.
     rbind (check (\<not> (eof \<and> dsrSender stream))) (\<lambda>_.
       let len = length data;
           conn = (if len > 0 then maybeWriteBlockAfterAPIWrite conn stream else conn);
           stream = stream\<lparr>writeBuffer := writeBuffer stream @ data\<rparr>;
           stream = (if eof then stream\<lparr>finalWriteOffset := Some (currentWriteOffset stream + length (writeBuffer stream))\<rparr>
                     else stream)
       in rbind (updateFlowControlOnWriteToStream conn len) (\<lambda>conn. updateWritable conn stream)))"

definition writeBufMetaToQuicStream ::
  "QuicConnectionStateBase \<Rightarrow> QuicStreamState \<Rightarrow> nat \<Rightarrow> bool \<Rightarrow> (QuicConnectionStateBase \<times> QuicStreamState) res" where
  "writeBufMetaToQuicStream conn stream len eof =
     (let conn = (if len > 0 then maybeWriteBlockAfterAPIWrite conn stream else conn);
          realDataLength = currentWriteOffset stream + length (writeBuffer stream)
      in rbind (check (realDataLength > 0)) (\<lambda>_.
         rbind (if wbm_offset (writeBufMeta stream) = 0
                then rbind (check (finalWriteOffset stream = None)) (\<lambda>_.
                       Inr (stream\<lparr>writeBufMeta := (writeBufMeta stream)\<lparr>wbm_offset := realDataLength\<rparr>\<rparr>))
                else Inr stream) (\<lambda>stream.
           let m = (writeBufMeta stream)\<lparr>wbm_length := wbm_length (writeBufMeta stream) + len\<rparr>;
               stream = stream\<lparr>writeBufMeta := m\<rparr>;
               stream = (if eof then stream\<lparr>finalWriteOffset := Some (wbm_offset m + wbm_length m),
                                            writeBufMeta := m\<lparr>wbm_eof := True\<rparr>\<rparr> else stream)
           in rbind (updateFlowControlOnWriteToStream conn len) (\<lambda>conn. updateWritable conn stream))))"

definition writeDataToCryptoStream :: "'a QuicStreamLike_scheme \<Rightarrow> byte list \<Rightarrow> 'a QuicStreamLike_scheme" where
  "writeDataToCryptoStream stream data = stream\<lparr>writeBuffer := writeBuffer stream @ data\<rparr>"

subsection \<open>Reassembly\<close>

text \<open>The state of the merge: the read buffer, the current buffer, the position of the current
  buffer when it is an element of the read buffer, and the two iterators.\<close>

record MergeState =
  mg_bufs :: "StreamBuffer list"
  mg_cur :: StreamBuffer
  mg_curAt :: "nat option"
  mg_start :: "nat option"
  mg_end :: "nat option"

text \<open>Writing the current buffer writes the element it points to.\<close>

definition setCur :: "StreamBuffer \<Rightarrow> MergeState \<Rightarrow> MergeState" where
  "setCur b st = (case mg_curAt st of None \<Rightarrow> st\<lparr>mg_cur := b\<rparr>
     | Some i \<Rightarrow> st\<lparr>mg_cur := b, mg_bufs := (mg_bufs st)[i := b]\<rparr>)"

function mergeLoop :: "nat \<Rightarrow> MergeState \<Rightarrow> MergeState" where
  "mergeLoop it st =
     (if it \<ge> length (mg_bufs st) then st
      else
        let cur = mg_cur st; b = mg_bufs st ! it; currentEnd = sb_end cur; itEnd = sb_end b in
        if sb_offset cur = sb_offset b \<and> currentEnd = itEnd then st
        else if sb_offset cur \<ge> sb_offset b \<and> currentEnd \<le> itEnd then st
        else if sb_offset cur \<le> sb_offset b \<and> currentEnd \<ge> sb_offset b \<and> currentEnd \<le> itEnd then
          let rest = drop (currentEnd - sb_offset b) (sb_data b);
              st = st\<lparr>mg_bufs := (mg_bufs st)[it := b\<lparr>sb_data := []\<rparr>]\<rparr>;
              st = setCur (cur\<lparr>sb_data := sb_data cur @ rest\<rparr>) st
          in st\<lparr>mg_start := (if mg_start st = None then Some it else mg_start st), mg_end := Some (it + 1)\<rparr>
        else if sb_offset cur < sb_offset b \<and> currentEnd < sb_offset b then
          if mg_start st = None then st\<lparr>mg_start := Some it, mg_end := Some it\<rparr> else st
        else if sb_offset cur \<le> sb_offset b \<and> currentEnd > sb_offset b then
          mergeLoop (it + 1) (st\<lparr>mg_start := (if mg_start st = None then Some it else mg_start st), mg_end := Some (it + 1)\<rparr>)
        else if sb_offset cur \<ge> sb_offset b \<and> sb_offset cur \<le> itEnd \<and> currentEnd > itEnd then
          let b' = b\<lparr>sb_data := sb_data b @ drop (itEnd - sb_offset cur) (sb_data cur)\<rparr>
          in mergeLoop (it + 1) (st\<lparr>mg_bufs := (mg_bufs st)[it := b'], mg_cur := b', mg_curAt := Some it,
                                    mg_start := Some (it + 1), mg_end := Some (it + 1)\<rparr>)
        else mergeLoop (it + 1) st)"
  by pat_completeness auto

termination by (relation "measure (\<lambda>(it, st). length (mg_bufs st) - it)") auto

declare mergeLoop.simps [simp del]

text \<open>What follows the loop.\<close>

definition mergeFinish :: "MergeState \<Rightarrow> StreamBuffer list" where
  "mergeFinish st = (case (mg_start st, mg_end st, mg_curAt st) of
      (Some s, Some e, None) \<Rightarrow> insert_at s (mg_cur st) (erase_range s e (mg_bufs st))
    | (Some s, Some e, Some _) \<Rightarrow> erase_range s e (mg_bufs st)
    | _ \<Rightarrow> if sb_offset (mg_cur st) > sb_end (last (mg_bufs st)) then mg_bufs st @ [mg_cur st] else mg_bufs st)"

definition mergeIntoReadBuffer :: "StreamBuffer \<Rightarrow> StreamBuffer list \<Rightarrow> StreamBuffer list" where
  "mergeIntoReadBuffer buffer bufs =
     (if bufs = [] then [buffer]
      else let it = lower_bound (\<lambda>v. sb_end v < sb_offset buffer) bufs
           in mergeFinish (mergeLoop it \<lparr>mg_bufs = bufs, mg_cur = buffer, mg_curAt = None, mg_start = None, mg_end = None\<rparr>))"

text \<open>The checks on the end of the stream: the new final read offset.\<close>

definition checkFinalOffset :: "'a QuicStreamLike_scheme \<Rightarrow> StreamBuffer \<Rightarrow> nat option res" where
  "checkFinalOffset stream buffer =
     (let bufferEndOffset = sb_end buffer;
          bufferEofOffset = (if sb_eof buffer then Some bufferEndOffset else None)
      in if finalReadOffset stream \<noteq> None \<and> bufferEofOffset \<noteq> None \<and> finalReadOffset stream \<noteq> bufferEofOffset
         then Inl (QuicTransportException TE_FINAL_SIZE_ERROR)
         else if bufferEofOffset \<noteq> None then
           if maxOffsetObserved stream > bufferEndOffset then Inl (QuicTransportException TE_FINAL_SIZE_ERROR)
           else Inr bufferEofOffset
         else case finalReadOffset stream of
             Some f \<Rightarrow> if bufferEndOffset > f then Inl (QuicTransportException TE_FINAL_SIZE_ERROR) else Inr (Some f)
           | None \<Rightarrow> Inr None)"

text \<open>The part of a segment that was not read before.\<close>

definition trimToReadOffset :: "nat \<Rightarrow> StreamBuffer \<Rightarrow> StreamBuffer" where
  "trimToReadOffset readOffset buffer =
     (if sb_offset buffer < readOffset
      then buffer\<lparr>sb_data := drop (readOffset - sb_offset buffer) (sb_data buffer), sb_offset := readOffset\<rparr>
      else buffer)"

text \<open>The flow control visitor gets the old maximum offset and the end of the segment and returns
  what it changes, or throws.\<close>

definition appendDataToReadBufferCommon ::
  "(nat \<Rightarrow> nat \<Rightarrow> 'c res) \<Rightarrow> 'c \<Rightarrow> 'a QuicStreamLike_scheme \<Rightarrow> StreamBuffer \<Rightarrow> ('c \<times> 'a QuicStreamLike_scheme) res" where
  "appendDataToReadBufferCommon connFlowControlVisitor c stream buffer =
     (if \<not> sb_eof buffer \<and> sb_data buffer = [] then Inr (c, stream)
      else
        rbind (checkFinalOffset stream buffer) (\<lambda>final.
        rbind (connFlowControlVisitor (maxOffsetObserved stream) (sb_end buffer)) (\<lambda>c.
          let stream = stream\<lparr>finalReadOffset := final, maxOffsetObserved := max (maxOffsetObserved stream) (sb_end buffer)\<rparr>;
              buffer = trimToReadOffset (currentReadOffset stream) buffer
          in if sb_data buffer = [] then Inr (c, stream)
             else Inr (c, stream\<lparr>readBuffer := mergeIntoReadBuffer buffer (readBuffer stream)\<rparr>))))"

definition appendDataToReadBuffer ::
  "QuicConnectionStateBase \<Rightarrow> QuicStreamState \<Rightarrow> StreamBuffer \<Rightarrow> (QuicConnectionStateBase \<times> QuicStreamState) res" where
  "appendDataToReadBuffer conn stream buffer =
     appendDataToReadBufferCommon (updateFlowControlOnStreamData conn stream) conn stream buffer"

definition appendDataToCryptoReadBuffer ::
  "'a QuicStreamLike_scheme \<Rightarrow> StreamBuffer \<Rightarrow> 'a QuicStreamLike_scheme res" where
  "appendDataToCryptoReadBuffer stream buffer =
     rbind (appendDataToReadBufferCommon (\<lambda>_ _. Inr ()) () stream buffer) (\<lambda>(_, stream). Inr stream)"

subsection \<open>Reading\<close>

function readLoop ::
  "nat \<Rightarrow> bool \<Rightarrow> nat \<Rightarrow> byte list \<Rightarrow> bool \<Rightarrow> StreamBuffer list \<Rightarrow> nat \<Rightarrow> (byte list \<times> bool \<times> StreamBuffer list \<times> nat) res" where
  "readLoop amount sinkData remaining data eof bufs readOffset =
     (if (amount = 0 \<or> remaining \<noteq> 0) \<and> bufs \<noteq> [] then
        let curr = hd bufs in
        if sb_offset curr > readOffset then Inr (data, eof, bufs, readOffset)
        else if sb_offset curr \<noteq> readOffset then Inl CheckFailed
        else
          let currSize = length (sb_data curr);
              toRead = min currSize (if amount = 0 then currSize else remaining);
              splice = take toRead (sb_data curr);
              curr = curr\<lparr>sb_data := drop toRead (sb_data curr), sb_offset := sb_offset curr + toRead\<rparr>;
              popped = (sb_data curr = []);
              remaining = (if amount \<noteq> 0 then remaining - toRead else remaining)
          in readLoop amount sinkData remaining (if sinkData then data else data @ splice)
               (if popped then sb_eof curr else eof) (if popped then tl bufs else curr # tl bufs) (readOffset + toRead)
      else Inr (data, eof, bufs, readOffset))"
  by pat_completeness auto

termination
  by (relation "measure (\<lambda>(amount, _, remaining, _, _, bufs, _). length bufs + remaining)") (auto simp: Let_def neq_Nil_conv min_def split: if_splits)

declare readLoop.simps [simp del]

definition readDataInOrderFromReadBuffer ::
  "'a QuicStreamLike_scheme \<Rightarrow> nat \<Rightarrow> bool \<Rightarrow> (byte list \<times> bool \<times> 'a QuicStreamLike_scheme) res" where
  "readDataInOrderFromReadBuffer stream amount sinkData =
     rbind (readLoop amount sinkData amount [] False (readBuffer stream) (currentReadOffset stream)) (\<lambda>(data, eof, bufs, off).
       Inr (data, eof, stream\<lparr>readBuffer := bufs, currentReadOffset := off\<rparr>))"

definition readDataFromCryptoStream :: "'a QuicStreamLike_scheme \<Rightarrow> nat \<Rightarrow> (byte list \<times> 'a QuicStreamLike_scheme) res" where
  "readDataFromCryptoStream stream amount =
     rbind (readDataInOrderFromReadBuffer stream amount False) (\<lambda>(data, _, stream). Inr (data, stream))"

definition updateReadAndPeek ::
  "int \<Rightarrow> QuicConnectionStateBase \<Rightarrow> QuicStreamState \<Rightarrow> QuicConnectionStateBase \<times> QuicStreamState" where
  "updateReadAndPeek now conn stream =
     (let (stream, m) = updateReadableStreams now stream (conn_streamManager conn)
      in (conn\<lparr>conn_streamManager := updatePeekableStreams stream m\<rparr>, stream))"

text \<open>The part that \<^verbatim>\<open>readDataFromQuicStream\<close> and \<^verbatim>\<open>consumeDataFromQuicStream\<close> share; they differ in
  whether the data is returned or dropped.\<close>

definition readRemaining ::
  "bool \<Rightarrow> int \<Rightarrow> QuicConnectionStateBase \<Rightarrow> QuicStreamState \<Rightarrow> nat \<Rightarrow>
   (byte list \<times> bool \<times> QuicConnectionStateBase \<times> QuicStreamState) res" where
  "readRemaining sinkData now conn stream amount =
     rbind (readDataInOrderFromReadBuffer stream amount sinkData) (\<lambda>(data, _, stream').
     rbind (updateFlowControlOnRead conn stream' (currentReadOffset stream) now) (\<lambda>conn.
       let eof = (finalReadOffset stream' = Some (currentReadOffset stream'));
           stream' = (if eof then stream'\<lparr>currentReadOffset := currentReadOffset stream' + 1\<rparr> else stream');
           (conn, stream') = updateReadAndPeek now conn stream'
       in Inr (data, eof, conn, stream')))"

definition readOrConsume ::
  "bool \<Rightarrow> int \<Rightarrow> QuicConnectionStateBase \<Rightarrow> QuicStreamState \<Rightarrow> nat \<Rightarrow>
   (byte list \<times> bool \<times> QuicConnectionStateBase \<times> QuicStreamState) res" where
  "readOrConsume sinkData now conn stream amount =
     (if (case finalReadOffset stream of None \<Rightarrow> False | Some f \<Rightarrow> currentReadOffset stream \<ge> f) then
        let stream = (if finalReadOffset stream = Some (currentReadOffset stream)
                      then stream\<lparr>currentReadOffset := currentReadOffset stream + 1\<rparr> else stream);
            (conn, stream) = updateReadAndPeek now conn stream
        in Inr ([], True, conn, stream)
      else readRemaining sinkData now conn stream amount)"

definition readDataFromQuicStream ::
  "int \<Rightarrow> QuicConnectionStateBase \<Rightarrow> QuicStreamState \<Rightarrow> nat \<Rightarrow>
   (byte list \<times> bool \<times> QuicConnectionStateBase \<times> QuicStreamState) res" where
  "readDataFromQuicStream now conn stream amount = readOrConsume False now conn stream amount"

definition consumeDataFromQuicStream ::
  "int \<Rightarrow> QuicConnectionStateBase \<Rightarrow> QuicStreamState \<Rightarrow> nat \<Rightarrow> (QuicConnectionStateBase \<times> QuicStreamState) res" where
  "consumeDataFromQuicStream now conn stream amount =
     rbind (readOrConsume True now conn stream amount) (\<lambda>(_, _, conn, stream). Inr (conn, stream))"

text \<open>What the peek callback is called with.\<close>

definition peekDataFromQuicStream :: "QuicStreamState \<Rightarrow> StreamId \<times> StreamBuffer list" where
  "peekDataFromQuicStream stream = (st_id stream, readBuffer stream)"

subsection \<open>Acknowledgements, resets and offsets\<close>

definition allBytesTillFinAcked :: "QuicStreamState \<Rightarrow> bool res" where
  "allBytesTillFinAcked stream =
     (if \<not> (hasSentFIN stream \<and> dom (retransmissionBuffer stream) = {} \<and> dom (retransmissionBufMetas stream) = {} \<and>
             writeBuffer stream = []) then Inr False
      else rbind (hasWritableBufMeta stream) (\<lambda>w. Inr (\<not> w \<and> lossBuffer stream = [] \<and> lossBufMetas stream = [])))"

definition appendPendingStreamReset ::
  "QuicConnectionStateBase \<Rightarrow> QuicStreamState \<Rightarrow> ApplicationErrorCode \<Rightarrow> QuicConnectionStateBase" where
  "appendPendingStreamReset conn stream errorCode =
     (let writeBufWritten = (wbm_offset (writeBufMeta stream) \<noteq> 0 \<and>
            currentWriteOffset stream + length (writeBuffer stream) \<noteq> wbm_offset (writeBufMeta stream));
          offset = min (if writeBufWritten then wbm_offset (writeBufMeta stream) else currentWriteOffset stream)
                     (case finalWriteOffset stream of Some f \<Rightarrow> f | None \<Rightarrow> u64_max)
      in updEvents (\<lambda>e. e\<lparr>pe_resets := map_emplace (st_id stream)
           \<lparr>rst_streamId = st_id stream, rst_errorCode = errorCode, rst_offset = offset\<rparr> (pe_resets e)\<rparr>) conn)"

definition getLargestWriteOffsetSeen :: "QuicStreamState \<Rightarrow> nat" where
  "getLargestWriteOffsetSeen stream = (case finalWriteOffset stream of Some f \<Rightarrow> f
     | None \<Rightarrow> max (currentWriteOffset stream + length (writeBuffer stream))
                   (wbm_offset (writeBufMeta stream) + wbm_length (writeBufMeta stream)))"

definition getLargestWriteOffsetTxed :: "QuicStreamState \<Rightarrow> nat option" where
  "getLargestWriteOffsetTxed stream =
     (if currentWriteOffset stream = 0 \<and> wbm_offset (writeBufMeta stream) = 0 then None
      else Some (max (currentWriteOffset stream) (wbm_offset (writeBufMeta stream)) - 1))"

definition getLargestDeliverableOffset :: "QuicStreamState \<Rightarrow> nat option" where
  "getLargestDeliverableOffset stream = (case intervals (ackedIntervals stream) of
      [] \<Rightarrow> None | iv # _ \<Rightarrow> if iv_start iv \<noteq> 0 then None else Some (iv_end iv))"

definition getAckIntervalSetVersion :: "QuicStreamState \<Rightarrow> nat" where
  "getAckIntervalSetVersion stream = insertVersion (ackedIntervals stream)"

definition getNumPacketsTxWithNewData :: "QuicStreamState \<Rightarrow> nat" where
  "getNumPacketsTxWithNewData stream = numPacketsTxWithNewData stream"

fun getCryptoStream :: "QuicCryptoState \<Rightarrow> EncryptionLevel \<Rightarrow> QuicStreamLike" where
  "getCryptoStream cs EL_Initial = initialStream cs"
| "getCryptoStream cs EL_Handshake = handshakeStream cs"
| "getCryptoStream cs EL_EarlyData = handshakeStream cs"
| "getCryptoStream cs EL_AppData = oneRttStream cs"

definition processCryptoStreamAck :: "'a QuicStreamLike_scheme \<Rightarrow> nat \<Rightarrow> nat \<Rightarrow> 'a QuicStreamLike_scheme" where
  "processCryptoStreamAck stream offset len = (case retransmissionBuffer stream offset of
      None \<Rightarrow> stream
    | Some b \<Rightarrow> if sb_offset b \<noteq> offset \<or> length (sb_data b) \<noteq> len then stream
        else stream\<lparr>retransmissionBuffer := (retransmissionBuffer stream)(offset := None)\<rparr>)"

definition processTxStopSending ::
  "QuicConnectionStateBase \<Rightarrow> QuicStreamState \<Rightarrow> QuicConnectionStateBase \<times> QuicStreamState" where
  "processTxStopSending conn stream =
     (let stream = stream\<lparr>recvState := RecvClosed, readBuffer := []\<rparr>;
          conn = updManager (\<lambda>m. m\<lparr>readableStreams := readableStreams m - {st_id stream}\<rparr>) conn
      in (if inTerminalStates stream then updManager (addClosed (st_id stream)) conn else conn, stream))"

end
