(* ===== verification/Reassembly.thy ===== *)
theory Reassembly
  imports Stream_Functions
begin

text \<open>
  Correctness of the reassembly of received stream data (\<^verbatim>\<open>appendDataToReadBufferCommon\<close> and
  \<^verbatim>\<open>readDataInOrderFromReadBuffer\<close>). The merge loop with its iterators is shown equal to the
  recursive \<open>mergeSpec\<close>, which is then specified by the offsets a list of buffers covers. The byte
  stream of the peer is a function \<open>data\<close> from offsets to bytes; a segment of it is a buffer that
  carries its bytes.
\<close>

section \<open>Segments of a byte stream\<close>

definition seg :: "(nat \<Rightarrow> byte) \<Rightarrow> StreamBuffer \<Rightarrow> bool" where
  "seg data b \<longleftrightarrow> sb_data b = map data [sb_offset b..<sb_end b]"

definition gapped :: "StreamBuffer list \<Rightarrow> bool" where
  "gapped bufs \<longleftrightarrow> sorted_wrt (\<lambda>a b. sb_end a < sb_offset b) bufs \<and> (\<forall>b \<in> set bufs. sb_data b \<noteq> [])"

definition covered :: "StreamBuffer list \<Rightarrow> nat set" where
  "covered bufs = (\<Union>b \<in> set bufs. {sb_offset b..<sb_end b})"

lemma covered_simps [simp]:
  "covered [] = {}" "covered (b # bs) = {sb_offset b..<sb_end b} \<union> covered bs" "covered (xs @ ys) = covered xs \<union> covered ys"
  by (auto simp: covered_def)

lemma gapped_Nil [simp]: "gapped []"
  by (simp add: gapped_def)

lemma gapped_Cons: "gapped (b # bs) \<longleftrightarrow> (\<forall>x \<in> set bs. sb_end b < sb_offset x) \<and> sb_data b \<noteq> [] \<and> gapped bs"
  by (auto simp: gapped_def)

lemma gapped_append:
  "gapped (xs @ ys) \<longleftrightarrow> gapped xs \<and> gapped ys \<and> (\<forall>x \<in> set xs. \<forall>y \<in> set ys. sb_end x < sb_offset y)"
  by (auto simp: gapped_def sorted_wrt_append)

lemma nonempty_less_end: "sb_data b \<noteq> [] \<Longrightarrow> sb_offset b < sb_end b"
  by (simp add: sb_end_def)

lemma seg_length [simp]: "sb_end b - sb_offset b = length (sb_data b)"
  by (simp add: sb_end_def)

lemma seg_drop: "seg data b \<Longrightarrow> drop k (sb_data b) = map data [sb_offset b + k..<sb_end b]"
  unfolding seg_def by (metis drop_map drop_upt)

section \<open>The merge as a recursive function\<close>

fun absorb :: "StreamBuffer \<Rightarrow> StreamBuffer list \<Rightarrow> StreamBuffer list" where
  "absorb cur [] = [cur]"
| "absorb cur (b # bs) =
     (if sb_end cur < sb_offset b then cur # b # bs
      else if sb_end cur \<le> sb_end b then cur\<lparr>sb_data := sb_data cur @ drop (sb_end cur - sb_offset b) (sb_data b)\<rparr> # bs
      else absorb cur bs)"

fun mergeSpec :: "StreamBuffer \<Rightarrow> StreamBuffer list \<Rightarrow> StreamBuffer list" where
  "mergeSpec cur [] = [cur]"
| "mergeSpec cur (b # bs) =
     (if sb_offset b \<le> sb_offset cur \<and> sb_end cur \<le> sb_end b then b # bs
      else if sb_offset b < sb_offset cur
      then absorb (b\<lparr>sb_data := sb_data b @ drop (sb_end b - sb_offset cur) (sb_data cur)\<rparr>) bs
      else absorb cur (b # bs))"

text \<open>The elements before the ones the merge still changes: the current buffer is new, or it is an
  element of the read buffer and the range to erase begins after it.\<close>

definition settled :: "MergeState \<Rightarrow> StreamBuffer list \<Rightarrow> nat \<Rightarrow> StreamBuffer list" where
  "settled st xs s = (case mg_curAt st of None \<Rightarrow> take s xs | Some i \<Rightarrow> take i xs)"

definition placed :: "MergeState \<Rightarrow> StreamBuffer list \<Rightarrow> nat \<Rightarrow> bool" where
  "placed st xs s \<longleftrightarrow> (case mg_curAt st of None \<Rightarrow> s \<le> length xs
     | Some i \<Rightarrow> s = i + 1 \<and> i < length xs \<and> xs ! i = mg_cur st)"

lemma mergeLoop_absorb:
  assumes "mg_bufs st = xs @ bs" "length xs = it" "mg_start st = Some s" "mg_end st = Some it" "placed st xs s"
    and "\<forall>b \<in> set bs. sb_offset (mg_cur st) < sb_offset b" "gapped bs"
  shows "mergeFinish (mergeLoop it st) = settled st xs s @ absorb (mg_cur st) bs"
  using assms
proof (induction bs arbitrary: xs it st)
  case Nil
  then show ?case
    by (subst mergeLoop.simps)
      (auto simp: mergeFinish_def insert_at_def erase_range_def settled_def placed_def take_Suc_conv_app_nth split: option.splits)
next
  case (Cons b bs)
  let ?c = "mg_cur st"
  have b: "mg_bufs st ! it = b" "\<not> length (mg_bufs st) \<le> it" "sb_offset ?c < sb_offset b"
    using Cons.prems by (auto simp: nth_append)
  consider "sb_end ?c < sb_offset b" | "sb_offset b \<le> sb_end ?c" "sb_end ?c \<le> sb_end b" | "sb_end b < sb_end ?c" "sb_offset b \<le> sb_end ?c"
    by linarith
  then show ?case
  proof cases
    case 1
    with b Cons.prems show ?thesis
      by (subst mergeLoop.simps)
        (auto simp: Let_def mergeFinish_def insert_at_def erase_range_def settled_def placed_def take_Suc_conv_app_nth split: option.splits)
  next
    case 2
    with b Cons.prems show ?thesis
      by (subst mergeLoop.simps)
        (auto simp: Let_def mergeFinish_def insert_at_def erase_range_def setCur_def list_update_append settled_def placed_def
          take_Suc_conv_app_nth split: option.splits)
  next
    case 3
    define st' where "st' = st\<lparr>mg_start := Some s, mg_end := Some (it + 1)\<rparr>"
    have "mg_bufs st' = (xs @ [b]) @ bs" "length (xs @ [b]) = it + 1" "mg_start st' = Some s"
      "mg_end st' = Some (it + 1)" "placed st' (xs @ [b]) s" "\<forall>x \<in> set bs. sb_offset (mg_cur st') < sb_offset x" "gapped bs"
      using Cons.prems by (auto simp: st'_def gapped_Cons placed_def nth_append split: option.splits)
    from Cons.IH [OF this] have "mergeFinish (mergeLoop (it + 1) st') = settled st' (xs @ [b]) s @ absorb ?c bs"
      by (simp add: st'_def)
    moreover have "mergeLoop it st = mergeLoop (it + 1) st'"
      using 3 b Cons.prems(3) by (subst mergeLoop.simps) (simp add: Let_def st'_def sb_end_def)
    moreover have "settled st' (xs @ [b]) s = settled st xs s"
      using Cons.prems(2,5) by (auto simp: st'_def settled_def placed_def split: option.splits)
    ultimately show ?thesis using 3 by simp
  qed
qed

text \<open>The first iteration of the loop and the append after it.\<close>

lemma mergeLoop_first:
  assumes "bufs = pre @ b # bs" "gapped bufs" "sb_data cur \<noteq> []" "sb_offset cur \<le> sb_end b"
  shows "mergeFinish (mergeLoop (length pre) \<lparr>mg_bufs = bufs, mg_cur = cur, mg_curAt = None, mg_start = None, mg_end = None\<rparr>)
    = pre @ mergeSpec cur (b # bs)" (is "mergeFinish (mergeLoop ?it ?st) = _")
proof -
  have sep: "gapped bs" "\<forall>x \<in> set bs. sb_end b < sb_offset x" "sb_data b \<noteq> []"
    using assms(1,2) by (auto simp: gapped_append gapped_Cons)
  then have le: "sb_end b \<le> sb_end (last bufs)" "sb_offset b < sb_end b" and c: "sb_offset cur < sb_end cur"
    using assms(1,3) by (auto simp: nonempty_less_end sb_end_def trans_le_add1 less_imp_le)
  have it: "mg_bufs ?st ! ?it = b" "\<not> length (mg_bufs ?st) \<le> ?it" using assms(1) by auto
  consider "sb_offset b \<le> sb_offset cur" "sb_end cur \<le> sb_end b" | "sb_offset b < sb_offset cur" "sb_end b < sb_end cur"
    | "sb_offset cur < sb_offset b" "sb_end cur < sb_offset b"
    | "sb_offset cur < sb_offset b" "sb_offset b \<le> sb_end cur" "sb_end cur \<le> sb_end b"
    | "sb_offset cur \<le> sb_offset b" "sb_end b < sb_end cur" by linarith
  then show ?thesis
  proof cases
    case 1
    then have "mergeLoop ?it ?st = ?st" using it by (subst mergeLoop.simps) (simp add: Let_def)
    with 1 le c assms(1) show ?thesis by (simp add: mergeFinish_def)
  next
    case 2
    define b' where "b' = b\<lparr>sb_data := sb_data b @ drop (sb_end b - sb_offset cur) (sb_data cur)\<rparr>"
    define st' where "st' = ?st\<lparr>mg_bufs := bufs[?it := b'], mg_cur := b', mg_curAt := Some ?it, mg_start := Some (?it + 1),
      mg_end := Some (?it + 1)\<rparr>"
    have "mergeLoop ?it ?st = mergeLoop (?it + 1) st'"
      using 2 it le assms(4) by (subst mergeLoop.simps) (simp add: Let_def b'_def st'_def)
    moreover have "mergeFinish (mergeLoop (?it + 1) st') = settled st' (pre @ [b']) (?it + 1) @ absorb (mg_cur st') bs"
      using sep le assms(1) by (intro mergeLoop_absorb) (auto simp: st'_def placed_def b'_def)
    ultimately show ?thesis using 2 by (simp add: st'_def settled_def b'_def)
  next
    case 3
    with it assms(1) show ?thesis
      by (subst mergeLoop.simps) (simp add: Let_def mergeFinish_def insert_at_def erase_range_def)
  next
    case 4
    with it assms(1) show ?thesis
      by (subst mergeLoop.simps) (simp add: Let_def mergeFinish_def insert_at_def erase_range_def setCur_def)
  next
    case 5
    define st' where "st' = ?st\<lparr>mg_start := Some ?it, mg_end := Some (?it + 1)\<rparr>"
    have "mergeLoop ?it ?st = mergeLoop (?it + 1) st'"
      using 5 it le by (subst mergeLoop.simps) (simp add: Let_def st'_def)
    moreover have "mergeFinish (mergeLoop (?it + 1) st') = settled st' (pre @ [b]) ?it @ absorb (mg_cur st') bs"
      using sep le assms(1) 5 by (intro mergeLoop_absorb) (auto simp: st'_def placed_def)
    ultimately show ?thesis using 5 le by (simp add: st'_def settled_def)
  qed
qed

theorem mergeIntoReadBuffer_spec:
  assumes "gapped bufs" "sb_data buffer \<noteq> []"
  defines "before \<equiv> \<lambda>v. sb_end v < sb_offset buffer"
  shows "mergeIntoReadBuffer buffer bufs = takeWhile before bufs @ mergeSpec buffer (dropWhile before bufs)"
proof (cases "dropWhile before bufs")
  case Nil
  then have all: "\<forall>b \<in> set bufs. before b" by (simp add: dropWhile_eq_Nil_conv)
  then have tw: "takeWhile before bufs = bufs" by (simp add: takeWhile_eq_all_conv)
  have "bufs \<noteq> [] \<Longrightarrow> sb_end (last bufs) < sb_offset buffer" using all by (auto simp: before_def)
  moreover have "mergeLoop (length bufs) st = st" if "mg_bufs st = bufs" for st
    using that by (subst mergeLoop.simps) simp
  ultimately show ?thesis
    unfolding mergeIntoReadBuffer_def lower_bound_def Let_def before_def [symmetric] tw Nil by (simp add: mergeFinish_def)
next
  case (Cons b bs)
  then have *: "bufs = takeWhile before bufs @ b # bs" by (metis takeWhile_dropWhile_id)
  from Cons have "sb_offset buffer \<le> sb_end b" by (simp add: dropWhile_eq_Cons_conv before_def)
  from mergeLoop_first [OF * assms(1,2) this] Cons * show ?thesis
    by (auto simp: mergeIntoReadBuffer_def lower_bound_def before_def [symmetric])
qed

section \<open>What the merged buffer covers\<close>

text \<open>The shape of a read buffer: buffers in order with a gap between any two, every one a nonempty
  segment of the stream at or above an offset.\<close>

definition reassembled :: "(nat \<Rightarrow> byte) \<Rightarrow> nat \<Rightarrow> StreamBuffer list \<Rightarrow> bool" where
  "reassembled data l bufs \<longleftrightarrow> gapped bufs \<and> (\<forall>b \<in> set bufs. seg data b \<and> l \<le> sb_offset b)"

lemma reassembled_Nil [simp]: "reassembled data l []"
  by (simp add: reassembled_def)

lemma reassembled_Cons:
  "reassembled data l (b # bs) \<longleftrightarrow>
     sb_data b \<noteq> [] \<and> seg data b \<and> l \<le> sb_offset b \<and> reassembled data (Suc (sb_end b)) bs"
proof -
  have "l \<le> sb_offset x" if "l \<le> sb_offset b" "sb_end b < sb_offset x" for x
    using that unfolding sb_end_def by linarith
  then show ?thesis unfolding reassembled_def gapped_Cons Suc_le_eq by simp blast
qed

lemma reassembled_weaken: "reassembled data l bs \<Longrightarrow> k \<le> l \<Longrightarrow> reassembled data k bs"
  by (auto simp: reassembled_def)

lemma seg_join:
  assumes "seg data a" "seg data b" "sb_offset a \<le> sb_offset b" "sb_offset b \<le> sb_end a" "sb_end a \<le> sb_end b"
  defines "c \<equiv> a\<lparr>sb_data := sb_data a @ drop (sb_end a - sb_offset b) (sb_data b)\<rparr>"
  shows "seg data c" "sb_end c = sb_end b" "sb_offset c = sb_offset a"
proof -
  have d: "drop (sb_end a - sb_offset b) (sb_data b) = map data [sb_end a..<sb_end b]"
    using seg_drop [OF assms(2), of "sb_end a - sb_offset b"] assms(4) by simp
  then have l: "length (drop (sb_end a - sb_offset b) (sb_data b)) = sb_end b - sb_end a" by (simp del: length_drop)
  show e: "sb_end c = sb_end b" using l assms(5) by (simp add: c_def sb_end_def)
  have "[sb_offset a..<sb_end b] = [sb_offset a..<sb_end a] @ [sb_end a..<sb_end b]"
    using assms(5) by (metis le_add_diff_inverse sb_end_def upt_add_eq_append le_add1)
  then show "seg data c" using assms(1) d e unfolding seg_def by (simp add: c_def)
  show "sb_offset c = sb_offset a" by (simp add: c_def)
qed

lemma absorb_spec:
  assumes "reassembled data (sb_offset cur) bs" "seg data cur" "sb_data cur \<noteq> []"
  shows "reassembled data (sb_offset cur) (absorb cur bs) \<and> covered (absorb cur bs) = {sb_offset cur..<sb_end cur} \<union> covered bs"
  using assms
proof (induction bs)
  case Nil
  then show ?case by (simp add: reassembled_Cons)
next
  case (Cons b bs)
  note b = Cons.prems(1) [unfolded reassembled_Cons]
  consider "sb_end cur < sb_offset b" | "sb_offset b \<le> sb_end cur" "sb_end cur \<le> sb_end b" | "sb_end b < sb_end cur" "sb_offset b \<le> sb_end cur"
    by linarith
  then show ?case
  proof cases
    case 1
    with Cons.prems b show ?thesis by (simp add: reassembled_Cons Suc_le_eq)
  next
    case 2
    define c where "c = cur\<lparr>sb_data := sb_data cur @ drop (sb_end cur - sb_offset b) (sb_data b)\<rparr>"
    have c: "seg data c" "sb_end c = sb_end b" "sb_offset c = sb_offset cur"
      unfolding c_def using seg_join [of data cur b] 2 b Cons.prems(2) by blast+
    have a: "absorb cur (b # bs) = c # bs" using 2 by (simp add: c_def)
    have "sb_data c \<noteq> []" using Cons.prems(3) by (simp add: c_def)
    then show ?thesis using b c 2 unfolding a by (auto simp: reassembled_Cons)
  next
    case 3
    then have "{sb_offset b..<sb_end b} \<subseteq> {sb_offset cur..<sb_end cur}" using b by auto
    then have u: "{sb_offset cur..<sb_end cur} \<union> ({sb_offset b..<sb_end b} \<union> covered bs) = {sb_offset cur..<sb_end cur} \<union> covered bs"
      by blast
    have "reassembled data (sb_offset cur) bs"
      using b by (auto simp: sb_end_def intro: reassembled_weaken)
    from Cons.IH [OF this Cons.prems(2,3)] show ?thesis using 3 u by simp
  qed
qed

lemma mergeSpec_spec:
  assumes "reassembled data l bs" "seg data cur" "sb_data cur \<noteq> []" "l \<le> sb_offset cur" "bs \<noteq> [] \<Longrightarrow> sb_offset cur \<le> sb_end (hd bs)"
  shows "reassembled data l (mergeSpec cur bs) \<and> covered (mergeSpec cur bs) = {sb_offset cur..<sb_end cur} \<union> covered bs"
proof (cases bs)
  case Nil
  with assms show ?thesis by (simp add: reassembled_Cons)
next
  case (Cons b bs')
  have b: "sb_data b \<noteq> []" "seg data b" "l \<le> sb_offset b" "reassembled data (Suc (sb_end b)) bs'" "sb_offset cur \<le> sb_end b"
    using assms(1,5) by (simp_all add: Cons reassembled_Cons)
  consider "sb_offset b \<le> sb_offset cur" "sb_end cur \<le> sb_end b" | "sb_offset b < sb_offset cur" "sb_end b < sb_end cur"
    | "sb_offset cur < sb_offset b \<or> sb_offset cur = sb_offset b \<and> sb_end b < sb_end cur" by linarith
  then show ?thesis
  proof cases
    case 1
    with assms(1) show ?thesis by (auto simp: Cons)
  next
    case 2
    define c where "c = b\<lparr>sb_data := sb_data b @ drop (sb_end b - sb_offset cur) (sb_data cur)\<rparr>"
    have c: "seg data c" "sb_end c = sb_end cur" "sb_offset c = sb_offset b"
      unfolding c_def using seg_join [of data b cur] 2 b assms(2) by (blast intro: less_imp_le)+
    have r: "reassembled data (sb_offset c) bs'" using b(4) c(3) by (auto simp: sb_end_def intro: reassembled_weaken)
    have m: "mergeSpec cur (b # bs') = absorb c bs'" using 2 by (simp add: c_def)
    have "sb_data c \<noteq> []" using b(1) by (simp add: c_def)
    note a = absorb_spec [OF r c(1) this]
    have u: "{sb_offset c..<sb_end c} = {sb_offset cur..<sb_end cur} \<union> {sb_offset b..<sb_end b}"
      using 2 b(5) unfolding c by auto
    have "reassembled data l (absorb c bs')" using a b(3) c(3) by (metis reassembled_weaken)
    with a show ?thesis unfolding Cons m u covered_simps by (simp add: Un_assoc)
  next
    case 3
    then have m: "mergeSpec cur bs = absorb cur bs" using Cons by auto
    have "reassembled data (sb_offset cur) bs" using 3 b by (auto simp: Cons reassembled_Cons)
    from absorb_spec [OF this assms(2,3)] show ?thesis unfolding m using assms(4) reassembled_weaken by blast
  qed
qed

lemma merge_reassembled:
  assumes "reassembled data l bufs" "seg data buffer" "sb_data buffer \<noteq> []" "l \<le> sb_offset buffer"
  defines "before \<equiv> \<lambda>v. sb_end v < sb_offset buffer"
  defines "merged \<equiv> takeWhile before bufs @ mergeSpec buffer (dropWhile before bufs)"
  shows "reassembled data l merged \<and> covered merged = {sb_offset buffer..<sb_end buffer} \<union> covered bufs"
  using assms(1,4) unfolding merged_def
proof (induction bufs arbitrary: l)
  case Nil
  with assms(2,3) show ?case by (simp add: reassembled_Cons)
next
  case (Cons b bs)
  show ?case
  proof (cases "before b")
    case True
    then have "Suc (sb_end b) \<le> sb_offset buffer" by (simp add: before_def)
    with Cons True show ?thesis by (auto simp: reassembled_Cons)
  next
    case False
    then have "sb_offset buffer \<le> sb_end b" by (simp add: before_def)
    with mergeSpec_spec [OF Cons.prems(1) assms(2,3) Cons.prems(2)] False show ?thesis by auto
  qed
qed

lemma mergeIntoReadBuffer_reassembled:
  assumes "reassembled data l bufs" "seg data buffer" "sb_data buffer \<noteq> []" "l \<le> sb_offset buffer"
  shows "reassembled data l (mergeIntoReadBuffer buffer bufs)"
    and "covered (mergeIntoReadBuffer buffer bufs) = {sb_offset buffer..<sb_end buffer} \<union> covered bufs"
  using merge_reassembled [OF assms] mergeIntoReadBuffer_spec [of bufs buffer] assms(1,3) by (simp_all add: reassembled_def)

section \<open>Reading in order\<close>

lemma seg_split:
  assumes "seg data b" "n \<le> length (sb_data b)"
  shows "take n (sb_data b) = map data [sb_offset b..<sb_offset b + n]"
    and "seg data (b\<lparr>sb_data := drop n (sb_data b), sb_offset := sb_offset b + n\<rparr>)"
    and "sb_end (b\<lparr>sb_data := drop n (sb_data b), sb_offset := sb_offset b + n\<rparr>) = sb_end b"
proof -
  show "take n (sb_data b) = map data [sb_offset b..<sb_offset b + n]"
    using assms unfolding seg_def by (metis take_map take_upt add_le_cancel_left sb_end_def)
  show e: "sb_end (b\<lparr>sb_data := drop n (sb_data b), sb_offset := sb_offset b + n\<rparr>) = sb_end b"
    using assms(2) by (simp add: sb_end_def)
  show "seg data (b\<lparr>sb_data := drop n (sb_data b), sb_offset := sb_offset b + n\<rparr>)"
    unfolding seg_def e using seg_drop [OF assms(1)] by simp
qed

lemma reassembled_above: "reassembled data l bs \<Longrightarrow> covered bs \<subseteq> {l..}"
  by (auto simp: reassembled_def covered_def)

lemma readLoop_stop:
  "\<not> ((amount = 0 \<or> remaining \<noteq> 0) \<and> bufs \<noteq> []) \<or> sb_offset (hd bufs) > off \<Longrightarrow>
     readLoop amount sink remaining out eof bufs off = Inr (out, eof, bufs, off)"
  by (subst readLoop.simps) (auto simp: Let_def)

lemma readLoop_step:
  fixes b amount remaining off
  defines "n \<equiv> min (length (sb_data b)) (if amount = 0 then length (sb_data b) else remaining)"
  defines "c \<equiv> b\<lparr>sb_data := drop n (sb_data b), sb_offset := sb_offset b + n\<rparr>"
  assumes "amount = 0 \<or> remaining \<noteq> 0" "sb_offset b = off"
  shows "readLoop amount sink remaining out eof (b # bs) off =
    readLoop amount sink (if amount \<noteq> 0 then remaining - n else remaining) (if sink then out else out @ take n (sb_data b))
      (if sb_data c = [] then sb_eof c else eof) (if sb_data c = [] then bs else c # bs) (off + n)"
proof -
  have *: "((amount = 0 \<or> remaining \<noteq> 0) \<and> b # bs \<noteq> []) = True" "(sb_offset b > off) = False" "(sb_offset b \<noteq> off) = False"
    using assms(3,4) by auto
  show ?thesis
    by (subst readLoop.simps) (simp only: Let_def list.sel * if_True if_False n_def [symmetric] c_def [symmetric])
qed

text \<open>A read of \<open>n\<close> bytes at the read offset: the part of the first buffer that the amount allows.\<close>

definition readable :: "nat \<Rightarrow> StreamBuffer list \<Rightarrow> nat \<Rightarrow> nat" where
  "readable amount bufs off = (case bufs of [] \<Rightarrow> 0
     | b # _ \<Rightarrow> if sb_offset b > off then 0 else if amount = 0 then length (sb_data b) else min amount (length (sb_data b)))"

lemma readLoop_spec:
  fixes amount :: nat
  assumes "reassembled data off bufs"
  defines "n \<equiv> readable amount bufs off"
  shows "\<exists>eof bufs'. readLoop amount sink amount [] False bufs off =
      Inr (if sink then [] else map data [off..<off + n], eof, bufs', off + n) \<and>
    reassembled data (off + n) bufs' \<and> covered bufs' = covered bufs - {off..<off + n}"
proof (cases "bufs = [] \<or> off < sb_offset (hd bufs)")
  case True
  then have "n = 0" by (auto simp: n_def readable_def split: list.splits)
  with True assms(1) show ?thesis by (auto simp: readLoop_stop)
next
  case False
  then obtain b bs where bufs: "bufs = b # bs" by (cases bufs) auto
  with False assms(1) have b: "sb_offset b = off" "seg data b" "sb_data b \<noteq> []" "reassembled data (Suc (sb_end b)) bs"
    by (auto simp: reassembled_Cons)
  have n: "n = min (length (sb_data b)) (if amount = 0 then length (sb_data b) else amount)"
    using b(1) by (simp add: n_def readable_def bufs min.commute)
  define c where "c = b\<lparr>sb_data := drop n (sb_data b), sb_offset := off + n\<rparr>"
  note sp = seg_split [OF b(2), of n, unfolded b(1), folded c_def]
  have nl: "n \<le> length (sb_data b)" "0 < n" using n b(3) by auto
  define bufs' where "bufs' = (if sb_data c = [] then bs else c # bs)"
  have above: "covered bs \<subseteq> {Suc (sb_end b)..}" using reassembled_above [OF b(4)] .
  have "readLoop amount sink amount [] False bufs off =
      readLoop amount sink (amount - n) (if sink then [] else map data [off..<off + n])
        (if sb_data c = [] then sb_eof c else False) bufs' (off + n)"
    using readLoop_step [of amount amount b off sink "[]" False bs] b(1) sp(1) nl(1)
    unfolding n [symmetric] b(1) c_def [symmetric] bufs'_def bufs by (cases "amount = 0") (simp_all add: n)
  also have "\<dots> = Inr (if sink then [] else map data [off..<off + n], if sb_data c = [] then sb_eof c else False, bufs', off + n)"
  proof (rule readLoop_stop)
    show "\<not> ((amount = 0 \<or> amount - n \<noteq> 0) \<and> bufs' \<noteq> []) \<or> off + n < sb_offset (hd bufs')"
    proof (cases "sb_data c = []")
      case True
      then have "off + n = sb_end b" using nl b(1) by (simp add: c_def sb_end_def)
      then show ?thesis using True b(4) by (cases bs) (auto simp: bufs'_def reassembled_Cons)
    next
      case F: False
      then have "amount \<noteq> 0 \<and> amount - n = 0" using n by (auto simp: c_def min_def split: if_splits)
      then show ?thesis by simp
    qed
  qed
  finally have "readLoop amount sink amount [] False bufs off = \<dots>" .
  moreover have "reassembled data (off + n) bufs'"
  proof (cases "sb_data c = []")
    case True
    have "off + n \<le> Suc (sb_end b)" using nl b(1) by (simp add: sb_end_def)
    with True b(4) show ?thesis by (auto simp: bufs'_def intro: reassembled_weaken)
  next
    case F: False
    then show ?thesis using sp(2,3) nl b(4) by (simp add: bufs'_def reassembled_Cons) (simp add: c_def)
  qed
  moreover have "covered bufs' = covered bufs - {off..<off + n}"
  proof -
    have e: "sb_end b = off + length (sb_data b)" using b(1) by (simp add: sb_end_def)
    have "covered bufs' = {off + n..<sb_end b} \<union> covered bs"
      using sp(3) nl e by (auto simp: bufs'_def c_def)
    also have "\<dots> = covered bufs - {off..<off + n}" using above nl e b(1) by (auto simp: bufs)
    finally show ?thesis .
  qed
  ultimately show ?thesis by blast
qed

lemma readable_covered:
  assumes "reassembled data off bufs"
  shows "{off..<off + readable amount bufs off} \<subseteq> covered bufs"
    and "(amount \<noteq> 0 \<and> readable amount bufs off = amount) \<or> off + readable amount bufs off \<notin> covered bufs"
    and "amount \<noteq> 0 \<Longrightarrow> readable amount bufs off \<le> amount"
proof -
  have "{off..<off + readable amount bufs off} \<subseteq> covered bufs \<and>
    ((amount \<noteq> 0 \<and> readable amount bufs off = amount) \<or> off + readable amount bufs off \<notin> covered bufs)"
  proof (cases bufs)
    case (Cons b bs)
    have "sb_data b \<noteq> []" "off \<le> sb_offset b" "covered bs \<subseteq> {Suc (sb_end b)..}"
      using assms reassembled_above by (auto simp: Cons reassembled_Cons)
    then show ?thesis by (auto simp: Cons readable_def sb_end_def)
  qed (simp add: readable_def)
  then show "{off..<off + readable amount bufs off} \<subseteq> covered bufs"
    "(amount \<noteq> 0 \<and> readable amount bufs off = amount) \<or> off + readable amount bufs off \<notin> covered bufs" by blast+
  show "amount \<noteq> 0 \<Longrightarrow> readable amount bufs off \<le> amount" by (simp add: readable_def split: list.split)
qed

section \<open>A stream that receives and reads\<close>

text \<open>The segments of a conforming peer: they carry the bytes of one stream, and the ones that end it
  agree on its size.\<close>

definition conforming :: "(nat \<Rightarrow> byte) \<Rightarrow> nat option \<Rightarrow> StreamBuffer \<Rightarrow> bool" where
  "conforming data final b \<longleftrightarrow> seg data b \<and> (sb_eof b \<longrightarrow> final = Some (sb_end b)) \<and> (\<forall>f. final = Some f \<longrightarrow> sb_end b \<le> f)"

definition receive_inv :: "(nat \<Rightarrow> byte) \<Rightarrow> nat option \<Rightarrow> nat set \<Rightarrow> 'a QuicStreamLike_scheme \<Rightarrow> bool" where
  "receive_inv data final arrived s \<longleftrightarrow>
     reassembled data (currentReadOffset s) (readBuffer s) \<and> covered (readBuffer s) = arrived - {0..<currentReadOffset s} \<and>
     {0..<currentReadOffset s} \<subseteq> arrived \<and> (finalReadOffset s = None \<or> finalReadOffset s = final) \<and>
     (\<forall>f. final = Some f \<longrightarrow> maxOffsetObserved s \<le> f)"

lemma checkFinalOffset_conforming:
  assumes "receive_inv data final arrived s" "conforming data final b"
  shows "\<exists>f. checkFinalOffset s b = Inr f \<and> (f = None \<or> f = final)"
  using assms unfolding receive_inv_def conforming_def checkFinalOffset_def
  by (cases "sb_eof b"; cases "finalReadOffset s") (auto simp: Let_def)

lemma trim_seg:
  assumes "seg data b"
  shows "seg data (trimToReadOffset l b)" "sb_data (trimToReadOffset l b) \<noteq> [] \<Longrightarrow> l \<le> sb_offset (trimToReadOffset l b)"
    "{sb_offset (trimToReadOffset l b)..<sb_end (trimToReadOffset l b)} = {sb_offset b..<sb_end b} - {0..<l}"
proof -
  let ?t = "trimToReadOffset l b"
  have e: "sb_end ?t = max l (sb_end b)" if "sb_offset b < l" using that by (simp add: trimToReadOffset_def sb_end_def)
  show "seg data ?t"
  proof (cases "sb_offset b < l")
    case True
    then have "sb_data ?t = map data [l..<sb_end b]"
      using seg_drop [OF assms, of "l - sb_offset b"] by (simp add: trimToReadOffset_def)
    then show ?thesis using e [OF True] True unfolding seg_def by (simp add: trimToReadOffset_def max_def)
  next
    case False
    then show ?thesis using assms by (simp add: trimToReadOffset_def)
  qed
  show "sb_data ?t \<noteq> [] \<Longrightarrow> l \<le> sb_offset ?t" by (simp add: trimToReadOffset_def)
  show "{sb_offset ?t..<sb_end ?t} = {sb_offset b..<sb_end b} - {0..<l}"
  proof (cases "sb_offset b < l")
    case True
    then show ?thesis unfolding e [OF True] by (auto simp: trimToReadOffset_def)
  next
    case False
    then show ?thesis by (auto simp: trimToReadOffset_def)
  qed
qed

lemma append_receive_inv:
  assumes s: "receive_inv data final arrived s" and b: "conforming data final b"
    and v: "\<exists>c'. visitor (maxOffsetObserved s) (sb_end b) = Inr c'"
  shows "\<exists>c' s'. appendDataToReadBufferCommon visitor c s b = Inr (c', s') \<and>
    receive_inv data final (arrived \<union> {sb_offset b..<sb_end b}) s' \<and> currentReadOffset s' = currentReadOffset s"
proof (cases "\<not> sb_eof b \<and> sb_data b = []")
  case True
  then show ?thesis using s by (auto simp: appendDataToReadBufferCommon_def sb_end_def)
next
  case False
  obtain f where f: "checkFinalOffset s b = Inr f" "f = None \<or> f = final" using checkFinalOffset_conforming [OF s b] by blast
  obtain c' where c': "visitor (maxOffsetObserved s) (sb_end b) = Inr c'" using v by blast
  let ?t = "trimToReadOffset (currentReadOffset s) b"
  define bufs where "bufs = (if sb_data ?t = [] then readBuffer s else mergeIntoReadBuffer ?t (readBuffer s))"
  define s' where "s' = s\<lparr>finalReadOffset := f, maxOffsetObserved := max (maxOffsetObserved s) (sb_end b), readBuffer := bufs\<rparr>"
  have a: "appendDataToReadBufferCommon visitor c s b = Inr (c', s')"
    using False f(1) c' unfolding appendDataToReadBufferCommon_def if_not_P [OF False] s'_def bufs_def by (simp add: Let_def)
  have seg: "seg data b" using b by (simp add: conforming_def)
  note t = trim_seg [OF seg, of "currentReadOffset s"]
  have inv: "reassembled data (currentReadOffset s) (readBuffer s)" "covered (readBuffer s) = arrived - {0..<currentReadOffset s}"
    "{0..<currentReadOffset s} \<subseteq> arrived" using s by (auto simp: receive_inv_def)
  have "reassembled data (currentReadOffset s) bufs \<and> covered bufs = {sb_offset ?t..<sb_end ?t} \<union> covered (readBuffer s)"
    using mergeIntoReadBuffer_reassembled [OF inv(1) t(1) _ t(2)] inv(1) by (auto simp: bufs_def sb_end_def)
  then have "reassembled data (currentReadOffset s) bufs"
    "covered bufs = (arrived \<union> {sb_offset b..<sb_end b}) - {0..<currentReadOffset s}" unfolding t(3) inv(2) by auto
  then have "receive_inv data final (arrived \<union> {sb_offset b..<sb_end b}) s'"
    using s b f(2) by (auto simp: receive_inv_def conforming_def s'_def)
  then show ?thesis using a by (auto simp: s'_def)
qed

text \<open>The number of bytes a read of \<open>amount\<close> (0: all) gives.\<close>

definition readCount :: "'a QuicStreamLike_scheme \<Rightarrow> nat \<Rightarrow> nat" where
  "readCount s amount = readable amount (readBuffer s) (currentReadOffset s)"

lemma read_receive_inv:
  fixes amount :: nat
  assumes "receive_inv data final arrived s"
  defines "off \<equiv> currentReadOffset s" and "n \<equiv> readCount s amount"
  shows "\<exists>eof s'. readDataInOrderFromReadBuffer s amount sink = Inr (if sink then [] else map data [off..<off + n], eof, s') \<and>
    currentReadOffset s' = off + n \<and> receive_inv data final arrived s' \<and> (\<exists>bufs. s' = s\<lparr>readBuffer := bufs, currentReadOffset := off + n\<rparr>)"
proof -
  have r: "reassembled data off (readBuffer s)" "covered (readBuffer s) = arrived - {0..<off}" "{0..<off} \<subseteq> arrived"
    using assms(1) by (auto simp: receive_inv_def off_def)
  obtain eof bufs where l: "readLoop amount sink amount [] False (readBuffer s) off =
      Inr (if sink then [] else map data [off..<off + n], eof, bufs, off + n)"
    "reassembled data (off + n) bufs" "covered bufs = covered (readBuffer s) - {off..<off + n}"
    using readLoop_spec [OF r(1), of amount sink] unfolding n_def readCount_def off_def by blast
  have "{off..<off + n} \<subseteq> covered (readBuffer s)"
    using readable_covered [OF r(1), of amount] by (simp add: n_def readCount_def off_def)
  then have n: "{off..<off + n} \<subseteq> arrived" unfolding r(2) by blast
  have u: "{0..<off + n} = {0..<off} \<union> {off..<off + n}" by auto
  have "covered bufs = arrived - {0..<off + n}" unfolding l(3) r(2) u by blast
  moreover have "{0..<off + n} \<subseteq> arrived" unfolding u using r(3) n by blast
  ultimately have "receive_inv data final arrived (s\<lparr>readBuffer := bufs, currentReadOffset := off + n\<rparr>)"
    using assms(1) l(2) by (simp add: receive_inv_def)
  then show ?thesis using l(1) by (auto simp: readDataInOrderFromReadBuffer_def off_def)
qed

section \<open>Properties\<close>

text \<open>What a stream promises its reader. Segments arrive and bytes are taken out; the state knows the
  positions that arrived and the position of the next byte. The laws are those of one arrival and one
  read; what follows for a sequence of them is proved once.\<close>

datatype 'b delivery_event = Arrive 'b | Read nat

fun delivery_run ::
  "('s \<Rightarrow> 'b \<Rightarrow> 's res) \<Rightarrow> ('s \<Rightarrow> nat \<Rightarrow> (byte list \<times> 's) res) \<Rightarrow> 'b delivery_event list \<Rightarrow> 's \<Rightarrow> (byte list \<times> 's) res" where
  "delivery_run receive read [] s = Inr ([], s)"
| "delivery_run receive read (Arrive b # es) s = rbind (receive s b) (\<lambda>s. delivery_run receive read es s)"
| "delivery_run receive read (Read amount # es) s = rbind (read s amount) (\<lambda>(d, s).
     rbind (delivery_run receive read es s) (\<lambda>(d', s). Inr (d @ d', s)))"

fun arrived_by :: "('b \<Rightarrow> nat set) \<Rightarrow> 'b delivery_event list \<Rightarrow> nat set" where
  "arrived_by positions [] = {}"
| "arrived_by positions (Arrive b # es) = positions b \<union> arrived_by positions es"
| "arrived_by positions (Read _ # es) = arrived_by positions es"

locale ordered_delivery =
  fixes holds :: "(nat \<Rightarrow> byte) \<Rightarrow> nat set \<Rightarrow> 's \<Rightarrow> bool" and pos :: "'s \<Rightarrow> nat"
    and receive :: "'s \<Rightarrow> 'b \<Rightarrow> 's res" and read :: "'s \<Rightarrow> nat \<Rightarrow> (byte list \<times> 's) res"
    and segment :: "(nat \<Rightarrow> byte) \<Rightarrow> 'b \<Rightarrow> bool" and positions :: "'b \<Rightarrow> nat set"
  assumes receive_law: "holds data A s \<Longrightarrow> segment data b \<Longrightarrow>
      \<exists>s'. receive s b = Inr s' \<and> holds data (A \<union> positions b) s' \<and> pos s' = pos s"
    and read_law: "holds data A s \<Longrightarrow>
      \<exists>n s'. read s amount = Inr (map data [pos s..<pos s + n], s') \<and> pos s' = pos s + n \<and> holds data A s'"
begin

lemma run_delivers:
  assumes "holds data A s" "\<forall>b. Arrive b \<in> set es \<longrightarrow> segment data b"
  shows "\<exists>out s'. delivery_run receive read es s = Inr (out, s') \<and> pos s \<le> pos s' \<and>
    out = map data [pos s..<pos s'] \<and> holds data (A \<union> arrived_by positions es) s'"
  using assms
proof (induction es arbitrary: A s)
  case Nil
  then show ?case by auto
next
  case (Cons e es)
  show ?case
  proof (cases e)
    case (Arrive b)
    obtain s1 where s1: "receive s b = Inr s1" "holds data (A \<union> positions b) s1" "pos s1 = pos s"
      using receive_law [OF Cons.prems(1), of b] Cons.prems(2) Arrive by auto
    from Cons.IH [OF s1(2)] Cons.prems(2) show ?thesis by (auto simp: Arrive s1 Un_assoc)
  next
    case (Read amount)
    obtain n s1 where s1: "read s amount = Inr (map data [pos s..<pos s + n], s1)" "pos s1 = pos s + n" "holds data A s1"
      using read_law [OF Cons.prems(1), of amount] by blast
    obtain out s' where r: "delivery_run receive read es s1 = Inr (out, s')" "pos s1 \<le> pos s'"
      "out = map data [pos s1..<pos s']" "holds data (A \<union> arrived_by positions es) s'"
      using Cons.IH [OF s1(3)] Cons.prems(2) by auto
    have le: "pos s \<le> pos s1" by (simp add: s1(2))
    have "map data [pos s..<pos s1] @ out = map data [pos s..<pos s']"
      unfolding r(3) map_append [symmetric] using le r(2) by (metis le_Suc_ex upt_add_eq_append)
    then have "delivery_run receive read (e # es) s = Inr (map data [pos s..<pos s'], s')"
      using s1(1) r(1) by (simp add: Read s1(2))
    then show ?thesis using r(2,4) le by (auto simp: Read)
  qed
qed

end

text \<open>The crypto streams keep this promise.\<close>

lemma read_crypto:
  assumes "receive_inv data final A s"
  shows "\<exists>s'. readDataFromCryptoStream s amount =
      Inr (map data [currentReadOffset s..<currentReadOffset s + readCount s amount], s') \<and>
    currentReadOffset s' = currentReadOffset s + readCount s amount \<and> receive_inv data final A s'"
  using read_receive_inv [OF assms, of amount False] by (auto simp: readDataFromCryptoStream_def)

lemma append_crypto:
  assumes "receive_inv data final A s" "conforming data final b"
  shows "\<exists>s'. appendDataToCryptoReadBuffer s b = Inr s' \<and> receive_inv data final (A \<union> {sb_offset b..<sb_end b}) s' \<and>
    currentReadOffset s' = currentReadOffset s"
  using append_receive_inv [OF assms, of "\<lambda>_ _. Inr ()" "()"] by (auto simp: appendDataToCryptoReadBuffer_def)

interpretation crypto: ordered_delivery "\<lambda>data A s. receive_inv data final A s" currentReadOffset
  appendDataToCryptoReadBuffer readDataFromCryptoStream "\<lambda>data b. conforming data final b" "\<lambda>b. {sb_offset b..<sb_end b}" for final
proof unfold_locales
  show "\<exists>s'. appendDataToCryptoReadBuffer s b = Inr s' \<and> receive_inv data final (A \<union> {sb_offset b..<sb_end b}) s' \<and>
      currentReadOffset s' = currentReadOffset s" if "receive_inv data final A s" "conforming data final b" for data A b and s :: "'a QuicStreamLike_scheme"
    using that by (rule append_crypto)
  show "\<exists>n s'. readDataFromCryptoStream s amount = Inr (map data [currentReadOffset s..<currentReadOffset s + n], s') \<and>
      currentReadOffset s' = currentReadOffset s + n \<and> receive_inv data final A s'"
    if "receive_inv data final A s" for data A amount and s :: "'a QuicStreamLike_scheme"
    using read_crypto [OF that] by blast
qed

text \<open>The life of a crypto stream: handshake data arrives in any order, with gaps, overlaps and
  repetitions, and is read in between.\<close>

definition crypto_run ::
  "StreamBuffer delivery_event list \<Rightarrow> 'a QuicStreamLike_scheme \<Rightarrow> (byte list \<times> 'a QuicStreamLike_scheme) res" where
  "crypto_run es s = delivery_run appendDataToCryptoReadBuffer readDataFromCryptoStream es s"

definition arrived :: "StreamBuffer delivery_event list \<Rightarrow> nat set" where
  "arrived es = arrived_by (\<lambda>b. {sb_offset b..<sb_end b}) es"

lemma read_all_reaches:
  assumes "receive_inv data final A s" "{0..<n} \<subseteq> A"
  shows "n \<le> currentReadOffset s + readCount s 0"
proof (rule ccontr)
  assume "\<not> ?thesis"
  then have "currentReadOffset s + readCount s 0 \<in> covered (readBuffer s)" using assms by (auto simp: receive_inv_def)
  moreover have "currentReadOffset s + readCount s 0 \<notin> covered (readBuffer s)"
    using readable_covered(2) [of data "currentReadOffset s" "readBuffer s" 0] assms(1)
    by (simp add: receive_inv_def readCount_def)
  ultimately show False by simp
qed

text \<open>C7: handshake data is delivered exactly, in order and completely. Whatever segments of the
  peer's byte stream \<open>data\<close> arrive, in whatever order, overlapping or repeated, and however reads
  are placed between them, no step fails; the bytes read so far, put together, are the first
  bytes of the stream; the read buffer covers exactly what arrived and was not read, in separate
  ascending buffers; and once all bytes below \<open>n\<close> arrived, the next read without a limit reaches
  at least \<open>n\<close>.\<close>

theorem crypto_stream_delivers_in_order:
  assumes "\<forall>b. Arrive b \<in> set es \<longrightarrow> conforming data final b"
  shows "\<exists>out s. crypto_run es newCryptoStream = Inr (out, s) \<and>
    out = map data [0..<currentReadOffset s] \<and> {0..<currentReadOffset s} \<subseteq> arrived es \<and>
    covered (readBuffer s) = arrived es - {0..<currentReadOffset s} \<and> gapped (readBuffer s) \<and>
    (\<forall>n. {0..<n} \<subseteq> arrived es \<longrightarrow> (\<exists>d s'. readDataFromCryptoStream s 0 = Inr (d, s') \<and> n \<le> currentReadOffset s'))"
proof -
  have "receive_inv data final {} newCryptoStream" by (simp add: receive_inv_def newCryptoStream_def)
  from crypto.run_delivers [OF this assms] obtain out s where r: "crypto_run es newCryptoStream = Inr (out, s)"
    "out = map data [0..<currentReadOffset s]" "receive_inv data final (arrived es) s"
    by (auto simp: newCryptoStream_def crypto_run_def arrived_def)
  then show ?thesis using read_all_reaches [OF r(3)] read_crypto [OF r(3), of 0]
    by (fastforce simp: receive_inv_def reassembled_def)
qed

definition example_bytes :: "nat \<Rightarrow> byte" where
  "example_bytes n = word_of_nat (n + 1)"

definition example_segment :: "nat \<Rightarrow> nat \<Rightarrow> StreamBuffer" where
  "example_segment i j = \<lparr>sb_data = map example_bytes [i..<j], sb_offset = i, sb_eof = False\<rparr>"

definition example_arrivals :: "StreamBuffer delivery_event list" where
  "example_arrivals = [Arrive (example_segment 2 4), Read 0, Arrive (example_segment 0 3), Read 1, Read 0]"

lemma example_segment_conforming: "i \<le> j \<Longrightarrow> conforming example_bytes None (example_segment i j)"
  by (simp add: conforming_def seg_def example_segment_def sb_end_def)

lemma example_arrivals_run: "\<exists>s. crypto_run example_arrivals newCryptoStream = Inr ([1, 2, 3, 4], s) \<and> currentReadOffset s = 4"
  by (simp add: crypto_run_def example_arrivals_def example_segment_def example_bytes_def newCryptoStream_def sb_end_def
      appendDataToCryptoReadBuffer_def appendDataToReadBufferCommon_def checkFinalOffset_def trimToReadOffset_def
      mergeIntoReadBuffer_def lower_bound_def mergeLoop.simps mergeFinish_def setCur_def insert_at_def erase_range_def
      readDataFromCryptoStream_def readDataInOrderFromReadBuffer_def readLoop.simps upt_rec numeral_eq_Suc)

theorem crypto_stream_delivers_in_order_witness:
  "\<exists>out s. crypto_run example_arrivals newCryptoStream = Inr (out, s) \<and> out = map example_bytes [0..<currentReadOffset s] \<and>
     arrived example_arrivals = {0..<4} \<and> out = [1, 2, 3, 4]"
proof -
  have "\<forall>b. Arrive b \<in> set example_arrivals \<longrightarrow> conforming example_bytes None b"
    by (auto simp: example_arrivals_def example_segment_conforming)
  from crypto_stream_delivers_in_order [OF this] example_arrivals_run
  have "\<exists>out s. crypto_run example_arrivals newCryptoStream = Inr (out, s) \<and>
    out = map example_bytes [0..<currentReadOffset s] \<and> out = [1, 2, 3, 4]" by auto
  moreover have "arrived example_arrivals = {0..<4}"
    by (auto simp: arrived_def example_arrivals_def example_segment_def sb_end_def)
  ultimately show ?thesis by simp
qed

end
