(* ===== verification/Stream_Receive.thy ===== *)
theory Stream_Receive
  imports Reassembly Stream_Manager_Inv
begin

text \<open>
  The receiving side of application streams: \<^verbatim>\<open>appendDataToReadBuffer\<close> with the flow control of
  the stream and the connection, and \<^verbatim>\<open>readDataFromQuicStream\<close>. The received segment is refused
  exactly when it contradicts the final size or exceeds a window; otherwise the counters of the
  connection grow by exactly what the segment adds. A read returns the next bytes of the stream
  and reports its end exactly at the final size.
\<close>

section \<open>Received data and the windows\<close>

text \<open>A segment contradicts what is known of the size of the stream.\<close>

definition final_size_violation :: "'a QuicStreamLike_scheme \<Rightarrow> StreamBuffer \<Rightarrow> bool" where
  "final_size_violation stream b \<longleftrightarrow>
     (if sb_eof b then maxOffsetObserved stream > sb_end b \<or> (\<exists>f. finalReadOffset stream = Some f \<and> f \<noteq> sb_end b)
      else (\<exists>f. finalReadOffset stream = Some f \<and> f < sb_end b))"

lemma checkFinalOffset_cases:
  "checkFinalOffset stream b =
     (if final_size_violation stream b then Inl (QuicTransportException TE_FINAL_SIZE_ERROR)
      else Inr (if sb_eof b then Some (sb_end b) else finalReadOffset stream))"
  by (auto simp: checkFinalOffset_def final_size_violation_def Let_def split: option.splits)

text \<open>The bytes that a segment adds to the largest offset seen.\<close>

definition new_bytes :: "'a QuicStreamLike_scheme \<Rightarrow> StreamBuffer \<Rightarrow> nat" where
  "new_bytes stream b = sb_end b - maxOffsetObserved stream"

lemma updateFlowControlOnStreamData_cases:
  assumes "cfc_sumMaxObservedOffset (conn_flowControlState conn) + sfc_advertisedMaxOffset (flowControlState stream) \<le> u64_max"
  shows "updateFlowControlOnStreamData conn stream prev e =
    (if sfc_advertisedMaxOffset (flowControlState stream) < e \<or>
        cfc_advertisedMaxOffset (conn_flowControlState conn) < cfc_sumMaxObservedOffset (conn_flowControlState conn) + (e - prev)
     then Inl (QuicTransportException TE_FLOW_CONTROL_ERROR)
     else Inr (updFlow (\<lambda>fc. fc\<lparr>cfc_sumMaxObservedOffset := cfc_sumMaxObservedOffset fc + (e - prev)\<rparr>) conn))"
proof (cases "sfc_advertisedMaxOffset (flowControlState stream) < e")
  case False
  have d: "sub64 (max prev e) prev = e - prev" by (auto simp: sub64_def max_def)
  have "incrementWithOverFlowCheck (cfc_sumMaxObservedOffset (conn_flowControlState conn)) (e - prev) =
      Inr (cfc_sumMaxObservedOffset (conn_flowControlState conn) + (e - prev))"
    using assms False by (simp add: incrementWithOverFlowCheck_def)
  with False d show ?thesis by (simp add: updateFlowControlOnStreamData_def Let_def updFlow_def)
qed (simp add: updateFlowControlOnStreamData_def)

text \<open>C9: a stream frame is accepted exactly when it respects the final size and both windows. For a
  segment that carries data or the end of the stream, and counters whose sum fits in 64 bits, it is
  refused with \<^verbatim>\<open>FINAL_SIZE_ERROR\<close> exactly if it contradicts what is known of the size of the
  stream, and else with \<^verbatim>\<open>FLOW_CONTROL_ERROR\<close> exactly if it ends beyond the window of the stream
  or its new bytes exceed the window of the connection. Otherwise the sum of the connection grows by
  exactly its new bytes and stays within the window, and so does the largest offset of the stream.\<close>

theorem receive_windows_enforced:
  fixes conn :: QuicConnectionStateBase and stream :: QuicStreamState
  defines "seen \<equiv> cfc_sumMaxObservedOffset (conn_flowControlState conn)"
    and "window \<equiv> sfc_advertisedMaxOffset (flowControlState stream)"
    and "connWindow \<equiv> cfc_advertisedMaxOffset (conn_flowControlState conn)"
  assumes "seen + window \<le> u64_max" "maxOffsetObserved stream \<le> window" "sb_eof b \<or> sb_data b \<noteq> []"
  shows "if final_size_violation stream b
      then appendDataToReadBuffer conn stream b = Inl (QuicTransportException TE_FINAL_SIZE_ERROR)
      else if window < sb_end b \<or> connWindow < seen + new_bytes stream b
      then appendDataToReadBuffer conn stream b = Inl (QuicTransportException TE_FLOW_CONTROL_ERROR)
      else \<exists>conn' stream'. appendDataToReadBuffer conn stream b = Inr (conn', stream') \<and>
        cfc_sumMaxObservedOffset (conn_flowControlState conn') = seen + new_bytes stream b \<and>
        seen + new_bytes stream b \<le> connWindow \<and>
        maxOffsetObserved stream' = max (maxOffsetObserved stream) (sb_end b) \<and> maxOffsetObserved stream' \<le> window \<and>
        finalReadOffset stream' = (if sb_eof b then Some (sb_end b) else finalReadOffset stream) \<and>
        currentReadOffset stream' = currentReadOffset stream \<and> conn_streamManager conn' = conn_streamManager conn"
proof -
  have ne: "(\<not> sb_eof b \<and> sb_data b = []) = False" using assms(6) by auto
  note fc = updateFlowControlOnStreamData_cases [of conn stream "maxOffsetObserved stream" "sb_end b",
      OF assms(4) [unfolded seen_def window_def], folded seen_def window_def connWindow_def new_bytes_def]
  show ?thesis
    unfolding appendDataToReadBuffer_def appendDataToReadBufferCommon_def ne if_False checkFinalOffset_cases fc
    using assms(5) by (simp add: updFlow_def seen_def [symmetric] Let_def)
qed

section \<open>Reading\<close>

lemma maybeSendConnWindowUpdate_ok:
  assumes "\<forall>t. cfc_timeOfLastFlowControlUpdate (conn_flowControlState conn) = Some t \<longrightarrow> t < now"
  shows "\<exists>sent conn'. maybeSendConnWindowUpdate conn now = Inr (sent, conn') \<and>
    cfc_sumCurReadOffset (conn_flowControlState conn') = cfc_sumCurReadOffset (conn_flowControlState conn) \<and>
    conn_streamManager conn' = conn_streamManager conn \<and>
    (calculateNewWindowUpdate (cfc_sumCurReadOffset (conn_flowControlState conn)) (cfc_advertisedMaxOffset (conn_flowControlState conn))
       (cfc_windowSize (conn_flowControlState conn)) (conn_srtt conn) (conn_transportSettings conn)
       (cfc_timeOfLastFlowControlUpdate (conn_flowControlState conn)) now \<noteq> None \<longrightarrow> pe_connWindowUpdate (conn_pendingEvents conn'))"
  using assms
  by (auto simp: maybeSendConnWindowUpdate_def Let_def updEvents_def maybeIncreaseConnectionFlowControlWindow_def check_def
      split: option.splits)

lemma maybeSendStreamWindowUpdate_frame [simp]:
  "conn_flowControlState (snd (maybeSendStreamWindowUpdate conn stream now)) = conn_flowControlState conn"
  "conn_pendingEvents (snd (maybeSendStreamWindowUpdate conn stream now)) = conn_pendingEvents conn"
  by (auto simp: maybeSendStreamWindowUpdate_def Let_def updManager_def split: option.splits)

lemma updateFlowControlOnRead_ok:
  fixes conn now
  defines "fc \<equiv> conn_flowControlState conn"
  assumes "prev \<le> currentReadOffset stream" "cfc_sumCurReadOffset fc + (currentReadOffset stream - prev) \<le> u64_max"
    and "\<forall>t. cfc_timeOfLastFlowControlUpdate fc = Some t \<longrightarrow> t < now"
  shows "\<exists>conn'. updateFlowControlOnRead conn stream prev now = Inr conn' \<and>
    cfc_sumCurReadOffset (conn_flowControlState conn') = cfc_sumCurReadOffset fc + (currentReadOffset stream - prev) \<and>
    (calculateNewWindowUpdate (cfc_sumCurReadOffset fc + (currentReadOffset stream - prev)) (cfc_advertisedMaxOffset fc)
       (cfc_windowSize fc) (conn_srtt conn) (conn_transportSettings conn) (cfc_timeOfLastFlowControlUpdate fc) now \<noteq> None
     \<longrightarrow> pe_connWindowUpdate (conn_pendingEvents conn'))"
proof -
  let ?n = "currentReadOffset stream - prev"
  define conn1 where "conn1 = conn\<lparr>conn_flowControlState := fc\<lparr>cfc_sumCurReadOffset := cfc_sumCurReadOffset fc + ?n\<rparr>\<rparr>"
  have d: "sub64 (currentReadOffset stream) prev = ?n" using assms(2) by (simp add: sub64_def)
  have i: "incrementWithOverFlowCheck (cfc_sumCurReadOffset fc) ?n = Inr (cfc_sumCurReadOffset fc + ?n)"
    using assms(3) by (simp add: incrementWithOverFlowCheck_def)
  obtain sent conn2 where c: "maybeSendConnWindowUpdate conn1 now = Inr (sent, conn2)"
    "cfc_sumCurReadOffset (conn_flowControlState conn2) = cfc_sumCurReadOffset fc + ?n"
    "calculateNewWindowUpdate (cfc_sumCurReadOffset fc + ?n) (cfc_advertisedMaxOffset fc)
       (cfc_windowSize fc) (conn_srtt conn) (conn_transportSettings conn) (cfc_timeOfLastFlowControlUpdate fc) now \<noteq> None
     \<longrightarrow> pe_connWindowUpdate (conn_pendingEvents conn2)"
    using maybeSendConnWindowUpdate_ok [of conn1 now] assms(4) by (auto simp: conn1_def)
  have "updateFlowControlOnRead conn stream prev now = Inr (snd (maybeSendStreamWindowUpdate conn2 stream now))"
    unfolding updateFlowControlOnRead_def Let_def d fc_def [symmetric] i rbind.simps conn1_def [symmetric] c(1) by simp
  with c(2,3) show ?thesis by simp
qed

lemma updateHolBlockedTime_frame [simp]:
  "currentReadOffset (updateHolBlockedTime now s) = currentReadOffset s" "readBuffer (updateHolBlockedTime now s) = readBuffer s"
  "finalReadOffset (updateHolBlockedTime now s) = finalReadOffset s" "st_id (updateHolBlockedTime now s) = st_id s"
  "streamReadError (updateHolBlockedTime now s) = streamReadError s" "maxOffsetObserved (updateHolBlockedTime now s) = maxOffsetObserved s"
  by (auto simp: updateHolBlockedTime_def split: option.splits)

lemma receive_inv_cong:
  "currentReadOffset s = currentReadOffset s' \<Longrightarrow> readBuffer s = readBuffer s' \<Longrightarrow> finalReadOffset s = finalReadOffset s' \<Longrightarrow>
   maxOffsetObserved s = maxOffsetObserved s' \<Longrightarrow> receive_inv data final A s = receive_inv data final A s'"
  by (simp add: receive_inv_def)

lemma updateReadAndPeek_frame:
  assumes "updateReadAndPeek now conn s = (conn', s')"
  shows "currentReadOffset s' = currentReadOffset s" "readBuffer s' = readBuffer s" "finalReadOffset s' = finalReadOffset s"
    "maxOffsetObserved s' = maxOffsetObserved s" "streamReadError s' = streamReadError s"
    "conn_flowControlState conn' = conn_flowControlState conn" "conn_pendingEvents conn' = conn_pendingEvents conn"
    "st_id s \<in> readableStreams (conn_streamManager conn') \<longleftrightarrow> hasReadableData s' \<or> streamReadError s \<noteq> None"
proof -
  define m where "m = snd (updateReadableStreams now s (conn_streamManager conn))"
  have eq: "s' = updateHolBlockedTime now s" "conn' = conn\<lparr>conn_streamManager := updatePeekableStreams s' m\<rparr>"
    using assms by (auto simp: updateReadAndPeek_def updateReadableStreams_def Let_def m_def)
  show "currentReadOffset s' = currentReadOffset s" "readBuffer s' = readBuffer s" "finalReadOffset s' = finalReadOffset s"
    "maxOffsetObserved s' = maxOffsetObserved s" "streamReadError s' = streamReadError s"
    "conn_flowControlState conn' = conn_flowControlState conn" "conn_pendingEvents conn' = conn_pendingEvents conn"
    by (simp_all add: eq)
  have "st_id s \<in> readableStreams m \<longleftrightarrow> hasReadableData s' \<or> streamReadError s \<noteq> None"
    unfolding m_def updateReadableStreams_def Let_def eq(1) by simp
  then show "st_id s \<in> readableStreams (conn_streamManager conn') \<longleftrightarrow> hasReadableData s' \<or> streamReadError s \<noteq> None"
    by (simp add: eq(2) updatePeekableStreams_def)
qed

lemma readRemaining_spec:
  fixes conn :: QuicConnectionStateBase and stream :: QuicStreamState and amount :: nat
  defines "off \<equiv> currentReadOffset stream" and "n \<equiv> readCount stream amount" and "fc \<equiv> conn_flowControlState conn"
  defines "eof \<equiv> finalReadOffset stream = Some (off + n)"
  assumes inv: "receive_inv data final A stream" and fits: "cfc_sumCurReadOffset fc + n \<le> u64_max"
    and time: "\<forall>t. cfc_timeOfLastFlowControlUpdate fc = Some t \<longrightarrow> t < now"
  shows "\<exists>conn' stream'. readRemaining sink now conn stream amount =
      Inr (if sink then [] else map data [off..<off + n], eof, conn', stream') \<and>
    currentReadOffset stream' = off + n + (if eof then 1 else 0) \<and> (\<not> eof \<longrightarrow> receive_inv data final A stream') \<and>
    cfc_sumCurReadOffset (conn_flowControlState conn') = cfc_sumCurReadOffset fc + n \<and>
    (calculateNewWindowUpdate (cfc_sumCurReadOffset fc + n) (cfc_advertisedMaxOffset fc)
       (cfc_windowSize fc) (conn_srtt conn) (conn_transportSettings conn) (cfc_timeOfLastFlowControlUpdate fc) now \<noteq> None
     \<longrightarrow> pe_connWindowUpdate (conn_pendingEvents conn')) \<and>
    (st_id stream \<in> readableStreams (conn_streamManager conn') \<longleftrightarrow> hasReadableData stream' \<or> streamReadError stream \<noteq> None)"
proof -
  obtain e bufs s1 where r: "readDataInOrderFromReadBuffer stream amount sink = Inr (if sink then [] else map data [off..<off + n], e, s1)"
    "s1 = stream\<lparr>readBuffer := bufs, currentReadOffset := off + n\<rparr>" "receive_inv data final A s1"
    using read_receive_inv [OF inv, of amount sink] unfolding off_def n_def by blast
  have s1: "currentReadOffset s1 = off + n" "finalReadOffset s1 = finalReadOffset stream" "st_id s1 = st_id stream"
    "streamReadError s1 = streamReadError stream" by (simp_all add: r(2))
  obtain conn1 where c: "updateFlowControlOnRead conn s1 off now = Inr conn1"
    "cfc_sumCurReadOffset (conn_flowControlState conn1) = cfc_sumCurReadOffset fc + n"
    "calculateNewWindowUpdate (cfc_sumCurReadOffset fc + n) (cfc_advertisedMaxOffset fc)
       (cfc_windowSize fc) (conn_srtt conn) (conn_transportSettings conn) (cfc_timeOfLastFlowControlUpdate fc) now \<noteq> None
     \<longrightarrow> pe_connWindowUpdate (conn_pendingEvents conn1)"
    using updateFlowControlOnRead_ok [of off s1 conn now] fits time by (auto simp: s1 fc_def)
  define s2 where "s2 = (if eof then s1\<lparr>currentReadOffset := off + n + 1\<rparr> else s1)"
  obtain conn' stream' where u: "updateReadAndPeek now conn1 s2 = (conn', stream')" by (cases "updateReadAndPeek now conn1 s2")
  note f = updateReadAndPeek_frame [OF u]
  have "readRemaining sink now conn stream amount = Inr (if sink then [] else map data [off..<off + n], eof, conn', stream')"
    using u unfolding readRemaining_def r(1) rbind.simps prod.case off_def [symmetric] c(1) Let_def s1(1,2) eof_def [symmetric] s2_def
    by simp
  moreover have "currentReadOffset stream' = off + n + (if eof then 1 else 0)" using f(1) by (simp add: s2_def s1)
  moreover have "\<not> eof \<Longrightarrow> receive_inv data final A stream'" using r(3) receive_inv_cong [OF f(1-4)] by (simp add: s2_def)
  moreover have "st_id s2 = st_id stream" "streamReadError s2 = streamReadError stream" by (simp_all add: s2_def s1)
  ultimately show ?thesis using f(6-8) c(2,3) by simp
qed

lemma calculateNewWindowUpdate_low:
  assumes "adv < off + window" "off \<le> adv" "(adv - off) * ts_flowControlWindowFrequency ts < window" "off + window \<le> u64_max"
  shows "calculateNewWindowUpdate off adv window srtt ts t0 now \<noteq> None"
proof -
  have "add64 off window = off + window" using assms(4) by (simp add: add64_def u64_max_def)
  moreover have "mul64 (sub64 adv off) (ts_flowControlWindowFrequency ts) = (adv - off) * ts_flowControlWindowFrequency ts"
    using assms(2,3,4) by (simp add: sub64_def mul64_def u64_max_def)
  ultimately show ?thesis using assms by (simp add: calculateNewWindowUpdate_def Let_def)
qed

text \<open>C8: reading an application stream returns its bytes in order and keeps the accounts. For a stream
  that received segments of the byte stream \<open>data\<close> and has not been read to its end, at a time after
  the last window update, \<^verbatim>\<open>readDataFromQuicStream\<close> succeeds with the next \<open>n\<close> bytes, as many as
  the limit and the received prefix allow; it reports the end exactly if it reached the final size;
  the sum of read offsets of the connection grows by exactly \<open>n\<close>; the stream stays readable
  exactly if there is more to read; and if less than the configured share of the connection window
  is left, a \<^verbatim>\<open>MAX_DATA\<close> update is pending. \<^verbatim>\<open>consumeDataFromQuicStream\<close> succeeds alike.\<close>

theorem read_delivers_in_order:
  fixes conn :: QuicConnectionStateBase and stream :: QuicStreamState and amount :: nat
  defines "off \<equiv> currentReadOffset stream" and "fc \<equiv> conn_flowControlState conn"
  assumes "receive_inv data final A stream" "\<forall>f. finalReadOffset stream = Some f \<longrightarrow> off < f"
    and "cfc_sumCurReadOffset fc + length (concat (map sb_data (readBuffer stream))) + cfc_windowSize fc \<le> u64_max"
    and "\<forall>t. cfc_timeOfLastFlowControlUpdate fc = Some t \<longrightarrow> t < now"
  shows "\<exists>n eof conn' stream'. readDataFromQuicStream now conn stream amount = Inr (map data [off..<off + n], eof, conn', stream') \<and>
    {off..<off + n} \<subseteq> A \<and> (if amount = 0 then off + n \<notin> A else n \<le> amount \<and> (n = amount \<or> off + n \<notin> A)) \<and>
    (eof \<longleftrightarrow> finalReadOffset stream = Some (off + n)) \<and>
    currentReadOffset stream' = off + n + (if eof then 1 else 0) \<and> (\<not> eof \<longrightarrow> receive_inv data final A stream') \<and>
    cfc_sumCurReadOffset (conn_flowControlState conn') = cfc_sumCurReadOffset fc + n \<and>
    (cfc_advertisedMaxOffset fc < cfc_sumCurReadOffset fc + n + cfc_windowSize fc \<and> cfc_sumCurReadOffset fc + n \<le> cfc_advertisedMaxOffset fc \<and>
     (cfc_advertisedMaxOffset fc - (cfc_sumCurReadOffset fc + n)) * ts_flowControlWindowFrequency (conn_transportSettings conn) < cfc_windowSize fc
     \<longrightarrow> pe_connWindowUpdate (conn_pendingEvents conn')) \<and>
    (st_id stream \<in> readableStreams (conn_streamManager conn') \<longleftrightarrow> hasReadableData stream' \<or> streamReadError stream \<noteq> None) \<and>
    (\<exists>conn'' stream''. consumeDataFromQuicStream now conn stream amount = Inr (conn'', stream'') \<and>
       currentReadOffset stream'' = currentReadOffset stream')"
proof -
  define n where "n = readCount stream amount"
  have r: "reassembled data off (readBuffer stream)" "covered (readBuffer stream) = A - {0..<off}"
    using assms(3) by (auto simp: receive_inv_def off_def)
  note rc = readable_covered [OF r(1), of amount, folded readCount_def [of stream amount, folded off_def] n_def]
  have len: "n \<le> length (concat (map sb_data (readBuffer stream)))"
    by (auto simp: n_def readCount_def readable_def split: list.split)
  have "cfc_sumCurReadOffset fc + n \<le> u64_max" using len assms(5) by simp
  note rr = readRemaining_spec [OF assms(3) this [unfolded n_def fc_def] assms(6) [unfolded fc_def], folded n_def fc_def off_def]
  have go: "(case finalReadOffset stream of None \<Rightarrow> False | Some f \<Rightarrow> f \<le> off) = False"
    using assms(4) by (auto split: option.split)
  obtain conn' stream' where a: "readRemaining False now conn stream amount =
      Inr (map data [off..<off + n], finalReadOffset stream = Some (off + n), conn', stream')"
    "currentReadOffset stream' = off + n + (if finalReadOffset stream = Some (off + n) then 1 else 0)"
    "finalReadOffset stream \<noteq> Some (off + n) \<longrightarrow> receive_inv data final A stream'"
    "cfc_sumCurReadOffset (conn_flowControlState conn') = cfc_sumCurReadOffset fc + n"
    "calculateNewWindowUpdate (cfc_sumCurReadOffset fc + n) (cfc_advertisedMaxOffset fc)
       (cfc_windowSize fc) (conn_srtt conn) (conn_transportSettings conn) (cfc_timeOfLastFlowControlUpdate fc) now \<noteq> None
     \<longrightarrow> pe_connWindowUpdate (conn_pendingEvents conn')"
    "st_id stream \<in> readableStreams (conn_streamManager conn') \<longleftrightarrow> hasReadableData stream' \<or> streamReadError stream \<noteq> None"
    using rr [of False] by (auto simp only: if_False)
  obtain conn'' stream'' where b: "readRemaining True now conn stream amount = Inr ([], finalReadOffset stream = Some (off + n), conn'', stream'')"
    "currentReadOffset stream'' = off + n + (if finalReadOffset stream = Some (off + n) then 1 else 0)"
    using rr [of True] by (auto simp only: if_True)
  have "readDataFromQuicStream now conn stream amount = readRemaining False now conn stream amount"
    unfolding readDataFromQuicStream_def readOrConsume_def off_def [symmetric] go if_False ..
  moreover have "consumeDataFromQuicStream now conn stream amount = Inr (conn'', stream'')"
    unfolding consumeDataFromQuicStream_def readOrConsume_def off_def [symmetric] go if_False b(1) by simp
  moreover have "{off..<off + n} \<subseteq> A" using rc(1) r(2) by blast
  moreover have "if amount = 0 then off + n \<notin> A else n \<le> amount \<and> (n = amount \<or> off + n \<notin> A)"
    using rc(2,3) r(2) by auto
  moreover have "cfc_sumCurReadOffset fc + n + cfc_windowSize fc \<le> u64_max" using len assms(5) by simp
  ultimately show ?thesis
    using a b(2) calculateNewWindowUpdate_low [of "cfc_advertisedMaxOffset fc" "cfc_sumCurReadOffset fc + n" "cfc_windowSize fc"]
    by (intro exI [of _ n] exI [of _ "finalReadOffset stream = Some (off + n)"] exI [of _ conn'] exI [of _ stream']) simp
qed

section \<open>Examples\<close>

definition example_connection :: QuicConnectionStateBase where
  "example_connection = \<lparr>conn_nodeType = Server, conn_transportSettings = example_settings, conn_flowControlState = example_flow,
     conn_pendingEvents = \<lparr>pe_resets = Map.empty, pe_pathChallenge = None, pe_frames = [],
       pe_schedulePathValidationTimeout = False, pe_connWindowUpdate = False, pe_sendDataBlocked = False\<rparr>,
     conn_srtt = 0, conn_totalBytesRetransmitted = 0, conn_totalStreamBytesCloned = 0,
     conn_cryptoState = \<lparr>initialStream = newCryptoStream, handshakeStream = newCryptoStream, oneRttStream = newCryptoStream\<rparr>,
     conn_outstandingPathValidation = None, conn_pathChallengeStartTime = 0, conn_retransmissionPolicies = Map.empty,
     conn_streamManager = example_opened\<rparr>"

definition example_app_stream :: QuicStreamState where
  "example_app_stream = mkQuicStreamState 0 example_connection"

lemma example_app_stream_fields [simp]:
  "maxOffsetObserved example_app_stream = 0" "sfc_advertisedMaxOffset (flowControlState example_app_stream) = 100"
  "finalReadOffset example_app_stream = None" "readBuffer example_app_stream = []" "currentReadOffset example_app_stream = 0"
  "conn_flowControlState example_connection = example_flow" "cfc_sumMaxObservedOffset example_flow = 0"
  "cfc_advertisedMaxOffset example_flow = 1000" "cfc_sumCurReadOffset example_flow = 0" "cfc_windowSize example_flow = 1000"
  "cfc_timeOfLastFlowControlUpdate example_flow = None"
  by (simp_all add: example_app_stream_def mkQuicStreamState_def defaultStream_def Let_def example_connection_def example_settings_def
      example_flow_def isUnidirectionalStream_def)

theorem receive_windows_enforced_witness:
  "appendDataToReadBuffer example_connection example_app_stream (example_segment 0 101) = Inl (QuicTransportException TE_FLOW_CONTROL_ERROR) \<and>
   (\<exists>conn' stream'. appendDataToReadBuffer example_connection example_app_stream (example_segment 0 100) = Inr (conn', stream') \<and>
     cfc_sumMaxObservedOffset (conn_flowControlState conn') = 100)"
  using receive_windows_enforced [of example_connection example_app_stream "example_segment 0 101"]
    receive_windows_enforced [of example_connection example_app_stream "example_segment 0 100"]
  by (auto simp: u64_max_def final_size_violation_def new_bytes_def example_segment_def sb_end_def)

theorem read_delivers_in_order_witness:
  "\<exists>conn' stream'. readDataFromQuicStream 7 example_connection (example_app_stream\<lparr>readBuffer := [example_segment 0 3]\<rparr>) 2 =
      Inr ([1, 2], False, conn', stream') \<and> cfc_sumCurReadOffset (conn_flowControlState conn') = 2"
proof -
  let ?s = "example_app_stream\<lparr>readBuffer := [example_segment 0 3]\<rparr>"
  have seg: "reassembled example_bytes 0 [example_segment 0 3]" "covered [example_segment 0 3] = {0..<3}"
    by (simp_all add: reassembled_def gapped_def seg_def example_segment_def sb_end_def)
  then have i: "receive_inv example_bytes None {0..<3} ?s" by (simp add: receive_inv_def)
  have l: "length (concat (map sb_data (readBuffer ?s))) = 3" by (simp add: example_segment_def)
  have h: "\<forall>f. finalReadOffset ?s = Some f \<longrightarrow> currentReadOffset ?s < f"
    "cfc_sumCurReadOffset (conn_flowControlState example_connection) + length (concat (map sb_data (readBuffer ?s))) +
       cfc_windowSize (conn_flowControlState example_connection) \<le> u64_max"
    "\<forall>t. cfc_timeOfLastFlowControlUpdate (conn_flowControlState example_connection) = Some t \<longrightarrow> t < 7"
    unfolding l by (simp_all add: u64_max_def)
  obtain n eof conn' stream' where r:
    "readDataFromQuicStream 7 example_connection ?s 2 =
      Inr (map example_bytes [currentReadOffset ?s..<currentReadOffset ?s + n], eof, conn', stream')"
    "if (2 :: nat) = 0 then currentReadOffset ?s + n \<notin> {0..<3} else n \<le> 2 \<and> (n = 2 \<or> currentReadOffset ?s + n \<notin> {0..<3})"
    "eof = (finalReadOffset ?s = Some (currentReadOffset ?s + n))"
    "cfc_sumCurReadOffset (conn_flowControlState conn') = cfc_sumCurReadOffset (conn_flowControlState example_connection) + n"
    using read_delivers_in_order [OF i h, of 2] by (elim exE conjE) (rule that; assumption)
  have n: "n = 2" using r(2) by auto
  show ?thesis using r(1,3,4) by (simp add: n example_bytes_def)
qed

end
