(* ===== verification/Stream_Handlers.thy ===== *)
theory Stream_Handlers
  imports Stream_Receive
begin

text \<open>
  The send and receive state machines of a stream: \<^verbatim>\<open>quic/state/stream/StreamSendHandlers.cpp\<close>,
  \<^verbatim>\<open>StreamReceiveHandlers.cpp\<close> and \<^verbatim>\<open>StreamStateFunctions.cpp\<close>. A handler takes the connection
  and the stream and returns both, or the exception it throws. \<open>now\<close> is what \<^verbatim>\<open>Clock::now()\<close>
  returns during the handler.
\<close>

section \<open>Model\<close>

subsection \<open>Resets and the end of the stream\<close>

definition resetQuicStream ::
  "int \<Rightarrow> QuicConnectionStateBase \<Rightarrow> QuicStreamState \<Rightarrow> ApplicationErrorCode \<Rightarrow> (QuicConnectionStateBase \<times> QuicStreamState) res" where
  "resetQuicStream now conn stream err =
     rbind (updateFlowControlOnResetStream conn stream) (\<lambda>conn.
       let stream = stream\<lparr>retransmissionBuffer := Map.empty, writeBuffer := [], readBuffer := [], lossBuffer := [],
                      streamWriteError := Some err, writeBufMeta := (writeBufMeta stream)\<lparr>wbm_length := 0\<rparr>,
                      retransmissionBufMetas := Map.empty, lossBufMetas := [], dsrSender := False\<rparr>;
           (stream, m) = updateReadableStreams now stream (conn_streamManager conn)
       in rbind (updateWritableStreams stream m) (\<lambda>m. Inr (conn\<lparr>conn_streamManager := m\<rparr>, stream)))"

definition checkResetOffset :: "QuicStreamState \<Rightarrow> nat \<Rightarrow> unit res" where
  "checkResetOffset stream offset =
     (if finalReadOffset stream \<noteq> None \<and> finalReadOffset stream \<noteq> Some offset
      then Inl (QuicTransportException TE_FINAL_SIZE_ERROR)
      else if maxOffsetObserved stream > offset then Inl (QuicTransportException TE_FINAL_SIZE_ERROR)
      else Inr ())"

definition onResetQuicStream ::
  "int \<Rightarrow> QuicConnectionStateBase \<Rightarrow> QuicStreamState \<Rightarrow> RstStreamFrame \<Rightarrow> (QuicConnectionStateBase \<times> QuicStreamState) res" where
  "onResetQuicStream now conn stream frame =
     rbind (checkResetOffset stream (rst_offset frame)) (\<lambda>_.
     rbind (updateFlowControlOnStreamData conn stream (maxOffsetObserved stream) (rst_offset frame)) (\<lambda>conn.
       let stream = stream\<lparr>readBuffer := [], finalReadOffset := Some (rst_offset frame),
                      streamReadError := Some (rst_errorCode frame)\<rparr>;
           appReadAllBytes = (currentReadOffset stream > rst_offset frame);
           lastReadOffset = currentReadOffset stream;
           stream = (if appReadAllBytes then stream
                     else stream\<lparr>currentReadOffset := rst_offset frame, maxOffsetObserved := rst_offset frame\<rparr>)
       in rbind (if appReadAllBytes then Inr conn else updateFlowControlOnRead conn stream lastReadOffset now) (\<lambda>conn.
            let (stream, m) = updateReadableStreams now stream (conn_streamManager conn)
            in rbind (updateWritableStreams stream m) (\<lambda>m. Inr (conn\<lparr>conn_streamManager := m\<rparr>, stream)))))"

definition isAllDataReceived :: "QuicStreamState \<Rightarrow> bool" where
  "isAllDataReceived stream = (case finalReadOffset stream of None \<Rightarrow> False
     | Some f \<Rightarrow> f \<le> currentReadOffset stream \<or>
         (length (readBuffer stream) = 1 \<and> currentReadOffset stream = sb_offset (hd (readBuffer stream)) \<and>
          sb_end (hd (readBuffer stream)) = f))"

text \<open>\<^verbatim>\<open>if (stream.inTerminalStates()) addClosed(stream.id)\<close>, which follows each transition.\<close>

definition closeIfTerminal :: "QuicConnectionStateBase \<Rightarrow> QuicStreamState \<Rightarrow> QuicConnectionStateBase" where
  "closeIfTerminal conn stream =
     (if inTerminalStates stream then updManager (addClosed (st_id stream)) conn else conn)"

subsection \<open>Sending half\<close>

definition sendStopSendingSMHandler ::
  "QuicConnectionStateBase \<Rightarrow> QuicStreamState \<Rightarrow> StopSendingFrame \<Rightarrow> (QuicConnectionStateBase \<times> QuicStreamState) res" where
  "sendStopSendingSMHandler conn stream frame = (case sendState stream of
      SendOpen \<Rightarrow>
        rbind (check (isBidirectionalStream (st_id stream) \<or> isSendingStream (conn_nodeType conn) (st_id stream))) (\<lambda>_.
          Inr (updManager (addStopSending (st_id stream) (ss_errorCode frame)) conn, stream))
    | SendClosed \<Rightarrow> Inr (conn, stream)
    | SendResetSent \<Rightarrow> Inr (conn, stream)
    | SendInvalid \<Rightarrow> Inl (QuicTransportException TE_STREAM_STATE_ERROR))"

definition sendRstSMHandler ::
  "int \<Rightarrow> QuicConnectionStateBase \<Rightarrow> QuicStreamState \<Rightarrow> ApplicationErrorCode \<Rightarrow> (QuicConnectionStateBase \<times> QuicStreamState) res" where
  "sendRstSMHandler now conn stream errorCode = (case sendState stream of
      SendOpen \<Rightarrow> rbind (resetQuicStream now conn stream errorCode) (\<lambda>(conn, stream).
        Inr (appendPendingStreamReset conn stream errorCode, stream\<lparr>sendState := SendResetSent\<rparr>))
    | SendClosed \<Rightarrow> Inr (conn, stream)
    | SendResetSent \<Rightarrow> Inr (conn, stream)
    | SendInvalid \<Rightarrow> Inl (QuicTransportException TE_STREAM_STATE_ERROR))"

text \<open>The two searches of \<^verbatim>\<open>sendAckSMHandler\<close> for what the acknowledged frame carried.\<close>

definition ackRetransmissionBuffer :: "QuicStreamState \<Rightarrow> WriteStreamFrame \<Rightarrow> QuicStreamState res" where
  "ackRetransmissionBuffer stream f = (case retransmissionBuffer stream (ws_offset f) of
      None \<Rightarrow> Inr stream
    | Some b \<Rightarrow>
        rbind (check (ws_offset f = sb_offset b)) (\<lambda>_.
        rbind (check (ws_len f = length (sb_data b))) (\<lambda>_.
        rbind (check (ws_fin f = sb_eof b)) (\<lambda>_.
        rbind (updateAckedIntervals (sb_offset b) (length (sb_data b)) (sb_eof b) stream) (\<lambda>stream.
          Inr (stream\<lparr>retransmissionBuffer := (retransmissionBuffer stream)(ws_offset f := None)\<rparr>))))))"

definition ackRetransmissionBufMeta :: "QuicStreamState \<Rightarrow> WriteStreamFrame \<Rightarrow> QuicStreamState res" where
  "ackRetransmissionBufMeta stream f = (case retransmissionBufMetas stream (ws_offset f) of
      None \<Rightarrow> Inr stream
    | Some b \<Rightarrow>
        rbind (check (ws_offset f = wbm_offset b)) (\<lambda>_.
        rbind (check (ws_len f = wbm_length b)) (\<lambda>_.
        rbind (check (ws_fin f = wbm_eof b)) (\<lambda>_.
        rbind (updateAckedIntervals (wbm_offset b) (wbm_length b) (wbm_eof b) stream) (\<lambda>stream.
          Inr (stream\<lparr>retransmissionBufMetas := (retransmissionBufMetas stream)(ws_offset f := None)\<rparr>))))))"

definition sendAckSMHandler ::
  "QuicConnectionStateBase \<Rightarrow> QuicStreamState \<Rightarrow> WriteStreamFrame \<Rightarrow> (QuicConnectionStateBase \<times> QuicStreamState) res" where
  "sendAckSMHandler conn stream ackedFrame = (case sendState stream of
      SendOpen \<Rightarrow>
        rbind (if \<not> ws_fromBufMeta ackedFrame then ackRetransmissionBuffer stream ackedFrame
               else ackRetransmissionBufMeta stream ackedFrame) (\<lambda>stream.
          let conn = updManager (addDeliverable (st_id stream)) conn
          in rbind (allBytesTillFinAcked stream) (\<lambda>acked.
               if acked then
                 let stream = stream\<lparr>sendState := SendClosed\<rparr> in Inr (closeIfTerminal conn stream, stream)
               else Inr (conn, stream)))
    | SendClosed \<Rightarrow> Inr (conn, stream)
    | SendResetSent \<Rightarrow> Inr (conn, stream)
    | SendInvalid \<Rightarrow> Inl (QuicTransportException TE_STREAM_STATE_ERROR))"

definition sendRstAckSMHandler ::
  "QuicConnectionStateBase \<Rightarrow> QuicStreamState \<Rightarrow> (QuicConnectionStateBase \<times> QuicStreamState) res" where
  "sendRstAckSMHandler conn stream = (case sendState stream of
      SendResetSent \<Rightarrow> let stream = stream\<lparr>sendState := SendClosed\<rparr> in Inr (closeIfTerminal conn stream, stream)
    | SendClosed \<Rightarrow> Inr (conn, stream)
    | SendOpen \<Rightarrow> Inl (QuicTransportException TE_STREAM_STATE_ERROR)
    | SendInvalid \<Rightarrow> Inl (QuicTransportException TE_STREAM_STATE_ERROR))"

subsection \<open>Receiving half\<close>

definition receiveReadStreamFrameSMHandler ::
  "int \<Rightarrow> QuicConnectionStateBase \<Rightarrow> QuicStreamState \<Rightarrow> ReadStreamFrame \<Rightarrow> (QuicConnectionStateBase \<times> QuicStreamState) res" where
  "receiveReadStreamFrameSMHandler now conn stream frame = (case recvState stream of
      RecvOpen \<Rightarrow>
        rbind (appendDataToReadBuffer conn stream
                 \<lparr>sb_data = rs_data frame, sb_offset = rs_offset frame, sb_eof = rs_fin frame\<rparr>) (\<lambda>(conn, stream).
          let stream' = (if isAllDataReceived stream then stream\<lparr>recvState := RecvClosed\<rparr> else stream);
              conn = (if isAllDataReceived stream then closeIfTerminal conn stream' else conn)
          in Inr (updateReadAndPeek now conn stream'))
    | RecvClosed \<Rightarrow>
        rbind (check (\<not> isSendingStream (conn_nodeType conn) (st_id stream))) (\<lambda>_. Inr (conn, stream))
    | RecvInvalid \<Rightarrow> Inl (QuicTransportException TE_STREAM_STATE_ERROR))"

definition receiveRstStreamSMHandler ::
  "int \<Rightarrow> QuicConnectionStateBase \<Rightarrow> QuicStreamState \<Rightarrow> RstStreamFrame \<Rightarrow> (QuicConnectionStateBase \<times> QuicStreamState) res" where
  "receiveRstStreamSMHandler now conn stream rst = (case recvState stream of
      RecvClosed \<Rightarrow> onResetQuicStream now conn stream rst
    | RecvOpen \<Rightarrow> let stream = stream\<lparr>recvState := RecvClosed\<rparr> in onResetQuicStream now (closeIfTerminal conn stream) stream rst
    | RecvInvalid \<Rightarrow> Inl (QuicTransportException TE_STREAM_STATE_ERROR))"

section \<open>What a reset does\<close>

definition clearedStream :: "ApplicationErrorCode \<Rightarrow> QuicStreamState \<Rightarrow> QuicStreamState" where
  "clearedStream err stream = stream\<lparr>retransmissionBuffer := Map.empty, writeBuffer := [], readBuffer := [], lossBuffer := [],
     streamWriteError := Some err, writeBufMeta := (writeBufMeta stream)\<lparr>wbm_length := 0\<rparr>,
     retransmissionBufMetas := Map.empty, lossBufMetas := [], dsrSender := False\<rparr>"

lemma clearedStream_simps [simp]:
  "retransmissionBuffer (clearedStream e s) = Map.empty" "writeBuffer (clearedStream e s) = []" "readBuffer (clearedStream e s) = []"
  "lossBuffer (clearedStream e s) = []" "streamWriteError (clearedStream e s) = Some e" "lossBufMetas (clearedStream e s) = []"
  "retransmissionBufMetas (clearedStream e s) = Map.empty" "dsrSender (clearedStream e s) = False" "st_id (clearedStream e s) = st_id s"
  "wbm_offset (writeBufMeta (clearedStream e s)) = wbm_offset (writeBufMeta s)" "wbm_length (writeBufMeta (clearedStream e s)) = 0"
  "currentWriteOffset (clearedStream e s) = currentWriteOffset s" "finalWriteOffset (clearedStream e s) = finalWriteOffset s"
  "writeBufMeta (clearedStream e s) = (writeBufMeta s)\<lparr>wbm_length := 0\<rparr>" "groupId (clearedStream e s) = groupId s"
  "sendState (clearedStream e s) = sendState s" "recvState (clearedStream e s) = recvState s"
  "ackedIntervals (clearedStream e s) = ackedIntervals s"
  by (simp_all add: clearedStream_def)

lemma updateHolBlockedTime_send [simp]:
  "retransmissionBuffer (updateHolBlockedTime t s) = retransmissionBuffer s" "writeBuffer (updateHolBlockedTime t s) = writeBuffer s"
  "lossBuffer (updateHolBlockedTime t s) = lossBuffer s" "streamWriteError (updateHolBlockedTime t s) = streamWriteError s"
  "lossBufMetas (updateHolBlockedTime t s) = lossBufMetas s" "retransmissionBufMetas (updateHolBlockedTime t s) = retransmissionBufMetas s"
  "dsrSender (updateHolBlockedTime t s) = dsrSender s" "writeBufMeta (updateHolBlockedTime t s) = writeBufMeta s"
  "currentWriteOffset (updateHolBlockedTime t s) = currentWriteOffset s" "finalWriteOffset (updateHolBlockedTime t s) = finalWriteOffset s"
  "groupId (updateHolBlockedTime t s) = groupId s" "sendState (updateHolBlockedTime t s) = sendState s"
  "recvState (updateHolBlockedTime t s) = recvState s" "ackedIntervals (updateHolBlockedTime t s) = ackedIntervals s"
  "flowControlState (updateHolBlockedTime t s) = flowControlState s"
  by (auto simp: updateHolBlockedTime_def split: option.splits)

lemma resetQuicStream_ok:
  assumes "length (writeBuffer s) + wbm_length (writeBufMeta s) \<le> cfc_sumCurStreamBufferLen (conn_flowControlState conn)"
  shows "\<exists>conn'. resetQuicStream now conn s err = Inr (conn', updateHolBlockedTime now (clearedStream err s)) \<and>
    conn_pendingEvents conn' = conn_pendingEvents conn"
proof -
  let ?t = "updateHolBlockedTime now (clearedStream err s)"
  obtain m where m: "updateReadableStreams now (clearedStream err s) (conn_streamManager conn) = (?t, m)"
    by (simp add: updateReadableStreams_def Let_def)
  have w: "updateWritableStreams ?t m = Inr (eraseFromWriteQueues ?t (setWritableSets False False ?t (removeWritable ?t m)))"
    by (simp add: updateWritableStreams_def check_def)
  let ?fc = "\<lambda>fc. fc\<lparr>cfc_sumCurStreamBufferLen := cfc_sumCurStreamBufferLen fc - (length (writeBuffer s) + wbm_length (writeBufMeta s))\<rparr>"
  have u: "updateFlowControlOnResetStream conn s = Inr (updFlow ?fc conn)"
    using assms by (simp add: updateFlowControlOnResetStream_def decrementWithOverFlowCheck_def updFlow_def)
  have "conn_streamManager (updFlow ?fc conn) = conn_streamManager conn" by (simp add: updFlow_def)
  then have "resetQuicStream now conn s err =
      Inr ((updFlow ?fc conn)\<lparr>conn_streamManager := eraseFromWriteQueues ?t (setWritableSets False False ?t (removeWritable ?t m))\<rparr>, ?t)"
    unfolding resetQuicStream_def u rbind.simps Let_def clearedStream_def [symmetric] by (simp add: m w)
  then show ?thesis by (simp add: updFlow_def)
qed

text \<open>C37: the final size in the reset frame. Resetting an open stream succeeds (when the connection
  accounts for its unsent data), clears every send buffer and queues a reset frame. Its final size is
  the write offset, unless the application gave the stream delegated data (\<^verbatim>\<open>writeBufMeta\<close>) that
  begins elsewhere: then it is the offset of the delegated data that is to be sent next, even if
  nothing of it, and not all of the buffered data before it, was sent. In that case it lies beyond
  everything sent, because \<^verbatim>\<open>appendPendingStreamReset\<close> runs after the buffers are cleared.\<close>

theorem reset_final_size:
  fixes s :: QuicStreamState
  assumes "sendState s = SendOpen" "pe_resets (conn_pendingEvents conn) (st_id s) = None"
    and "length (writeBuffer s) + wbm_length (writeBufMeta s) \<le> cfc_sumCurStreamBufferLen (conn_flowControlState conn)"
    and "currentWriteOffset s \<le> u64_max" "wbm_offset (writeBufMeta s) \<le> u64_max"
  defines "meta \<equiv> wbm_offset (writeBufMeta s)"
  shows "\<exists>conn' s'. sendRstSMHandler now conn s err = Inr (conn', s') \<and> sendState s' = SendResetSent \<and>
    retransmissionBuffer s' = Map.empty \<and> lossBuffer s' = [] \<and> writeBuffer s' = [] \<and> retransmissionBufMetas s' = Map.empty \<and>
    pe_resets (conn_pendingEvents conn') (st_id s) = Some \<lparr>rst_streamId = st_id s, rst_errorCode = err,
      rst_offset = (let n = if meta = 0 then currentWriteOffset s else meta in case finalWriteOffset s of None \<Rightarrow> n | Some f \<Rightarrow> min n f)\<rparr> \<and>
    (meta = currentWriteOffset s + length (writeBuffer s) \<and> writeBuffer s \<noteq> [] \<and> finalWriteOffset s = None \<longrightarrow>
      map_option rst_offset (pe_resets (conn_pendingEvents (appendPendingStreamReset conn s err)) (st_id s)) = Some (currentWriteOffset s) \<and>
      currentWriteOffset s < meta)"
proof -
  obtain conn1 where r: "resetQuicStream now conn s err = Inr (conn1, updateHolBlockedTime now (clearedStream err s))"
    "conn_pendingEvents conn1 = conn_pendingEvents conn" using resetQuicStream_ok [OF assms(3)] by blast
  have m: "min n u64_max = n" if "n \<le> u64_max" for n using that by simp
  show ?thesis
    using assms(1,2,4,5) r
    by (auto simp: sendRstSMHandler_def appendPendingStreamReset_def updEvents_def map_emplace_def meta_def m Let_def split: option.split)
qed

definition example_delegated :: QuicStreamState where
  "example_delegated = example_app_stream\<lparr>writeBuffer := replicate 10 7,
     writeBufMeta := \<lparr>wbm_length = 5, wbm_offset = 10, wbm_eof = False\<rparr>\<rparr>"

definition example_buffered :: QuicConnectionStateBase where
  "example_buffered = updFlow (\<lambda>fc. fc\<lparr>cfc_sumCurStreamBufferLen := 15\<rparr>) example_connection"

theorem reset_final_size_witness:
  "currentWriteOffset example_delegated = 0 \<and>
   (\<exists>conn' s'. sendRstSMHandler 0 example_buffered example_delegated 1 = Inr (conn', s') \<and>
     map_option rst_offset (pe_resets (conn_pendingEvents conn') 0) = Some 10)"
proof -
  have e: "sendState example_delegated = SendOpen" "pe_resets (conn_pendingEvents example_buffered) (st_id example_delegated) = None"
    "length (writeBuffer example_delegated) + wbm_length (writeBufMeta example_delegated) \<le>
       cfc_sumCurStreamBufferLen (conn_flowControlState example_buffered)"
    "currentWriteOffset example_delegated \<le> u64_max" "wbm_offset (writeBufMeta example_delegated) \<le> u64_max"
    "st_id example_delegated = 0" "finalWriteOffset example_delegated = None" "currentWriteOffset example_delegated = 0"
    by (simp_all add: example_delegated_def example_buffered_def example_app_stream_def mkQuicStreamState_def defaultStream_def Let_def
        example_connection_def updFlow_def isUnidirectionalStream_def u64_max_def)
  from reset_final_size [OF e(1-5), of 0 1] e(6-8) show ?thesis by (auto simp: example_delegated_def)
qed

end
