(* ===== verification/Stream_Send.thy ===== *)
theory Stream_Send
  imports Stream_Handlers
begin

text \<open>
  What happens to stream data that was written to a packet: the handlers of
  \<^verbatim>\<open>quic/api/QuicTransportFunctions.cpp\<close> that move it from the write buffer or the loss buffer to the
  retransmission buffer, and the part of \<^verbatim>\<open>markPacketLoss\<close> in \<^verbatim>\<open>quic/loss/QuicLossFunctions.cpp\<close>
  that moves it back to the loss buffer. An iterator into a deque is its index. Statistics, the
  packet number (which is only logged) and the details for observers are not modelled.
\<close>

section \<open>Model\<close>

subsection \<open>Data written to a packet\<close>

text \<open>\<^verbatim>\<open>CHECK(m.emplace(k, v).second)\<close>\<close>

definition emplaceNew :: "nat \<Rightarrow> 'v \<Rightarrow> (nat \<rightharpoonup> 'v) \<Rightarrow> (nat \<rightharpoonup> 'v) res" where
  "emplaceNew k v m = rbind (check (m k = None)) (\<lambda>_. Inr (m(k \<mapsto> v)))"

definition handleNewStreamDataWritten :: "'a QuicStreamLike_scheme \<Rightarrow> nat \<Rightarrow> bool \<Rightarrow> 'a QuicStreamLike_scheme res" where
  "handleNewStreamDataWritten stream frameLen frameFin =
     (let originalOffset = currentWriteOffset stream;
          bufWritten = take frameLen (writeBuffer stream);
          stream = stream\<lparr>currentWriteOffset := currentWriteOffset stream + frameLen + (if frameFin then 1 else 0),
                          writeBuffer := drop frameLen (writeBuffer stream)\<rparr>
      in rbind (emplaceNew originalOffset \<lparr>sb_data = bufWritten, sb_offset = originalOffset, sb_eof = frameFin\<rparr>
                  (retransmissionBuffer stream)) (\<lambda>m. Inr (stream\<lparr>retransmissionBuffer := m\<rparr>)))"

definition handleNewStreamBufMetaWritten :: "QuicStreamState \<Rightarrow> nat \<Rightarrow> bool \<Rightarrow> QuicStreamState res" where
  "handleNewStreamBufMetaWritten stream frameLen frameFin =
     rbind (check (wbm_offset (writeBufMeta stream) > 0)) (\<lambda>_.
       let originalOffset = wbm_offset (writeBufMeta stream)
       in rbind (wbm_split frameLen (writeBufMeta stream)) (\<lambda>(bufMetaSplit, m).
          rbind (check (wbm_offset bufMetaSplit = originalOffset)) (\<lambda>_.
          rbind (if frameFin
                 then rbind (check (wbm_length m = 0)) (\<lambda>_.
                        let m = m\<lparr>wbm_offset := wbm_offset m + 1\<rparr>
                        in case finalWriteOffset stream of
                             None \<Rightarrow> Inl CheckFailed
                           | Some f \<Rightarrow> rbind (check (wbm_offset m > f)) (\<lambda>_. Inr m))
                 else Inr m) (\<lambda>m.
          rbind (emplaceNew originalOffset bufMetaSplit (retransmissionBufMetas stream)) (\<lambda>r.
            Inr (stream\<lparr>writeBufMeta := m, retransmissionBufMetas := r\<rparr>))))))"

definition handleRetransmissionWritten ::
  "'a QuicStreamLike_scheme \<Rightarrow> nat \<Rightarrow> nat \<Rightarrow> bool \<Rightarrow> nat \<Rightarrow> 'a QuicStreamLike_scheme res" where
  "handleRetransmissionWritten stream frameOffset frameLen frameFin i =
     (let b = lossBuffer stream ! i;
          (bufWritten, loss) =
            (if frameLen = length (sb_data b) \<and> frameFin = sb_eof b
             then (sb_data b, erase_range i (Suc i) (lossBuffer stream))
             else (take frameLen (sb_data b),
                   (lossBuffer stream)[i := b\<lparr>sb_offset := sb_offset b + frameLen, sb_data := drop frameLen (sb_data b)\<rparr>]))
      in rbind (emplaceNew frameOffset \<lparr>sb_data = bufWritten, sb_offset = frameOffset, sb_eof = frameFin\<rparr>
                  (retransmissionBuffer stream)) (\<lambda>m.
           Inr (stream\<lparr>lossBuffer := loss, retransmissionBuffer := m\<rparr>)))"

definition handleRetransmissionBufMetaWritten ::
  "QuicStreamState \<Rightarrow> nat \<Rightarrow> nat \<Rightarrow> bool \<Rightarrow> nat \<Rightarrow> QuicStreamState res" where
  "handleRetransmissionBufMetaWritten stream frameOffset frameLen frameFin i =
     (let b = lossBufMetas stream ! i
      in rbind (if frameLen = wbm_length b \<and> frameFin = wbm_eof b
                then Inr (erase_range i (Suc i) (lossBufMetas stream))
                else rbind (check (wbm_length b > frameLen)) (\<lambda>_.
                       Inr ((lossBufMetas stream)[i := b\<lparr>wbm_length := wbm_length b - frameLen,
                              wbm_offset := wbm_offset b + frameLen\<rparr>]))) (\<lambda>loss.
         rbind (emplaceNew frameOffset (WriteBufferMeta_build frameLen frameOffset frameFin) (retransmissionBufMetas stream)) (\<lambda>m.
           Inr (stream\<lparr>lossBufMetas := loss, retransmissionBufMetas := m\<rparr>))))"

definition handleStreamWritten ::
  "QuicConnectionStateBase \<Rightarrow> 'a QuicStreamLike_scheme \<Rightarrow> nat \<Rightarrow> nat \<Rightarrow> bool \<Rightarrow>
   (bool \<times> QuicConnectionStateBase \<times> 'a QuicStreamLike_scheme) res" where
  "handleStreamWritten conn stream frameOffset frameLen frameFin =
     (if frameOffset = currentWriteOffset stream then
        rbind (handleNewStreamDataWritten stream frameLen frameFin) (\<lambda>stream.
          Inr (True, conn, stream\<lparr>numPacketsTxWithNewData := numPacketsTxWithNewData stream + 1\<rparr>))
      else if frameOffset > currentWriteOffset stream then Inl (QuicTransportException TE_INTERNAL_ERROR)
      else
        let i = lower_bound (\<lambda>b. sb_offset b < frameOffset) (lossBuffer stream)
        in if i < length (lossBuffer stream) \<and> sb_offset (lossBuffer stream ! i) = frameOffset then
             rbind (handleRetransmissionWritten stream frameOffset frameLen frameFin i) (\<lambda>stream.
               Inr (False, conn\<lparr>conn_totalBytesRetransmitted := conn_totalBytesRetransmitted conn + frameLen\<rparr>, stream))
           else Inr (False, conn\<lparr>conn_totalStreamBytesCloned := conn_totalStreamBytesCloned conn + frameLen\<rparr>, stream))"

definition handleStreamBufMetaWritten ::
  "QuicConnectionStateBase \<Rightarrow> QuicStreamState \<Rightarrow> nat \<Rightarrow> nat \<Rightarrow> bool \<Rightarrow>
   (bool \<times> QuicConnectionStateBase \<times> QuicStreamState) res" where
  "handleStreamBufMetaWritten conn stream frameOffset frameLen frameFin =
     (if wbm_offset (writeBufMeta stream) > 0 \<and> frameOffset = wbm_offset (writeBufMeta stream) then
        rbind (handleNewStreamBufMetaWritten stream frameLen frameFin) (\<lambda>stream.
          Inr (True, conn, stream\<lparr>numPacketsTxWithNewData := numPacketsTxWithNewData stream + 1\<rparr>))
      else
        let i = lower_bound (\<lambda>b. wbm_offset b < frameOffset) (lossBufMetas stream)
        in rbind (check (i < length (lossBufMetas stream))) (\<lambda>_.
           rbind (check (wbm_offset (lossBufMetas stream ! i) = frameOffset)) (\<lambda>_.
           rbind (handleRetransmissionBufMetaWritten stream frameOffset frameLen frameFin i) (\<lambda>stream.
             Inr (False, conn\<lparr>conn_totalBytesRetransmitted := conn_totalBytesRetransmitted conn + frameLen\<rparr>, stream)))))"

text \<open>The case of \<^verbatim>\<open>updateConnection\<close> for a stream frame of a packet that was sent.\<close>

definition streamFrameSent ::
  "QuicConnectionStateBase \<Rightarrow> QuicStreamState \<Rightarrow> WriteStreamFrame \<Rightarrow> (QuicConnectionStateBase \<times> QuicStreamState) res" where
  "streamFrameSent conn stream f =
     rbind (if ws_fromBufMeta f then handleStreamBufMetaWritten conn stream (ws_offset f) (ws_len f) (ws_fin f)
            else handleStreamWritten conn stream (ws_offset f) (ws_len f) (ws_fin f)) (\<lambda>(newStreamDataWritten, conn, stream).
     rbind (if newStreamDataWritten
            then rbind (updateFlowControlOnWriteToSocket conn (ws_len f)) (\<lambda>conn.
                   Inr (updManager (addTx (ws_streamId f))
                          (maybeWriteDataBlockedAfterSocketWrite (maybeWriteBlockAfterSocketWrite conn stream))))
            else Inr conn) (\<lambda>conn. updateWritable conn stream))"

subsection \<open>Data lost\<close>

definition streamRetransmissionDisabled :: "QuicConnectionStateBase \<Rightarrow> QuicStreamState \<Rightarrow> bool" where
  "streamRetransmissionDisabled conn stream =
     (if ts_advertisedMaxStreamGroups (conn_transportSettings conn) > 0 then
        (case groupId stream of None \<Rightarrow> False
         | Some g \<Rightarrow> (case conn_retransmissionPolicies conn g of None \<Rightarrow> False | Some p \<Rightarrow> rp_disableRetransmission p))
      else False)"

text \<open>The case of \<^verbatim>\<open>markPacketLoss\<close> for a stream frame of a packet that was not processed before;
  \<open>counted\<close> tells whether an earlier frame of the packet counted the loss for the stream. The
  result tells whether the loss is counted now.\<close>

definition countLoss :: "bool \<Rightarrow> QuicStreamState \<Rightarrow> QuicStreamState" where
  "countLoss counted stream = (if counted then stream else stream\<lparr>streamLossCount := streamLossCount stream + 1\<rparr>)"

definition streamFrameLost ::
  "bool \<Rightarrow> QuicConnectionStateBase \<Rightarrow> QuicStreamState \<Rightarrow> WriteStreamFrame \<Rightarrow>
   (bool \<times> QuicConnectionStateBase \<times> QuicStreamState) res" where
  "streamFrameLost counted conn stream f =
     (if \<not> ws_fromBufMeta f then
        case retransmissionBuffer stream (ws_offset f) of
          None \<Rightarrow> Inr (counted, conn, stream)
        | Some b \<Rightarrow>
            let stream = (if streamRetransmissionDisabled conn stream then stream else insertIntoLossBuffer b stream);
                stream = countLoss counted stream;
                stream = stream\<lparr>retransmissionBuffer := (retransmissionBuffer stream)(ws_offset f := None)\<rparr>
            in rbind (updateWritable conn stream) (\<lambda>(conn, stream). Inr (True, conn, stream))
      else
        case retransmissionBufMetas stream (ws_offset f) of
          None \<Rightarrow> Inr (counted, conn, stream)
        | Some b \<Rightarrow>
            rbind (check (wbm_offset b = ws_offset f)) (\<lambda>_.
            rbind (check (wbm_length b = ws_len f)) (\<lambda>_.
            rbind (check (wbm_eof b = ws_fin f)) (\<lambda>_.
              let stream = (if streamRetransmissionDisabled conn stream then stream else insertIntoLossBufMeta b stream);
                  stream = countLoss counted stream;
                  stream = stream\<lparr>retransmissionBufMetas := (retransmissionBufMetas stream)(ws_offset f := None)\<rparr>
              in rbind (updateWritable conn stream) (\<lambda>(conn, stream). Inr (True, conn, stream))))))"

definition cryptoFrameLost :: "'a QuicStreamLike_scheme \<Rightarrow> WriteCryptoFrame \<Rightarrow> 'a QuicStreamLike_scheme" where
  "cryptoFrameLost stream f = (case retransmissionBuffer stream (wc_offset f) of
      None \<Rightarrow> stream
    | Some b \<Rightarrow> let stream = insertIntoLossBuffer b stream
                in stream\<lparr>retransmissionBuffer := (retransmissionBuffer stream)(wc_offset f := None)\<rparr>)"

end
