(* ===== verification/Sender.thy ===== *)
theory Sender
  imports Stream_Send
begin

text \<open>
  Nothing that was sent is forgotten. Every position of the stream below the write offset (the end
  of the stream is a position of its own) is in exactly one of three places: it was acknowledged,
  it is in flight in the retransmission buffer, or it is lost and waits in the loss buffer. The
  invariant is stated on the four components that hold this and proved for each of the moves
  between them; the reachable states of a sending stream follow from it.
\<close>

section \<open>The places of sent data\<close>

text \<open>The positions of a buffer: its bytes and, if it ends the stream, the end.\<close>

definition span_end :: "StreamBuffer \<Rightarrow> nat" where
  "span_end b = sb_end b + (if sb_eof b then 1 else 0)"

definition span :: "StreamBuffer \<Rightarrow> nat set" where
  "span b = {sb_offset b..<span_end b}"

definition good :: "(nat \<Rightarrow> byte) \<Rightarrow> nat option \<Rightarrow> StreamBuffer \<Rightarrow> bool" where
  "good data final b \<longleftrightarrow> conforming data final b \<and> sb_offset b < span_end b"

definition flight :: "(nat \<rightharpoonup> StreamBuffer) \<Rightarrow> nat set" where
  "flight R = {p. \<exists>i b. R i = Some b \<and> p \<in> span b}"

definition lost :: "StreamBuffer list \<Rightarrow> nat set" where
  "lost L = (\<Union>b \<in> set L. span b)"

definition retx_ok :: "(nat \<Rightarrow> byte) \<Rightarrow> nat option \<Rightarrow> (nat \<rightharpoonup> StreamBuffer) \<Rightarrow> bool" where
  "retx_ok data final R \<longleftrightarrow> (\<forall>i b. R i = Some b \<longrightarrow> sb_offset b = i \<and> good data final b) \<and>
     (\<forall>i j b c. R i = Some b \<longrightarrow> R j = Some c \<longrightarrow> i \<noteq> j \<longrightarrow> span b \<inter> span c = {})"

definition loss_ok :: "(nat \<Rightarrow> byte) \<Rightarrow> nat option \<Rightarrow> StreamBuffer list \<Rightarrow> bool" where
  "loss_ok data final L \<longleftrightarrow> (\<forall>b \<in> set L. good data final b) \<and> sorted_wrt (\<lambda>a b. span_end a \<le> sb_offset b) L"

definition partition_ok :: "nat set \<Rightarrow> nat set \<Rightarrow> nat set \<Rightarrow> nat \<Rightarrow> bool" where
  "partition_ok A F L n \<longleftrightarrow> A \<inter> F = {} \<and> A \<inter> L = {} \<and> F \<inter> L = {} \<and> A \<union> F \<union> L = {0..<n}"

definition sent_ok ::
  "(nat \<Rightarrow> byte) \<Rightarrow> nat option \<Rightarrow> (nat \<rightharpoonup> StreamBuffer) \<Rightarrow> StreamBuffer list \<Rightarrow> IntervalSet \<Rightarrow> nat \<Rightarrow> bool" where
  "sent_ok data final R L A n \<longleftrightarrow> retx_ok data final R \<and> loss_ok data final L \<and> iset_inv A \<and> n < u64_max \<and>
     partition_ok (points A) (flight R) (lost L) n"

lemma partition_extend:
  assumes "partition_ok A F L n" "n \<le> m"
  shows "partition_ok A (F \<union> {n..<m}) L m"
proof -
  have "{0..<m} = {0..<n} \<union> {n..<m}" "{0..<n} \<inter> {n..<m} = {}" using assms(2) by auto
  with assms(1) show ?thesis unfolding partition_ok_def by blast
qed

lemma lost_simps [simp]: "lost [] = {}" "lost (b # bs) = span b \<union> lost bs" "lost (xs @ ys) = lost xs \<union> lost ys"
  by (auto simp: lost_def)

lemma good_span: "good data final b \<Longrightarrow> sb_offset b \<in> span b"
  by (simp add: good_def span_def)

lemma flight_ran: "flight R = (\<Union>b \<in> ran R. span b)"
  by (auto simp: flight_def ran_def)

lemma flight_upd: "R i = None \<Longrightarrow> flight (R(i \<mapsto> b)) = flight R \<union> span b"
  by (auto simp: flight_ran)

lemma flight_mem: "R i = Some b \<Longrightarrow> span b \<subseteq> flight R"
  by (auto simp: flight_def)

lemma flight_del:
  assumes "retx_ok data final R" "R i = Some b"
  shows "flight (R(i := None)) = flight R - span b"
proof (rule set_eqI)
  fix p
  have d: "span b \<inter> span c = {}" if "R j = Some c" "i \<noteq> j" for j c
    using assms that unfolding retx_ok_def by blast
  have "p \<in> flight (R(i := None)) \<longleftrightarrow> (\<exists>j c. j \<noteq> i \<and> R j = Some c \<and> p \<in> span c)" by (auto simp: flight_def)
  also have "\<dots> \<longleftrightarrow> p \<in> flight R - span b"
  proof
    assume "\<exists>j c. j \<noteq> i \<and> R j = Some c \<and> p \<in> span c"
    then obtain j c where "j \<noteq> i" "R j = Some c" "p \<in> span c" by blast
    then show "p \<in> flight R - span b" using d [of j c] by (auto simp: flight_def)
  next
    assume "p \<in> flight R - span b"
    then obtain j c where c: "R j = Some c" "p \<in> span c" "p \<notin> span b" by (auto simp: flight_def)
    then have "j \<noteq> i" using assms(2) by auto
    with c show "\<exists>j c. j \<noteq> i \<and> R j = Some c \<and> p \<in> span c" by blast
  qed
  finally show "p \<in> flight (R(i := None)) \<longleftrightarrow> p \<in> flight R - span b" .
qed

lemma retx_ok_del: "retx_ok data final R \<Longrightarrow> retx_ok data final (R(i := None))"
  unfolding retx_ok_def by (auto split: if_splits)

lemma retx_ok_upd:
  assumes "retx_ok data final R" "good data final b" "span b \<inter> flight R = {}"
  shows "R (sb_offset b) = None" "retx_ok data final (R(sb_offset b \<mapsto> b))"
proof -
  have d: "span b \<inter> span c = {}" if "R i = Some c" for i c using assms(3) flight_mem [of R i c] that by blast
  show "R (sb_offset b) = None"
  proof (rule ccontr)
    assume "R (sb_offset b) \<noteq> None"
    then obtain c where c: "R (sb_offset b) = Some c" by blast
    then have "sb_offset b \<in> span c" using assms(1) good_span [of data final c] by (auto simp: retx_ok_def)
    then show False using d [OF c] good_span [OF assms(2)] by blast
  qed
  show "retx_ok data final (R(sb_offset b \<mapsto> b))"
    unfolding retx_ok_def
  proof (intro conjI allI impI)
    fix i c assume "(R(sb_offset b \<mapsto> b)) i = Some c"
    then show "sb_offset c = i" "good data final c"
      using assms(1,2) by (auto simp: retx_ok_def split: if_splits)
  next
    fix i j c e
    assume *: "(R(sb_offset b \<mapsto> b)) i = Some c" "(R(sb_offset b \<mapsto> b)) j = Some e" "i \<noteq> j"
    have r: "\<forall>i j b c. R i = Some b \<longrightarrow> R j = Some c \<longrightarrow> i \<noteq> j \<longrightarrow> span b \<inter> span c = {}" using assms(1) by (simp add: retx_ok_def)
    show "span c \<inter> span e = {}"
      using * r d [of i c] d [of j e] by (cases "i = sb_offset b"; cases "j = sb_offset b") auto
  qed
qed

section \<open>The moves\<close>

text \<open>New data.\<close>

lemma sent_ok_new:
  assumes "sent_ok data final R L A n" "good data final b" "sb_offset b = n" "span_end b < u64_max"
  shows "R n = None" "sent_ok data final (R(n \<mapsto> b)) L A (span_end b)"
proof -
  have p: "partition_ok (points A) (flight R) (lost L) n" "retx_ok data final R" using assms(1) by (simp_all add: sent_ok_def)
  have s: "span b = {n..<span_end b}" "n < span_end b" using assms(2,3) by (simp_all add: span_def good_def)
  have "span b \<inter> flight R = {}" using p(1) unfolding s by (auto simp: partition_ok_def)
  note u = retx_ok_upd [OF p(2) assms(2) this, unfolded assms(3)]
  show "R n = None" by (rule u(1))
  have "partition_ok (points A) (flight R \<union> span b) (lost L) (span_end b)"
    using partition_extend [OF p(1)] s by simp
  with u assms(1,4) show "sent_ok data final (R(n \<mapsto> b)) L A (span_end b)"
    by (simp add: sent_ok_def flight_upd)
qed

text \<open>An acknowledgement.\<close>

lemma sent_ok_ack:
  assumes "sent_ok data final R L A n" "R i = Some b"
  defines "l \<equiv> length (sb_data b)"
  shows "\<exists>A'. iset_insert_range i (sub64 (add64 i l) (if sb_eof b then 0 else 1)) A = Inr A' \<and>
    sent_ok data final (R(i := None)) L A' n \<and> points A' = points A \<union> span b" "sb_eof b \<or> l \<noteq> 0"
proof -
  have p: "partition_ok (points A) (flight R) (lost L) n" "retx_ok data final R" "iset_inv A" "n < u64_max"
    using assms(1) by (simp_all add: sent_ok_def)
  have b: "sb_offset b = i" "good data final b" using p(2) assms(2) by (auto simp: retx_ok_def)
  then show ne: "sb_eof b \<or> l \<noteq> 0" by (auto simp: good_def span_end_def sb_end_def l_def split: if_splits)
  have "span b \<subseteq> {0..<n}" using flight_mem [of R i b, OF assms(2)] p(1) by (auto simp: partition_ok_def)
  moreover have "span_end b - 1 \<in> span b" using b(2) by (auto simp: span_def good_def)
  ultimately have e: "span_end b \<le> n" by (auto simp: span_def)
  define e where "e = sub64 (add64 i l) (if sb_eof b then 0 else 1)"
  have se: "span_end b = i + l + (if sb_eof b then 1 else 0)" using b(1) by (simp add: span_end_def sb_end_def l_def)
  have "add64 i l = i + l" using e p(4) se by (simp add: add64_def u64_max_def)
  then have e': "e = span_end b - 1" using ne se by (auto simp: e_def sub64_def)
  have lt: "i < span_end b" using b by (simp add: good_def)
  have num: "i \<le> e" "e < u64_max - 1" "{i..e} = {i..<span_end b}" using e e' lt p(4) by auto
  let ?iv = "\<lparr>iv_start = i, iv_end = e\<rparr>"
  have "valid_interval ?iv" using num by (simp add: valid_interval_def)
  note i = iset_insert_inv [OF p(3) this] iset_insert_points [OF p(3) this]
  have ins: "iset_insert_range i e A = Inr (iset_insert ?iv A)"
    using num by (simp add: iset_insert_range_def mkInterval_def)
  have sp: "interval_points ?iv = span b" using num(3) b(1) by (simp add: interval_points_def span_def)
  have "partition_ok (points A \<union> span b) (flight R - span b) (lost L) n"
    using p(1) flight_mem [of R i b, OF assms(2)] unfolding partition_ok_def by blast
  then have "sent_ok data final (R(i := None)) L (iset_insert ?iv A) n"
    using assms(1) p i retx_ok_del [of data final R i, OF p(2)] flight_del [of data final R i b, OF p(2) assms(2)] by (simp add: sent_ok_def sp)
  then show "\<exists>A'. iset_insert_range i (sub64 (add64 i l) (if sb_eof b then 0 else 1)) A = Inr A' \<and>
    sent_ok data final (R(i := None)) L A' n \<and> points A' = points A \<union> span b"
    using ins i(2) sp unfolding e_def by auto
qed

text \<open>A loss: the buffer moves to the loss buffer, merged with its predecessor where they meet.\<close>

lemma good_join:
  assumes "good data final a" "good data final b" "sb_end a = sb_offset b" "\<not> sb_eof a"
  defines "c \<equiv> a\<lparr>sb_data := sb_data a @ sb_data b, sb_eof := sb_eof b\<rparr>"
  shows "good data final c" "sb_offset c = sb_offset a" "span_end c = span_end b" "span c = span a \<union> span b"
proof -
  have e: "sb_end c = sb_end b" using assms(3) by (simp add: c_def sb_end_def)
  show o: "sb_offset c = sb_offset a" by (simp add: c_def)
  show se: "span_end c = span_end b" by (simp add: span_end_def e) (simp add: c_def)
  have le: "sb_offset a \<le> sb_end a" "sb_end a \<le> sb_end b" using assms(3) by (simp_all add: sb_end_def)
  then have u: "[sb_offset a..<sb_end b] = [sb_offset a..<sb_end a] @ [sb_end a..<sb_end b]"
    by (metis le_add_diff_inverse upt_add_eq_append)
  have "sb_data c = map data [sb_offset a..<sb_end b]"
    using assms(1,2) unfolding u good_def conforming_def seg_def by (simp add: c_def assms(3))
  then show "good data final c" using assms(2) le assms(3) unfolding good_def conforming_def seg_def e o se by (simp add: c_def)
  have "span_end a = sb_offset b" using assms(3,4) by (simp add: span_end_def)
  then show "span c = span a \<union> span b" using assms(1,2) unfolding span_def o se good_def by auto
qed

lemma span_order:
  assumes "good data final a" "good data final b" "span a \<inter> span b = {}"
  shows "span_end a \<le> sb_offset b \<or> span_end b \<le> sb_offset a"
proof (rule ccontr)
  assume "\<not> ?thesis"
  then have "max (sb_offset a) (sb_offset b) \<in> span a \<inter> span b" using assms(1,2) by (auto simp: span_def good_def)
  with assms(3) show False by blast
qed

lemma loss_ok_insert:
  assumes L: "loss_ok data final L" and b: "good data final b" and d: "span b \<inter> lost L = {}"
  shows "loss_ok data final (loss_insert b L) \<and> lost (loss_insert b L) = lost L \<union> span b"
proof -
  have g: "good data final x" "span x \<inter> span b = {}" if "x \<in> set L" for x
    using L d that by (auto simp: loss_ok_def lost_def)
  have se: "sb_end x \<le> span_end x" for x by (simp add: span_end_def)
  have ord: "ordered_bufs L"
    using L unfolding ordered_bufs_def loss_ok_def by (auto elim!: sorted_wrt_mono_rel [rotated] intro: order_trans [OF se])
  have no: "\<forall>x \<in> set L. no_overlap b x"
  proof
    fix x assume x: "x \<in> set L"
    have "sb_offset x < span_end x" "sb_offset b < span_end b" using g [OF x] b by (auto simp: good_def)
    with span_order [OF g(1) [OF x] b g(2) [OF x]] se [of x] se [of b] show "no_overlap b x"
      unfolding no_overlap_def by linarith
  qed
  obtain A B where AB: "L = A @ B" "\<forall>a \<in> set A. sb_end a \<le> sb_offset b"
    "\<forall>x \<in> set B. sb_end b \<le> sb_offset x \<and> sb_offset b < sb_offset x"
    "loss_insert b L = (if A \<noteq> [] \<and> sb_end (last A) = sb_offset b
       then butlast A @ (last A)\<lparr>sb_data := sb_data (last A) @ sb_data b, sb_eof := sb_eof b\<rparr> # B
       else A @ b # B)"
    by (rule loss_insert_cut [OF ord no])
  have ne: "sb_offset x < span_end x" if "x = b \<or> x \<in> set L" for x using that g(1) [of x] b by (auto simp: good_def)
  have A: "span_end a \<le> sb_offset b" if "a \<in> set A" for a
  proof -
    have a: "a \<in> set L" using that AB(1) by simp
    have "sb_end a \<le> sb_offset b" using AB(2) that by blast
    then show ?thesis
      using span_order [OF g(1) [OF a] b g(2) [OF a]] ne [OF disjI1 [OF refl]] sb_offset_le_end [of a] by linarith
  qed
  have B: "span_end b \<le> sb_offset x" if "x \<in> set B" for x
  proof -
    have x: "x \<in> set L" using that AB(1) by simp
    have "sb_offset b < sb_offset x" using AB(3) that by blast
    then show ?thesis using span_order [OF g(1) [OF x] b g(2) [OF x]] ne [OF disjI2 [OF x]] by linarith
  qed
  have L': "loss_ok data final (A @ B)" using L AB(1) by simp
  show ?thesis
  proof (cases "A \<noteq> [] \<and> sb_end (last A) = sb_offset b")
    case True
    then obtain C l where C: "A = C @ [l]" by (cases A rule: rev_cases) auto
    define c where "c = l\<lparr>sb_data := sb_data l @ sb_data b, sb_eof := sb_eof b\<rparr>"
    have ins: "loss_insert b L = C @ c # B" using AB(4) True by (simp add: C c_def)
    have l: "good data final l" "sb_end l = sb_offset b" using g(1) [of l] True by (simp_all add: AB(1) C)
    have "\<not> sb_eof l" using A [of l] l(2) by (auto simp: C span_end_def)
    note j = good_join [OF l(1) b l(2) this, folded c_def]
    show ?thesis unfolding ins using L' j B by (auto simp: loss_ok_def C sorted_wrt_append AB(1))
  next
    case False
    then have ins: "loss_insert b L = A @ b # B" using AB(4) by (simp only: if_False)
    show ?thesis unfolding ins using L' A B b ne by (auto simp: loss_ok_def sorted_wrt_append AB(1))
  qed
qed

lemma sent_ok_lose:
  assumes "sent_ok data final R L A n" "R i = Some b"
  shows "sent_ok data final (R(i := None)) (loss_insert b L) A n"
proof -
  have p: "partition_ok (points A) (flight R) (lost L) n" "retx_ok data final R" "loss_ok data final L"
    using assms(1) by (simp_all add: sent_ok_def)
  have g: "good data final b" using p(2) assms(2) by (auto simp: retx_ok_def)
  have m: "span b \<subseteq> flight R" by (rule flight_mem [of R i b, OF assms(2)])
  then have "span b \<inter> lost L = {}" using p(1) by (auto simp: partition_ok_def)
  note li = loss_ok_insert [OF p(3) g this]
  have "partition_ok (points A) (flight R - span b) (lost L \<union> span b) n"
    using p(1) m unfolding partition_ok_def by blast
  then show ?thesis
    using assms(1) li retx_ok_del [of data final R i, OF p(2)] flight_del [of data final R i b, OF p(2) assms(2)]
    by (simp add: sent_ok_def)
qed

text \<open>A retransmission takes the beginning \<open>c\<close> of a lost buffer \<open>b\<close> and leaves \<open>rest\<close>.\<close>

lemma sent_ok_retransmit:
  assumes "sent_ok data final R (xs @ b # ys) A n" "good data final c" "sb_offset c = sb_offset b"
    and rest: "\<forall>r \<in> set rest. good data final r \<and> span_end c \<le> sb_offset r \<and> span_end r \<le> span_end b" "length rest \<le> 1"
    and sp: "span b = span c \<union> lost rest" "span c \<inter> lost rest = {}"
  shows "R (sb_offset b) = None" "sent_ok data final (R(sb_offset b \<mapsto> c)) (xs @ rest @ ys) A n"
proof -
  have p: "partition_ok (points A) (flight R) (lost (xs @ b # ys)) n" "retx_ok data final R" "loss_ok data final (xs @ b # ys)"
    using assms(1) by (simp_all add: sent_ok_def)
  have "span c \<inter> flight R = {}" using p(1) sp(1) by (auto simp: partition_ok_def)
  note u = retx_ok_upd [OF p(2) assms(2) this, unfolded assms(3)]
  show "R (sb_offset b) = None" by (rule u(1))
  have o: "\<forall>x \<in> set xs. span_end x \<le> sb_offset b" "\<forall>y \<in> set ys. span_end b \<le> sb_offset y"
    using p(3) by (auto simp: loss_ok_def sorted_wrt_append)
  then have dist: "span b \<inter> lost (xs @ ys) = {}" by (fastforce simp: lost_def span_def)
  have bc: "sb_offset b \<le> span_end c" using assms(2,3) by (simp add: good_def)
  have "loss_ok data final (xs @ rest @ ys)"
  proof (cases rest)
    case Nil
    then show ?thesis using p(3) by (auto simp: loss_ok_def sorted_wrt_append)
  next
    case (Cons r rs)
    then have r: "rest = [r]" "good data final r" "sb_offset b \<le> sb_offset r" "span_end r \<le> span_end b"
      using rest bc by (auto intro: order_trans)
    with o have "\<forall>x \<in> set xs. span_end x \<le> sb_offset r" "\<forall>y \<in> set ys. span_end r \<le> sb_offset y"
      by (auto intro: order_trans)
    with p(3) r show ?thesis by (auto simp: loss_ok_def sorted_wrt_append)
  qed
  moreover have "partition_ok (points A) (flight R \<union> span c) (lost (xs @ rest @ ys)) n"
    using p(1) sp dist unfolding partition_ok_def by auto
  ultimately show "sent_ok data final (R(sb_offset b \<mapsto> c)) (xs @ rest @ ys) A n"
    using assms(1) u by (simp add: sent_ok_def flight_upd)
qed

end
