(* ===== verification/Sender_Run.thy ===== *)
theory Sender_Run
  imports Sender
begin

text \<open>
  The life of a sending stream: the application writes and resets, the transport sends, resends,
  loses and gets acknowledged stream frames, and the peer opens its window. The state is the
  connection, the stream and the stream frames that are in flight (a packet and its clones count
  once). The steps are the handlers of the code; the guards say what their callers guarantee.
\<close>

section \<open>Events\<close>

type_synonym sender = "QuicConnectionStateBase \<times> QuicStreamState \<times> WriteStreamFrame set"

datatype sender_event =
    AppWrite "byte list" bool
  | FrameSent WriteStreamFrame
  | FrameAcked WriteStreamFrame
  | FrameLost WriteStreamFrame
  | AppReset int ApplicationErrorCode
  | ResetAcked
  | WindowUpdate nat

fun sender_exec :: "sender_event \<Rightarrow> sender \<Rightarrow> sender res" where
  "sender_exec (AppWrite d eof) (conn, s, out) = rbind (writeDataToQuicStream conn s d eof) (\<lambda>(conn, s). Inr (conn, s, out))"
| "sender_exec (FrameSent f) (conn, s, out) = rbind (streamFrameSent conn s f) (\<lambda>(conn, s). Inr (conn, s, insert f out))"
| "sender_exec (FrameAcked f) (conn, s, out) = rbind (sendAckSMHandler conn s f) (\<lambda>(conn, s). Inr (conn, s, out - {f}))"
| "sender_exec (FrameLost f) (conn, s, out) = rbind (streamFrameLost False conn s f) (\<lambda>(_, conn, s). Inr (conn, s, out - {f}))"
| "sender_exec (AppReset now err) (conn, s, out) = rbind (sendRstSMHandler now conn s err) (\<lambda>(conn, s). Inr (conn, s, out))"
| "sender_exec ResetAcked (conn, s, out) = rbind (sendRstAckSMHandler conn s) (\<lambda>(conn, s). Inr (conn, s, out))"
| "sender_exec (WindowUpdate n) (conn, s, out) = rbind (handleStreamWindowUpdate conn s n) (\<lambda>(conn, s). Inr (conn, s, out))"

text \<open>A frame with new data: what the scheduler takes from the write buffer, within the window.\<close>

definition new_frame :: "QuicConnectionStateBase \<Rightarrow> QuicStreamState \<Rightarrow> WriteStreamFrame \<Rightarrow> bool" where
  "new_frame conn s f \<longleftrightarrow> ws_offset f = currentWriteOffset s \<and> ws_len f \<le> length (writeBuffer s) \<and> (0 < ws_len f \<or> ws_fin f) \<and>
     (ws_fin f \<longrightarrow> finalWriteOffset s = Some (currentWriteOffset s + ws_len f)) \<and>
     currentWriteOffset s + ws_len f \<le> sfc_peerAdvertisedMaxOffset (flowControlState s) \<and>
     cfc_sumCurWriteOffset (conn_flowControlState conn) + ws_len f \<le> u64_max"

text \<open>A frame with lost data: the beginning of one of the lost buffers.\<close>

definition lost_frame :: "QuicStreamState \<Rightarrow> WriteStreamFrame \<Rightarrow> StreamBuffer \<Rightarrow> bool" where
  "lost_frame s f b \<longleftrightarrow> ws_offset f = sb_offset b \<and> ws_len f \<le> length (sb_data b) \<and> (0 < ws_len f \<or> ws_fin f) \<and>
     (ws_fin f \<longrightarrow> sb_eof b \<and> ws_len f = length (sb_data b))"

text \<open>\<open>data\<close> is the byte stream that the application writes.\<close>

fun sender_enabled :: "(nat \<Rightarrow> byte) \<Rightarrow> sender_event \<Rightarrow> sender \<Rightarrow> bool" where
  "sender_enabled data (AppWrite d eof) (conn, s, out) \<longleftrightarrow> writable s \<and>
     (let n = currentWriteOffset s + length (writeBuffer s) in d = map data [n..<n + length d] \<and> n + length d + 1 < u64_max) \<and>
     cfc_sumCurStreamBufferLen (conn_flowControlState conn) + length d \<le> u64_max"
| "sender_enabled data (FrameSent f) (conn, s, out) \<longleftrightarrow> sendState s = SendOpen \<and> \<not> ws_fromBufMeta f \<and>
     (new_frame conn s f \<or> (\<exists>b \<in> set (lossBuffer s). lost_frame s f b) \<or> f \<in> out)"
| "sender_enabled data (FrameAcked f) (conn, s, out) \<longleftrightarrow> f \<in> out"
| "sender_enabled data (FrameLost f) (conn, s, out) \<longleftrightarrow> f \<in> out"
| "sender_enabled data (AppReset now err) (conn, s, out) \<longleftrightarrow> True"
| "sender_enabled data ResetAcked (conn, s, out) \<longleftrightarrow> sendState s \<noteq> SendOpen"
| "sender_enabled data (WindowUpdate n) (conn, s, out) \<longleftrightarrow> True"

inductive sender_reachable :: "(nat \<Rightarrow> byte) \<Rightarrow> sender \<Rightarrow> bool" for data where
  start: "sendState s = SendOpen \<Longrightarrow> s = mkQuicStreamState i conn \<Longrightarrow> sender_reachable data (conn, s, {})"
| step: "sender_reachable data st \<Longrightarrow> sender_enabled data e st \<Longrightarrow> sender_exec e st = Inr st' \<Longrightarrow> sender_reachable data st'"

section \<open>The invariant\<close>

definition no_bufmeta :: "QuicStreamState \<Rightarrow> bool" where
  "no_bufmeta s \<longleftrightarrow> writeBufMeta s = emptyWriteBufferMeta \<and> retransmissionBufMetas s = Map.empty \<and> lossBufMetas s = [] \<and>
     \<not> dsrSender s \<and> groupId s = None"

text \<open>The frames in flight and the retransmission buffer describe the same data.\<close>

definition flight_ok :: "WriteStreamFrame set \<Rightarrow> (nat \<rightharpoonup> StreamBuffer) \<Rightarrow> bool" where
  "flight_ok out R \<longleftrightarrow> inj_on ws_offset out \<and> ws_offset ` out = dom R \<and>
     (\<forall>f \<in> out. \<not> ws_fromBufMeta f \<and> (\<forall>b. R (ws_offset f) = Some b \<longrightarrow> ws_len f = length (sb_data b) \<and> ws_fin f = sb_eof b))"

definition write_ok :: "(nat \<Rightarrow> byte) \<Rightarrow> QuicStreamState \<Rightarrow> bool" where
  "write_ok data s \<longleftrightarrow>
     (let n = currentWriteOffset s + length (writeBuffer s)
      in writeBuffer s = map data [currentWriteOffset s..<n] \<and> n < u64_max \<and>
         (finalWriteOffset s = None \<longrightarrow> n + 1 < u64_max) \<and>
         (\<forall>f. finalWriteOffset s = Some f \<longrightarrow> (n = f \<and> f + 1 < u64_max) \<or> (writeBuffer s = [] \<and> n = f + 1)) \<and>
         (currentWriteOffset s \<le> sfc_peerAdvertisedMaxOffset (flowControlState s) \<or>
          (writeBuffer s = [] \<and> (\<exists>f \<le> sfc_peerAdvertisedMaxOffset (flowControlState s). finalWriteOffset s = Some f \<and> currentWriteOffset s = f + 1))))"

definition open_inv :: "(nat \<Rightarrow> byte) \<Rightarrow> sender \<Rightarrow> bool" where
  "open_inv data st \<longleftrightarrow> (case st of (conn, s, out) \<Rightarrow>
     sent_ok data (finalWriteOffset s) (retransmissionBuffer s) (lossBuffer s) (ackedIntervals s) (currentWriteOffset s) \<and>
     write_ok data s \<and> flight_ok out (retransmissionBuffer s) \<and> streamWriteError s = None \<and>
     length (writeBuffer s) \<le> cfc_sumCurStreamBufferLen (conn_flowControlState conn) \<and>
     (hasSentFIN s \<longrightarrow> retransmissionBuffer s \<noteq> Map.empty \<or> lossBuffer s \<noteq> []))"

definition done_inv :: "QuicStreamState \<Rightarrow> bool" where
  "done_inv s \<longleftrightarrow> retransmissionBuffer s = Map.empty \<and> lossBuffer s = [] \<and> writeBuffer s = [] \<and>
     (streamWriteError s = None \<longrightarrow> points (ackedIntervals s) = {0..<currentWriteOffset s} \<and> hasSentFIN s)"

definition sender_inv :: "(nat \<Rightarrow> byte) \<Rightarrow> sender \<Rightarrow> bool" where
  "sender_inv data st \<longleftrightarrow> (case st of (conn, s, out) \<Rightarrow>
     no_bufmeta s \<and> sendState s \<noteq> SendInvalid \<and> (\<forall>f \<in> out. \<not> ws_fromBufMeta f) \<and>
     (if sendState s = SendOpen then open_inv data st else done_inv s))"

lemma hasWritableBufMeta_none: "no_bufmeta s \<Longrightarrow> hasWritableBufMeta s = Inr False"
  by (simp add: hasWritableBufMeta_def no_bufmeta_def emptyWriteBufferMeta_def)

lemma updateWritable_ok:
  assumes "no_bufmeta s" "if streamWriteError s = None then writeBuffer s = [] \<or> currentWriteOffset s \<le> sfc_peerAdvertisedMaxOffset (flowControlState s)
    else lossBuffer s = []"
  shows "\<exists>m. updateWritable conn s = Inr (conn\<lparr>conn_streamManager := m\<rparr>, s)"
proof (cases "streamWriteError s = None")
  case True
  have "\<exists>w. hasWritableData s = Inr w"
    using True assms(2) by (cases "finalWriteOffset s") (auto simp: hasWritableData_def check_def)
  then obtain w where w: "hasWritableData s = Inr w" ..
  have "res_or (hasSchedulableData s) (hasSchedulableDsr s) = Inr (w \<or> lossBuffer s \<noteq> [])"
    using w hasWritableBufMeta_none [OF assms(1)] assms(1)
    by (simp add: res_or_def hasSchedulableData_def hasSchedulableDsr_def no_bufmeta_def)
  then show ?thesis using True w hasWritableBufMeta_none [OF assms(1)]
    by (auto simp: updateWritable_def updateWritableStreams_def)
next
  case False
  then show ?thesis using assms
    by (auto simp: updateWritable_def updateWritableStreams_def no_bufmeta_def check_def)
qed

lemma hasSentFIN_iff: "no_bufmeta s \<Longrightarrow> hasSentFIN s \<longleftrightarrow> (\<exists>f. finalWriteOffset s = Some f \<and> f < currentWriteOffset s)"
  by (auto simp: hasSentFIN_def no_bufmeta_def emptyWriteBufferMeta_def split: option.split)

lemma flow_frames [simp]:
  "conn_flowControlState (maybeWriteBlockAfterAPIWrite conn s) = conn_flowControlState conn"
  "conn_flowControlState (maybeWriteBlockAfterSocketWrite conn s) = conn_flowControlState conn"
  "conn_flowControlState (maybeWriteDataBlockedAfterSocketWrite conn) = conn_flowControlState conn"
  "conn_flowControlState (updManager g conn) = conn_flowControlState conn"
  "conn_flowControlState (closeIfTerminal conn s) = conn_flowControlState conn"
  by (simp_all add: maybeWriteBlockAfterAPIWrite_def maybeWriteBlockAfterSocketWrite_def queueStreamBlocked_def updManager_def
      maybeWriteDataBlockedAfterSocketWrite_def updEvents_def closeIfTerminal_def)

lemma sent_ok_ends:
  assumes "sent_ok data final R L A n" "b \<in> ran R \<union> set L"
  shows "span_end b \<le> n" "sb_end b \<le> n" "good data final b"
proof -
  show g: "good data final b" using assms by (auto simp: sent_ok_def retx_ok_def loss_ok_def ran_def)
  have "span b \<subseteq> flight R \<union> lost L" using assms(2) by (auto simp: flight_ran lost_def)
  then have "span b \<subseteq> {0..<n}" using assms(1) by (auto simp: sent_ok_def partition_ok_def)
  moreover have "span_end b - 1 \<in> span b" "0 < span_end b" using g by (auto simp: span_def good_def)
  ultimately show "span_end b \<le> n" by auto
  then show "sb_end b \<le> n" by (simp add: span_end_def split: if_splits)
qed

lemma sent_ok_final:
  assumes "sent_ok data None R L A n" "n \<le> f"
  shows "sent_ok data (Some f) R L A n"
proof -
  have "good data (Some f) b" if "b \<in> ran R \<union> set L" for b
    using sent_ok_ends [OF assms(1) that] assms(2) by (auto simp: good_def conforming_def)
  then show ?thesis using assms(1) by (auto simp: sent_ok_def retx_ok_def loss_ok_def ran_def)
qed

section \<open>Every event keeps it\<close>

lemma open_writable:
  assumes "open_inv data (conn, s, out)"
  shows "writeBuffer s = [] \<or> currentWriteOffset s \<le> sfc_peerAdvertisedMaxOffset (flowControlState s)"
  using assms by (auto simp: open_inv_def write_ok_def Let_def)

lemma app_write:
  assumes inv: "sender_inv data (conn, s, out)" and en: "sender_enabled data (AppWrite d eof) (conn, s, out)"
  shows "\<exists>st'. sender_exec (AppWrite d eof) (conn, s, out) = Inr st' \<and> sender_inv data st'"
proof -
  define n where "n = currentWriteOffset s + length (writeBuffer s)"
  have w: "sendState s = SendOpen" "finalWriteOffset s = None" "d = map data [n..<n + length d]" "n + length d + 1 < u64_max"
    "cfc_sumCurStreamBufferLen (conn_flowControlState conn) + length d \<le> u64_max"
    using en by (auto simp: writable_def n_def Let_def)
  have o: "open_inv data (conn, s, out)" "no_bufmeta s" using inv w(1) by (auto simp: sender_inv_def)
  define s' where "s' = (let t = s\<lparr>writeBuffer := writeBuffer s @ d\<rparr>
    in if eof then t\<lparr>finalWriteOffset := Some (currentWriteOffset t + length (writeBuffer t))\<rparr> else t)"
  define conn1 where "conn1 = (if 0 < length d then maybeWriteBlockAfterAPIWrite conn s else conn)"
  define conn2 where "conn2 = updFlow (\<lambda>fc. fc\<lparr>cfc_sumCurStreamBufferLen := cfc_sumCurStreamBufferLen fc + length d\<rparr>) conn1"
  have fc: "conn_flowControlState conn1 = conn_flowControlState conn" by (simp add: conn1_def)
  have u: "updateFlowControlOnWriteToStream conn1 (length d) = Inr conn2"
    using w(5) by (simp add: updateFlowControlOnWriteToStream_def incrementWithOverFlowCheck_def fc conn2_def updFlow_def)
  have f: "writeBuffer s' = writeBuffer s @ d" "currentWriteOffset s' = currentWriteOffset s" "flowControlState s' = flowControlState s"
    "sendState s' = SendOpen" "retransmissionBuffer s' = retransmissionBuffer s" "lossBuffer s' = lossBuffer s"
    "ackedIntervals s' = ackedIntervals s" "streamWriteError s' = streamWriteError s"
    "finalWriteOffset s' = (if eof then Some (n + length d) else None)" "no_bufmeta s'"
    using w(1,2) o(2) by (simp_all add: s'_def n_def Let_def no_bufmeta_def)
  have le: "currentWriteOffset s \<le> sfc_peerAdvertisedMaxOffset (flowControlState s)"
    using o(1) w(2) by (auto simp: open_inv_def write_ok_def Let_def)
  have e0: "streamWriteError s = None" using o(1) by (simp add: open_inv_def)
  obtain m where m: "updateWritable conn2 s' = Inr (conn2\<lparr>conn_streamManager := m\<rparr>, s')"
    using updateWritable_ok [OF f(10), of conn2] le by (auto simp: f e0)
  have z: "wbm_offset (writeBufMeta s) = 0" "\<not> dsrSender s" using o(2) by (simp_all add: no_bufmeta_def emptyWriteBufferMeta_def)
  have c: "check (wbm_offset (writeBufMeta s) = 0) = Inr ()" "check (\<not> (eof \<and> dsrSender s)) = Inr ()" using z by simp_all
  have "writeDataToQuicStream conn s d eof = Inr (conn2\<lparr>conn_streamManager := m\<rparr>, s')"
    unfolding writeDataToQuicStream_def c rbind.simps Let_def conn1_def [symmetric] s'_def [unfolded Let_def, symmetric] u m ..
  then have x: "sender_exec (AppWrite d eof) (conn, s, out) = Inr (conn2\<lparr>conn_streamManager := m\<rparr>, s', out)" by simp
  have wb: "writeBuffer s = map data [currentWriteOffset s..<n]" using o(1) by (simp add: open_inv_def write_ok_def n_def Let_def)
  have "writeBuffer s @ d = map data [currentWriteOffset s..<n + length d]"
    using wb w(3) by (metis le_add1 map_append n_def upt_add_eq_append)
  then have "write_ok data s'" using w(4) le by (simp add: write_ok_def f n_def Let_def add.assoc)
  moreover have "sent_ok data (finalWriteOffset s') (retransmissionBuffer s) (lossBuffer s) (ackedIntervals s) (currentWriteOffset s)"
    using o(1) w(2) sent_ok_final [of data "retransmissionBuffer s" "lossBuffer s" "ackedIntervals s" "currentWriteOffset s" "n + length d"]
    by (auto simp: open_inv_def f n_def)
  moreover have "\<not> hasSentFIN s'" unfolding hasSentFIN_iff [OF f(10)] by (auto simp: f n_def)
  ultimately have "open_inv data (conn2\<lparr>conn_streamManager := m\<rparr>, s', out)"
    using o(1) by (simp add: open_inv_def f conn2_def updFlow_def fc)
  then show ?thesis using x inv f(4,10) by (auto simp: sender_inv_def)
qed

lemma flight_ok_upd:
  assumes "flight_ok out R" "R (ws_offset f) = None" "\<not> ws_fromBufMeta f" "ws_len f = length (sb_data b)" "ws_fin f = sb_eof b"
  shows "flight_ok (insert f out) (R(ws_offset f \<mapsto> b))"
proof -
  have n: "ws_offset f \<notin> ws_offset ` out" using assms(1,2) by (auto simp: flight_ok_def)
  then have "ws_offset g \<noteq> ws_offset f" if "g \<in> out" for g using that by (metis imageI)
  with n assms show ?thesis by (auto simp: flight_ok_def)
qed

lemma flight_ok_del:
  assumes "flight_ok out R" "f \<in> out"
  shows "flight_ok (out - {f}) (R(ws_offset f := None))" "\<exists>b. R (ws_offset f) = Some b \<and> ws_len f = length (sb_data b) \<and> ws_fin f = sb_eof b"
    "\<not> ws_fromBufMeta f"
proof -
  have i: "inj_on ws_offset out" "ws_offset ` out = dom R" using assms(1) by (simp_all add: flight_ok_def)
  have "ws_offset ` (out - {f}) = dom R - {ws_offset f}"
    using inj_on_image_set_diff [OF i(1), of out "{f}"] assms(2) i(2) by simp
  moreover have "ws_offset g \<noteq> ws_offset f" if "g \<in> out - {f}" for g using i(1) that assms(2) by (auto dest: inj_onD)
  ultimately show "flight_ok (out - {f}) (R(ws_offset f := None))"
    using assms(1) by (auto simp: flight_ok_def intro: inj_on_diff)
  have "ws_offset f \<in> dom R" using i(2) assms(2) by blast
  then show "\<exists>b. R (ws_offset f) = Some b \<and> ws_len f = length (sb_data b) \<and> ws_fin f = sb_eof b"
    using assms by (auto simp: flight_ok_def)
  show "\<not> ws_fromBufMeta f" using assms by (simp add: flight_ok_def)
qed

lemma frame_sent_new:
  assumes inv: "sender_inv data (conn, s, out)" and op: "sendState s = SendOpen" and nm: "\<not> ws_fromBufMeta f" and nf: "new_frame conn s f"
  shows "\<exists>st'. sender_exec (FrameSent f) (conn, s, out) = Inr st' \<and> sender_inv data st'"
proof -
  define n where "n = currentWriteOffset s"
  define l where "l = ws_len f"
  note nf' = nf [unfolded new_frame_def, folded n_def l_def]
  have o: "open_inv data (conn, s, out)" "no_bufmeta s" using inv op by (auto simp: sender_inv_def)
  have w: "writeBuffer s = map data [n..<n + length (writeBuffer s)]" "n + l + (if ws_fin f then 1 else 0) < u64_max"
    using o(1) nf' by (auto simp: open_inv_def write_ok_def n_def Let_def)
  define b where "b = \<lparr>sb_data = take l (writeBuffer s), sb_offset = n, sb_eof = ws_fin f\<rparr>"
  have bl: "length (sb_data b) = l" "sb_end b = n + l" using nf' by (simp_all add: b_def sb_end_def)
  then have be: "span_end b = n + l + (if ws_fin f then 1 else 0)" by (simp add: span_end_def) (simp add: b_def)
  have fle: "n + l \<le> fw" if "finalWriteOffset s = Some fw" for fw
    using o(1) nf' that by (auto simp: open_inv_def write_ok_def n_def Let_def)
  have "sb_data b = map data [n..<n + l]"
    unfolding b_def using w(1) nf' by (metis StreamBuffer.select_convs(1) add_le_cancel_left take_map take_upt)
  then have g: "good data (finalWriteOffset s) b"
    using nf' be bl fle unfolding good_def conforming_def seg_def by (auto simp: b_def)
  have so: "sent_ok data (finalWriteOffset s) (retransmissionBuffer s) (lossBuffer s) (ackedIntervals s) n"
    using o(1) by (simp add: open_inv_def n_def)
  have off: "sb_offset b = n" by (simp add: b_def)
  note new = sent_ok_new [OF so g off w(2) [folded be]]
  define s1 where "s1 = s\<lparr>currentWriteOffset := n + l + (if ws_fin f then 1 else 0), writeBuffer := drop l (writeBuffer s),
    retransmissionBuffer := (retransmissionBuffer s)(n \<mapsto> b), numPacketsTxWithNewData := numPacketsTxWithNewData s + 1\<rparr>"
  have h: "handleStreamWritten conn s (ws_offset f) (ws_len f) (ws_fin f) = Inr (True, conn, s1)"
    using new(1) nf' by (simp add: handleStreamWritten_def handleNewStreamDataWritten_def emplaceNew_def check_def Let_def
        s1_def b_def n_def l_def)
  define conn1 where "conn1 = conn\<lparr>conn_flowControlState := (conn_flowControlState conn)
    \<lparr>cfc_sumCurWriteOffset := cfc_sumCurWriteOffset (conn_flowControlState conn) + l,
     cfc_sumCurStreamBufferLen := cfc_sumCurStreamBufferLen (conn_flowControlState conn) - l\<rparr>\<rparr>"
  define conn2 where "conn2 = updManager (addTx (ws_streamId f))
    (maybeWriteDataBlockedAfterSocketWrite (maybeWriteBlockAfterSocketWrite conn1 s1))"
  have sl: "length (writeBuffer s) \<le> cfc_sumCurStreamBufferLen (conn_flowControlState conn)" using o(1) by (simp add: open_inv_def)
  have u: "updateFlowControlOnWriteToSocket conn l = Inr conn1"
  proof -
    have a: "\<not> u64_max - l < cfc_sumCurWriteOffset (conn_flowControlState conn)"
      "l \<le> cfc_sumCurStreamBufferLen (conn_flowControlState conn)" using nf' sl by linarith+
    then show ?thesis
      by (simp add: updateFlowControlOnWriteToSocket_def incrementWithOverFlowCheck_def Let_def conn1_def sub64_def)
  qed
  have f1: "no_bufmeta s1" "sendState s1 = SendOpen" "finalWriteOffset s1 = finalWriteOffset s" "lossBuffer s1 = lossBuffer s"
    "ackedIntervals s1 = ackedIntervals s" "streamWriteError s1 = None" "flowControlState s1 = flowControlState s"
    "retransmissionBuffer s1 = (retransmissionBuffer s)(n \<mapsto> b)" "currentWriteOffset s1 = span_end b"
    "writeBuffer s1 = drop l (writeBuffer s)"
    using o op be by (simp_all add: s1_def no_bufmeta_def open_inv_def)
  have wok: "write_ok data s1"
  proof -
    have d: "drop l (writeBuffer s) = map data [n + l..<n + length (writeBuffer s)]"
      using w(1) by (metis drop_map drop_upt)
    have old: "write_ok data s" using o(1) by (simp add: open_inv_def)
    show ?thesis
    proof (cases "ws_fin f")
      case True
      then have fin: "finalWriteOffset s = Some (n + l)" using nf' by blast
      with old have "length (writeBuffer s) = l" "n + l + 1 < u64_max"
        using nf' by (auto simp: write_ok_def Let_def n_def)
      then show ?thesis using True fin nf' by (simp add: write_ok_def f1 be Let_def)
    next
      case False
      then show ?thesis using old nf' d by (auto simp: write_ok_def f1 be Let_def n_def)
    qed
  qed
  have wr: "writeBuffer s1 = [] \<or> currentWriteOffset s1 \<le> sfc_peerAdvertisedMaxOffset (flowControlState s1)"
    using wok by (auto simp: write_ok_def Let_def)
  obtain m where m: "updateWritable conn2 s1 = Inr (conn2\<lparr>conn_streamManager := m\<rparr>, s1)"
    using updateWritable_ok [OF f1(1), of conn2] wr f1(6) by auto
  have x: "sender_exec (FrameSent f) (conn, s, out) = Inr (conn2\<lparr>conn_streamManager := m\<rparr>, s1, insert f out)"
    using nm h u m by (simp add: streamFrameSent_def l_def [symmetric] conn2_def [symmetric])
  have "flight_ok (insert f out) (retransmissionBuffer s1)"
    using flight_ok_upd [of out "retransmissionBuffer s" f b] o(1) new(1) nm nf' bl f1(8)
    by (simp add: open_inv_def l_def) (simp add: b_def)
  moreover have "length (writeBuffer s1) \<le> cfc_sumCurStreamBufferLen (conn_flowControlState conn2)"
    using sl by (simp add: conn2_def conn1_def f1)
  ultimately have "open_inv data (conn2\<lparr>conn_streamManager := m\<rparr>, s1, insert f out)"
    using new(2) wok f1 by (simp add: open_inv_def)
  then show ?thesis using x inv f1(1,2) nm by (auto simp: sender_inv_def)
qed

text \<open>What a step that does not touch the write buffer has to show.\<close>

lemma open_step:
  assumes o: "open_inv data (conn, s, out)" and s': "writeBuffer s' = writeBuffer s" "currentWriteOffset s' = currentWriteOffset s"
    "flowControlState s' = flowControlState s" "finalWriteOffset s' = finalWriteOffset s" "streamWriteError s' = None"
    and ok: "sent_ok data (finalWriteOffset s) (retransmissionBuffer s') (lossBuffer s') (ackedIntervals s') (currentWriteOffset s)"
    "flight_ok out' (retransmissionBuffer s')" "hasSentFIN s' \<longrightarrow> retransmissionBuffer s' \<noteq> Map.empty \<or> lossBuffer s' \<noteq> []"
    and c: "conn_flowControlState conn' = conn_flowControlState conn"
  shows "open_inv data (conn', s', out')"
  using assms by (simp add: open_inv_def write_ok_def)

lemma part_frame:
  assumes "good data final b" "l \<le> length (sb_data b)" "0 < l" "l < length (sb_data b) \<or> sb_eof b"
  defines "c \<equiv> \<lparr>sb_data = take l (sb_data b), sb_offset = sb_offset b, sb_eof = False\<rparr>"
    and "r \<equiv> b\<lparr>sb_offset := sb_offset b + l, sb_data := drop l (sb_data b)\<rparr>"
  shows "good data final c" "good data final r" "span_end c = sb_offset r" "span_end r = span_end b" "span b = span c \<union> span r"
    "span c \<inter> span r = {}"
proof -
  have b: "seg data b" "sb_eof b \<longrightarrow> final = Some (sb_end b)" "\<forall>f. final = Some f \<longrightarrow> sb_end b \<le> f"
    using assms(1) by (simp_all add: good_def conforming_def)
  have ce: "sb_end c = sb_offset b + l" "span_end c = sb_offset b + l" using assms(2) by (simp_all add: c_def sb_end_def span_end_def)
  have re: "sb_end r = sb_end b" "sb_eof r = sb_eof b" "sb_offset r = sb_offset b + l"
    using assms(2) by (simp_all add: r_def sb_end_def)
  then show se: "span_end r = span_end b" by (simp add: span_end_def)
  show e: "span_end c = sb_offset r" using ce re by simp
  have rlt: "sb_offset r < span_end r" using assms(2,4) re by (auto simp: span_end_def) (auto simp: sb_end_def)
  have sp: "take l (sb_data b) = map data [sb_offset b..<sb_offset b + l]" using seg_split(1) [OF b(1) assms(2)] .
  have "sb_end c \<le> sb_end b" using assms(2) ce by (simp add: sb_end_def)
  then show "good data final c" using sp assms(3) ce b(3) unfolding good_def conforming_def seg_def by (auto simp: c_def)
  have "sb_data r = map data [sb_offset b + l..<sb_end b]" using seg_drop [OF b(1), of l] by (simp add: r_def)
  then show "good data final r" using rlt b(2,3) unfolding good_def conforming_def seg_def re by simp
  show "span b = span c \<union> span r" "span c \<inter> span r = {}"
    using rlt assms(3) unfolding span_def e se [symmetric] by (auto simp: re c_def)
qed

lemma lower_bound_at:
  assumes "loss_ok data final (xs @ b # ys)"
  shows "lower_bound (\<lambda>x. sb_offset x < sb_offset b) (xs @ b # ys) = length xs"
proof -
  have "\<forall>x \<in> set xs. sb_offset x < sb_offset b"
  proof
    fix x assume x: "x \<in> set xs"
    then have "sb_offset x < span_end x" "span_end x \<le> sb_offset b"
      using assms by (auto simp: loss_ok_def sorted_wrt_append good_def)
    then show "sb_offset x < sb_offset b" by linarith
  qed
  then show ?thesis by (simp add: lower_bound_def takeWhile_append2)
qed

lemma frame_sent_retransmission:
  assumes inv: "sender_inv data (conn, s, out)" and op: "sendState s = SendOpen" and nm: "\<not> ws_fromBufMeta f"
    and lf: "b \<in> set (lossBuffer s)" "lost_frame s f b"
  shows "\<exists>st'. sender_exec (FrameSent f) (conn, s, out) = Inr st' \<and> sender_inv data st'"
proof -
  have o: "open_inv data (conn, s, out)" "no_bufmeta s" using inv op by (auto simp: sender_inv_def)
  obtain xs ys where L: "lossBuffer s = xs @ b # ys" using lf(1) by (meson split_list)
  have so: "sent_ok data (finalWriteOffset s) (retransmissionBuffer s) (xs @ b # ys) (ackedIntervals s) (currentWriteOffset s)"
    using o(1) by (simp add: open_inv_def L)
  have lo: "loss_ok data (finalWriteOffset s) (xs @ b # ys)" using so by (simp add: sent_ok_def)
  then have g: "good data (finalWriteOffset s) b" by (simp add: loss_ok_def)
  have "sb_offset b \<in> {0..<currentWriteOffset s}" using so good_span [OF g] by (auto simp: sent_ok_def partition_ok_def)
  then have lt: "ws_offset f < currentWriteOffset s" using lf(2) by (simp add: lost_frame_def)
  define whole where "whole \<longleftrightarrow> ws_len f = length (sb_data b) \<and> ws_fin f = sb_eof b"
  define c where "c = \<lparr>sb_data = take (ws_len f) (sb_data b), sb_offset = sb_offset b, sb_eof = ws_fin f\<rparr>"
  define rest where "rest = (if whole then [] else [b\<lparr>sb_offset := sb_offset b + ws_len f, sb_data := drop (ws_len f) (sb_data b)\<rparr>])"
  have parts: "good data (finalWriteOffset s) c \<and> sb_offset c = sb_offset b \<and>
    (\<forall>r \<in> set rest. good data (finalWriteOffset s) r \<and> span_end c \<le> sb_offset r \<and> span_end r \<le> span_end b) \<and> length rest \<le> 1 \<and>
    span b = span c \<union> lost rest \<and> span c \<inter> lost rest = {}"
  proof (cases whole)
    case True
    then have "c = b" by (simp add: c_def whole_def)
    then show ?thesis using True g by (simp add: rest_def)
  next
    case False
    then have fin: "\<not> ws_fin f" "ws_len f < length (sb_data b) \<or> sb_eof b" "ws_len f \<le> length (sb_data b)" "0 < ws_len f"
      using lf(2) by (auto simp: lost_frame_def whole_def)
    then show ?thesis using part_frame [OF g fin(3,4,2)] False by (simp add: c_def rest_def)
  qed
  then have rt: "retransmissionBuffer s (sb_offset b) = None"
    "sent_ok data (finalWriteOffset s) ((retransmissionBuffer s)(sb_offset b \<mapsto> c)) (xs @ rest @ ys) (ackedIntervals s) (currentWriteOffset s)"
    using sent_ok_retransmit [OF so, of c rest] by blast+
  define s1 where "s1 = s\<lparr>lossBuffer := xs @ rest @ ys, retransmissionBuffer := (retransmissionBuffer s)(sb_offset b \<mapsto> c)\<rparr>"
  define conn1 where "conn1 = conn\<lparr>conn_totalBytesRetransmitted := conn_totalBytesRetransmitted conn + ws_len f\<rparr>"
  have fo: "ws_offset f = sb_offset b" using lf(2) by (simp add: lost_frame_def)
  have lb: "lower_bound (\<lambda>x. sb_offset x < ws_offset f) (lossBuffer s) = length xs" unfolding L fo by (rule lower_bound_at [OF lo])
  have hr: "handleRetransmissionWritten s (ws_offset f) (ws_len f) (ws_fin f) (length xs) = Inr s1"
    using rt(1) by (auto simp: handleRetransmissionWritten_def L emplaceNew_def check_def s1_def c_def rest_def whole_def fo
        erase_range_def Let_def)
  have h: "handleStreamWritten conn s (ws_offset f) (ws_len f) (ws_fin f) = Inr (False, conn1, s1)"
    using lt hr unfolding handleStreamWritten_def lb by (simp add: Let_def L fo conn1_def)
  have f1: "no_bufmeta s1" "sendState s1 = SendOpen" "streamWriteError s1 = None" "retransmissionBuffer s1 \<noteq> Map.empty"
    using o op by (simp_all add: s1_def no_bufmeta_def open_inv_def)
  obtain m where m: "updateWritable conn1 s1 = Inr (conn1\<lparr>conn_streamManager := m\<rparr>, s1)"
    using updateWritable_ok [OF f1(1), of conn1] open_writable [OF o(1)] f1(3) by (auto simp: s1_def)
  have x: "sender_exec (FrameSent f) (conn, s, out) = Inr (conn1\<lparr>conn_streamManager := m\<rparr>, s1, insert f out)"
    using nm h m by (simp add: streamFrameSent_def)
  have fl: "flight_ok out (retransmissionBuffer s)" using o(1) by (simp add: open_inv_def)
  have cl: "ws_len f = length (sb_data c)" "ws_fin f = sb_eof c" using lf(2) by (simp_all add: c_def lost_frame_def)
  have "flight_ok (insert f out) (retransmissionBuffer s1)"
    using flight_ok_upd [OF fl rt(1) [folded fo] nm cl] by (simp add: s1_def fo [symmetric])
  with o(1) rt(2) f1 have "open_inv data (conn1\<lparr>conn_streamManager := m\<rparr>, s1, insert f out)"
    by (intro open_step [OF o(1)]) (simp_all add: s1_def conn1_def)
  then show ?thesis using x inv f1(1,2) nm by (auto simp: sender_inv_def)
qed

lemma frame_sent_clone:
  assumes inv: "sender_inv data (conn, s, out)" and op: "sendState s = SendOpen" and nm: "\<not> ws_fromBufMeta f" and fo: "f \<in> out"
  shows "\<exists>st'. sender_exec (FrameSent f) (conn, s, out) = Inr st' \<and> sender_inv data st'"
proof -
  have o: "open_inv data (conn, s, out)" "no_bufmeta s" using inv op by (auto simp: sender_inv_def)
  have so: "sent_ok data (finalWriteOffset s) (retransmissionBuffer s) (lossBuffer s) (ackedIntervals s) (currentWriteOffset s)"
    and fl: "flight_ok out (retransmissionBuffer s)" using o(1) by (simp_all add: open_inv_def)
  obtain b where b: "retransmissionBuffer s (ws_offset f) = Some b" using flight_ok_del(2) [OF fl fo] by blast
  have g: "good data (finalWriteOffset s) b" "sb_offset b = ws_offset f" using so b by (auto simp: sent_ok_def retx_ok_def)
  have p: "ws_offset f \<in> flight (retransmissionBuffer s)" using good_span [OF g(1)] flight_mem [of "retransmissionBuffer s" "ws_offset f" b, OF b] g(2) by auto
  then have lt: "ws_offset f < currentWriteOffset s" "ws_offset f \<notin> lost (lossBuffer s)"
    using so by (auto simp: sent_ok_def partition_ok_def)
  have nl: "sb_offset x \<noteq> ws_offset f" if "x \<in> set (lossBuffer s)" for x
  proof -
    have "good data (finalWriteOffset s) x" using so that by (auto simp: sent_ok_def loss_ok_def)
    then show ?thesis using lt(2) that good_span [of data "finalWriteOffset s" x] by (auto simp: lost_def)
  qed
  define conn1 where "conn1 = conn\<lparr>conn_totalStreamBytesCloned := conn_totalStreamBytesCloned conn + ws_len f\<rparr>"
  have h: "handleStreamWritten conn s (ws_offset f) (ws_len f) (ws_fin f) = Inr (False, conn1, s)"
    using lt(1) nl nth_mem by (auto simp: handleStreamWritten_def Let_def conn1_def)
  have e: "streamWriteError s = None" using o(1) by (simp add: open_inv_def)
  obtain m where m: "updateWritable conn1 s = Inr (conn1\<lparr>conn_streamManager := m\<rparr>, s)"
    using updateWritable_ok [OF o(2), of conn1] open_writable [OF o(1)] e by auto
  have x: "sender_exec (FrameSent f) (conn, s, out) = Inr (conn1\<lparr>conn_streamManager := m\<rparr>, s, out)"
    using nm h m fo by (simp add: streamFrameSent_def insert_absorb)
  have "open_inv data (conn1\<lparr>conn_streamManager := m\<rparr>, s, out)" using o(1) by (simp add: open_inv_def conn1_def)
  then show ?thesis using x inv op by (auto simp: sender_inv_def)
qed

lemma allBytesTillFinAcked_iff:
  assumes "no_bufmeta s"
  shows "allBytesTillFinAcked s = Inr (hasSentFIN s \<and> retransmissionBuffer s = Map.empty \<and> writeBuffer s = [] \<and> lossBuffer s = [])"
  using assms hasWritableBufMeta_none [OF assms] by (auto simp: allBytesTillFinAcked_def no_bufmeta_def)

lemma frame_acked:
  assumes inv: "sender_inv data (conn, s, out)" and fo: "f \<in> out"
  shows "\<exists>st'. sender_exec (FrameAcked f) (conn, s, out) = Inr st' \<and> sender_inv data st' \<and>
    (\<forall>p \<in> points (ackedIntervals (fst (snd st'))). p \<in> points (ackedIntervals s) \<or>
       (\<exists>b. retransmissionBuffer s (ws_offset f) = Some b \<and> p \<in> span b))"
proof (cases "sendState s = SendOpen")
  case False
  then have "sender_exec (FrameAcked f) (conn, s, out) = Inr (conn, s, out - {f})"
    using inv by (cases "sendState s") (auto simp: sender_inv_def sendAckSMHandler_def)
  then show ?thesis using inv False by (auto simp: sender_inv_def)
next
  case True
  have o: "open_inv data (conn, s, out)" "no_bufmeta s" using inv True by (auto simp: sender_inv_def)
  have so: "sent_ok data (finalWriteOffset s) (retransmissionBuffer s) (lossBuffer s) (ackedIntervals s) (currentWriteOffset s)"
    and fl: "flight_ok out (retransmissionBuffer s)" and we: "streamWriteError s = None" using o(1) by (simp_all add: open_inv_def)
  obtain b where b: "retransmissionBuffer s (ws_offset f) = Some b" "ws_len f = length (sb_data b)" "ws_fin f = sb_eof b"
    using flight_ok_del(2) [OF fl fo] by blast
  have off: "sb_offset b = ws_offset f" using so b(1) by (auto simp: sent_ok_def retx_ok_def)
  note ack = sent_ok_ack [of data "finalWriteOffset s" "retransmissionBuffer s" "lossBuffer s" "ackedIntervals s"
      "currentWriteOffset s" "ws_offset f" b, OF so b(1)]
  obtain A' where A': "iset_insert_range (ws_offset f) (sub64 (add64 (ws_offset f) (length (sb_data b))) (if sb_eof b then 0 else 1))
      (ackedIntervals s) = Inr A'"
    "sent_ok data (finalWriteOffset s) ((retransmissionBuffer s)(ws_offset f := None)) (lossBuffer s) A' (currentWriteOffset s)"
    "points A' = points (ackedIntervals s) \<union> span b"
    using ack(1) by blast
  define s1 where "s1 = s\<lparr>ackedIntervals := A', retransmissionBuffer := (retransmissionBuffer s)(ws_offset f := None)\<rparr>"
  have c: "\<not> ((if sb_eof b then 0 else 1 :: nat) \<noteq> 0 \<and> length (sb_data b) = 0)" using ack(2) by auto
  have "updateAckedIntervals (sb_offset b) (length (sb_data b)) (sb_eof b) s = Inr (s\<lparr>ackedIntervals := A'\<rparr>)"
    unfolding updateAckedIntervals_def Let_def if_not_P [OF c] off A'(1) by simp
  then have a: "ackRetransmissionBuffer s f = Inr s1"
    using b off by (simp add: ackRetransmissionBuffer_def check_def s1_def)
  have f1: "no_bufmeta s1" "sendState s1 = SendOpen" using o True by (simp_all add: s1_def no_bufmeta_def)
  define acked where "acked \<longleftrightarrow> hasSentFIN s1 \<and> retransmissionBuffer s1 = Map.empty \<and> writeBuffer s1 = [] \<and> lossBuffer s1 = []"
  have al: "allBytesTillFinAcked s1 = Inr acked" unfolding acked_def by (rule allBytesTillFinAcked_iff [OF f1(1)])
  define conn1 where "conn1 = updManager (addDeliverable (st_id s1)) conn"
  define s2 where "s2 = (if acked then s1\<lparr>sendState := SendClosed\<rparr> else s1)"
  define conn2 where "conn2 = (if acked then closeIfTerminal conn1 s2 else conn1)"
  have x: "sender_exec (FrameAcked f) (conn, s, out) = Inr (conn2, s2, out - {f})"
    using True a al flight_ok_del(3) [OF fl fo] by (simp add: sendAckSMHandler_def Let_def conn1_def s2_def conn2_def)
  have "sender_inv data (conn2, s2, out - {f})"
  proof (cases acked)
    case ac: True
    have "flight Map.empty = {}" by (simp add: flight_def)
    then have "points A' = {0..<currentWriteOffset s}" using A'(2) ac by (simp add: acked_def s1_def sent_ok_def partition_ok_def)
    moreover have "hasSentFIN s2" using ac by (simp add: acked_def s2_def hasSentFIN_def cong: option.case_cong)
    moreover have "retransmissionBuffer s2 = Map.empty" "lossBuffer s2 = []" "writeBuffer s2 = []" "ackedIntervals s2 = A'"
      "currentWriteOffset s2 = currentWriteOffset s" using ac by (simp_all add: acked_def s2_def) (simp_all add: s1_def)
    ultimately have "done_inv s2" by (simp add: done_inv_def)
    then show ?thesis using inv f1 ac by (simp add: sender_inv_def s2_def no_bufmeta_def)
  next
    case nac: False
    have w: "writeBuffer s1 = []" if "hasSentFIN s1" using that o(1) f1(1)
      by (auto simp: hasSentFIN_iff open_inv_def write_ok_def Let_def s1_def)
    have "open_inv data (conn2, s1, out - {f})"
      using A'(2) flight_ok_del(1) [OF fl fo] we nac w
      by (intro open_step [OF o(1)]) (auto simp: s1_def conn1_def conn2_def acked_def)
    then show ?thesis using inv f1 nac by (auto simp: sender_inv_def s2_def)
  qed
  moreover have "ackedIntervals s2 = A'" by (simp add: s2_def s1_def)
  ultimately show ?thesis using x A'(3) b(1) by auto
qed

lemma frame_lost:
  assumes inv: "sender_inv data (conn, s, out)" and fo: "f \<in> out"
  shows "\<exists>st'. sender_exec (FrameLost f) (conn, s, out) = Inr st' \<and> sender_inv data st'"
proof (cases "sendState s = SendOpen")
  case False
  have "\<not> ws_fromBufMeta f" using inv fo by (simp add: sender_inv_def)
  then have "sender_exec (FrameLost f) (conn, s, out) = Inr (conn, s, out - {f})"
    using inv False by (simp add: sender_inv_def streamFrameLost_def done_inv_def)
  then show ?thesis using inv False by (auto simp: sender_inv_def)
next
  case True
  have o: "open_inv data (conn, s, out)" "no_bufmeta s" using inv True by (auto simp: sender_inv_def)
  have so: "sent_ok data (finalWriteOffset s) (retransmissionBuffer s) (lossBuffer s) (ackedIntervals s) (currentWriteOffset s)"
    and fl: "flight_ok out (retransmissionBuffer s)" and we: "streamWriteError s = None" using o(1) by (simp_all add: open_inv_def)
  obtain b where b: "retransmissionBuffer s (ws_offset f) = Some b" using flight_ok_del(2) [OF fl fo] by blast
  have lose: "sent_ok data (finalWriteOffset s) ((retransmissionBuffer s)(ws_offset f := None)) (loss_insert b (lossBuffer s))
      (ackedIntervals s) (currentWriteOffset s)"
    by (rule sent_ok_lose [OF so b])
  define s1 where "s1 = s\<lparr>lossBuffer := loss_insert b (lossBuffer s), streamLossCount := streamLossCount s + 1,
    retransmissionBuffer := (retransmissionBuffer s)(ws_offset f := None)\<rparr>"
  have f1: "no_bufmeta s1" "sendState s1 = SendOpen" "streamWriteError s1 = None" using o True we by (simp_all add: s1_def no_bufmeta_def)
  have dis: "\<not> streamRetransmissionDisabled conn s" using o(2) by (simp add: streamRetransmissionDisabled_def no_bufmeta_def)
  obtain m where m: "updateWritable conn s1 = Inr (conn\<lparr>conn_streamManager := m\<rparr>, s1)"
    using updateWritable_ok [OF f1(1), of conn] open_writable [OF o(1)] f1(3) by (auto simp: s1_def)
  have x: "sender_exec (FrameLost f) (conn, s, out) = Inr (conn\<lparr>conn_streamManager := m\<rparr>, s1, out - {f})"
    using flight_ok_del(3) [OF fl fo] b dis m by (simp add: streamFrameLost_def Let_def countLoss_def insertIntoLossBuffer_def s1_def)
  have ne: "loss_insert b (lossBuffer s) \<noteq> []"
    by (auto simp: loss_insert_def Let_def insert_at_def)
  have "open_inv data (conn\<lparr>conn_streamManager := m\<rparr>, s1, out - {f})"
    using lose flight_ok_del(1) [OF fl fo] we ne by (intro open_step [OF o(1)]) (simp_all add: s1_def)
  then show ?thesis using x inv f1 by (auto simp: sender_inv_def)
qed

lemma app_reset:
  assumes inv: "sender_inv data (conn, s, out)"
  shows "\<exists>st'. sender_exec (AppReset now err) (conn, s, out) = Inr st' \<and> sender_inv data st'"
proof (cases "sendState s = SendOpen")
  case False
  then have "sender_exec (AppReset now err) (conn, s, out) = Inr (conn, s, out)"
    using inv by (cases "sendState s") (auto simp: sender_inv_def sendRstSMHandler_def)
  then show ?thesis using inv by auto
next
  case True
  then have o: "open_inv data (conn, s, out)" "no_bufmeta s" using inv by (auto simp: sender_inv_def)
  then have "length (writeBuffer s) + wbm_length (writeBufMeta s) \<le> cfc_sumCurStreamBufferLen (conn_flowControlState conn)"
    by (simp add: open_inv_def no_bufmeta_def emptyWriteBufferMeta_def)
  from resetQuicStream_ok [OF this] obtain conn1 where
    r: "resetQuicStream now conn s err = Inr (conn1, updateHolBlockedTime now (clearedStream err s))" by blast
  define t where "t = updateHolBlockedTime now (clearedStream err s)"
  have "sender_exec (AppReset now err) (conn, s, out) = Inr (appendPendingStreamReset conn1 t err, t\<lparr>sendState := SendResetSent\<rparr>, out)"
    using True r by (simp add: sendRstSMHandler_def t_def)
  moreover have "no_bufmeta (t\<lparr>sendState := SendResetSent\<rparr>)" "done_inv (t\<lparr>sendState := SendResetSent\<rparr>)"
    using o(2) by (simp_all add: t_def no_bufmeta_def done_inv_def emptyWriteBufferMeta_def)
  ultimately show ?thesis using inv by (auto simp: sender_inv_def)
qed

lemma reset_acked:
  assumes inv: "sender_inv data (conn, s, out)" and en: "sendState s \<noteq> SendOpen"
  shows "\<exists>st'. sender_exec ResetAcked (conn, s, out) = Inr st' \<and> sender_inv data st'"
proof (cases "sendState s = SendResetSent")
  case True
  let ?s = "s\<lparr>sendState := SendClosed\<rparr>"
  have "sender_exec ResetAcked (conn, s, out) = Inr (closeIfTerminal conn ?s, ?s, out)"
    using True by (simp add: sendRstAckSMHandler_def Let_def)
  moreover have "hasSentFIN ?s = hasSentFIN s" by (simp add: hasSentFIN_def cong: option.case_cong)
  ultimately show ?thesis using inv en True by (auto simp: sender_inv_def no_bufmeta_def done_inv_def)
next
  case False
  then have "sender_exec ResetAcked (conn, s, out) = Inr (conn, s, out)"
    using inv en by (cases "sendState s") (auto simp: sender_inv_def sendRstAckSMHandler_def)
  then show ?thesis using inv by auto
qed

lemma window_update:
  assumes inv: "sender_inv data (conn, s, out)"
  shows "\<exists>st'. sender_exec (WindowUpdate n) (conn, s, out) = Inr st' \<and> sender_inv data st'"
proof (cases "sfc_peerAdvertisedMaxOffset (flowControlState s) \<le> n")
  case False
  then have "sender_exec (WindowUpdate n) (conn, s, out) = Inr (conn, s, out)" by (simp add: handleStreamWindowUpdate_def)
  then show ?thesis using inv by auto
next
  case True
  define t where "t = s\<lparr>flowControlState := (flowControlState s)\<lparr>sfc_peerAdvertisedMaxOffset := n\<rparr>\<rparr>"
  define conn1 where "conn1 = (if n > currentWriteOffset t + length (writeBuffer t) + wbm_length (writeBufMeta t)
    then updateFlowControlList conn t else conn)"
  have nb: "no_bufmeta t" using inv by (simp add: sender_inv_def t_def no_bufmeta_def)
  have fin: "hasSentFIN t = hasSentFIN s" by (simp add: hasSentFIN_def t_def cong: option.case_cong)
  have "if streamWriteError t = None then writeBuffer t = [] \<or> currentWriteOffset t \<le> sfc_peerAdvertisedMaxOffset (flowControlState t)
    else lossBuffer t = []"
    using inv True open_writable [of data conn s out]
    by (cases "sendState s = SendOpen") (auto simp: sender_inv_def open_inv_def done_inv_def t_def)
  from updateWritable_ok [OF nb this, of conn1] obtain m where
    "updateWritable conn1 t = Inr (conn1\<lparr>conn_streamManager := m\<rparr>, t)" by blast
  then have "sender_exec (WindowUpdate n) (conn, s, out) = Inr (conn1\<lparr>conn_streamManager := m\<rparr>, t, out)"
    using True by (simp add: handleStreamWindowUpdate_def Let_def t_def [symmetric] conn1_def updateWritable_def)
  moreover have "conn_flowControlState conn1 = conn_flowControlState conn" by (simp add: conn1_def updateFlowControlList_def)
  then have "open_inv data (conn1\<lparr>conn_streamManager := m\<rparr>, t, out)" if i: "open_inv data (conn, s, out)"
  proof -
    have w: "write_ok data s" using i by (simp add: open_inv_def)
    then have "currentWriteOffset s \<le> n \<or>
        writeBuffer s = [] \<and> (\<exists>f \<le> n. finalWriteOffset s = Some f \<and> currentWriteOffset s = f + 1)"
      using True order_trans unfolding write_ok_def Let_def by blast
    with w have "write_ok data t" by (simp add: write_ok_def Let_def t_def)
    with i fin \<open>conn_flowControlState conn1 = conn_flowControlState conn\<close> show ?thesis by (simp add: open_inv_def) (simp add: t_def)
  qed
  moreover have "done_inv t" if "done_inv s" using that fin by (simp add: done_inv_def) (simp add: t_def)
  ultimately show ?thesis using inv nb by (auto simp: sender_inv_def t_def split: if_splits)
qed

lemmas sender_event_ok = app_write frame_lost app_reset reset_acked window_update

lemma sender_step:
  assumes "sender_inv data st" "sender_enabled data e st"
  shows "\<exists>st'. sender_exec e st = Inr st' \<and> sender_inv data st'"
proof -
  obtain conn s out where st: "st = (conn, s, out)" by (cases st)
  show ?thesis
  proof (cases e)
    case (FrameSent f)
    then show ?thesis
      using assms frame_sent_new [of data conn s out f] frame_sent_retransmission [of data conn s out f] frame_sent_clone [of data conn s out f]
      unfolding st by auto
  next
    case (FrameAcked f)
    with assms have "sender_inv data (conn, s, out)" "f \<in> out" by (simp_all add: st)
    from frame_acked [OF this] show ?thesis unfolding st FrameAcked by blast
  qed (use assms sender_event_ok [of data conn s out] in \<open>auto simp only: st sender_enabled.simps\<close>)
qed

interpretation sender: safe_system "sender_enabled data" sender_exec "sender_inv data" for data
  by unfold_locales (rule sender_step)

text \<open>What an event can change.\<close>

definition send_kept :: "QuicStreamState \<Rightarrow> QuicStreamState \<Rightarrow> bool" where
  "send_kept s s' \<longleftrightarrow> currentWriteOffset s \<le> currentWriteOffset s' \<and> finalWriteOffset s' = finalWriteOffset s \<and>
     flowControlState s' = flowControlState s \<and> ackedIntervals s' = ackedIntervals s"

lemma send_kept_handlers:
  "handleNewStreamDataWritten s l fin = Inr s' \<Longrightarrow> send_kept s s'"
  "handleNewStreamBufMetaWritten s l fin = Inr s' \<Longrightarrow> send_kept s s'"
  "handleRetransmissionWritten s i l fin k = Inr s' \<Longrightarrow> send_kept s s'"
  "handleRetransmissionBufMetaWritten s i l fin k = Inr s' \<Longrightarrow> send_kept s s'"
  by (auto simp: send_kept_def handleNewStreamDataWritten_def handleNewStreamBufMetaWritten_def Let_def)
    (auto simp: send_kept_def handleRetransmissionWritten_def handleRetransmissionBufMetaWritten_def Let_def split: prod.splits)

lemma send_kept_count: "send_kept s (t\<lparr>numPacketsTxWithNewData := n\<rparr>) = send_kept s t" "send_kept s s"
  by (simp_all add: send_kept_def)

lemma send_kept_written:
  "handleStreamWritten conn s i l fin = Inr (b, conn', s') \<Longrightarrow> send_kept s s'"
  "handleStreamBufMetaWritten conn s i l fin = Inr (b, conn', s') \<Longrightarrow> send_kept s s'"
  by (auto simp: handleStreamWritten_def handleStreamBufMetaWritten_def Let_def send_kept_count
      dest: send_kept_handlers split: if_splits)

lemma streamFrameSent_frame:
  assumes "streamFrameSent conn s f = Inr (conn', s')"
  shows "send_kept s s'"
  using assms by (auto simp: streamFrameSent_def updateWritable_def dest: send_kept_written split: if_splits)

lemma streamFrameLost_frame:
  assumes "streamFrameLost c conn s f = Inr (c', conn', s')"
  shows "currentWriteOffset s' = currentWriteOffset s" "finalWriteOffset s' = finalWriteOffset s"
    "flowControlState s' = flowControlState s" "ackedIntervals s' = ackedIntervals s"
  using assms
  by (auto simp: streamFrameLost_def updateWritable_def countLoss_def insertIntoLossBuffer_def insertIntoLossBufMeta_def Let_def
      split: if_splits option.splits)

lemma sendAckSMHandler_frame:
  assumes "sendAckSMHandler conn s f = Inr (conn', s')"
  shows "currentWriteOffset s' = currentWriteOffset s" "finalWriteOffset s' = finalWriteOffset s" "flowControlState s' = flowControlState s"
  using assms
  by (auto simp: sendAckSMHandler_def ackRetransmissionBuffer_def ackRetransmissionBufMeta_def updateAckedIntervals_def Let_def
      split: StreamSendState.splits if_splits option.splits)

lemma reset_frame:
  assumes "sendRstSMHandler now conn s e = Inr (conn', s')"
  shows "currentWriteOffset s' = currentWriteOffset s" "finalWriteOffset s' = finalWriteOffset s"
    "flowControlState s' = flowControlState s" "ackedIntervals s' = ackedIntervals s"
  using assms
  by (auto simp: sendRstSMHandler_def resetQuicStream_def updateReadableStreams_def Let_def split: StreamSendState.splits)

lemma sender_exec_frame:
  assumes "sender_exec e (conn, s, out) = Inr (conn', s', out')"
  shows "currentWriteOffset s \<le> currentWriteOffset s'"
    "finalWriteOffset s' = finalWriteOffset s \<or>
       (\<exists>d. e = AppWrite d True \<and> finalWriteOffset s' = Some (currentWriteOffset s + length (writeBuffer s) + length d))"
    "sfc_peerAdvertisedMaxOffset (flowControlState s') =
       (case e of WindowUpdate n \<Rightarrow> max (sfc_peerAdvertisedMaxOffset (flowControlState s)) n | _ \<Rightarrow> sfc_peerAdvertisedMaxOffset (flowControlState s))"
    "(\<exists>f. e = FrameAcked f) \<or> ackedIntervals s' = ackedIntervals s"
proof -
  have "currentWriteOffset s \<le> currentWriteOffset s' \<and>
    (finalWriteOffset s' = finalWriteOffset s \<or>
       (\<exists>d. e = AppWrite d True \<and> finalWriteOffset s' = Some (currentWriteOffset s + length (writeBuffer s) + length d))) \<and>
    sfc_peerAdvertisedMaxOffset (flowControlState s') =
       (case e of WindowUpdate n \<Rightarrow> max (sfc_peerAdvertisedMaxOffset (flowControlState s)) n | _ \<Rightarrow> sfc_peerAdvertisedMaxOffset (flowControlState s)) \<and>
    ((\<exists>f. e = FrameAcked f) \<or> ackedIntervals s' = ackedIntervals s)"
  proof (cases e)
    case (AppWrite d eof)
    then show ?thesis using assms
      by (cases eof) (auto simp: writeDataToQuicStream_def updateWritable_def Let_def)
  next
    case (WindowUpdate n)
    then show ?thesis using assms by (auto simp: handleStreamWindowUpdate_def Let_def split: if_splits)
  next
    case ResetAcked
    then show ?thesis using assms by (auto simp: sendRstAckSMHandler_def Let_def split: StreamSendState.splits)
  next
    case (FrameSent f)
    with assms have "streamFrameSent conn s f = Inr (conn', s')" by auto
    from streamFrameSent_frame [OF this] show ?thesis by (simp add: FrameSent send_kept_def)
  next
    case (FrameAcked f)
    with assms have "sendAckSMHandler conn s f = Inr (conn', s')" by auto
    from sendAckSMHandler_frame [OF this] show ?thesis by (simp add: FrameAcked)
  next
    case (FrameLost f)
    with assms obtain c where "streamFrameLost False conn s f = Inr (c, conn', s')" by auto
    from streamFrameLost_frame [OF this] show ?thesis by (simp add: FrameLost)
  next
    case (AppReset now err)
    with assms have "sendRstSMHandler now conn s err = Inr (conn', s')" by auto
    from reset_frame [OF this] show ?thesis by (simp add: AppReset)
  qed
  then show "currentWriteOffset s \<le> currentWriteOffset s'"
    "finalWriteOffset s' = finalWriteOffset s \<or>
       (\<exists>d. e = AppWrite d True \<and> finalWriteOffset s' = Some (currentWriteOffset s + length (writeBuffer s) + length d))"
    "sfc_peerAdvertisedMaxOffset (flowControlState s') =
       (case e of WindowUpdate n \<Rightarrow> max (sfc_peerAdvertisedMaxOffset (flowControlState s)) n | _ \<Rightarrow> sfc_peerAdvertisedMaxOffset (flowControlState s))"
    "(\<exists>f. e = FrameAcked f) \<or> ackedIntervals s' = ackedIntervals s" by blast+
qed

lemma sender_start_inv:
  assumes "sendState s = SendOpen" "s = mkQuicStreamState i conn"
  shows "sender_inv data (conn, s, {})"
proof -
  have "points emptyIntervalSet = {}" "iset_inv emptyIntervalSet" by (simp_all add: emptyIntervalSet_def points_def iset_inv_def Interval_Set.separated_def)
  then show ?thesis using assms
    by (auto simp: sender_inv_def open_inv_def no_bufmeta_def mkQuicStreamState_def defaultStream_def Let_def sent_ok_def retx_ok_def loss_ok_def
        partition_ok_def flight_def u64_max_def write_ok_def flight_ok_def hasSentFIN_def)
qed

lemma sender_reachable_inv: "sender_reachable data st \<Longrightarrow> sender_inv data st"
proof (induction rule: sender_reachable.induct)
  case (start s i conn)
  then show ?case by (rule sender_start_inv)
next
  case (step st e st')
  then show ?case by (blast intro: sender.step_good)
qed

section \<open>Properties\<close>

text \<open>C2: sent stream data is never lost, duplicated or corrupted. In every state that a sending stream
  reaches, every event its environment can cause is handled without a failed check or an exception.
  While the stream is open, the positions below the write offset are exactly divided between the
  acknowledged ones, the frames in flight and the loss buffer; every buffer holds the bytes the
  application wrote at its offsets; and after the end was sent something is still in flight or waits
  for retransmission. When it is closed without a reset, every position including the end was
  acknowledged.\<close>

theorem sender_never_loses_data:
  assumes "sender_reachable data (conn, s, out)"
  shows "(\<forall>e. sender_enabled data e (conn, s, out) \<longrightarrow> (\<exists>st'. sender_exec e (conn, s, out) = Inr st')) \<and>
    (if sendState s = SendOpen
     then points (ackedIntervals s) \<union> flight (retransmissionBuffer s) \<union> lost (lossBuffer s) = {0..<currentWriteOffset s} \<and>
       points (ackedIntervals s) \<inter> flight (retransmissionBuffer s) = {} \<and> points (ackedIntervals s) \<inter> lost (lossBuffer s) = {} \<and>
       flight (retransmissionBuffer s) \<inter> lost (lossBuffer s) = {} \<and>
       (\<forall>b. b \<in> ran (retransmissionBuffer s) \<union> set (lossBuffer s) \<longrightarrow> sb_data b = map data [sb_offset b..<sb_end b]) \<and>
       writeBuffer s = map data [currentWriteOffset s..<currentWriteOffset s + length (writeBuffer s)] \<and>
       ws_offset ` out = dom (retransmissionBuffer s) \<and>
       (hasSentFIN s \<longrightarrow> out \<noteq> {} \<or> lossBuffer s \<noteq> [])
     else retransmissionBuffer s = Map.empty \<and> lossBuffer s = [] \<and> writeBuffer s = [] \<and>
       (streamWriteError s = None \<longrightarrow> points (ackedIntervals s) = {0..<currentWriteOffset s} \<and> hasSentFIN s))" (is "_ \<and> ?places")
proof (intro conjI allI impI)
  note inv = sender_reachable_inv [OF assms]
  show "\<exists>st'. sender_exec e (conn, s, out) = Inr st'" if "sender_enabled data e (conn, s, out)" for e
    by (rule sender.step_handled [OF inv that])
  show ?places
  proof (cases "sendState s = SendOpen")
    case True
    then have o: "open_inv data (conn, s, out)" using inv by (simp add: sender_inv_def)
    have "seg data b" if "b \<in> ran (retransmissionBuffer s) \<union> set (lossBuffer s)" for b
      using that o by (auto simp: open_inv_def sent_ok_def retx_ok_def loss_ok_def good_def conforming_def ran_def)
    moreover have im: "ws_offset ` out = dom (retransmissionBuffer s)" using o by (simp add: open_inv_def flight_ok_def)
    moreover have "out = {} \<Longrightarrow> retransmissionBuffer s = Map.empty" using im by (metis dom_eq_empty_conv image_empty)
    then have "hasSentFIN s \<longrightarrow> out \<noteq> {} \<or> lossBuffer s \<noteq> []" using o by (auto simp: open_inv_def)
    ultimately show ?thesis using True o
      by (simp add: open_inv_def sent_ok_def partition_ok_def write_ok_def Let_def seg_def)
  next
    case False
    then show ?thesis using inv by (simp add: sender_inv_def done_inv_def)
  qed
qed

theorem sender_never_loses_data_witness:
  "sender_reachable example_bytes (example_connection, example_app_stream, {}) \<and>
   (\<exists>st'. sender_exec (AppWrite [1, 2, 3] True) (example_connection, example_app_stream, {}) = Inr st')"
proof -
  have "sendState example_app_stream = SendOpen"
    by (simp add: example_app_stream_def mkQuicStreamState_def defaultStream_def Let_def isUnidirectionalStream_def)
  then have r: "sender_reachable example_bytes (example_connection, example_app_stream, {})"
    by (rule sender_reachable.start) (simp add: example_app_stream_def)
  have "sender_enabled example_bytes (AppWrite [1, 2, 3] True) (example_connection, example_app_stream, {})"
    by (simp add: example_app_stream_def mkQuicStreamState_def defaultStream_def Let_def isUnidirectionalStream_def writable_def
        example_bytes_def upt_rec u64_max_def example_connection_def example_flow_def)
  with sender_never_loses_data [OF r] r show ?thesis by blast
qed

end
