(* ===== verification/Delivery.thy ===== *)
theory Delivery
  imports Sender_Run
begin

text \<open>
  The life of a receiving stream: stream frames arrive through the state machine handler, the
  application reads, and the window is extended. The invariant knows which positions arrived and
  whether the end did; each of the three operations keeps it and cannot fail within the windows.
\<close>

section \<open>The receiving end\<close>

text \<open>What the receiver knows: the positions \<open>A\<close> that arrived, whether the end arrived, and the bytes
  \<open>got\<close> that the application has read. It is open until everything arrived; then it is read to the
  end, and one step further when the end was reported.\<close>

definition receiver_inv ::
  "(nat \<Rightarrow> byte) \<Rightarrow> nat option \<Rightarrow> nat set \<Rightarrow> bool \<Rightarrow> QuicStreamState \<Rightarrow> byte list \<Rightarrow> bool" where
  "receiver_inv data final A fin r got \<longleftrightarrow>
     finalReadOffset r = (if fin then final else None) \<and> (fin \<longrightarrow> final \<noteq> None) \<and>
     maxOffsetObserved r \<le> sfc_advertisedMaxOffset (flowControlState r) \<and> (\<forall>f. final = Some f \<longrightarrow> A \<subseteq> {0..<f}) \<and>
     (case recvState r of
        RecvOpen \<Rightarrow> receive_inv data final A r \<and> got = map data [0..<currentReadOffset r] \<and>
          (\<forall>f. finalReadOffset r = Some f \<longrightarrow> \<not> {0..<f} \<subseteq> A)
      | RecvClosed \<Rightarrow> fin \<and> (\<exists>f. final = Some f \<and> A = {0..<f} \<and>
          (receive_inv data final A r \<and> got = map data [0..<currentReadOffset r] \<and> currentReadOffset r \<le> f \<or>
           currentReadOffset r = f + 1 \<and> got = map data [0..<f]))
      | RecvInvalid \<Rightarrow> False)"

lemma one_buffer:
  assumes "reassembled data l bufs" "covered bufs = {l..<f}" "l < f"
  shows "\<exists>b. bufs = [b] \<and> sb_offset b = l \<and> sb_end b = f"
proof -
  obtain b bs where bufs: "bufs = b # bs" using assms(2,3) by (cases bufs) auto
  have b: "sb_data b \<noteq> []" "l \<le> sb_offset b" "reassembled data (Suc (sb_end b)) bs" using assms(1) by (simp_all add: bufs reassembled_Cons)
  note above = reassembled_above [OF b(3)]
  have be: "sb_offset b < sb_end b" using b(1) by (rule nonempty_less_end)
  have c: "{sb_offset b..<sb_end b} \<union> covered bs = {l..<f}" using assms(2) by (simp add: bufs)
  have "l \<in> {sb_offset b..<sb_end b} \<union> covered bs" unfolding c using assms(3) by simp
  then have o: "sb_offset b = l" using b(2) above be by auto
  have "sb_end b - 1 \<in> {l..<f}" unfolding c [symmetric] using be by auto
  moreover have "sb_end b \<notin> {l..<f}" unfolding c [symmetric] using above by auto
  ultimately have e: "sb_end b = f" using be by auto
  have "covered bs = {}"
  proof -
    have "covered bs \<subseteq> {l..<f}" using c by blast
    moreover have "{l..<f} \<inter> {Suc (sb_end b)..} = {}" by (auto simp: e)
    ultimately show ?thesis using above by blast
  qed
  then have "bs = []"
    using b(3) by (cases bs) (auto simp: reassembled_Cons dest: nonempty_less_end)
  then show ?thesis using bufs o e by simp
qed

lemma isAllDataReceived_iff:
  assumes inv: "receive_inv data final A r" and f: "finalReadOffset r = Some f" "A \<subseteq> {0..<f}"
  shows "isAllDataReceived r \<longleftrightarrow> {0..<f} \<subseteq> A"
proof
  have r: "reassembled data (currentReadOffset r) (readBuffer r)" "covered (readBuffer r) = A - {0..<currentReadOffset r}"
    "{0..<currentReadOffset r} \<subseteq> A" using inv by (auto simp: receive_inv_def)
  {
    assume "isAllDataReceived r"
    then consider "f \<le> currentReadOffset r"
      | "length (readBuffer r) = 1" "currentReadOffset r = sb_offset (hd (readBuffer r))" "sb_end (hd (readBuffer r)) = f"
      using f(1) by (auto simp: isAllDataReceived_def)
    then show "{0..<f} \<subseteq> A"
    proof cases
      case 1
      then have "{0..<f} \<subseteq> {0..<currentReadOffset r}" by auto
      then show ?thesis using r(3) by blast
    next
      case 2
      then obtain b where "readBuffer r = [b]" by (auto simp: length_Suc_conv)
      with 2 have "covered (readBuffer r) = {currentReadOffset r..<f}" by simp
      moreover have "{0..<f} \<subseteq> {0..<currentReadOffset r} \<union> {currentReadOffset r..<f}" by auto
      ultimately show ?thesis using r(2,3) by blast
    qed
  }
  assume all: "{0..<f} \<subseteq> A"
  show "isAllDataReceived r"
  proof (cases "f \<le> currentReadOffset r")
    case True
    then show ?thesis using f(1) by (simp add: isAllDataReceived_def)
  next
    case False
    have "A = {0..<f}" using all f(2) by blast
    moreover have "{0..<f} - {0..<currentReadOffset r} = {currentReadOffset r..<f}" by auto
    ultimately have "covered (readBuffer r) = {currentReadOffset r..<f}" using r(2) by simp
    from one_buffer [OF r(1) this] False show ?thesis using f(1) by (auto simp: isAllDataReceived_def)
  qed
qed

text \<open>A stream frame with the bytes of a buffer.\<close>

definition frameOf :: "StreamId \<Rightarrow> StreamBuffer \<Rightarrow> ReadStreamFrame" where
  "frameOf i b = \<lparr>rs_streamId = i, rs_streamGroupId = None, rs_offset = sb_offset b, rs_data = sb_data b, rs_fin = sb_eof b\<rparr>"

lemma append_frame:
  assumes "appendDataToReadBuffer conn r b = Inr (conn', r')" "sb_offset b < span_end b"
  shows "finalReadOffset r' = (if sb_eof b then Some (sb_end b) else finalReadOffset r)"
    "maxOffsetObserved r' = max (maxOffsetObserved r) (sb_end b)" "recvState r' = recvState r" "flowControlState r' = flowControlState r"
    "st_id r' = st_id r" "conn_nodeType conn' = conn_nodeType conn"
proof -
  have ne: "(\<not> sb_eof b \<and> sb_data b = []) = False" using assms(2) by (auto simp: span_end_def sb_end_def)
  show "finalReadOffset r' = (if sb_eof b then Some (sb_end b) else finalReadOffset r)"
    "maxOffsetObserved r' = max (maxOffsetObserved r) (sb_end b)" "recvState r' = recvState r" "flowControlState r' = flowControlState r"
    "st_id r' = st_id r" "conn_nodeType conn' = conn_nodeType conn"
    using assms(1) unfolding appendDataToReadBuffer_def appendDataToReadBufferCommon_def ne if_False checkFinalOffset_cases
    by (auto simp: updateFlowControlOnStreamData_def Let_def split: if_splits)
qed

lemma updateReadAndPeek_kept:
  assumes "updateReadAndPeek now conn s = (conn', s')"
  shows "recvState s' = recvState s" "flowControlState s' = flowControlState s" "st_id s' = st_id s" "conn_nodeType conn' = conn_nodeType conn"
  using assms by (auto simp: updateReadAndPeek_def updateReadableStreams_def updateHolBlockedTime_def Let_def split: option.splits if_splits)

text \<open>What the network needs to know of the receiver's identity and windows.\<close>

definition receiver_kept :: "QuicConnectionStateBase \<times> QuicStreamState \<Rightarrow> QuicConnectionStateBase \<times> QuicStreamState \<Rightarrow> bool" where
  "receiver_kept st st' \<longleftrightarrow> flowControlState (snd st') = flowControlState (snd st) \<and> st_id (snd st') = st_id (snd st) \<and>
     conn_nodeType (fst st') = conn_nodeType (fst st)"

lemma deliver_open:
  assumes inv: "receiver_inv data final A fin r got" and b: "conforming data final b" "sb_offset b < span_end b"
    and w: "sb_end b \<le> sfc_advertisedMaxOffset (flowControlState r)"
      "cfc_sumMaxObservedOffset (conn_flowControlState conn) + new_bytes r b \<le> cfc_advertisedMaxOffset (conn_flowControlState conn)"
      "cfc_sumMaxObservedOffset (conn_flowControlState conn) + sfc_advertisedMaxOffset (flowControlState r) \<le> u64_max"
    and op: "recvState r = RecvOpen"
  defines "A' \<equiv> A \<union> {sb_offset b..<sb_end b}"
  shows "\<exists>conn' r'. receiveReadStreamFrameSMHandler now conn r (frameOf (st_id r) b) = Inr (conn', r') \<and>
    receiver_inv data final A' (fin \<or> sb_eof b) r' got \<and> receiver_kept (conn, r) (conn', r') \<and>
    maxOffsetObserved r' \<le> max (maxOffsetObserved r) (sb_end b)"
proof -
  have ri: "receive_inv data final A r" "got = map data [0..<currentReadOffset r]" using inv op by (simp_all add: receiver_inv_def)
  have fr: "finalReadOffset r = (if fin then final else None)" "fin \<longrightarrow> final \<noteq> None" "\<forall>f. final = Some f \<longrightarrow> A \<subseteq> {0..<f}"
    "maxOffsetObserved r \<le> sfc_advertisedMaxOffset (flowControlState r)"
    using inv by (simp_all add: receiver_inv_def)
  have "\<exists>c'. updateFlowControlOnStreamData conn r (maxOffsetObserved r) (sb_end b) = Inr c'"
    unfolding updateFlowControlOnStreamData_cases [OF w(3)] using w(1,2) by (simp add: new_bytes_def not_less)
  from append_receive_inv [of data final A r b "updateFlowControlOnStreamData conn r" conn, OF ri(1) b(1) this] obtain conn1 r1 where
    a: "appendDataToReadBuffer conn r b = Inr (conn1, r1)" "receive_inv data final A' r1" "currentReadOffset r1 = currentReadOffset r"
    unfolding appendDataToReadBuffer_def A'_def by blast
  note f1 = append_frame [OF a(1) b(2)]
  have fin1: "finalReadOffset r1 = (if fin \<or> sb_eof b then final else None)" "fin \<or> sb_eof b \<longrightarrow> final \<noteq> None"
    using f1(1) fr b(1) by (auto simp: conforming_def)
  have A': "A' \<subseteq> {0..<f}" if "final = Some f" for f
  proof -
    have "sb_end b \<le> f" "A \<subseteq> {0..<f}" using b(1) fr(3) that by (auto simp: conforming_def)
    then show ?thesis unfolding A'_def by auto
  qed
  define r2 where "r2 = (if isAllDataReceived r1 then r1\<lparr>recvState := RecvClosed\<rparr> else r1)"
  define conn2 where "conn2 = (if isAllDataReceived r1 then closeIfTerminal conn1 r2 else conn1)"
  obtain conn' r' where u: "updateReadAndPeek now conn2 r2 = (conn', r')" by (cases "updateReadAndPeek now conn2 r2")
  note k = updateReadAndPeek_frame [OF u] updateReadAndPeek_kept [OF u]
  have sb: "\<lparr>sb_data = sb_data b, sb_offset = sb_offset b, sb_eof = sb_eof b\<rparr> = b" by simp
  have x: "receiveReadStreamFrameSMHandler now conn r (frameOf (st_id r) b) = Inr (conn', r')"
    using a(1) u op by (simp add: receiveReadStreamFrameSMHandler_def frameOf_def sb Let_def r2_def conn2_def split: if_splits)
  have r2: "currentReadOffset r2 = currentReadOffset r" "readBuffer r2 = readBuffer r1" "finalReadOffset r2 = finalReadOffset r1"
    "maxOffsetObserved r2 = maxOffsetObserved r1" "flowControlState r2 = flowControlState r" "st_id r2 = st_id r"
    "recvState r2 = (if isAllDataReceived r1 then RecvClosed else RecvOpen)"
    using a(3) f1 op by (simp_all add: r2_def)
  have i': "receive_inv data final A' r'" using a(2) receive_inv_cong [of r' r1] k r2 a(3) by simp
  have rk: "receiver_kept (conn, r) (conn', r')"
    using k r2 f1(6) by (simp add: receiver_kept_def conn2_def closeIfTerminal_def updManager_def)
  have iff: "isAllDataReceived r1 \<longleftrightarrow> {0..<f} \<subseteq> A'" if "finalReadOffset r1 = Some f" for f
    using isAllDataReceived_iff [OF a(2) that] A' fin1 that by (auto split: if_splits)
  have mx: "maxOffsetObserved r' = max (maxOffsetObserved r) (sb_end b)" using k(4) r2(4) f1(2) by simp
  have cur: "{0..<currentReadOffset r} \<subseteq> A'" using a(2,3) by (simp add: receive_inv_def)
  have "receiver_inv data final A' (fin \<or> sb_eof b) r' got"
  proof (cases "isAllDataReceived r1")
    case True
    then obtain f where f: "finalReadOffset r1 = Some f" by (auto simp: isAllDataReceived_def split: option.splits)
    then have f': "fin \<or> sb_eof b" "final = Some f" using fin1 by (auto split: if_splits)
    have "A' = {0..<f}" using iff [OF f] True A' [OF f'(2)] by blast
    moreover from this cur have "currentReadOffset r \<le> f" by auto
    ultimately show ?thesis using f' fin1 k r2 i' ri(2) True mx w(1) fr(4) by (simp add: receiver_inv_def)
  next
    case False
    then show ?thesis using fin1 A' k r2 i' ri(2) iff mx w(1) fr(4) by (simp add: receiver_inv_def)
  qed
  with x rk eq_refl [OF mx] show ?thesis by blast
qed

lemma deliver_ok:
  assumes inv: "receiver_inv data final A fin r got" and b: "conforming data final b" "sb_offset b < span_end b"
    and w: "sb_end b \<le> sfc_advertisedMaxOffset (flowControlState r)"
      "cfc_sumMaxObservedOffset (conn_flowControlState conn) + new_bytes r b \<le> cfc_advertisedMaxOffset (conn_flowControlState conn)"
      "cfc_sumMaxObservedOffset (conn_flowControlState conn) + sfc_advertisedMaxOffset (flowControlState r) \<le> u64_max"
    and rx: "\<not> isSendingStream (conn_nodeType conn) (st_id r)"
  shows "\<exists>conn' r'. receiveReadStreamFrameSMHandler now conn r (frameOf (st_id r) b) = Inr (conn', r') \<and>
    receiver_inv data final (A \<union> {sb_offset b..<sb_end b}) (fin \<or> sb_eof b) r' got \<and> receiver_kept (conn, r) (conn', r') \<and>
    maxOffsetObserved r' \<le> max (maxOffsetObserved r) (sb_end b)"
proof (cases "recvState r")
  case RecvOpen
  from deliver_open [OF inv b w this, of now] show ?thesis .
next
  case RecvClosed
  then obtain f where f: "fin" "final = Some f" "A = {0..<f}" using inv by (auto simp: receiver_inv_def)
  then have "sb_end b \<le> f" using b(1) by (simp add: conforming_def)
  then have A: "A \<union> {sb_offset b..<sb_end b} = A" unfolding f(3) by auto
  have "receiveReadStreamFrameSMHandler now conn r (frameOf (st_id r) b) = Inr (conn, r)"
    using RecvClosed rx by (simp add: receiveReadStreamFrameSMHandler_def)
  then show ?thesis using inv f(1) unfolding A by (auto simp: receiver_kept_def)
qed (use inv in \<open>simp add: receiver_inv_def\<close>)

text \<open>The end becomes known.\<close>

lemma receiver_final:
  assumes "receiver_inv data None A fin r got" "A \<subseteq> {0..<f}" "maxOffsetObserved r \<le> f"
  shows "receiver_inv data (Some f) A fin r got"
  using assms by (auto simp: receiver_inv_def receive_inv_def split: StreamRecvState.splits)

text \<open>Reading.\<close>

lemma maybeSendConnWindowUpdate_node:
  "maybeSendConnWindowUpdate conn now = Inr (sent, conn') \<Longrightarrow> conn_nodeType conn' = conn_nodeType conn"
  by (cases "maybeIncreaseConnectionFlowControlWindow (conn_flowControlState conn) now (conn_srtt conn)")
    (auto simp: maybeSendConnWindowUpdate_def Let_def updEvents_def split: option.splits if_splits)

lemma maybeSendStreamWindowUpdate_node [simp]:
  "conn_nodeType (snd (maybeSendStreamWindowUpdate conn r now)) = conn_nodeType conn"
  by (simp add: maybeSendStreamWindowUpdate_def Let_def updManager_def split: option.splits)

lemma updateFlowControlOnRead_node:
  "updateFlowControlOnRead conn r prev now = Inr conn' \<Longrightarrow> conn_nodeType conn' = conn_nodeType conn"
  by (auto simp: updateFlowControlOnRead_def Let_def dest: maybeSendConnWindowUpdate_node)

lemma read_kept:
  assumes "readDataFromQuicStream now conn r amount = Inr (d, eof, conn', r')"
  shows "receiver_kept (conn, r) (conn', r')" "recvState r' = recvState r" "maxOffsetObserved r' = maxOffsetObserved r"
    "finalReadOffset r' = finalReadOffset r"
proof -
  obtain conn1 r1 where u: "updateReadAndPeek now conn1 r1 = (conn', r')" and r1: "flowControlState r1 = flowControlState r"
    "st_id r1 = st_id r" "conn_nodeType conn1 = conn_nodeType conn" "recvState r1 = recvState r" "maxOffsetObserved r1 = maxOffsetObserved r"
    "finalReadOffset r1 = finalReadOffset r"
    using assms
    by (auto simp: readDataFromQuicStream_def readOrConsume_def readRemaining_def readDataInOrderFromReadBuffer_def Let_def
        dest: updateFlowControlOnRead_node split: if_splits prod.splits)
  note k = updateReadAndPeek_frame [OF u] updateReadAndPeek_kept [OF u]
  show "receiver_kept (conn, r) (conn', r')" "recvState r' = recvState r" "maxOffsetObserved r' = maxOffsetObserved r"
    "finalReadOffset r' = finalReadOffset r"
    using k r1 by (simp_all add: receiver_kept_def)
qed

lemma receiver_open_or_closed:
  assumes "receiver_inv data final A fin r got"
  obtains (reading) "receive_inv data final A r" "got = map data [0..<currentReadOffset r]"
      "\<forall>f. finalReadOffset r = Some f \<longrightarrow> currentReadOffset r \<le> f \<and> final = Some f \<and> (currentReadOffset r = f \<longrightarrow> recvState r = RecvClosed)"
    | (finished) f where "recvState r = RecvClosed" "final = Some f" "finalReadOffset r = Some f" "A = {0..<f}"
      "currentReadOffset r = f + 1" "got = map data [0..<f]"
proof (cases "recvState r")
  case RecvOpen
  then have i: "receive_inv data final A r" "got = map data [0..<currentReadOffset r]"
    "\<forall>f. finalReadOffset r = Some f \<longrightarrow> \<not> {0..<f} \<subseteq> A" "finalReadOffset r = (if fin then final else None)"
    using assms by (simp_all add: receiver_inv_def)
  have "currentReadOffset r < f \<and> final = Some f" if "finalReadOffset r = Some f" for f
  proof -
    have "{0..<currentReadOffset r} \<subseteq> A" using i(1) by (simp add: receive_inv_def)
    with i(3) that have "\<not> {0..<f} \<subseteq> {0..<currentReadOffset r}" by blast
    then show ?thesis using i(4) that by (auto split: if_splits)
  qed
  with i(1,2) show ?thesis by (intro reading) auto
next
  case RecvClosed
  then obtain f where f: "fin" "final = Some f" "finalReadOffset r = Some f" "A = {0..<f}"
    "receive_inv data final A r \<and> got = map data [0..<currentReadOffset r] \<and> currentReadOffset r \<le> f \<or>
     currentReadOffset r = f + 1 \<and> got = map data [0..<f]"
    using assms by (auto simp: receiver_inv_def)
  then show ?thesis using RecvClosed reading finished by auto
qed (use assms in \<open>simp add: receiver_inv_def\<close>)

lemma read_at_end:
  assumes inv: "receiver_inv data final A fin r got" and f: "finalReadOffset r = Some f" "f \<le> currentReadOffset r"
  shows "\<exists>conn' r'. readDataFromQuicStream now conn r amount = Inr ([], True, conn', r') \<and>
    receiver_inv data final A fin r' got \<and> final = Some (length got) \<and> length got \<notin> A"
proof -
  have c: "recvState r = RecvClosed" "final = Some f" "got = map data [0..<f]" "currentReadOffset r \<in> {f, f + 1}" "A = {0..<f}" "fin"
    using inv f by (auto simp: receiver_inv_def split: if_splits StreamRecvState.splits)
      (auto simp: receive_inv_def dest: subsetD)
  define r1 where "r1 = (if currentReadOffset r = f then r\<lparr>currentReadOffset := currentReadOffset r + 1\<rparr> else r)"
  obtain conn' r' where u: "updateReadAndPeek now conn r1 = (conn', r')" by (cases "updateReadAndPeek now conn r1")
  have x: "readDataFromQuicStream now conn r amount = Inr ([], True, conn', r')"
    using u f by (auto simp: readDataFromQuicStream_def readOrConsume_def Let_def r1_def split: if_splits)
  have "currentReadOffset r' = f + 1" using updateReadAndPeek_frame(1) [OF u] c(4) by (auto simp: r1_def)
  with inv c read_kept [OF x] have "receiver_inv data final A fin r' got"
    by (simp add: receiver_inv_def receiver_kept_def)
  with x c show ?thesis by simp
qed

lemma read_ok:
  assumes inv: "receiver_inv data final A fin r got"
    and fits: "cfc_sumCurReadOffset (conn_flowControlState conn) + length (concat (map sb_data (readBuffer r))) \<le> u64_max"
    and time: "\<forall>t. cfc_timeOfLastFlowControlUpdate (conn_flowControlState conn) = Some t \<longrightarrow> t < now"
  shows "\<exists>d eof conn' r'. readDataFromQuicStream now conn r amount = Inr (d, eof, conn', r') \<and>
    receiver_inv data final A fin r' (got @ d) \<and> (eof \<longrightarrow> final = Some (length (got @ d))) \<and>
    (amount = 0 \<longrightarrow> length (got @ d) \<notin> A)"
proof (cases "\<exists>f. finalReadOffset r = Some f \<and> f \<le> currentReadOffset r")
  case True
  then show ?thesis using read_at_end [OF inv, of _ now conn amount] by fastforce
next
  case False
  define off where "off = currentReadOffset r"
  define n where "n = readCount r amount"
  from inv False have ri: "receive_inv data final A r" "got = map data [0..<off]" unfolding off_def
    by (cases rule: receiver_open_or_closed; fastforce)+
  have r: "reassembled data off (readBuffer r)" "covered (readBuffer r) = A - {0..<off}" "{0..<off} \<subseteq> A"
    using ri(1) by (auto simp: receive_inv_def off_def)
  have "{off..<off + n} \<subseteq> A"
    using readable_covered(1) [OF r(1), of amount] r(2) unfolding n_def readCount_def off_def [symmetric] by blast
  moreover have u: "{0..<off + n} = {0..<off} \<union> {off..<off + n}" by auto
  ultimately have A: "{0..<off + n} \<subseteq> A" using r(3) by blast
  have "n \<le> length (concat (map sb_data (readBuffer r)))"
    by (auto simp: n_def readCount_def readable_def split: list.split)
  with fits have "cfc_sumCurReadOffset (conn_flowControlState conn) + n \<le> u64_max" by simp
  from readRemaining_spec [OF ri(1) this [unfolded n_def] time, of False, folded n_def off_def]
  obtain conn' r' where x: "readRemaining False now conn r amount = Inr (map data [off..<off + n], finalReadOffset r = Some (off + n), conn', r')"
    "currentReadOffset r' = off + n + (if finalReadOffset r = Some (off + n) then 1 else 0)"
    "finalReadOffset r \<noteq> Some (off + n) \<longrightarrow> receive_inv data final A r'" by auto
  have go: "(case finalReadOffset r of None \<Rightarrow> False | Some f \<Rightarrow> f \<le> off) = False"
    using False by (auto simp: off_def split: option.split)
  have rd: "readDataFromQuicStream now conn r amount = Inr (map data [off..<off + n], finalReadOffset r = Some (off + n), conn', r')"
    unfolding readDataFromQuicStream_def readOrConsume_def off_def [symmetric] go if_False by (rule x(1))
  have g: "got @ map data [off..<off + n] = map data [0..<off + n]"
    unfolding ri(2) map_append [symmetric] by (metis le0 le_add1 upt_add_eq_append plus_nat.add_0)
  have "receiver_inv data final A fin r' (map data [0..<off + n])"
  proof (cases "recvState r")
    case RecvOpen
    then have "finalReadOffset r \<noteq> Some (off + n)" using inv A by (auto simp: receiver_inv_def)
    with x RecvOpen inv read_kept [OF rd] show ?thesis by (simp add: receiver_inv_def receiver_kept_def)
  next
    case RecvClosed
    then obtain f where f: "final = Some f" "A = {0..<f}" "finalReadOffset r = Some f" using inv by (auto simp: receiver_inv_def)
    have "off + n \<le> f" using A f(2) by auto
    with f x RecvClosed inv read_kept [OF rd] show ?thesis by (auto simp: receiver_inv_def receiver_kept_def)
  qed (use inv in \<open>simp add: receiver_inv_def\<close>)
  moreover have "finalReadOffset r = Some (off + n) \<Longrightarrow> final = Some (off + n)"
    using inv by (auto simp: receiver_inv_def split: if_splits)
  moreover have l: "length got = off" by (simp add: ri(2))
  moreover have "amount = 0 \<Longrightarrow> off + n \<notin> A"
    using readable_covered(2) [OF r(1), of amount] r(2) unfolding n_def readCount_def off_def [symmetric] by auto
  ultimately show ?thesis using rd g by auto
qed

text \<open>A larger window.\<close>

definition grantWindow :: "int \<Rightarrow> QuicConnectionStateBase \<Rightarrow> QuicStreamState \<Rightarrow> QuicConnectionStateBase \<times> QuicStreamState" where
  "grantWindow now conn r = onStreamWindowUpdateSent conn r (msd_maximumData (generateMaxStreamDataFrame r)) now"

lemma grant_ok:
  assumes "receiver_inv data final A fin r got" "grantWindow now conn r = (conn', r')"
  shows "receiver_inv data final A fin r' got" "maxOffsetObserved r' = maxOffsetObserved r" "st_id r' = st_id r" 
    "conn_nodeType conn' = conn_nodeType conn"
    "sfc_advertisedMaxOffset (flowControlState r) \<le> sfc_advertisedMaxOffset (flowControlState r')"
proof -
  define w where "w = calculateMaximumData r"
  have le: "sfc_advertisedMaxOffset (flowControlState r) \<le> w" by (simp add: w_def calculateMaximumData_def)
  have e: "r' = r\<lparr>flowControlState := (flowControlState r)\<lparr>sfc_advertisedMaxOffset := w, sfc_timeOfLastFlowControlUpdate := Some now\<rparr>\<rparr>"
    "conn_nodeType conn' = conn_nodeType conn"
    using assms(2) by (auto simp: grantWindow_def onStreamWindowUpdateSent_def generateMaxStreamDataFrame_def updManager_def w_def)
  show "maxOffsetObserved r' = maxOffsetObserved r" "st_id r' = st_id r" "conn_nodeType conn' = conn_nodeType conn"
    "sfc_advertisedMaxOffset (flowControlState r) \<le> sfc_advertisedMaxOffset (flowControlState r')"
    using le e by simp_all
  have k: "receive_inv data final A r' = receive_inv data final A r" "finalReadOffset r' = finalReadOffset r"
    "maxOffsetObserved r' = maxOffsetObserved r" "recvState r' = recvState r" "currentReadOffset r' = currentReadOffset r"
    "sfc_advertisedMaxOffset (flowControlState r') = w"
    by (rule receive_inv_cong) (simp_all add: e)
  have "maxOffsetObserved r \<le> w" using assms(1) le by (simp add: receiver_inv_def)
  then show "receiver_inv data final A fin r' got" using assms(1) unfolding receiver_inv_def k by blast
qed

end
