(* ===== verification/Network.thy ===== *)
theory Network
  imports Delivery
begin

text \<open>
  A stream from end to end: a sender, a network that loses, repeats and reorders stream frames, and a
  receiver with its application. The steps of both ends are the handlers of the code. The receiver
  delivers exactly what the application of the sender wrote, no event fails at either end, and a
  sender that is done knows that the receiver has everything.
\<close>

section \<open>The system\<close>

text \<open>The sender with its frames in flight, everything that was ever put on the wire, what arrived, the
  receiving connection and stream, and the bytes its application has read. The retransmission buffer
  holds exactly the data of the frames in flight, so what enters it is what enters the wire.\<close>

record network =
  snd_end :: sender
  wire :: "StreamBuffer set"
  delivered :: "StreamBuffer set"
  rcv_conn :: QuicConnectionStateBase
  rcv_stream :: QuicStreamState
  got :: "byte list"

datatype network_event =
    AtSender sender_event
  | Deliver int StreamBuffer
  | AppRead int nat
  | GrantWindow int

fun network_exec :: "network_event \<Rightarrow> network \<Rightarrow> network res" where
  "network_exec (AtSender e) n = rbind (sender_exec e (snd_end n)) (\<lambda>st.
     Inr (n\<lparr>snd_end := st, wire := wire n \<union> ran (retransmissionBuffer (fst (snd st)))\<rparr>))"
| "network_exec (Deliver now b) n =
     rbind (receiveReadStreamFrameSMHandler now (rcv_conn n) (rcv_stream n) (frameOf (st_id (rcv_stream n)) b)) (\<lambda>(conn, r).
       Inr (n\<lparr>rcv_conn := conn, rcv_stream := r, delivered := insert b (delivered n)\<rparr>))"
| "network_exec (AppRead now amount) n =
     rbind (readDataFromQuicStream now (rcv_conn n) (rcv_stream n) amount) (\<lambda>(d, eof, conn, r).
       Inr (n\<lparr>rcv_conn := conn, rcv_stream := r, got := got n @ d\<rparr>))"
| "network_exec (GrantWindow now) n =
     (case grantWindow now (rcv_conn n) (rcv_stream n) of (conn, r) \<Rightarrow> Inr (n\<lparr>rcv_conn := conn, rcv_stream := r\<rparr>))"

text \<open>An acknowledgement reaches the sender only for a frame that arrived, and a window only if it was
  granted. What the other streams of the receiving connection consume of its window and counters is
  part of the guard of an arrival and of a read.\<close>

definition caused :: "network \<Rightarrow> sender_event \<Rightarrow> bool" where
  "caused n e \<longleftrightarrow> (case e of
      FrameAcked f \<Rightarrow> (\<forall>b. retransmissionBuffer (fst (snd (snd_end n))) (ws_offset f) = Some b \<longrightarrow> b \<in> delivered n)
    | WindowUpdate w \<Rightarrow> w \<le> sfc_advertisedMaxOffset (flowControlState (rcv_stream n))
    | _ \<Rightarrow> True)"

fun network_enabled :: "(nat \<Rightarrow> byte) \<Rightarrow> network_event \<Rightarrow> network \<Rightarrow> bool" where
  "network_enabled data (AtSender e) n \<longleftrightarrow> sender_enabled data e (snd_end n) \<and> caused n e"
| "network_enabled data (Deliver now b) n \<longleftrightarrow> b \<in> wire n \<and>
     (let fc = conn_flowControlState (rcv_conn n)
      in cfc_sumMaxObservedOffset fc + new_bytes (rcv_stream n) b \<le> cfc_advertisedMaxOffset fc \<and>
         cfc_sumMaxObservedOffset fc + sfc_advertisedMaxOffset (flowControlState (rcv_stream n)) \<le> u64_max)"
| "network_enabled data (AppRead now amount) n \<longleftrightarrow>
     (let fc = conn_flowControlState (rcv_conn n)
      in cfc_sumCurReadOffset fc + length (concat (map sb_data (readBuffer (rcv_stream n)))) \<le> u64_max \<and>
         (\<forall>t. cfc_timeOfLastFlowControlUpdate fc = Some t \<longrightarrow> t < now))"
| "network_enabled data (GrantWindow now) n \<longleftrightarrow> True"

inductive network_reachable :: "(nat \<Rightarrow> byte) \<Rightarrow> network \<Rightarrow> bool" for data where
  start: "s = mkQuicStreamState i conn \<Longrightarrow> sendState s = SendOpen \<Longrightarrow> r = mkQuicStreamState i rconn \<Longrightarrow> recvState r = RecvOpen \<Longrightarrow>
    \<not> isSendingStream (conn_nodeType rconn) i \<Longrightarrow>
    sfc_peerAdvertisedMaxOffset (flowControlState s) \<le> sfc_advertisedMaxOffset (flowControlState r) \<Longrightarrow>
    network_reachable data \<lparr>snd_end = (conn, s, {}), wire = {}, delivered = {}, rcv_conn = rconn, rcv_stream = r, got = []\<rparr>"
| step: "network_reachable data n \<Longrightarrow> network_enabled data e n \<Longrightarrow> network_exec e n = Inr n' \<Longrightarrow> network_reachable data n'"

section \<open>The invariant\<close>

definition positions :: "StreamBuffer set \<Rightarrow> nat set" where
  "positions B = (\<Union>b \<in> B. {sb_offset b..<sb_end b})"

definition on_wire :: "(nat \<Rightarrow> byte) \<Rightarrow> QuicStreamState \<Rightarrow> StreamBuffer \<Rightarrow> bool" where
  "on_wire data s b \<longleftrightarrow> good data (finalWriteOffset s) b \<and> sb_end b \<le> currentWriteOffset s \<and>
     sb_end b \<le> sfc_peerAdvertisedMaxOffset (flowControlState s)"

definition network_inv :: "(nat \<Rightarrow> byte) \<Rightarrow> network \<Rightarrow> bool" where
  "network_inv data n \<longleftrightarrow> (case snd_end n of (conn, s, out) \<Rightarrow>
     sender_inv data (conn, s, out) \<and> (\<forall>b \<in> wire n. on_wire data s b) \<and> ran (retransmissionBuffer s) \<subseteq> wire n \<and>
     delivered n \<subseteq> wire n \<and> points (ackedIntervals s) \<subseteq> (\<Union>b \<in> delivered n. span b) \<and>
     receiver_inv data (finalWriteOffset s) (positions (delivered n)) (\<exists>b \<in> delivered n. sb_eof b) (rcv_stream n) (got n) \<and>
     sfc_peerAdvertisedMaxOffset (flowControlState s) \<le> sfc_advertisedMaxOffset (flowControlState (rcv_stream n)) \<and>
     maxOffsetObserved (rcv_stream n) \<le> currentWriteOffset s \<and>
     \<not> isSendingStream (conn_nodeType (rcv_conn n)) (st_id (rcv_stream n)))"

lemma retransmission_on_wire:
  assumes "sender_inv data (conn, s, out)" "b \<in> ran (retransmissionBuffer s)"
  shows "on_wire data s b"
proof -
  have o: "open_inv data (conn, s, out)" using assms by (auto simp: sender_inv_def done_inv_def split: if_splits)
  have so: "sent_ok data (finalWriteOffset s) (retransmissionBuffer s) (lossBuffer s) (ackedIntervals s) (currentWriteOffset s)"
    using o by (simp add: open_inv_def)
  note e = sent_ok_ends [OF so UnI1 [OF assms(2)]]
  have "currentWriteOffset s \<le> sfc_peerAdvertisedMaxOffset (flowControlState s) \<or>
      (\<exists>f \<le> sfc_peerAdvertisedMaxOffset (flowControlState s). finalWriteOffset s = Some f)"
    using o by (auto simp: open_inv_def write_ok_def Let_def)
  then have "sb_end b \<le> sfc_peerAdvertisedMaxOffset (flowControlState s)"
    using e by (auto simp: good_def conforming_def intro: order_trans)
  with e show ?thesis by (simp add: on_wire_def)
qed

text \<open>The sender moves on: its counters grow, and the size of the stream may become known.\<close>

definition advances :: "QuicStreamState \<Rightarrow> QuicStreamState \<Rightarrow> bool" where
  "advances s s' \<longleftrightarrow> currentWriteOffset s \<le> currentWriteOffset s' \<and>
     sfc_peerAdvertisedMaxOffset (flowControlState s) \<le> sfc_peerAdvertisedMaxOffset (flowControlState s') \<and>
     (finalWriteOffset s' = finalWriteOffset s \<or>
      finalWriteOffset s = None \<and> (\<exists>f \<ge> currentWriteOffset s. finalWriteOffset s' = Some f))"

lemma sender_advances:
  assumes "sender_enabled data e (conn, s, out)" "sender_exec e (conn, s, out) = Inr (conn', s', out')"
  shows "advances s s'"
proof -
  note k = sender_exec_frame [OF assms(2)]
  have "finalWriteOffset s = None" if "e = AppWrite d True" for d using assms(1) that by (simp add: writable_def)
  moreover have "sfc_peerAdvertisedMaxOffset (flowControlState s) \<le> sfc_peerAdvertisedMaxOffset (flowControlState s')"
    unfolding k(3) by (cases e) simp_all
  ultimately show ?thesis using k(1,2) by (auto simp: advances_def)
qed

lemma on_wire_advances:
  assumes "on_wire data s b" "advances s s'"
  shows "on_wire data s' b"
proof -
  have "good data (finalWriteOffset s') b"
    using assms by (auto simp: on_wire_def advances_def good_def conforming_def)
  moreover have "sb_end b \<le> currentWriteOffset s'" "sb_end b \<le> sfc_peerAdvertisedMaxOffset (flowControlState s')"
    using assms by (auto simp: on_wire_def advances_def intro: order_trans)
  ultimately show ?thesis by (simp add: on_wire_def)
qed

lemma receiver_advances:
  assumes "receiver_inv data (finalWriteOffset s) (positions B) fin r g" "\<forall>b \<in> B. on_wire data s b" "advances s s'"
    and "maxOffsetObserved r \<le> currentWriteOffset s"
  shows "receiver_inv data (finalWriteOffset s') (positions B) fin r g"
proof (cases "finalWriteOffset s' = finalWriteOffset s")
  case False
  then obtain f where f: "finalWriteOffset s = None" "finalWriteOffset s' = Some f" "currentWriteOffset s \<le> f"
    using assms(3) by (auto simp: advances_def)
  have "positions B \<subseteq> {0..<f}" using assms(2) f(3) by (fastforce simp: positions_def on_wire_def)
  then show ?thesis using receiver_final [of data "positions B" fin r g f] assms(1,4) f by simp
qed (use assms(1) in simp)

lemma acked_delivered:
  assumes "sender_inv data (conn, s, out)" "sender_enabled data e (conn, s, out)" "sender_exec e (conn, s, out) = Inr (conn', s', out')"
    and "points (ackedIntervals s) \<subseteq> (\<Union>b \<in> delivered n. span b)" "caused n e" "fst (snd (snd_end n)) = s"
  shows "points (ackedIntervals s') \<subseteq> (\<Union>b \<in> delivered n. span b)"
proof (cases "\<exists>f. e = FrameAcked f")
  case True
  then obtain f where f: "e = FrameAcked f" by blast
  then have "f \<in> out" using assms(2) by simp
  from frame_acked [OF assms(1) this] assms(3) have "\<forall>p \<in> points (ackedIntervals s'). p \<in> points (ackedIntervals s) \<or>
      (\<exists>b. retransmissionBuffer s (ws_offset f) = Some b \<and> p \<in> span b)"
    unfolding f by auto
  moreover have "b \<in> delivered n" if "retransmissionBuffer s (ws_offset f) = Some b" for b
    using assms(5,6) that by (simp add: f caused_def)
  ultimately show ?thesis using assms(4) by blast
next
  case False
  then show ?thesis using sender_exec_frame(4) [OF assms(3)] assms(4) by auto
qed

lemma at_sender:
  assumes inv: "network_inv data n" and en: "network_enabled data (AtSender e) n"
  shows "\<exists>n'. network_exec (AtSender e) n = Inr n' \<and> network_inv data n'"
proof -
  obtain conn s out where n: "snd_end n = (conn, s, out)" by (cases "snd_end n")
  note i = inv [unfolded network_inv_def n prod.case]
  have e: "sender_enabled data e (conn, s, out)" "caused n e" using en by (simp_all add: n)
  obtain conn' s' out' where x: "sender_exec e (conn, s, out) = Inr (conn', s', out')" "sender_inv data (conn', s', out')"
    using sender_step [OF _ e(1)] i by (metis prod_cases3)
  note adv = sender_advances [OF e(1) x(1)]
  let ?n = "n\<lparr>snd_end := (conn', s', out'), wire := wire n \<union> ran (retransmissionBuffer s')\<rparr>"
  have w: "\<forall>b \<in> wire n. on_wire data s' b" using i on_wire_advances [OF _ adv] by blast
  have "receiver_inv data (finalWriteOffset s') (positions (delivered n)) (\<exists>b \<in> delivered n. sb_eof b) (rcv_stream n) (got n)"
    by (rule receiver_advances [OF _ _ adv]) (use i in auto)
  moreover have "points (ackedIntervals s') \<subseteq> (\<Union>b \<in> delivered n. span b)"
    by (rule acked_delivered [OF _ e(1) x(1) _ e(2)]) (use i n in auto)
  moreover have "sfc_peerAdvertisedMaxOffset (flowControlState s') \<le> sfc_advertisedMaxOffset (flowControlState (rcv_stream n))"
    using i e(2) unfolding sender_exec_frame(3) [OF x(1)] by (cases e) (simp_all add: caused_def)
  ultimately have "network_inv data ?n"
    using i x(2) w retransmission_on_wire [OF x(2)] adv
    by (auto simp: network_inv_def advances_def)
  moreover have "network_exec (AtSender e) n = Inr ?n" using x(1) by (simp add: n)
  ultimately show ?thesis by blast
qed

lemma positions_insert: "positions (insert b B) = positions B \<union> {sb_offset b..<sb_end b}"
  by (auto simp: positions_def)

lemma deliver:
  assumes inv: "network_inv data n" and en: "network_enabled data (Deliver now b) n"
  shows "\<exists>n'. network_exec (Deliver now b) n = Inr n' \<and> network_inv data n'"
proof -
  obtain conn s out where n: "snd_end n = (conn, s, out)" by (cases "snd_end n")
  note i = inv [unfolded network_inv_def n prod.case]
  have b: "on_wire data s b" "b \<in> wire n" using i en by auto
  then have c: "conforming data (finalWriteOffset s) b" "sb_offset b < span_end b" "sb_end b \<le> currentWriteOffset s"
    "sb_end b \<le> sfc_advertisedMaxOffset (flowControlState (rcv_stream n))"
    using i by (auto simp: on_wire_def good_def)
  have ri: "receiver_inv data (finalWriteOffset s) (positions (delivered n)) (\<exists>b \<in> delivered n. sb_eof b) (rcv_stream n) (got n)"
    and rx: "\<not> isSendingStream (conn_nodeType (rcv_conn n)) (st_id (rcv_stream n))" using i by simp_all
  have w: "cfc_sumMaxObservedOffset (conn_flowControlState (rcv_conn n)) + new_bytes (rcv_stream n) b \<le> cfc_advertisedMaxOffset (conn_flowControlState (rcv_conn n))"
    "cfc_sumMaxObservedOffset (conn_flowControlState (rcv_conn n)) + sfc_advertisedMaxOffset (flowControlState (rcv_stream n)) \<le> u64_max"
    using en by (simp_all add: Let_def)
  obtain conn' r' where x: "receiveReadStreamFrameSMHandler now (rcv_conn n) (rcv_stream n) (frameOf (st_id (rcv_stream n)) b) = Inr (conn', r')"
    "receiver_inv data (finalWriteOffset s) (positions (delivered n) \<union> {sb_offset b..<sb_end b}) ((\<exists>b \<in> delivered n. sb_eof b) \<or> sb_eof b) r' (got n)"
    "receiver_kept (rcv_conn n, rcv_stream n) (conn', r')" "maxOffsetObserved r' \<le> max (maxOffsetObserved (rcv_stream n)) (sb_end b)"
    using deliver_ok [OF ri c(1,2,4) w rx, of now] by (elim exE conjE) (rule that; assumption)
  let ?n = "n\<lparr>rcv_conn := conn', rcv_stream := r', delivered := insert b (delivered n)\<rparr>"
  have "(\<exists>b \<in> insert b (delivered n). sb_eof b) = ((\<exists>b \<in> delivered n. sb_eof b) \<or> sb_eof b)" by auto
  with x(2) have "receiver_inv data (finalWriteOffset s) (positions (insert b (delivered n))) (\<exists>b \<in> insert b (delivered n). sb_eof b) r' (got n)"
    by (simp only: positions_insert)
  moreover have "maxOffsetObserved r' \<le> currentWriteOffset s" using x(4) c(3) i by linarith
  ultimately have "network_inv data ?n" using i b(2) x(3) by (auto simp: network_inv_def n receiver_kept_def)
  moreover have "network_exec (Deliver now b) n = Inr ?n" using x(1) by simp
  ultimately show ?thesis by blast
qed

lemma app_read:
  assumes inv: "network_inv data n" and en: "network_enabled data (AppRead now amount) n"
  shows "\<exists>n'. network_exec (AppRead now amount) n = Inr n' \<and> network_inv data n' \<and>
    (amount = 0 \<longrightarrow> length (got n') \<notin> positions (delivered n))"
proof -
  obtain conn s out where n: "snd_end n = (conn, s, out)" by (cases "snd_end n")
  note i = inv [unfolded network_inv_def n prod.case]
  have ri: "receiver_inv data (finalWriteOffset s) (positions (delivered n)) (\<exists>b \<in> delivered n. sb_eof b) (rcv_stream n) (got n)"
    using i by simp
  have w: "cfc_sumCurReadOffset (conn_flowControlState (rcv_conn n)) + length (concat (map sb_data (readBuffer (rcv_stream n)))) \<le> u64_max"
    "\<forall>t. cfc_timeOfLastFlowControlUpdate (conn_flowControlState (rcv_conn n)) = Some t \<longrightarrow> t < now"
    using en unfolding network_enabled.simps Let_def by blast+
  obtain d eof conn' r' where x: "readDataFromQuicStream now (rcv_conn n) (rcv_stream n) amount = Inr (d, eof, conn', r')"
    "receiver_inv data (finalWriteOffset s) (positions (delivered n)) (\<exists>b \<in> delivered n. sb_eof b) r' (got n @ d)"
    "amount = 0 \<longrightarrow> length (got n @ d) \<notin> positions (delivered n)"
    using read_ok [OF ri w, of amount] by (elim exE conjE) (rule that; assumption)
  let ?n = "n\<lparr>rcv_conn := conn', rcv_stream := r', got := got n @ d\<rparr>"
  have "network_inv data ?n" using i x(2) read_kept [OF x(1)] by (simp add: network_inv_def n receiver_kept_def)
  moreover have "network_exec (AppRead now amount) n = Inr ?n" using x(1) by simp
  ultimately show ?thesis using x(3) by (intro exI [of _ ?n]) simp
qed

lemma grant:
  assumes inv: "network_inv data n"
  shows "\<exists>n'. network_exec (GrantWindow now) n = Inr n' \<and> network_inv data n'"
proof -
  obtain conn s out where n: "snd_end n = (conn, s, out)" by (cases "snd_end n")
  note i = inv [unfolded network_inv_def n prod.case]
  obtain conn' r' where g: "grantWindow now (rcv_conn n) (rcv_stream n) = (conn', r')" by (cases "grantWindow now (rcv_conn n) (rcv_stream n)")
  have "receiver_inv data (finalWriteOffset s) (positions (delivered n)) (\<exists>b \<in> delivered n. sb_eof b) (rcv_stream n) (got n)"
    using i by simp
  note k = grant_ok [OF this g]
  let ?n = "n\<lparr>rcv_conn := conn', rcv_stream := r'\<rparr>"
  have "network_inv data ?n" using i k by (auto simp: network_inv_def n intro: order_trans)
  moreover have "network_exec (GrantWindow now) n = Inr ?n" using g by simp
  ultimately show ?thesis by blast
qed

interpretation net: safe_system "network_enabled data" network_exec "network_inv data" for data
proof (unfold_locales)
  fix n e
  assume "network_inv data n" "network_enabled data e n"
  then show "\<exists>n'. network_exec e n = Inr n' \<and> network_inv data n'"
    using at_sender [of data n] deliver [of data n] app_read [of data n] grant [of data n] by (cases e) blast+
qed

lemma network_reachable_inv: "network_reachable data n \<Longrightarrow> network_inv data n"
proof (induction rule: network_reachable.induct)
  case (start s i conn r rconn)
  have "receiver_inv data None {} False r []" using start.hyps(3,4)
    by (simp add: receiver_inv_def receive_inv_def mkQuicStreamState_def defaultStream_def Let_def)
  moreover have "finalWriteOffset s = None" "retransmissionBuffer s = Map.empty" "points (ackedIntervals s) = {}" "st_id r = i"
    "maxOffsetObserved r = 0"
    using start.hyps(1,3) by (simp_all add: mkQuicStreamState_def defaultStream_def Let_def emptyIntervalSet_def points_def)
  ultimately show ?case
    using sender_start_inv [OF start.hyps(2,1), of data] start.hyps(5,6) by (simp add: network_inv_def positions_def)
next
  case (step n e n')
  then show ?case by (blast intro: net.step_good)
qed

text \<open>A sender that is done without a reset.\<close>

lemma done_delivered:
  assumes inv: "network_inv data n" and n: "snd_end n = (conn, s, out)" and d: "sendState s \<noteq> SendOpen" "streamWriteError s = None"
  shows "\<exists>f. finalWriteOffset s = Some f \<and> positions (delivered n) = {0..<f} \<and> recvState (rcv_stream n) = RecvClosed"
proof -
  note i = inv [unfolded network_inv_def n prod.case]
  have si: "no_bufmeta s" "done_inv s" using i d(1) by (auto simp: sender_inv_def)
  then obtain f where f: "finalWriteOffset s = Some f" "f < currentWriteOffset s" "points (ackedIntervals s) = {0..<currentWriteOffset s}"
    using d(2) hasSentFIN_iff [OF si(1)] by (auto simp: done_inv_def)
  have arrived: "\<exists>b \<in> delivered n. p \<in> span b \<and> (sb_eof b \<longrightarrow> sb_end b = f) \<and> sb_end b \<le> f" if "p \<le> f" for p
  proof -
    have "p \<in> points (ackedIntervals s)" using that f(2,3) by simp
    then obtain b where b: "b \<in> delivered n" "p \<in> span b" using i by blast
    then have "on_wire data s b" using i by blast
    then show ?thesis using b f(1) by (intro bexI [of _ b]) (auto simp: on_wire_def good_def conforming_def)
  qed
  have "p \<in> positions (delivered n)" if pf: "p < f" for p
  proof -
    obtain b where b: "b \<in> delivered n" "p \<in> span b" "sb_eof b \<longrightarrow> sb_end b = f" using arrived [OF less_imp_le [OF pf]] by blast
    then have "p \<in> {sb_offset b..<sb_end b}" using pf by (auto simp: span_def span_end_def split: if_splits)
    with b(1) show ?thesis by (auto simp: positions_def)
  qed
  then have all: "{0..<f} \<subseteq> positions (delivered n)" by auto
  obtain b where "b \<in> delivered n" "f \<in> span b" "sb_end b \<le> f" using arrived [OF order_refl] by blast
  then have fin: "\<exists>b \<in> delivered n. sb_eof b" by (auto simp: span_def span_end_def split: if_splits)
  have "receiver_inv data (Some f) (positions (delivered n)) True (rcv_stream n) (got n)" using i fin f(1) by simp
  then have "positions (delivered n) = {0..<f} \<and> recvState (rcv_stream n) = RecvClosed"
    using all by (cases "recvState (rcv_stream n)") (auto simp: receiver_inv_def)
  with f(1) show ?thesis by blast
qed

lemma got_prefix:
  assumes inv: "network_inv data n" and n: "snd_end n = (conn, s, out)"
  shows "got n = map data [0..<length (got n)]" "finalWriteOffset s = Some f \<Longrightarrow> length (got n) \<le> f"
    "{0..<length (got n)} \<subseteq> positions (delivered n)"
proof -
  have r: "receiver_inv data (finalWriteOffset s) (positions (delivered n)) (\<exists>b \<in> delivered n. sb_eof b) (rcv_stream n) (got n)"
    using inv by (simp add: network_inv_def n)
  then obtain k where k: "got n = map data [0..<k]" "{0..<k} \<subseteq> positions (delivered n)"
    by (cases rule: receiver_open_or_closed) (auto simp: receive_inv_def)
  then show "got n = map data [0..<length (got n)]" "{0..<length (got n)} \<subseteq> positions (delivered n)" by simp_all
  show "length (got n) \<le> f" if "finalWriteOffset s = Some f"
  proof -
    have "positions (delivered n) \<subseteq> {0..<f}" using r that by (simp add: receiver_inv_def)
    then have "{0..<k} \<subseteq> {0..<f}" using k(2) by blast
    then show ?thesis using k(1) by (cases "k = 0") auto
  qed
qed

section \<open>Properties\<close>

text \<open>C1: a stream delivers from end to end. A sender and a receiver run the handlers of the code, and the
  network loses, repeats and reorders the frames between them. In every state that is reached, every
  event that can happen is handled at both ends without a failed check or an exception; what the
  receiving application has read is a prefix of what the sending application wrote, all of it from
  frames that arrived, and never beyond the end. When the sender closes without a reset, all data and
  the end have arrived, the receiver has closed, and one unbounded read leaves the application with the
  whole stream.\<close>

theorem end_to_end_delivery:
  assumes "network_reachable data n" "snd_end n = (conn, s, out)"
  shows "(\<forall>e. network_enabled data e n \<longrightarrow> (\<exists>n'. network_exec e n = Inr n')) \<and>
    got n = map data [0..<length (got n)] \<and> {0..<length (got n)} \<subseteq> positions (delivered n) \<and>
    (\<forall>f. finalWriteOffset s = Some f \<longrightarrow> length (got n) \<le> f) \<and>
    (sendState s \<noteq> SendOpen \<and> streamWriteError s = None \<longrightarrow>
      (\<exists>f. finalWriteOffset s = Some f \<and> positions (delivered n) = {0..<f} \<and> recvState (rcv_stream n) = RecvClosed \<and>
        (\<forall>now. network_enabled data (AppRead now 0) n \<longrightarrow> (\<exists>n'. network_exec (AppRead now 0) n = Inr n' \<and> got n' = map data [0..<f]))))"
proof (intro conjI allI impI)
  note inv = network_reachable_inv [OF assms(1)]
  note p = got_prefix [OF inv assms(2)]
  show "\<exists>n'. network_exec e n = Inr n'" if "network_enabled data e n" for e by (rule net.step_handled [OF inv that])
  show "got n = map data [0..<length (got n)]" "{0..<length (got n)} \<subseteq> positions (delivered n)"
    "\<And>f. finalWriteOffset s = Some f \<Longrightarrow> length (got n) \<le> f" by (fact p)+
  assume "sendState s \<noteq> SendOpen \<and> streamWriteError s = None"
  then obtain f where f: "finalWriteOffset s = Some f" "positions (delivered n) = {0..<f}" "recvState (rcv_stream n) = RecvClosed"
    using done_delivered [OF inv assms(2)] by blast
  have "\<exists>n'. network_exec (AppRead now 0) n = Inr n' \<and> got n' = map data [0..<f]" if en: "network_enabled data (AppRead now 0) n" for now
  proof -
    obtain n' where n': "network_exec (AppRead now 0) n = Inr n'" "network_inv data n'" "length (got n') \<notin> {0..<f}"
      using app_read [OF inv en] f(2) by auto
    have "snd_end n' = (conn, s, out)" using n'(1) assms(2) by auto
    note p' = got_prefix [OF n'(2) this]
    have "length (got n') = f" using p'(2) [OF f(1)] n'(3) by simp
    with n'(1) p'(1) show ?thesis by metis
  qed
  with f show "\<exists>f. finalWriteOffset s = Some f \<and> positions (delivered n) = {0..<f} \<and> recvState (rcv_stream n) = RecvClosed \<and>
    (\<forall>now. network_enabled data (AppRead now 0) n \<longrightarrow> (\<exists>n'. network_exec (AppRead now 0) n = Inr n' \<and> got n' = map data [0..<f]))"
    by blast
qed

section \<open>Example\<close>

text \<open>The bytes 1, 2, 3 and the end of the stream are written, sent in one frame, delivered and
  acknowledged.\<close>

definition example_frame :: WriteStreamFrame where
  "example_frame = \<lparr>ws_streamId = 0, ws_streamGroupId = None, ws_offset = 0, ws_len = 3, ws_fin = True, ws_fromBufMeta = False, ws_streamPacketIdx = 0\<rparr>"

definition example_buffer :: StreamBuffer where
  "example_buffer = \<lparr>sb_data = [1, 2, 3], sb_offset = 0, sb_eof = True\<rparr>"

definition example_network :: network where
  "example_network = \<lparr>snd_end = (example_connection, example_app_stream, {}), wire = {}, delivered = {},
     rcv_conn = example_connection\<lparr>conn_nodeType := Client\<rparr>,
     rcv_stream = mkQuicStreamState 0 (example_connection\<lparr>conn_nodeType := Client\<rparr>), got = []\<rparr>"

lemma example_fields [simp]:
  "writeBuffer example_app_stream = []" "currentWriteOffset example_app_stream = 0" "sendState example_app_stream = SendOpen"
  "lossBuffer example_app_stream = []" "retransmissionBuffer example_app_stream = Map.empty" "finalWriteOffset example_app_stream = None"
  "ackedIntervals example_app_stream = emptyIntervalSet" "streamWriteError example_app_stream = None" "lossBufMetas example_app_stream = []"
  "retransmissionBufMetas example_app_stream = Map.empty" "writeBufMeta example_app_stream = emptyWriteBufferMeta"
  "numPacketsTxWithNewData example_app_stream = 0" "sfc_peerAdvertisedMaxOffset (flowControlState example_app_stream) = 100"
  "cfc_sumCurStreamBufferLen example_flow = 0" "cfc_sumCurWriteOffset example_flow = 0" "streamReadError example_app_stream = None"
  "st_id example_app_stream = 0"
  by (simp_all add: example_app_stream_def mkQuicStreamState_def defaultStream_def Let_def isUnidirectionalStream_def
      example_connection_def example_settings_def example_flow_def)

lemma example_receiver [simp]:
  fixes r :: QuicStreamState
  defines "r \<equiv> mkQuicStreamState 0 (example_connection\<lparr>conn_nodeType := Client\<rparr>)"
  shows "recvState r = RecvOpen" "sfc_advertisedMaxOffset (flowControlState r) = 100" "maxOffsetObserved r = 0"
  by (simp_all add: r_def mkQuicStreamState_def defaultStream_def Let_def isUnidirectionalStream_def example_connection_def example_settings_def)

lemma example_start: "network_reachable data example_network"
  unfolding example_network_def
proof (rule network_reachable.start)
  show "example_app_stream = mkQuicStreamState 0 example_connection" by (simp add: example_app_stream_def)
  show "mkQuicStreamState 0 (example_connection\<lparr>conn_nodeType := Client\<rparr>) =
    mkQuicStreamState 0 (example_connection\<lparr>conn_nodeType := Client\<rparr>)" ..
qed (simp_all add: isSendingStream_def isUnidirectionalStream_def)

lemma example_written:
  assumes "writeDataToQuicStream example_connection example_app_stream [1, 2, 3] True = Inr (conn, s)"
  shows "s = example_app_stream\<lparr>writeBuffer := [1, 2, 3], finalWriteOffset := Some 3\<rparr>"
    "cfc_sumCurWriteOffset (conn_flowControlState conn) = 0"
  using assms
  by (auto simp: writeDataToQuicStream_def updateWritable_def updateFlowControlOnWriteToStream_def incrementWithOverFlowCheck_def updFlow_def
      Let_def numeral_3_eq_3 split: if_splits)


lemma example_sent:
  assumes "streamFrameSent conn s example_frame = Inr (conn', s')"
    and "s = example_app_stream\<lparr>writeBuffer := [1, 2, 3], finalWriteOffset := Some 3\<rparr>"
  shows "s' = s\<lparr>currentWriteOffset := 4, writeBuffer := [], retransmissionBuffer := [0 \<mapsto> example_buffer],
    numPacketsTxWithNewData := 1\<rparr>"
  using assms
  by (auto simp: streamFrameSent_def handleStreamWritten_def handleNewStreamDataWritten_def updateWritable_def example_frame_def emplaceNew_def
      example_buffer_def Let_def eval_nat_numeral split: if_splits)

lemma example_acked:
  assumes a: "sendAckSMHandler conn s example_frame = Inr (conn', s')"
    and s: "s = example_app_stream\<lparr>currentWriteOffset := 4, writeBuffer := [], finalWriteOffset := Some 3,
      retransmissionBuffer := [0 \<mapsto> example_buffer], numPacketsTxWithNewData := 1\<rparr>"
  shows "sendState s' = SendClosed" "streamWriteError s' = None"
proof -
  define e where "e = sub64 (add64 0 (Suc (Suc (Suc 0)))) 0"
  define t where "t = s\<lparr>ackedIntervals := iset_insert \<lparr>iv_start = 0, iv_end = e\<rparr> emptyIntervalSet, retransmissionBuffer := Map.empty\<rparr>"
  have "e = 3" by (simp add: e_def sub64_def add64_def)
  then have "iset_insert_range 0 e emptyIntervalSet = Inr (iset_insert \<lparr>iv_start = 0, iv_end = e\<rparr> emptyIntervalSet)"
    by (simp add: iset_insert_range_def mkInterval_def u64_max_def)
  then have t: "ackRetransmissionBuffer s example_frame = Inr t"
    by (simp add: ackRetransmissionBuffer_def updateAckedIntervals_def example_frame_def example_buffer_def s t_def e_def [symmetric])
  have "allBytesTillFinAcked t = Inr True"
    by (simp add: allBytesTillFinAcked_def hasSentFIN_def hasWritableBufMeta_def t_def s emptyWriteBufferMeta_def)
  moreover have "sendState s = SendOpen" "\<not> ws_fromBufMeta example_frame" by (simp_all add: s example_frame_def)
  ultimately have "s' = t\<lparr>sendState := SendClosed\<rparr>" using a t by (simp add: sendAckSMHandler_def Let_def)
  then show "sendState s' = SendClosed" "streamWriteError s' = None" by (simp_all add: t_def s)
qed

theorem end_to_end_delivery_witness:
  "\<exists>n conn s out. network_reachable example_bytes n \<and> snd_end n = (conn, s, out) \<and> sendState s = SendClosed \<and>
     finalWriteOffset s = Some 3 \<and> recvState (rcv_stream n) = RecvClosed \<and> positions (delivered n) = {0..<3}"
proof -
  let ?enabled = "network_enabled example_bytes" and ?reach = "network_reachable example_bytes"
  have further: "\<exists>n'. network_exec e n = Inr n' \<and> ?reach n'" if re: "?reach n" "?enabled e n" for n e
  proof -
    obtain conn s out where n: "snd_end n = (conn, s, out)" by (cases "snd_end n")
    obtain n' where "network_exec e n = Inr n'" using end_to_end_delivery [OF re(1) n] re(2) by blast
    with re show ?thesis by (blast intro: network_reachable.step)
  qed
  have "?enabled (AtSender (AppWrite [1, 2, 3] True)) example_network"
    by (simp add: example_network_def caused_def writable_def example_bytes_def upt_rec u64_max_def)
  from further [OF example_start this] obtain n1 where n1: "?reach n1" "network_exec (AtSender (AppWrite [1, 2, 3] True)) example_network = Inr n1"
    by blast
  then obtain c1 s1 where w: "writeDataToQuicStream example_connection example_app_stream [1, 2, 3] True = Inr (c1, s1)"
    "n1 = example_network\<lparr>snd_end := (c1, s1, {}), wire := ran (retransmissionBuffer s1)\<rparr>"
    by (auto simp: example_network_def)
  note s1 = example_written [OF w(1)]
  have "?enabled (AtSender (FrameSent example_frame)) n1"
    by (simp add: w(2) s1 caused_def new_frame_def example_frame_def u64_max_def)
  from further [OF n1(1) this] obtain n2 where n2: "?reach n2" "network_exec (AtSender (FrameSent example_frame)) n1 = Inr n2" by blast
  then obtain c2 s2 where x: "streamFrameSent c1 s1 example_frame = Inr (c2, s2)"
    "n2 = example_network\<lparr>snd_end := (c2, s2, {example_frame}), wire := ran (retransmissionBuffer s1) \<union> ran (retransmissionBuffer s2)\<rparr>"
    by (auto simp: w(2))
  note s2 = example_sent [OF x(1) s1(1)]
  have "?enabled (Deliver 0 example_buffer) n2"
    by (simp add: x(2) s2 s1 example_network_def new_bytes_def sb_end_def example_buffer_def u64_max_def)
  from further [OF n2(1) this] obtain n3 where n3: "?reach n3" "network_exec (Deliver 0 example_buffer) n2 = Inr n3" by blast
  then have k: "snd_end n3 = (c2, s2, {example_frame})" "delivered n3 = {example_buffer}" by (auto simp: x(2) example_network_def)
  have "?enabled (AtSender (FrameAcked example_frame)) n3" by (simp add: k caused_def s2 example_frame_def)
  from further [OF n3(1) this] obtain n4 where n4: "?reach n4" "network_exec (AtSender (FrameAcked example_frame)) n3 = Inr n4" by blast
  then obtain c4 s4 out where a: "sendAckSMHandler c2 s2 example_frame = Inr (c4, s4)" "snd_end n4 = (c4, s4, out)" by (auto simp: k)
  have "finalWriteOffset s4 = Some 3" using sendAckSMHandler_frame(2) [OF a(1)] by (simp add: s2 s1)
  moreover have "sendState s4 = SendClosed" "streamWriteError s4 = None" by (rule example_acked [OF a(1)]; simp add: s2 s1)+
  ultimately show ?thesis using end_to_end_delivery [OF n4(1) a(2)] n4(1) a(2) by auto
qed

end
