(* ===== verification/Outstanding.thy ===== *)
theory Outstanding
  imports Stream_Send Packet_Header
begin

text \<open>
  The packets that were sent and not acknowledged: the structures of \<^verbatim>\<open>quic/state/OutstandingPacket.h\<close>,
  \<^verbatim>\<open>LossState.h\<close>, \<^verbatim>\<open>OutstandingsInfo\<close> of \<^verbatim>\<open>StateData.h\<close> and \<^verbatim>\<open>AckStates.h\<close>, the searches and timers of
  \<^verbatim>\<open>QuicStateFunctions.cpp\<close>, the part of \<^verbatim>\<open>updateConnection\<close> that records a sent packet, and
  \<^verbatim>\<open>PacketRebuilder::cloneOutstandingPacket\<close>. The connection is \<open>QuicConnectionStateBase\<close>, which the
  streams use, together with the fields that acknowledgements and losses use. Times are microseconds.
  The congestion controller, the pacer and the packet processors are notified through interfaces and
  are not part of the state.
\<close>

section \<open>Data\<close>

type_synonym PacketEvent = "PacketNumberSpace \<times> PacketNum"

text \<open>\<^verbatim>\<open>OutstandingPacketWrapper\<close> with the metadata that is read. The header is its packet number and
  protection type; \<open>op_firstNewStreamByte\<close> is \<^verbatim>\<open>maybeFirstNewStreamByteOffset\<close> of \<^verbatim>\<open>detailsPerStream\<close>.\<close>

record OutstandingPacket =
  op_packetNum :: PacketNum
  op_protectionType :: ProtectionType
  op_frames :: "QuicWriteFrame list"
  op_time :: int
  op_encodedSize :: nat
  op_encodedBodySize :: nat
  op_lossTimeoutDividend :: "int option"
  op_lossReorderDistance :: "nat option"
  op_firstNewStreamByte :: "StreamId \<rightharpoonup> nat option"
  op_associatedEvent :: "PacketEvent option"
  op_isDSRPacket :: bool
  op_isAppLimited :: bool
  op_declaredLost :: bool

definition op_space :: "OutstandingPacket \<Rightarrow> PacketNumberSpace" where
  "op_space p = protectionTypeToPacketNumberSpace (op_protectionType p)"

record OutstandingsInfo =
  os_packets :: "OutstandingPacket list"
  os_packetEvents :: "PacketEvent set"
  os_packetCount :: "PacketNumberSpace \<Rightarrow> nat"
  os_clonedPacketCount :: "PacketNumberSpace \<Rightarrow> nat"
  os_declaredLostCount :: nat
  os_dsrCount :: nat

definition numOutstanding :: "OutstandingsInfo \<Rightarrow> nat res" where
  "numOutstanding os = rbind (check (os_declaredLostCount os \<le> length (os_packets os))) (\<lambda>_.
     Inr (length (os_packets os) - os_declaredLostCount os))"

definition numClonedPackets :: "OutstandingsInfo \<Rightarrow> nat" where
  "numClonedPackets os = os_clonedPacketCount os PNS_Initial + os_clonedPacketCount os PNS_Handshake + os_clonedPacketCount os PNS_AppData"

definition resetOutstandings :: "OutstandingsInfo \<Rightarrow> OutstandingsInfo" where
  "resetOutstandings os = os\<lparr>os_packets := [], os_packetEvents := {}, os_packetCount := (\<lambda>_. 0), os_clonedPacketCount := (\<lambda>_. 0),
     os_declaredLostCount := 0, os_dsrCount := 0\<rparr>"

text \<open>\<^verbatim>\<open>CHECK(counter[space]); --counter[space]\<close>, which is how every counter is decreased.\<close>

definition decrease :: "nat \<Rightarrow> nat res" where
  "decrease n = rbind (check (0 < n)) (\<lambda>_. Inr (n - 1))"

definition decreaseAt :: "PacketNumberSpace \<Rightarrow> (PacketNumberSpace \<Rightarrow> nat) \<Rightarrow> (PacketNumberSpace \<Rightarrow> nat) res" where
  "decreaseAt s c = rbind (decrease (c s)) (\<lambda>n. Inr (c(s := n)))"

datatype AlarmMethod = EarlyRetransmitOrReordering | PTO

definition kReorderingThreshold :: nat where "kReorderingThreshold = 3"
definition kRttAlpha :: int where "kRttAlpha = 8"
definition kRttBeta :: int where "kRttBeta = 4"
definition kPersistentCongestionThreshold :: int where "kPersistentCongestionThreshold = 3"
definition kPacketToSendForPTO :: nat where "kPacketToSendForPTO = 2"

text \<open>The fields of \<^verbatim>\<open>LossState\<close> that the modelled code uses; \<^verbatim>\<open>srtt\<close> is \<open>conn_srtt\<close> of the connection.\<close>

record LossState =
  ls_largestSent :: "PacketNum option"
  ls_lossTimes :: "PacketNumberSpace \<Rightarrow> int option"
  ls_maxAckDelay :: int
  ls_mrtt :: int
  ls_maybeMrttNoAckDelay :: "int option"
  ls_maybeLrtt :: "int option"
  ls_maybeLrttAckDelay :: "int option"
  ls_lrtt :: int
  ls_rttvar :: int
  ls_lastAckedPacketSentTime :: "int option"
  ls_lastAckedTime :: "int option"
  ls_adjustedLastAckedTime :: "int option"
  ls_lastRetransmittablePacketSentTime :: int
  ls_maybeLastPacketSentTime :: "int option"
  ls_totalBytesSent :: nat
  ls_totalBytesCloned :: nat
  ls_totalBytesAcked :: nat
  ls_totalBytesSentAtLastAck :: nat
  ls_totalBytesAckedAtLastAck :: nat
  ls_totalBodyBytesSent :: nat
  ls_totalBodyBytesAcked :: nat
  ls_totalStreamBytesSent :: nat
  ls_totalNewStreamBytesSent :: nat
  ls_totalPacketsSent :: nat
  ls_totalAckElicitingPacketsSent :: nat
  ls_totalPacketsMarkedLost :: nat
  ls_totalPacketsMarkedLostByTimeout :: nat
  ls_totalPacketsMarkedLostByReorderingThreshold :: nat
  ls_totalPacketsSpuriouslyMarkedLost :: nat
  ls_reorderingThreshold :: nat
  ls_ptoCount :: nat
  ls_rtxCount :: nat
  ls_timeoutBasedRtxCount :: nat
  ls_totalPTOCount :: nat
  ls_currentAlarmMethod :: AlarmMethod
  ls_attemptedEarlyRetransmit0Rtt :: bool

definition add32 :: "nat \<Rightarrow> nat \<Rightarrow> nat" where
  "add32 a b = (a + b) mod 2 ^ 32"

text \<open>The fields of \<^verbatim>\<open>TransportSettings\<close> for loss detection.\<close>

record LossSettings =
  lt_initialRtt :: int
  lt_timeReorderingThreshDividend :: int
  lt_timeReorderingThreshDivisor :: int
  lt_useAdaptiveLossReorderingThresholds :: bool
  lt_useAdaptiveLossTimeThresholds :: bool
  lt_removeFromLossBufferOnSpurious :: bool
  lt_maxNumPTOs :: nat
  lt_earlyRetransmit0Rtt :: bool
  lt_maxReceiveTimestampsPerAck :: "nat option"

text \<open>What the sending side keeps in \<^verbatim>\<open>AckState\<close>.\<close>

record AckState =
  as_largestAckedByPeer :: "PacketNum option"
  as_nextPacketNum :: PacketNum

record Connection =
  cn_base :: QuicConnectionStateBase
  cn_outstandings :: OutstandingsInfo
  cn_lossState :: LossState
  cn_lossSettings :: LossSettings
  cn_ackStates :: "PacketNumberSpace \<Rightarrow> AckState option"
  cn_initialWriteCipher :: bool
  cn_handshakeWriteCipher :: bool
  cn_oneRttWriteCipher :: bool
  cn_congestionController :: bool
  cn_setLossDetectionAlarm :: bool
  cn_numProbePackets :: "PacketNumberSpace \<Rightarrow> nat"
  cn_closeTransport :: bool

section \<open>Operations\<close>

text \<open>\<^verbatim>\<open>CHECK_NOTNULL\<close> on the states of the handshake spaces, which are dropped with their keys.\<close>

definition getAckState :: "Connection \<Rightarrow> PacketNumberSpace \<Rightarrow> AckState res" where
  "getAckState conn s = (case cn_ackStates conn s of None \<Rightarrow> Inl CheckFailed | Some a \<Rightarrow> Inr a)"

definition kMaxPacketNumber :: nat where "kMaxPacketNumber = 2 ^ 62 - 1"

definition increaseNextPacketNum :: "Connection \<Rightarrow> PacketNumberSpace \<Rightarrow> Connection res" where
  "increaseNextPacketNum conn s = rbind (getAckState conn s) (\<lambda>a.
     let a = a\<lparr>as_nextPacketNum := add64 (as_nextPacketNum a) 1\<rparr>;
         conn = conn\<lparr>cn_ackStates := (cn_ackStates conn)(s \<mapsto> a)\<rparr>
     in Inr (if as_nextPacketNum a = kMaxPacketNumber - 1 then conn\<lparr>cn_closeTransport := True\<rparr> else conn))"

text \<open>The searches return positions: the index of the packet, or the length.\<close>

definition getNextOutstandingPacket :: "OutstandingPacket list \<Rightarrow> PacketNumberSpace \<Rightarrow> nat \<Rightarrow> nat" where
  "getNextOutstandingPacket ps s from =
     from + length (takeWhile (\<lambda>p. op_declaredLost p \<or> op_space p \<noteq> s) (drop from ps))"

definition getFirstOutstandingPacket :: "OutstandingPacket list \<Rightarrow> PacketNumberSpace \<Rightarrow> nat" where
  "getFirstOutstandingPacket ps s = getNextOutstandingPacket ps s 0"

text \<open>Reverse positions: how many packets at the end are skipped.\<close>

definition getLastOutstandingPacket :: "OutstandingPacket list \<Rightarrow> PacketNumberSpace \<Rightarrow> nat" where
  "getLastOutstandingPacket ps s = length (takeWhile (\<lambda>p. op_declaredLost p \<or> op_space p \<noteq> s) (rev ps))"

definition getLastOutstandingPacketIncludingLost :: "OutstandingPacket list \<Rightarrow> PacketNumberSpace \<Rightarrow> nat" where
  "getLastOutstandingPacketIncludingLost ps s = length (takeWhile (\<lambda>p. op_space p \<noteq> s) (rev ps))"

text \<open>A packet goes behind the last packet with a smaller number, whatever their spaces.\<close>

definition emplacePacket :: "OutstandingPacket \<Rightarrow> OutstandingPacket list \<Rightarrow> OutstandingPacket list" where
  "emplacePacket p ps =
     (let k = length (dropWhile (\<lambda>q. \<not> op_packetNum q < op_packetNum p) (rev ps)) in take k ps @ p # drop k ps)"

text \<open>The end of \<^verbatim>\<open>updateConnection\<close>, after its loop over the frames; the loop found whether there was
  something to retransmit, a ping, and the stream bytes that were sent.\<close>

definition recordSentPacket ::
  "Connection \<Rightarrow> OutstandingPacket \<Rightarrow> PacketEvent option \<Rightarrow> bool \<Rightarrow> bool \<Rightarrow> nat \<Rightarrow> nat \<Rightarrow> Connection res" where
  "recordSentPacket conn p packetEvent retransmittable isPing streamBytes newStreamBytes =
     rbind (increaseNextPacketNum conn (op_space p)) (\<lambda>conn.
       let ls = cn_lossState conn;
           n = op_packetNum p;
           ls = ls\<lparr>ls_largestSent := Some (max (case ls_largestSent ls of None \<Rightarrow> n | Some m \<Rightarrow> m) n),
                   ls_maybeLastPacketSentTime := Some (op_time p),
                   ls_totalBytesSent := add64 (ls_totalBytesSent ls) (op_encodedSize p),
                   ls_totalBodyBytesSent := add64 (ls_totalBodyBytesSent ls) (op_encodedBodySize p),
                   ls_totalPacketsSent := add32 (ls_totalPacketsSent ls) 1,
                   ls_totalStreamBytesSent := add64 (ls_totalStreamBytesSent ls) streamBytes,
                   ls_totalNewStreamBytesSent := add64 (ls_totalNewStreamBytesSent ls) newStreamBytes\<rparr>;
           conn = conn\<lparr>cn_lossState := ls, cn_setLossDetectionAlarm := cn_setLossDetectionAlarm conn \<or> retransmittable\<rparr>;
           os = cn_outstandings conn
       in if \<not> retransmittable \<and> \<not> isPing then Inr conn
          else rbind (numOutstanding os) (\<lambda>_.
            let s = op_space p;
                p = p\<lparr>op_associatedEvent := packetEvent, op_declaredLost := False\<rparr>;
                os = os\<lparr>os_packets := emplacePacket p (os_packets os),
                        os_dsrCount := os_dsrCount os + (if op_isDSRPacket p then 1 else 0)\<rparr>;
                os = (if packetEvent \<noteq> None then os\<lparr>os_clonedPacketCount := (os_clonedPacketCount os)(s := os_clonedPacketCount os s + 1)\<rparr>
                      else os\<lparr>os_packetCount := (os_packetCount os)(s := os_packetCount os s + 1)\<rparr>);
                ls = ls\<lparr>ls_totalAckElicitingPacketsSent := add32 (ls_totalAckElicitingPacketsSent ls) 1,
                        ls_lastRetransmittablePacketSentTime := op_time p\<rparr>;
                ls = (if packetEvent \<noteq> None
                      then ls\<lparr>ls_totalBytesCloned := add64 (ls_totalBytesCloned ls) (op_encodedSize p),
                              ls_timeoutBasedRtxCount := add32 (ls_timeoutBasedRtxCount ls) 1\<rparr>
                      else ls)
            in Inr (conn\<lparr>cn_outstandings := os, cn_lossState := ls\<rparr>)))"

text \<open>The packet at position \<open>i\<close> is about to be cloned.\<close>

definition cloneOutstandingPacket :: "nat \<Rightarrow> OutstandingsInfo \<Rightarrow> PacketEvent \<times> OutstandingsInfo" where
  "cloneOutstandingPacket i os =
     (let p = os_packets os ! i
      in case op_associatedEvent p of Some e \<Rightarrow> (e, os)
         | None \<Rightarrow> let e = (op_space p, op_packetNum p)
             in (e, os\<lparr>os_packets := (os_packets os)[i := p\<lparr>op_associatedEvent := Some e\<rparr>],
                       os_packetEvents := insert e (os_packetEvents os),
                       os_clonedPacketCount := (os_clonedPacketCount os)(op_space p := os_clonedPacketCount os (op_space p) + 1)\<rparr>))"

subsection \<open>Round trip times and timers\<close>

definition updateRtt :: "Connection \<Rightarrow> int \<Rightarrow> int \<Rightarrow> Connection" where
  "updateRtt conn rttSample ackDelay =
     (let ls = cn_lossState conn;
          srtt = conn_srtt (cn_base conn);
          ls = ls\<lparr>ls_mrtt := min (ls_mrtt ls) rttSample\<rparr>;
          ls = (if rttSample \<ge> ackDelay
                then ls\<lparr>ls_maybeMrttNoAckDelay := Some (case ls_maybeMrttNoAckDelay ls of None \<Rightarrow> rttSample - ackDelay
                          | Some m \<Rightarrow> min m (rttSample - ackDelay))\<rparr>
                else ls);
          ls = ls\<lparr>ls_lrtt := rttSample, ls_maybeLrtt := Some rttSample, ls_maybeLrttAckDelay := Some ackDelay,
                  ls_maxAckDelay := max (ls_maxAckDelay ls) ackDelay\<rparr>;
          adjustedRtt = (if rttSample > ackDelay \<and> rttSample > ls_mrtt ls + ackDelay then rttSample - ackDelay else rttSample)
      in if srtt = 0
         then conn\<lparr>cn_base := (cn_base conn)\<lparr>conn_srtt := adjustedRtt\<rparr>, cn_lossState := ls\<lparr>ls_rttvar := adjustedRtt div 2\<rparr>\<rparr>
         else conn\<lparr>cn_base := (cn_base conn)\<lparr>conn_srtt := srtt * (kRttAlpha - 1) div kRttAlpha + adjustedRtt div kRttAlpha\<rparr>,
                   cn_lossState := ls\<lparr>ls_rttvar := ls_rttvar ls * (kRttBeta - 1) div kRttBeta +
                     (if srtt > adjustedRtt then srtt - adjustedRtt else adjustedRtt - srtt) div kRttBeta\<rparr>\<rparr>)"

definition earliestTimeAndSpace :: "(PacketNumberSpace \<Rightarrow> int option) \<Rightarrow> bool \<Rightarrow> int option \<times> PacketNumberSpace" where
  "earliestTimeAndSpace lossTimes considerAppData =
     fold (\<lambda>s (r, rs). case lossTimes s of None \<Rightarrow> (r, rs)
         | Some t \<Rightarrow> if s = PNS_AppData \<and> \<not> considerAppData then (r, rs)
             else if r = None \<or> the r > t then (Some t, s) else (r, rs))
       [PNS_Initial, PNS_Handshake, PNS_AppData] (None, PNS_Initial)"

definition earliestLossTimer :: "Connection \<Rightarrow> int option \<times> PacketNumberSpace" where
  "earliestLossTimer conn = earliestTimeAndSpace (ls_lossTimes (cn_lossState conn)) (cn_oneRttWriteCipher conn)"

definition calculatePTO :: "Connection \<Rightarrow> int" where
  "calculatePTO conn =
     (if conn_srtt (cn_base conn) = 0 then 2 * lt_initialRtt (cn_lossSettings conn)
      else conn_srtt (cn_base conn) + 4 * ls_rttvar (cn_lossState conn) + ls_maxAckDelay (cn_lossState conn))"

text \<open>The alarm in milliseconds.\<close>

definition calculateAlarmDuration :: "Connection \<Rightarrow> int \<Rightarrow> int \<times> AlarmMethod" where
  "calculateAlarmDuration conn now =
     (let ls = cn_lossState conn;
          last = ls_lastRetransmittablePacketSentTime ls;
          (alarmDuration, alarmMethod) = (case fst (earliestLossTimer conn) of
              Some t \<Rightarrow> (if t > last then t - last else 0, EarlyRetransmitOrReordering)
            | None \<Rightarrow> (calculatePTO conn * 2 ^ min (ls_ptoCount ls) 31, PTO))
      in (if last + alarmDuration > now then (last + alarmDuration - now + 999) div 1000 else 0, alarmMethod))"

end
