(* ===== verification/Packet_Loss.thy ===== *)
theory Packet_Loss
  imports Outstanding
begin

text \<open>
  What the loss of a packet does to the connection: \<^verbatim>\<open>markPacketLoss\<close> of
  \<^verbatim>\<open>quic/loss/QuicLossFunctions.cpp\<close> for every kind of frame, and the functions of
  \<^verbatim>\<open>quic/state/SimpleFrameFunctions.cpp\<close> for frames that are sent, cloned and lost. A lost frame is
  sent again as new information: stream and crypto data return to the loss buffers, window updates and
  simple frames to the pending events.
\<close>

section \<open>Simple frames\<close>

definition sendSimpleFrame :: "QuicConnectionStateBase \<Rightarrow> QuicSimpleFrame \<Rightarrow> QuicConnectionStateBase" where
  "sendSimpleFrame conn frame = updEvents (\<lambda>e. e\<lparr>pe_frames := pe_frames e @ [frame]\<rparr>) conn"

definition updateSimpleFrameOnPacketClone :: "QuicConnectionStateBase \<Rightarrow> QuicSimpleFrame \<Rightarrow> QuicSimpleFrame option" where
  "updateSimpleFrameOnPacketClone conn frame = (case frame of
      SF_StopSending f \<Rightarrow> if streamExists (ss_streamId f) (conn_streamManager conn) then Some frame else None
    | SF_PathChallenge d \<Rightarrow> if conn_outstandingPathValidation conn = Some d then Some frame else None
    | _ \<Rightarrow> Some frame)"

definition updateSimpleFrameOnPacketSent :: "int \<Rightarrow> QuicConnectionStateBase \<Rightarrow> QuicSimpleFrame \<Rightarrow> QuicConnectionStateBase res" where
  "updateSimpleFrameOnPacketSent now conn frame = (case frame of
      SF_PathChallenge _ \<Rightarrow>
        Inr (conn\<lparr>conn_outstandingPathValidation := pe_pathChallenge (conn_pendingEvents conn),
                  conn_pendingEvents := (conn_pendingEvents conn)\<lparr>pe_pathChallenge := None, pe_schedulePathValidationTimeout := True\<rparr>,
                  conn_pathChallengeStartTime := now\<rparr>)
    | _ \<Rightarrow> rbind (check (frame \<in> set (pe_frames (conn_pendingEvents conn)))) (\<lambda>_.
             Inr (updEvents (\<lambda>e. e\<lparr>pe_frames := remove1 frame (pe_frames e)\<rparr>) conn)))"

definition updateSimpleFrameOnPacketLoss :: "QuicConnectionStateBase \<Rightarrow> QuicSimpleFrame \<Rightarrow> QuicConnectionStateBase" where
  "updateSimpleFrameOnPacketLoss conn frame = (case frame of
      SF_StopSending f \<Rightarrow> if streamExists (ss_streamId f) (conn_streamManager conn) then sendSimpleFrame conn frame else conn
    | SF_PathChallenge d \<Rightarrow>
        if conn_outstandingPathValidation conn = Some d then updEvents (\<lambda>e. e\<lparr>pe_pathChallenge := Some d\<rparr>) conn else conn
    | _ \<Rightarrow> sendSimpleFrame conn frame)"

section \<open>A lost packet\<close>

fun protectionTypeToEncryptionLevel :: "ProtectionType \<Rightarrow> EncryptionLevel" where
  "protectionTypeToEncryptionLevel PT_Initial = EL_Initial"
| "protectionTypeToEncryptionLevel PT_Handshake = EL_Handshake"
| "protectionTypeToEncryptionLevel PT_ZeroRtt = EL_EarlyData"
| "protectionTypeToEncryptionLevel PT_KeyPhaseZero = EL_AppData"
| "protectionTypeToEncryptionLevel PT_KeyPhaseOne = EL_AppData"

fun setCryptoStream :: "QuicStreamLike \<Rightarrow> QuicCryptoState \<Rightarrow> EncryptionLevel \<Rightarrow> QuicCryptoState" where
  "setCryptoStream s cs EL_Initial = cs\<lparr>initialStream := s\<rparr>"
| "setCryptoStream s cs EL_Handshake = cs\<lparr>handshakeStream := s\<rparr>"
| "setCryptoStream s cs EL_EarlyData = cs\<lparr>handshakeStream := s\<rparr>"
| "setCryptoStream s cs EL_AppData = cs\<lparr>oneRttStream := s\<rparr>"

text \<open>\<^verbatim>\<open>auto stream = conn.streamManager->getStream(id); if (!stream) break;\<close> and the use of the stream.\<close>

definition withStream ::
  "QuicConnectionStateBase \<Rightarrow> StreamId \<Rightarrow> 'r \<Rightarrow> (QuicConnectionStateBase \<Rightarrow> QuicStreamState \<Rightarrow> ('r \<times> QuicConnectionStateBase \<times> QuicStreamState) res) \<Rightarrow>
   ('r \<times> QuicConnectionStateBase) res" where
  "withStream conn streamId r f =
     rbind (getStream conn streamId None (conn_streamManager conn)) (\<lambda>(found, m).
       let conn = conn\<lparr>conn_streamManager := m\<rparr>
       in case (case found of None \<Rightarrow> None | Some i \<Rightarrow> findStream i m) of
            None \<Rightarrow> Inr (r, conn)
          | Some stream \<Rightarrow> rbind (f conn stream) (\<lambda>(r, conn, stream).
              Inr (r, updManager (\<lambda>m. m\<lparr>sm_streams := (sm_streams m)(st_id stream \<mapsto> stream)\<rparr>) conn)))"

text \<open>One frame; \<open>counted\<close> are the streams whose loss count the packet has increased.\<close>

definition frameLost ::
  "ProtectionType \<Rightarrow> bool \<Rightarrow> QuicWriteFrame \<Rightarrow> StreamId set \<times> QuicConnectionStateBase \<Rightarrow> (StreamId set \<times> QuicConnectionStateBase) res" where
  "frameLost protectionType processed frame st = (case st of (counted, conn) \<Rightarrow> (case frame of
      WF_MaxStreamData f \<Rightarrow> withStream conn (msd_streamId f) counted (\<lambda>conn stream. Inr (counted, onStreamWindowUpdateLost conn stream, stream))
    | WF_MaxData _ \<Rightarrow> Inr (counted, onConnWindowUpdateLost conn)
    | WF_DataBlocked _ \<Rightarrow> Inr (counted, if processed then conn else onDataBlockedLost conn)
    | WF_Stream f \<Rightarrow>
        if processed then Inr (counted, conn)
        else withStream conn (ws_streamId f) counted (\<lambda>conn stream.
               rbind (streamFrameLost (ws_streamId f \<in> counted) conn stream f) (\<lambda>(c, conn, stream).
                 Inr (if c then insert (ws_streamId f) counted else counted, conn, stream)))
    | WF_Crypto f \<Rightarrow>
        if processed then Inr (counted, conn)
        else let level = protectionTypeToEncryptionLevel protectionType; cs = conn_cryptoState conn
             in Inr (counted, conn\<lparr>conn_cryptoState := setCryptoStream (cryptoFrameLost (getCryptoStream cs level) f) cs level\<rparr>)
    | WF_RstStream f \<Rightarrow>
        if processed then Inr (counted, conn)
        else withStream conn (rst_streamId f) counted (\<lambda>conn stream.
               Inr (counted, updEvents (\<lambda>e. e\<lparr>pe_resets := map_emplace (rst_streamId f) f (pe_resets e)\<rparr>) conn, stream))
    | WF_StreamDataBlocked f \<Rightarrow>
        if processed then Inr (counted, conn)
        else withStream conn (sdb_streamId f) counted (\<lambda>conn stream. Inr (counted, onBlockedLost conn stream, stream))
    | WF_Simple f \<Rightarrow> Inr (counted, if processed then conn else updateSimpleFrameOnPacketLoss conn f)
    | _ \<Rightarrow> Inr (counted, conn)))"

fun framesLost ::
  "ProtectionType \<Rightarrow> bool \<Rightarrow> QuicWriteFrame list \<Rightarrow> StreamId set \<times> QuicConnectionStateBase \<Rightarrow> (StreamId set \<times> QuicConnectionStateBase) res" where
  "framesLost pt processed [] st = Inr st"
| "framesLost pt processed (f # fs) st = rbind (frameLost pt processed f st) (framesLost pt processed fs)"

definition markPacketLoss :: "QuicConnectionStateBase \<Rightarrow> OutstandingPacket \<Rightarrow> bool \<Rightarrow> QuicConnectionStateBase res" where
  "markPacketLoss conn p processed =
     rbind (framesLost (op_protectionType p) processed (op_frames p) ({}, conn)) (\<lambda>(_, conn). Inr conn)"

end
