(* ===== verification/Loss_Detection.thy ===== *)
theory Loss_Detection
  imports Packet_Loss
begin

text \<open>
  Loss detection of \<^verbatim>\<open>quic/loss/QuicLossFunctions.{h,cpp}\<close>: a packet is declared lost when a packet
  sent sufficiently later was acknowledged, by count or by time. A lost packet stays in the list of
  outstanding packets, so that a late acknowledgement is recognised. The loss visitor is an argument,
  as in the code.
\<close>

section \<open>Model\<close>

type_synonym LossVisitor = "QuicConnectionStateBase \<Rightarrow> OutstandingPacket \<Rightarrow> bool \<Rightarrow> QuicConnectionStateBase res"

record LossEvent =
  le_largestLostPacketNum :: "PacketNum option"
  le_lostPacketNumbers :: "PacketNum list"
  le_lostBytes :: nat
  le_lostPackets :: nat
  le_lossTime :: int
  le_largestLostSentTime :: "int option"
  le_smallestLostSentTime :: "int option"
  le_persistentCongestion :: bool

definition newLossEvent :: "int \<Rightarrow> LossEvent" where
  "newLossEvent t = \<lparr>le_largestLostPacketNum = None, le_lostPacketNumbers = [], le_lostBytes = 0, le_lostPackets = 0, le_lossTime = t,
     le_largestLostSentTime = None, le_smallestLostSentTime = None, le_persistentCongestion = False\<rparr>"

definition value_or :: "'a option \<Rightarrow> 'a \<Rightarrow> 'a" where
  "value_or x d = (case x of None \<Rightarrow> d | Some y \<Rightarrow> y)"

definition addLostPacket :: "OutstandingPacket \<Rightarrow> LossEvent \<Rightarrow> LossEvent res" where
  "addLostPacket p ev =
     (if u64_max - le_lostBytes ev < op_encodedSize p then Inl (QuicInternalException LE_LOST_BYTES_OVERFLOW)
      else let n = op_packetNum p
           in Inr (ev\<lparr>le_largestLostPacketNum := Some (max n (value_or (le_largestLostPacketNum ev) n)),
                le_lostPacketNumbers := le_lostPacketNumbers ev @ [n],
                le_lostBytes := le_lostBytes ev + op_encodedSize p,
                le_lostPackets := add32 (le_lostPackets ev) 1,
                le_largestLostSentTime := Some (max (op_time p) (value_or (le_largestLostSentTime ev) (op_time p))),
                le_smallestLostSentTime := Some (min (op_time p) (value_or (le_smallestLostSentTime ev) (op_time p)))\<rparr>))"

text \<open>What an acknowledgement tells loss detection of a stream in an acknowledged packet.\<close>

record AckStreamDetails =
  sd_streamBytesAcked :: nat
  sd_streamBytesAckedByRetrans :: nat
  sd_streamPacketIdx :: "nat option"
  sd_maybeNewDeliveryOffset :: "nat option"
  sd_dupAckedStreamIntervals :: IntervalSet

record AckPacket =
  ap_packetNum :: PacketNum
  ap_time :: int
  ap_detailsPerStream :: "(StreamId \<times> AckStreamDetails) list"
  ap_receiveTimeStamp :: "nat option"

definition isPersistentCongestion :: "int option \<Rightarrow> int \<Rightarrow> int \<Rightarrow> AckPacket list \<Rightarrow> bool" where
  "isPersistentCongestion pto lostPeriodStart lostPeriodEnd acked = (case pto of None \<Rightarrow> False
     | Some t \<Rightarrow> lostPeriodEnd - lostPeriodStart \<ge> t * kPersistentCongestionThreshold \<and>
         \<not> (\<exists>a \<in> set acked. lostPeriodStart \<le> ap_time a \<and> ap_time a \<le> lostPeriodEnd))"

text \<open>The arguments of \<^verbatim>\<open>processOutstandingsForLoss\<close> that do not change.\<close>

record LossParams =
  lp_largestAcked :: PacketNum
  lp_space :: PacketNumberSpace
  lp_largestDsrAcked :: "StreamId \<rightharpoonup> nat"
  lp_largestNonDsrAcked :: "PacketNum option"
  lp_lossTime :: int
  lp_rttSample :: int
  lp_delayUntilLost :: int

text \<open>The lambda \<^verbatim>\<open>largestAckedForComparison\<close>: the largest acknowledged number and, for a packet with
  delegated data, the index within its stream that replaces the packet number.\<close>

definition largestAckedForComparison :: "LossParams \<Rightarrow> OutstandingPacket \<Rightarrow> (nat option \<times> nat) res" where
  "largestAckedForComparison lp p =
     (case op_frames p of
        WF_Stream f # _ \<Rightarrow>
          if ws_fromBufMeta f
          then rbind (check (op_isDSRPacket p)) (\<lambda>_.
                 Inr (Some (ws_streamPacketIdx f), value_or (lp_largestDsrAcked lp (ws_streamId f)) (ws_streamPacketIdx f)))
          else if dom (lp_largestDsrAcked lp) = {}
          then rbind (check (lp_largestNonDsrAcked lp = Some (lp_largestAcked lp))) (\<lambda>_. Inr (None, lp_largestAcked lp))
          else Inr (None, value_or (lp_largestNonDsrAcked lp) (op_packetNum p))
      | _ \<Rightarrow>
          if dom (lp_largestDsrAcked lp) = {}
          then rbind (check (lp_largestNonDsrAcked lp = Some (lp_largestAcked lp))) (\<lambda>_. Inr (None, lp_largestAcked lp))
          else Inr (None, value_or (lp_largestNonDsrAcked lp) (op_packetNum p)))"

text \<open>Whether the packet is lost by time, and how many packets it is behind.\<close>

definition reorderDistance :: "LossParams \<Rightarrow> OutstandingPacket \<Rightarrow> nat res" where
  "reorderDistance lp p = rbind (largestAckedForComparison lp p) (\<lambda>(idx, largest).
     let n = value_or idx (op_packetNum p) in Inr (max largest n - n))"

definition lostByTimeout :: "LossParams \<Rightarrow> OutstandingPacket \<Rightarrow> bool" where
  "lostByTimeout lp p \<longleftrightarrow> lp_lossTime lp - op_time p > lp_delayUntilLost lp"

text \<open>The totals of the connection, and what the packet remembers for the case that the loss is spurious.\<close>

definition lossTotals :: "bool \<Rightarrow> bool \<Rightarrow> LossState \<Rightarrow> LossState" where
  "lossTotals byTime byReorder ls =
     (let ls = ls\<lparr>ls_totalPacketsMarkedLost := add32 (ls_totalPacketsMarkedLost ls) 1\<rparr>;
          ls = (if byTime then ls\<lparr>ls_totalPacketsMarkedLostByTimeout := add32 (ls_totalPacketsMarkedLostByTimeout ls) 1\<rparr> else ls)
      in if byReorder then ls\<lparr>ls_totalPacketsMarkedLostByReorderingThreshold := add32 (ls_totalPacketsMarkedLostByReorderingThreshold ls) 1\<rparr>
         else ls)"

definition lossMetadata :: "bool \<Rightarrow> bool \<Rightarrow> LossParams \<Rightarrow> int \<Rightarrow> nat \<Rightarrow> OutstandingPacket \<Rightarrow> OutstandingPacket" where
  "lossMetadata byTime byReorder lp divisor dist p =
     (let p = (if byTime then p\<lparr>op_lossTimeoutDividend := Some ((lp_lossTime lp - op_time p) * divisor div lp_rttSample lp)\<rparr> else p)
      in if byReorder then p\<lparr>op_lossReorderDistance := Some (dist mod 2 ^ 32)\<rparr> else p)"

definition declareLost :: "LossVisitor \<Rightarrow> LossParams \<Rightarrow> nat \<Rightarrow> OutstandingPacket \<Rightarrow> Connection \<Rightarrow> LossEvent \<Rightarrow>
    (OutstandingPacket \<times> Connection \<times> LossEvent) res" where
  "declareLost visitor lp dist p conn ev =
     (let os = cn_outstandings conn; ls = cn_lossState conn; s = op_space p; event = op_associatedEvent p;
          processed = (case event of None \<Rightarrow> False | Some e \<Rightarrow> e \<notin> os_packetEvents os);
          byTime = (lostByTimeout lp p \<and> lp_rttSample lp > 0);
          byReorder = (dist > ls_reorderingThreshold ls)
      in rbind (if op_isDSRPacket p then decrease (os_dsrCount os) else Inr (os_dsrCount os)) (\<lambda>dsr.
         rbind (if event \<noteq> None then decreaseAt (lp_space lp) (os_clonedPacketCount os) else Inr (os_clonedPacketCount os)) (\<lambda>cloned.
         rbind (visitor (cn_base conn) p processed) (\<lambda>base.
         rbind (if processed then Inr (os_packetCount os) else decreaseAt s (os_packetCount os)) (\<lambda>count.
           let p = lossMetadata byTime byReorder lp (lt_timeReorderingThreshDivisor (cn_lossSettings conn)) dist p;
               os = os\<lparr>os_dsrCount := dsr, os_clonedPacketCount := cloned, os_packetCount := count,
                       os_packetEvents := os_packetEvents os - set_option event,
                       os_declaredLostCount := os_declaredLostCount os + 1\<rparr>
           in rbind (addLostPacket p ev) (\<lambda>ev.
                Inr (p\<lparr>op_declaredLost := True\<rparr>, conn\<lparr>cn_base := base, cn_outstandings := os, cn_lossState := lossTotals byTime byReorder ls\<rparr>, ev)))))))"

text \<open>The loop over the packets. The list that it returns replaces the one it was given.\<close>

fun lossLoop :: "LossVisitor \<Rightarrow> LossParams \<Rightarrow> OutstandingPacket list \<Rightarrow> Connection \<Rightarrow> LossEvent \<Rightarrow> bool \<Rightarrow>
    (OutstandingPacket list \<times> Connection \<times> LossEvent \<times> bool) res" where
  "lossLoop visitor lp [] conn ev timer = Inr ([], conn, ev, timer)"
| "lossLoop visitor lp (p # ps) conn ev timer =
     (if op_packetNum p \<ge> lp_largestAcked lp then Inr (p # ps, conn, ev, timer)
      else if op_space p \<noteq> lp_space lp \<or> op_declaredLost p
      then rbind (lossLoop visitor lp ps conn ev timer) (\<lambda>(ps, r). Inr (p # ps, r))
      else rbind (reorderDistance lp p) (\<lambda>dist.
        if \<not> (lostByTimeout lp p \<or> dist > ls_reorderingThreshold (cn_lossState conn))
        then rbind (lossLoop visitor lp ps conn ev True) (\<lambda>(ps, r). Inr (p # ps, r))
        else rbind (declareLost visitor lp dist p conn ev) (\<lambda>(p, conn, ev).
             rbind (lossLoop visitor lp ps conn ev timer) (\<lambda>(ps, r). Inr (p # ps, r)))))"

definition setPackets :: "OutstandingPacket list \<Rightarrow> Connection \<Rightarrow> Connection" where
  "setPackets ps conn = conn\<lparr>cn_outstandings := (cn_outstandings conn)\<lparr>os_packets := ps\<rparr>\<rparr>"

definition processOutstandingsForLoss :: "LossVisitor \<Rightarrow> LossParams \<Rightarrow> Connection \<Rightarrow> LossEvent \<Rightarrow> (bool \<times> Connection \<times> LossEvent) res" where
  "processOutstandingsForLoss visitor lp conn ev =
     (let ps = os_packets (cn_outstandings conn); k = getFirstOutstandingPacket ps (lp_space lp)
      in rbind (lossLoop visitor lp (drop k ps) conn ev False) (\<lambda>(qs, conn, ev, timer).
           Inr (timer, setPackets (take k ps @ qs) conn, ev)))"

text \<open>The largest acknowledged index of each stream with delegated data, and the largest acknowledged
  packet without.\<close>

definition dsrAckedStep :: "PacketNum \<Rightarrow> StreamId \<times> AckStreamDetails \<Rightarrow> (StreamId \<rightharpoonup> nat) \<times> PacketNum option \<Rightarrow> (StreamId \<rightharpoonup> nat) \<times> PacketNum option" where
  "dsrAckedStep n d st = (case (d, st) of ((stream, details), dsr, nonDsr) \<Rightarrow> (case sd_streamPacketIdx details of
      Some idx \<Rightarrow> (dsr(stream \<mapsto> max (value_or (dsr stream) idx) idx), nonDsr)
    | None \<Rightarrow> (dsr, Some (max (value_or nonDsr 0) n))))"

definition dsrAckedPacket :: "AckPacket \<Rightarrow> (StreamId \<rightharpoonup> nat) \<times> PacketNum option \<Rightarrow> (StreamId \<rightharpoonup> nat) \<times> PacketNum option" where
  "dsrAckedPacket a st =
     (let (dsr, nonDsr) = fold (dsrAckedStep (ap_packetNum a)) (ap_detailsPerStream a) st
      in if ap_detailsPerStream a = [] then (dsr, Some (max (value_or nonDsr 0) (ap_packetNum a))) else (dsr, nonDsr))"

definition needsProcess :: "OutstandingsInfo \<Rightarrow> OutstandingPacket \<Rightarrow> bool" where
  "needsProcess os p \<longleftrightarrow> (case op_associatedEvent p of None \<Rightarrow> True | Some e \<Rightarrow> e \<in> os_packetEvents os)"

definition lossParams :: "Connection \<Rightarrow> PacketNum \<Rightarrow> int \<Rightarrow> PacketNumberSpace \<Rightarrow> AckPacket list \<Rightarrow> LossParams" where
  "lossParams conn largestAcked lossTime s acked =
     (let rttSample = max (conn_srtt (cn_base conn)) (ls_lrtt (cn_lossState conn));
          (dsr, nonDsr) = fold dsrAckedPacket acked (Map.empty, None)
      in \<lparr>lp_largestAcked = largestAcked, lp_space = s, lp_largestDsrAcked = dsr,
          lp_largestNonDsrAcked = (if dom dsr = {} then Some largestAcked else nonDsr), lp_lossTime = lossTime, lp_rttSample = rttSample,
          lp_delayUntilLost = rttSample * lt_timeReorderingThreshDividend (cn_lossSettings conn) div
            lt_timeReorderingThreshDivisor (cn_lossSettings conn)\<rparr>)"

definition setLossTime :: "PacketNumberSpace \<Rightarrow> int option \<Rightarrow> Connection \<Rightarrow> Connection" where
  "setLossTime s t conn = conn\<lparr>cn_lossState := (cn_lossState conn)\<lparr>ls_lossTimes := (ls_lossTimes (cn_lossState conn))(s := t)\<rparr>\<rparr>"

text \<open>Without an acknowledgement, the list of acknowledged packets is empty.\<close>

definition detectLossPackets ::
  "LossVisitor \<Rightarrow> Connection \<Rightarrow> PacketNum option \<Rightarrow> int \<Rightarrow> PacketNumberSpace \<Rightarrow> AckPacket list \<Rightarrow> (LossEvent option \<times> Connection) res" where
  "detectLossPackets visitor conn largestAcked lossTime s acked =
     (let conn = setLossTime s None conn; lp = lossParams conn (value_or largestAcked 0) lossTime s acked
      in rbind (case largestAcked of None \<Rightarrow> Inr (False, conn, newLossEvent lossTime)
                | Some _ \<Rightarrow> processOutstandingsForLoss visitor lp conn (newLossEvent lossTime)) (\<lambda>(timer, conn, ev).
         let os = cn_outstandings conn;
             conn = (case find (\<lambda>p. \<not> op_declaredLost p \<and> op_space p = s \<and> needsProcess os p) (os_packets os) of
                 Some p \<Rightarrow> if timer then setLossTime s (Some (lp_delayUntilLost lp + op_time p)) conn else conn
               | None \<Rightarrow> conn)
         in if le_largestLostPacketNum ev = None then Inr (None, conn)
            else let ls = cn_lossState conn;
                     conn = conn\<lparr>cn_lossState := ls\<lparr>ls_rtxCount := add32 (ls_rtxCount ls) (le_lostPackets ev)\<rparr>\<rparr>
                 in Inr (if cn_congestionController conn then Some ev else None, conn)))"

definition handleAckForLoss ::
  "LossVisitor \<Rightarrow> Connection \<Rightarrow> PacketNumberSpace \<Rightarrow> PacketNum option \<Rightarrow> int \<Rightarrow> AckPacket list \<Rightarrow> (LossEvent option \<times> Connection) res" where
  "handleAckForLoss visitor conn s largestNewlyAcked ackTime acked =
     rbind (getAckState conn s) (\<lambda>a.
       let conn = (case largestNewlyAcked of None \<Rightarrow> conn
             | Some n \<Rightarrow> conn\<lparr>cn_lossState := (cn_lossState conn)\<lparr>ls_ptoCount := 0\<rparr>,
                 cn_ackStates := (cn_ackStates conn)(s \<mapsto> a\<lparr>as_largestAckedByPeer := Some (max (value_or (as_largestAckedByPeer a) n) n)\<rparr>)\<rparr>)
       in rbind (getAckState conn s) (\<lambda>a.
          rbind (detectLossPackets visitor conn (as_largestAckedByPeer a) ackTime s acked) (\<lambda>(ev, conn).
          rbind (numOutstanding (cn_outstandings conn)) (\<lambda>n.
            Inr (ev, conn\<lparr>cn_setLossDetectionAlarm := 0 < n\<rparr>)))))"

subsection \<open>Rejected early data and timeouts\<close>

text \<open>The loop of \<^verbatim>\<open>markZeroRttPacketsLost\<close>. Its packets are erased, not marked.\<close>

fun zeroRttLoop :: "LossVisitor \<Rightarrow> OutstandingPacket list \<Rightarrow> Connection \<Rightarrow> LossEvent \<Rightarrow>
    (OutstandingPacket list \<times> Connection \<times> LossEvent) res" where
  "zeroRttLoop visitor [] conn ev = Inr ([], conn, ev)"
| "zeroRttLoop visitor (p # ps) conn ev =
     (if op_declaredLost p \<or> op_space p \<noteq> PNS_AppData \<or> op_protectionType p \<noteq> PT_ZeroRtt
      then rbind (zeroRttLoop visitor ps conn ev) (\<lambda>(ps, r). Inr (p # ps, r))
      else let os = cn_outstandings conn; event = op_associatedEvent p;
               processed = (case event of None \<Rightarrow> False | Some e \<Rightarrow> e \<notin> os_packetEvents os)
        in rbind (visitor (cn_base conn) p processed) (\<lambda>base.
           rbind (if event \<noteq> None then decreaseAt PNS_AppData (os_clonedPacketCount os) else Inr (os_clonedPacketCount os)) (\<lambda>cloned.
           rbind (addLostPacket p ev) (\<lambda>ev.
           rbind (if processed then Inr (os_packetCount os) else decreaseAt PNS_AppData (os_packetCount os)) (\<lambda>count.
             zeroRttLoop visitor ps (conn\<lparr>cn_base := base, cn_outstandings := os\<lparr>os_clonedPacketCount := cloned, os_packetCount := count,
               os_packetEvents := os_packetEvents os - set_option event\<rparr>\<rparr>) ev)))))"

definition markZeroRttPacketsLost :: "LossVisitor \<Rightarrow> int \<Rightarrow> Connection \<Rightarrow> Connection res" where
  "markZeroRttPacketsLost visitor now conn =
     rbind (zeroRttLoop visitor (os_packets (cn_outstandings conn)) conn (newLossEvent now)) (\<lambda>(ps, conn, ev).
       let ls = cn_lossState conn
       in Inr (setPackets ps (conn\<lparr>cn_lossState := ls\<lparr>ls_rtxCount := add32 (ls_rtxCount ls) (le_lostPackets ev)\<rparr>\<rparr>)))"

definition probesFor :: "bool \<Rightarrow> bool \<Rightarrow> nat \<Rightarrow> nat" where
  "probesFor cipher lossEmpty count =
     (if \<not> cipher then 0 else if lossEmpty \<and> count < kPacketToSendForPTO then count else kPacketToSendForPTO)"

definition onPTOAlarm :: "int \<Rightarrow> Connection \<Rightarrow> Connection res" where
  "onPTOAlarm now conn =
     (let ls = cn_lossState conn;
          ls = ls\<lparr>ls_ptoCount := add32 (ls_ptoCount ls) 1, ls_totalPTOCount := add32 (ls_totalPTOCount ls) 1\<rparr>;
          conn = conn\<lparr>cn_lossState := ls\<rparr>
      in if ls_ptoCount ls = lt_maxNumPTOs (cn_lossSettings conn) then Inl (QuicInternalException LE_CONNECTION_ABANDONED)
         else rbind (if lt_earlyRetransmit0Rtt (cn_lossSettings conn) \<and> \<not> ls_attemptedEarlyRetransmit0Rtt ls \<and> cn_oneRttWriteCipher conn
                     then markZeroRttPacketsLost markPacketLoss now (conn\<lparr>cn_lossState := ls\<lparr>ls_attemptedEarlyRetransmit0Rtt := True\<rparr>\<rparr>)
                     else Inr conn) (\<lambda>conn.
           let count = os_packetCount (cn_outstandings conn); cs = conn_cryptoState (cn_base conn)
           in Inr (conn\<lparr>cn_numProbePackets :=
               (\<lambda>_. 0)(PNS_Initial := probesFor (cn_initialWriteCipher conn) (lossBuffer (initialStream cs) = []) (count PNS_Initial),
                       PNS_Handshake := probesFor (cn_handshakeWriteCipher conn) (lossBuffer (handshakeStream cs) = []) (count PNS_Handshake),
                       PNS_AppData := probesFor (cn_oneRttWriteCipher conn)
                         (lossBuffer (oneRttStream cs) = [] \<and> \<not> sm_hasLoss (conn_streamManager (cn_base conn))) (count PNS_AppData))\<rparr>)))"

definition onLossDetectionAlarm :: "LossVisitor \<Rightarrow> int \<Rightarrow> Connection \<Rightarrow> Connection res" where
  "onLossDetectionAlarm visitor now conn =
     (if os_packets (cn_outstandings conn) = [] then Inr conn
      else rbind (if ls_currentAlarmMethod (cn_lossState conn) = EarlyRetransmitOrReordering
                  then let (t, s) = earliestLossTimer conn
                    in rbind (check (t \<noteq> None)) (\<lambda>_. rbind (getAckState conn s) (\<lambda>a.
                       rbind (detectLossPackets visitor conn (as_largestAckedByPeer a) now s []) (\<lambda>(_, conn). Inr conn)))
                  else onPTOAlarm now conn) (\<lambda>conn.
           rbind (numOutstanding (cn_outstandings conn)) (\<lambda>n. Inr (conn\<lparr>cn_setLossDetectionAlarm := 0 < n\<rparr>))))"

subsection \<open>The alarm\<close>

text \<open>\<^verbatim>\<open>setLossDetectionAlarm\<close>. Whether there is data to write is found by the schedulers; the timeout object is
  the duration that it is scheduled for.\<close>

definition setLossDetectionAlarm :: "bool \<Rightarrow> int \<Rightarrow> Connection \<Rightarrow> int option \<Rightarrow> (Connection \<times> int option) res" where
  "setLossDetectionAlarm hasDataToWrite now conn timeout =
     (let os = cn_outstandings conn; ls = cn_lossState conn
      in rbind (numOutstanding os) (\<lambda>totalPacketsOutstanding.
           if \<not> hasDataToWrite \<and> os_packetEvents os = {} \<and> totalPacketsOutstanding = numClonedPackets os
           then Inr (conn\<lparr>cn_setLossDetectionAlarm := False\<rparr>, None)
           else let timeout = (if ls_currentAlarmMethod ls = EarlyRetransmitOrReordering \<and> fst (earliestLossTimer conn) = None then None else timeout)
             in if \<not> cn_setLossDetectionAlarm conn then Inr (conn, timeout)
                else let (alarmDuration, alarmMethod) = calculateAlarmDuration conn now
                  in Inr (conn\<lparr>cn_lossState := ls\<lparr>ls_currentAlarmMethod := alarmMethod\<rparr>, cn_setLossDetectionAlarm := False\<rparr>, Some alarmDuration)))"

end
