(* ===== verification/Ack_Processing.thy ===== *)
theory Ack_Processing
  imports Loss_Detection "HOL-Library.AList"
begin

text \<open>
  The processing of a received acknowledgement, \<^verbatim>\<open>quic/state/AckHandlers.cpp\<close>: the walk over the blocks
  and the outstanding packets from the largest packet number down, the frames of the acknowledged
  packets in the order in which they were sent, loss detection, and the removal of old lost packets.
  The visitor of acknowledged frames is an argument, as in the code.
\<close>

section \<open>Model\<close>

type_synonym AckVisitor = "QuicConnectionStateBase \<Rightarrow> OutstandingPacket \<Rightarrow> QuicWriteFrame \<Rightarrow> ReadAckFrame \<Rightarrow> QuicConnectionStateBase res"

record AckEvent =
  ae_ackTime :: int
  ae_adjustedAckTime :: int
  ae_ackDelay :: int
  ae_packetNumberSpace :: PacketNumberSpace
  ae_largestAckedPacket :: PacketNum
  ae_ackedBytes :: nat
  ae_totalBytesAcked :: nat
  ae_largestNewlyAckedPacket :: "PacketNum option"
  ae_largestNewlyAckedPacketSentTime :: int
  ae_largestNewlyAckedPacketAppLimited :: bool
  ae_rttSample :: "int option"
  ae_rttSampleNoAckDelay :: "int option"
  ae_implicit :: bool
  ae_ackedPackets :: "AckPacket list"

text \<open>The local variables of the walk.\<close>

record AckWalk =
  aw_conn :: Connection
  aw_ack :: AckEvent
  aw_dsrPacketsAcked :: nat
  aw_lastAckedPacketSentTime :: "int option"
  aw_packets :: "(OutstandingPacket \<times> bool) list"

subsection \<open>A packet that was declared lost\<close>

definition spuriousFrame :: "QuicWriteFrame \<Rightarrow> QuicConnectionStateBase \<Rightarrow> QuicConnectionStateBase res" where
  "spuriousFrame frame conn = (case frame of
      WF_Stream f \<Rightarrow> (case findStream (ws_streamId f) (conn_streamManager conn) of
          None \<Rightarrow> Inr conn
        | Some stream \<Rightarrow>
            rbind (updateAckedIntervals (ws_offset f) (ws_len f) (ws_fin f)
                     (removeFromLossBuffer (ws_offset f) (ws_len f) (ws_fin f) stream)) (\<lambda>stream.
            rbind (updateWritable conn stream) (\<lambda>(conn, stream).
              Inr (updManager (\<lambda>m. m\<lparr>sm_streams := (sm_streams m)(ws_streamId f \<mapsto> stream)\<rparr>) conn))))
    | _ \<Rightarrow> Inr conn)"

fun spuriousFrames :: "QuicWriteFrame list \<Rightarrow> QuicConnectionStateBase \<Rightarrow> QuicConnectionStateBase res" where
  "spuriousFrames [] conn = Inr conn"
| "spuriousFrames (f # fs) conn = rbind (spuriousFrame f conn) (spuriousFrames fs)"

definition spuriousLoss :: "OutstandingPacket \<Rightarrow> Connection \<Rightarrow> Connection res" where
  "spuriousLoss p conn =
     (let os = cn_outstandings conn; lt = cn_lossSettings conn; ls = cn_lossState conn;
          ls = ls\<lparr>ls_totalPacketsSpuriouslyMarkedLost := add32 (ls_totalPacketsSpuriouslyMarkedLost ls) 1\<rparr>;
          ls = (case op_lossReorderDistance p of None \<Rightarrow> ls
            | Some d \<Rightarrow> if lt_useAdaptiveLossReorderingThresholds lt \<and> d > ls_reorderingThreshold ls
                then ls\<lparr>ls_reorderingThreshold := d\<rparr> else ls);
          lt' = (case op_lossTimeoutDividend p of None \<Rightarrow> lt
            | Some d \<Rightarrow> if lt_useAdaptiveLossTimeThresholds lt \<and> d > lt_timeReorderingThreshDividend lt
                then lt\<lparr>lt_timeReorderingThreshDividend := d\<rparr> else lt)
      in rbind (decrease (os_declaredLostCount os)) (\<lambda>n.
         rbind (if lt_removeFromLossBufferOnSpurious lt then spuriousFrames (op_frames p) (cn_base conn) else Inr (cn_base conn)) (\<lambda>base.
           Inr (conn\<lparr>cn_base := base, cn_outstandings := os\<lparr>os_declaredLostCount := n\<rparr>, cn_lossState := ls, cn_lossSettings := lt'\<rparr>))))"

subsection \<open>A packet that is acknowledged\<close>

text \<open>The round trip time is sampled for the largest acknowledged packet of the frame.\<close>

definition sampleRtt :: "ReadAckFrame \<Rightarrow> int \<Rightarrow> int \<Rightarrow> OutstandingPacket \<Rightarrow> Connection \<Rightarrow> AckEvent \<Rightarrow> (Connection \<times> AckEvent) res" where
  "sampleRtt frame ackReceiveTime now p conn ack =
     (if ae_implicit ack \<or> op_packetNum p \<noteq> ra_largestAcked frame then Inr (conn, ack)
      else let sample = (if ackReceiveTime > op_time p then ackReceiveTime else now) - op_time p;
               delay = int (ra_ackDelay frame)
           in if sample = 0 then Inr (conn, ack)
              else rbind (check (ae_rttSample ack = None)) (\<lambda>_. rbind (check (ae_rttSampleNoAckDelay ack = None)) (\<lambda>_.
                Inr (updateRtt conn sample delay,
                     ack\<lparr>ae_rttSample := Some sample, ae_rttSampleNoAckDelay := (if sample \<ge> delay then Some (sample - delay) else None)\<rparr>))))"

text \<open>The vector of packets to process is kept in descending order of packet number.\<close>

definition emplaceAcked :: "OutstandingPacket \<times> bool \<Rightarrow> (OutstandingPacket \<times> bool) list \<Rightarrow> (OutstandingPacket \<times> bool) list" where
  "emplaceAcked x xs =
     (let k = length (dropWhile (\<lambda>y. \<not> op_packetNum (fst y) > op_packetNum (fst x)) (rev xs)) in take k xs @ x # drop k xs)"

definition noteAcked :: "ReadAckFrame \<Rightarrow> int \<Rightarrow> OutstandingPacket \<Rightarrow> Connection \<Rightarrow> AckEvent \<Rightarrow> Connection \<times> AckEvent" where
  "noteAcked frame ackReceiveTime p conn ack =
     (let n = op_packetNum p;
          ack = (if ae_largestNewlyAckedPacket ack = None \<or> the (ae_largestNewlyAckedPacket ack) < n
                 then ack\<lparr>ae_largestNewlyAckedPacket := Some n, ae_largestNewlyAckedPacketSentTime := op_time p,
                          ae_largestNewlyAckedPacketAppLimited := op_isAppLimited p\<rparr> else ack)
      in if ae_implicit ack then (conn, ack)
         else let ls = cn_lossState conn;
                  acked = add64 (ls_totalBytesAcked ls) (op_encodedSize p);
                  ls = ls\<lparr>ls_totalBytesAcked := acked, ls_totalBytesSentAtLastAck := ls_totalBytesSent ls,
                          ls_totalBytesAckedAtLastAck := acked,
                          ls_totalBodyBytesAcked := add64 (ls_totalBodyBytesAcked ls) (op_encodedBodySize p),
                          ls_lastAckedTime := Some ackReceiveTime,
                          ls_adjustedLastAckedTime := Some (ackReceiveTime - int (ra_ackDelay frame))\<rparr>
              in (conn\<lparr>cn_lossState := ls\<rparr>, ack\<lparr>ae_totalBytesAcked := acked\<rparr>))"

definition ackPacket :: "ReadAckFrame \<Rightarrow> int \<Rightarrow> int \<Rightarrow> OutstandingPacket \<Rightarrow> AckWalk \<Rightarrow> AckWalk res" where
  "ackPacket frame ackReceiveTime now p w =
     (let conn = aw_conn w; os = cn_outstandings conn; s = op_space p; needs = needsProcess os p; ack = aw_ack w
      in rbind (if needs then decreaseAt s (os_packetCount os) else Inr (os_packetCount os)) (\<lambda>count.
         rbind (if op_associatedEvent p \<noteq> None then decreaseAt s (os_clonedPacketCount os) else Inr (os_clonedPacketCount os)) (\<lambda>cloned.
         rbind (sampleRtt frame ackReceiveTime now p conn (ack\<lparr>ae_ackedBytes := add64 (ae_ackedBytes ack) (op_encodedSize p)\<rparr>)) (\<lambda>(conn, ack).
           let os = os\<lparr>os_packetCount := count, os_clonedPacketCount := cloned,
                       os_packetEvents := os_packetEvents os - set_option (op_associatedEvent p)\<rparr>;
               (conn, ack) = noteAcked frame ackReceiveTime p (conn\<lparr>cn_outstandings := os\<rparr>) ack
           in Inr (w\<lparr>aw_conn := conn, aw_ack := ack,
                     aw_dsrPacketsAcked := aw_dsrPacketsAcked w + (if op_isDSRPacket p then 1 else 0),
                     aw_lastAckedPacketSentTime := (if aw_lastAckedPacketSentTime w = None \<and> \<not> ae_implicit ack then Some (op_time p)
                       else aw_lastAckedPacketSentTime w),
                     aw_packets := emplaceAcked (p, needs) (aw_packets w)\<rparr>)))))"

subsection \<open>The walk\<close>

text \<open>The inner loop on one block: \<open>todo\<close> are the packets from the current position down, \<open>kept\<close> the packets
  above that stay. What is neither is erased, in batches.\<close>

fun ackBlockLoop :: "ReadAckFrame \<Rightarrow> int \<Rightarrow> int \<Rightarrow> PacketNumberSpace \<Rightarrow> AckBlock \<Rightarrow> OutstandingPacket list \<Rightarrow> OutstandingPacket list \<Rightarrow> AckWalk \<Rightarrow>
    (OutstandingPacket list \<times> OutstandingPacket list \<times> AckWalk) res" where
  "ackBlockLoop frame t now s b [] kept w = Inr ([], kept, w)"
| "ackBlockLoop frame t now s b (p # todo) kept w =
     (if op_space p \<noteq> s then ackBlockLoop frame t now s b todo (p # kept) w
      else if op_packetNum p < ab_startPacket b then Inr (p # todo, kept, w)
      else if op_declaredLost p
      then rbind (spuriousLoss p (aw_conn w)) (\<lambda>conn. ackBlockLoop frame t now s b todo kept (w\<lparr>aw_conn := conn\<rparr>))
      else rbind (ackPacket frame t now p w) (ackBlockLoop frame t now s b todo kept))"

fun ackBlocksWalk :: "ReadAckFrame \<Rightarrow> int \<Rightarrow> int \<Rightarrow> PacketNumberSpace \<Rightarrow> AckBlock list \<Rightarrow> OutstandingPacket list \<Rightarrow> OutstandingPacket list \<Rightarrow> AckWalk \<Rightarrow>
    (OutstandingPacket list \<times> AckWalk) res" where
  "ackBlocksWalk frame t now s [] todo kept w = Inr (rev todo @ kept, w)"
| "ackBlocksWalk frame t now s (b # bs) todo kept w =
     (let k = lower_bound (\<lambda>p. op_packetNum p > ab_endPacket b) todo
      in if k = length todo then Inr (rev todo @ kept, w)
         else rbind (ackBlockLoop frame t now s b (drop k todo) (rev (take k todo) @ kept) w) (\<lambda>(todo, kept, w).
                ackBlocksWalk frame t now s bs todo kept w))"

definition ackWalk :: "ReadAckFrame \<Rightarrow> int \<Rightarrow> int \<Rightarrow> PacketNumberSpace \<Rightarrow> OutstandingPacket list \<Rightarrow> AckWalk \<Rightarrow> (OutstandingPacket list \<times> AckWalk) res" where
  "ackWalk frame t now s ps w =
     (let k = getLastOutstandingPacketIncludingLost ps s
      in ackBlocksWalk frame t now s (ra_ackBlocks frame) (drop k (rev ps)) (rev (take k (rev ps))) w)"

subsection \<open>The frames of the acknowledged packets\<close>

definition newStreamDetails :: AckStreamDetails where
  "newStreamDetails = \<lparr>sd_streamBytesAcked = 0, sd_streamBytesAckedByRetrans = 0, sd_streamPacketIdx = None,
     sd_maybeNewDeliveryOffset = None, sd_dupAckedStreamIntervals = emptyIntervalSet\<rparr>"

definition streamDetails :: "StreamId \<Rightarrow> (StreamId \<times> AckStreamDetails) list \<Rightarrow> AckStreamDetails" where
  "streamDetails i ds = value_or (map_of ds i) newStreamDetails"

definition packetIdx :: "WriteStreamFrame \<Rightarrow> AckStreamDetails \<Rightarrow> AckStreamDetails" where
  "packetIdx f d = (if ws_fromBufMeta f then d\<lparr>sd_streamPacketIdx := Some (ws_streamPacketIdx f)\<rparr> else d)"

definition recordFrameDelivered ::
  "WriteStreamFrame \<Rightarrow> bool \<Rightarrow> (StreamId \<times> AckStreamDetails) list \<Rightarrow> (StreamId \<times> AckStreamDetails) list" where
  "recordFrameDelivered f retransmission ds =
     (if ws_len f = 0 then ds
      else let d = streamDetails (ws_streamId f) ds;
               d = d\<lparr>sd_streamBytesAcked := add64 (sd_streamBytesAcked d) (ws_len f)\<rparr>;
               d = (if retransmission then d\<lparr>sd_streamBytesAckedByRetrans := add64 (sd_streamBytesAckedByRetrans d) (ws_len f)\<rparr> else d)
           in AList.update (ws_streamId f) (packetIdx f d) ds)"

definition recordFrameAlreadyDelivered ::
  "WriteStreamFrame \<Rightarrow> (StreamId \<times> AckStreamDetails) list \<Rightarrow> (StreamId \<times> AckStreamDetails) list res" where
  "recordFrameAlreadyDelivered f ds =
     (if ws_len f = 0 then Inr ds
      else let d = streamDetails (ws_streamId f) ds
           in rbind (iset_insert_range (ws_offset f) (sub64 (add64 (ws_offset f) (ws_len f)) 1) (sd_dupAckedStreamIntervals d)) (\<lambda>v.
                Inr (AList.update (ws_streamId f) (packetIdx f (d\<lparr>sd_dupAckedStreamIntervals := v\<rparr>)) ds)))"

definition recordDeliveryOffsetUpdate ::
  "StreamId \<Rightarrow> nat \<Rightarrow> (StreamId \<times> AckStreamDetails) list \<Rightarrow> (StreamId \<times> AckStreamDetails) list res" where
  "recordDeliveryOffsetUpdate i newOffset ds =
     (let d = streamDetails i ds
      in rbind (check (case sd_maybeNewDeliveryOffset d of None \<Rightarrow> True | Some m \<Rightarrow> m < newOffset)) (\<lambda>_.
           Inr (AList.update i (d\<lparr>sd_maybeNewDeliveryOffset := Some newOffset\<rparr>) ds)))"

definition isRetransmission :: "OutstandingPacket \<Rightarrow> WriteStreamFrame \<Rightarrow> bool" where
  "isRetransmission p f = (case op_firstNewStreamByte p (ws_streamId f) of None \<Rightarrow> False
     | Some None \<Rightarrow> True | Some (Some n) \<Rightarrow> n > ws_offset f)"

text \<open>The stream is compared before and after the visitor ran; a visitor changes streams and does not
  remove them.\<close>

definition ackFrame :: "AckVisitor \<Rightarrow> ReadAckFrame \<Rightarrow> OutstandingPacket \<Rightarrow> QuicWriteFrame \<Rightarrow>
    QuicConnectionStateBase \<times> (StreamId \<times> AckStreamDetails) list \<Rightarrow> (QuicConnectionStateBase \<times> (StreamId \<times> AckStreamDetails) list) res" where
  "ackFrame visitor frame p f st = (case st of (base, ds) \<Rightarrow>
     rbind (visitor base p f frame) (\<lambda>base'.
       case f of
         WF_Stream sf \<Rightarrow> (case findStream (ws_streamId sf) (conn_streamManager base) of
             None \<Rightarrow> Inr (base', ds)
           | Some s \<Rightarrow>
               let s' = value_or (findStream (ws_streamId sf) (conn_streamManager base')) s
               in if getAckIntervalSetVersion s \<noteq> getAckIntervalSetVersion s'
                  then let ds = recordFrameDelivered sf (isRetransmission p sf) ds
                       in if getLargestDeliverableOffset s \<noteq> getLargestDeliverableOffset s'
                          then rbind (check (getLargestDeliverableOffset s' \<noteq> None)) (\<lambda>_.
                               rbind (recordDeliveryOffsetUpdate (ws_streamId sf) (the (getLargestDeliverableOffset s')) ds) (\<lambda>ds. Inr (base', ds)))
                          else Inr (base', ds)
                  else rbind (recordFrameAlreadyDelivered sf ds) (\<lambda>ds. Inr (base', ds)))
       | _ \<Rightarrow> Inr (base', ds)))"

fun ackFrames :: "AckVisitor \<Rightarrow> ReadAckFrame \<Rightarrow> OutstandingPacket \<Rightarrow> bool \<Rightarrow> QuicWriteFrame list \<Rightarrow>
    QuicConnectionStateBase \<times> (StreamId \<times> AckStreamDetails) list \<Rightarrow> (QuicConnectionStateBase \<times> (StreamId \<times> AckStreamDetails) list) res" where
  "ackFrames visitor frame p processAll [] st = Inr st"
| "ackFrames visitor frame p processAll (f # fs) st =
     (if \<not> processAll \<and> \<not> (\<exists>a. f = WF_Ack a) then ackFrames visitor frame p processAll fs st
      else rbind (ackFrame visitor frame p f st) (ackFrames visitor frame p processAll fs))"

fun ackedPackets :: "AckVisitor \<Rightarrow> ReadAckFrame \<Rightarrow> (PacketNum \<rightharpoonup> nat) \<Rightarrow> (OutstandingPacket \<times> bool) list \<Rightarrow> QuicConnectionStateBase \<Rightarrow>
    (QuicConnectionStateBase \<times> AckPacket list) res" where
  "ackedPackets visitor frame stamps [] base = Inr (base, [])"
| "ackedPackets visitor frame stamps ((p, processAll) # ps) base =
     rbind (ackFrames visitor frame p processAll (op_frames p) (base, [])) (\<lambda>(base, ds).
     rbind (ackedPackets visitor frame stamps ps base) (\<lambda>(base, as).
       Inr (base, \<lparr>ap_packetNum = op_packetNum p, ap_time = op_time p, ap_detailsPerStream = ds,
                   ap_receiveTimeStamp = stamps (op_packetNum p)\<rparr> # as)))"

text \<open>\<^verbatim>\<open>parseAckReceiveTimestamps\<close>: the receive times of packets that are still outstanding, at most as many
  as were asked for. Both loops end by returning.\<close>

fun timestampDeltas :: "nat \<Rightarrow> PacketNum \<Rightarrow> nat list \<Rightarrow> PacketNum \<times> nat \<times> (PacketNum \<rightharpoonup> nat) \<Rightarrow> bool \<times> PacketNum \<times> nat \<times> (PacketNum \<rightharpoonup> nat)" where
  "timestampDeltas limit first [] (n, t, m) = (False, n, t, m)"
| "timestampDeltas limit first (d # ds) (n, t, m) =
     (if n < first \<or> card (dom m) \<ge> limit then (True, n, t, m)
      else let t = sub64 t d in timestampDeltas limit first ds (n - 1, t, m(n \<mapsto> t)))"

fun timestampRanges :: "nat \<Rightarrow> PacketNum \<Rightarrow> RecvdPacketsTimestampsRange list \<Rightarrow> PacketNum \<times> nat \<times> (PacketNum \<rightharpoonup> nat) \<Rightarrow> PacketNum \<rightharpoonup> nat" where
  "timestampRanges limit first [] (n, t, m) = m"
| "timestampRanges limit first (r # rs) (n, t, m) =
     (let (stop, n, t, m) = timestampDeltas limit first (tr_deltas r) (sub64 n (tr_gap r), t, m)
      in if stop then m else timestampRanges limit first rs (n - 1, t, m))"

definition parseAckReceiveTimestamps :: "LossSettings \<Rightarrow> ReadAckFrame \<Rightarrow> PacketNum option \<Rightarrow> PacketNum \<rightharpoonup> nat" where
  "parseAckReceiveTimestamps lt frame firstPacketNum =
     (case (lt_maxReceiveTimestampsPerAck lt, ra_maybeLatestRecvdPacketNum frame, firstPacketNum, ra_recvdPacketsTimestampRanges frame) of
        (Some limit, Some n, Some first, r # rs) \<Rightarrow>
          if ra_frameType frame \<noteq> FT_ACK_RECEIVE_TIMESTAMPS \<or> tr_deltas r = [] \<or> n < first then Map.empty
          else timestampRanges limit first (r # rs) (n, mul64 2 (hd (tr_deltas r)), Map.empty)
      | _ \<Rightarrow> Map.empty)"

subsection \<open>Old lost packets\<close>

text \<open>The loop of \<^verbatim>\<open>clearOldOutstandingPackets\<close>: it erases the old lost packets of the space up to the first
  packet of the space that stays.\<close>

fun clearOldLoop :: "int \<Rightarrow> int \<Rightarrow> PacketNumberSpace \<Rightarrow> OutstandingPacket list \<Rightarrow> nat \<Rightarrow> (OutstandingPacket list \<times> nat) res" where
  "clearOldLoop t threshold s [] lost = Inr ([], lost)"
| "clearOldLoop t threshold s (p # ps) lost =
     (if t < op_time p then Inr (p # ps, lost)
      else if op_space p \<noteq> s then rbind (clearOldLoop t threshold s ps lost) (\<lambda>(ps, lost). Inr (p # ps, lost))
      else if op_declaredLost p \<and> t - op_time p > threshold
      then rbind (decrease lost) (clearOldLoop t threshold s ps)
      else Inr (p # ps, lost))"

definition clearOldOutstandingPackets :: "int \<Rightarrow> PacketNumberSpace \<Rightarrow> Connection \<Rightarrow> Connection res" where
  "clearOldOutstandingPackets t s conn =
     (let os = cn_outstandings conn
      in if os_declaredLostCount os = 0 then Inr conn
         else rbind (clearOldLoop t (calculatePTO conn) s (os_packets os) (os_declaredLostCount os)) (\<lambda>(ps, lost).
                Inr (conn\<lparr>cn_outstandings := os\<lparr>os_packets := ps, os_declaredLostCount := lost\<rparr>\<rparr>)))"

subsection \<open>The whole\<close>

definition newAckEvent :: "PacketNumberSpace \<Rightarrow> ReadAckFrame \<Rightarrow> bool \<Rightarrow> int \<Rightarrow> AckEvent" where
  "newAckEvent s frame implicit t =
     \<lparr>ae_ackTime = t, ae_adjustedAckTime = t - int (ra_ackDelay frame), ae_ackDelay = int (ra_ackDelay frame), ae_packetNumberSpace = s,
      ae_largestAckedPacket = ra_largestAcked frame, ae_ackedBytes = 0, ae_totalBytesAcked = 0, ae_largestNewlyAckedPacket = None,
      ae_largestNewlyAckedPacketSentTime = 0, ae_largestNewlyAckedPacketAppLimited = False, ae_rttSample = None,
      ae_rttSampleNoAckDelay = None, ae_implicit = implicit, ae_ackedPackets = []\<rparr>"

text \<open>The counters after the walk.\<close>

definition settleAcked :: "OutstandingPacket list \<Rightarrow> AckWalk \<Rightarrow> Connection res" where
  "settleAcked ps w =
     (let conn = setPackets ps (aw_conn w); os = cn_outstandings conn
      in rbind (check (aw_dsrPacketsAcked w \<le> os_dsrCount os)) (\<lambda>_.
           let os = os\<lparr>os_dsrCount := os_dsrCount os - aw_dsrPacketsAcked w\<rparr>
           in rbind (numOutstanding os) (\<lambda>n. rbind (check (numClonedPackets os \<le> n)) (\<lambda>_.
                Inr (conn\<lparr>cn_outstandings := os\<rparr>)))))"

definition processAckFrame ::
  "AckVisitor \<Rightarrow> LossVisitor \<Rightarrow> Connection \<Rightarrow> PacketNumberSpace \<Rightarrow> ReadAckFrame \<Rightarrow> bool \<Rightarrow> int \<Rightarrow> int \<Rightarrow>
   (AckEvent \<times> LossEvent option \<times> Connection) res" where
  "processAckFrame ackVisitor lossVisitor conn s frame implicit ackReceiveTime now =
     (let ps = os_packets (cn_outstandings conn);
          first = getFirstOutstandingPacket ps PNS_AppData;
          firstPacketNum = (if first < length ps then Some (op_packetNum (ps ! first)) else None)
      in rbind (ackWalk frame ackReceiveTime now s ps
           \<lparr>aw_conn = conn, aw_ack = newAckEvent s frame implicit ackReceiveTime, aw_dsrPacketsAcked = 0,
            aw_lastAckedPacketSentTime = None, aw_packets = []\<rparr>) (\<lambda>(ps, w).
         let conn = aw_conn w;
             stamps = (if s = PNS_AppData then parseAckReceiveTimestamps (cn_lossSettings conn) frame firstPacketNum else Map.empty)
         in rbind (ackedPackets ackVisitor frame stamps (rev (aw_packets w)) (cn_base conn)) (\<lambda>(base, acked).
            let ls = cn_lossState conn;
                ls = (case aw_lastAckedPacketSentTime w of None \<Rightarrow> ls | Some t \<Rightarrow> ls\<lparr>ls_lastAckedPacketSentTime := Some t\<rparr>);
                ack = (aw_ack w)\<lparr>ae_ackedPackets := acked\<rparr>
            in rbind (settleAcked ps (w\<lparr>aw_conn := conn\<lparr>cn_base := base, cn_lossState := ls\<rparr>\<rparr>)) (\<lambda>conn.
               rbind (handleAckForLoss lossVisitor conn s (ae_largestNewlyAckedPacket ack) ackReceiveTime acked) (\<lambda>(ev, conn).
                 let pto = (if conn_srtt (cn_base conn) = 0 then None else Some (calculatePTO conn))
                 in rbind (case ev of None \<Rightarrow> Inr None
                    | Some e \<Rightarrow> (case (le_smallestLostSentTime e, le_largestLostSentTime e) of
                        (Some a, Some b) \<Rightarrow> Inr (Some (e\<lparr>le_persistentCongestion := isPersistentCongestion pto a b acked\<rparr>))
                      | _ \<Rightarrow> Inl CheckFailed)) (\<lambda>ev.
                    rbind (clearOldOutstandingPackets ackReceiveTime s conn) (\<lambda>conn. Inr (ack, ev, conn))))))))"

text \<open>The acknowledgement of an acknowledgement.\<close>

definition kAckPurgingThresh :: nat where "kAckPurgingThresh = 10"

definition commonAckVisitorForAckFrame :: "IntervalSet \<Rightarrow> WriteAckFrame \<Rightarrow> IntervalSet" where
  "commonAckVisitorForAckFrame acks frame =
     (let acks = fold (\<lambda>b. iset_withdraw \<lparr>iv_start = ab_startPacket b, iv_end = ab_endPacket b\<rparr>) (rev (wa_ackBlocks frame)) acks
      in case wa_ackBlocks frame of [] \<Rightarrow> acks
         | b # _ \<Rightarrow> if ab_endPacket b > kAckPurgingThresh
             then iset_withdraw \<lparr>iv_start = 0, iv_end = ab_endPacket b - kAckPurgingThresh\<rparr> acks else acks)"

end
