(* ===== verification/Recovery.thy ===== *)
theory Recovery
  imports Ack_Processing
begin

text \<open>
  The bookkeeping of outstanding packets is exact. The counters of the connection are functions of the
  list of outstanding packets and of the set of packet events; every operation keeps this, so that no
  check on a counter can fail. Acknowledgement and loss detection treat exactly the packets they should.
\<close>

section \<open>The counters\<close>

definition live :: "OutstandingPacket \<Rightarrow> bool" where
  "live p \<longleftrightarrow> \<not> op_declaredLost p"

definition plainIn :: "PacketNumberSpace \<Rightarrow> OutstandingPacket \<Rightarrow> bool" where
  "plainIn s p \<longleftrightarrow> live p \<and> op_space p = s \<and> op_associatedEvent p = None"

definition clonedIn :: "PacketNumberSpace \<Rightarrow> OutstandingPacket \<Rightarrow> bool" where
  "clonedIn s p \<longleftrightarrow> live p \<and> op_space p = s \<and> op_associatedEvent p \<noteq> None"

definition eventsIn :: "PacketNumberSpace \<Rightarrow> PacketEvent set \<Rightarrow> PacketEvent set" where
  "eventsIn s E = {e \<in> E. fst e = s}"

definition events_ok :: "OutstandingPacket list \<Rightarrow> PacketEvent set \<Rightarrow> bool" where
  "events_ok ps E \<longleftrightarrow> finite E \<and>
     (\<forall>e \<in> E. \<exists>p \<in> set ps. live p \<and> op_associatedEvent p = Some e \<and> e = (op_space p, op_packetNum p)) \<and>
     (\<forall>p \<in> set ps. \<forall>e. op_associatedEvent p = Some e \<longrightarrow> fst e = op_space p)"

text \<open>The counters of \<open>os\<close> describe the packets \<open>ps\<close>.\<close>

definition counts_ok :: "OutstandingPacket list \<Rightarrow> OutstandingsInfo \<Rightarrow> bool" where
  "counts_ok ps os \<longleftrightarrow> events_ok ps (os_packetEvents os) \<and>
     os_declaredLostCount os = length (filter op_declaredLost ps) \<and>
     os_dsrCount os = length (filter (\<lambda>p. live p \<and> op_isDSRPacket p) ps) \<and>
     os_clonedPacketCount os = (\<lambda>s. length (filter (clonedIn s) ps)) \<and>
     os_packetCount os = (\<lambda>s. length (filter (plainIn s) ps) + card (eventsIn s (os_packetEvents os)))"

text \<open>A live packet leaves.\<close>

definition forget :: "OutstandingPacket \<Rightarrow> OutstandingsInfo \<Rightarrow> OutstandingsInfo" where
  "forget p os = os\<lparr>
     os_dsrCount := os_dsrCount os - (if op_isDSRPacket p then 1 else 0),
     os_clonedPacketCount := (if op_associatedEvent p \<noteq> None
       then (os_clonedPacketCount os)(op_space p := os_clonedPacketCount os (op_space p) - 1) else os_clonedPacketCount os),
     os_packetCount := (if needsProcess os p then (os_packetCount os)(op_space p := os_packetCount os (op_space p) - 1) else os_packetCount os),
     os_packetEvents := os_packetEvents os - set_option (op_associatedEvent p)\<rparr>"

lemma events_ok_forget:
  assumes "events_ok (xs @ p # ys) E" "live p"
  shows "events_ok (xs @ ys) (E - set_option (op_associatedEvent p))"
proof -
  have "\<exists>q \<in> set (xs @ ys). live q \<and> op_associatedEvent q = Some e \<and> e = (op_space q, op_packetNum q)"
    if e: "e \<in> E - set_option (op_associatedEvent p)" for e
  proof -
    obtain q where q: "q \<in> set (xs @ p # ys)" "live q" "op_associatedEvent q = Some e" "e = (op_space q, op_packetNum q)"
      using assms(1) e unfolding events_ok_def by blast
    moreover have "q \<noteq> p" using q(3) e by auto
    ultimately show ?thesis by auto
  qed
  then show ?thesis using assms(1) by (auto simp: events_ok_def)
qed

lemma eventsIn_card:
  assumes "finite E" "e \<in> E"
  shows "card (eventsIn s (E - {e})) = card (eventsIn s E) - (if fst e = s then 1 else 0)" "fst e = s \<Longrightarrow> 0 < card (eventsIn s E)"
proof -
  have f: "finite (eventsIn s E)" using assms(1) by (simp add: eventsIn_def)
  have "eventsIn s (E - {e}) = eventsIn s E - {e}" "e \<in> eventsIn s E \<longleftrightarrow> fst e = s" using assms(2) by (auto simp: eventsIn_def)
  then show "card (eventsIn s (E - {e})) = card (eventsIn s E) - (if fst e = s then 1 else 0)"
    using f by (simp add: card_Diff_singleton_if)
  show "fst e = s \<Longrightarrow> 0 < card (eventsIn s E)" using \<open>e \<in> eventsIn s E \<longleftrightarrow> fst e = s\<close> f by (auto simp: card_gt_0_iff)
qed

lemma forget_ok:
  assumes c: "counts_ok (xs @ p # ys) os" and l: "live p"
  shows "counts_ok (xs @ ys) (forget p os)"
    "op_isDSRPacket p \<Longrightarrow> 0 < os_dsrCount os" "op_associatedEvent p \<noteq> None \<Longrightarrow> 0 < os_clonedPacketCount os (op_space p)"
    "needsProcess os p \<Longrightarrow> 0 < os_packetCount os (op_space p)"
proof -
  define E where "E = os_packetEvents os"
  have c': "events_ok (xs @ p # ys) E" "os_declaredLostCount os = length (filter op_declaredLost (xs @ p # ys))"
    "os_dsrCount os = length (filter (\<lambda>p. live p \<and> op_isDSRPacket p) (xs @ p # ys))"
    "os_clonedPacketCount os = (\<lambda>s. length (filter (clonedIn s) (xs @ p # ys)))"
    "os_packetCount os = (\<lambda>s. length (filter (plainIn s) (xs @ p # ys)) + card (eventsIn s E))"
    using c unfolding counts_ok_def E_def by blast+
  have fin: "finite E" using c'(1) by (simp add: events_ok_def)
  have sp: "fst e = op_space p" if "op_associatedEvent p = Some e" for e
    using c'(1) that unfolding events_ok_def by (metis in_set_conv_decomp)
  show "op_isDSRPacket p \<Longrightarrow> 0 < os_dsrCount os" using l by (simp add: c'(3))
  show "op_associatedEvent p \<noteq> None \<Longrightarrow> 0 < os_clonedPacketCount os (op_space p)" using l by (simp add: c'(4) clonedIn_def)
  show pos: "0 < os_packetCount os (op_space p)" if n: "needsProcess os p"
  proof (cases "op_associatedEvent p")
    case None
    then show ?thesis using l by (simp add: c'(5) plainIn_def)
  next
    case (Some e)
    then have "e \<in> E" using n by (simp add: needsProcess_def E_def)
    then show ?thesis using eventsIn_card(2) [OF fin _ sp [OF Some]] by (simp add: c'(5))
  qed
  have count: "os_packetCount (forget p os) = (\<lambda>s. length (filter (plainIn s) (xs @ ys)) + card (eventsIn s (E - set_option (op_associatedEvent p))))"
  proof (cases "op_associatedEvent p")
    case None
    then show ?thesis using l by (auto simp: forget_def needsProcess_def c'(5) plainIn_def fun_eq_iff)
  next
    case (Some e)
    show ?thesis
    proof (cases "e \<in> E")
      case True
      have "os_packetCount (forget p os) = (os_packetCount os)(op_space p := os_packetCount os (op_space p) - 1)"
        using True Some by (simp add: forget_def needsProcess_def E_def)
      moreover have "0 < card (eventsIn (op_space p) E)" by (rule eventsIn_card(2) [OF fin True sp [OF Some]])
      ultimately show ?thesis using Some eventsIn_card(1) [OF fin True] sp [OF Some] by (auto simp: c'(5) plainIn_def fun_eq_iff)
    next
      case False
      then show ?thesis using Some by (simp add: forget_def needsProcess_def E_def [symmetric] c'(5) plainIn_def)
    qed
  qed
  show "counts_ok (xs @ ys) (forget p os)"
    unfolding counts_ok_def
  proof (intro conjI)
    show "events_ok (xs @ ys) (os_packetEvents (forget p os))" using events_ok_forget [OF c'(1) l] by (simp add: forget_def E_def)
    show "os_declaredLostCount (forget p os) = length (filter op_declaredLost (xs @ ys))" using c'(2) l by (simp add: forget_def live_def)
    show "os_dsrCount (forget p os) = length (filter (\<lambda>p. live p \<and> op_isDSRPacket p) (xs @ ys))" using c'(3) l by (simp add: forget_def)
    show "os_clonedPacketCount (forget p os) = (\<lambda>s. length (filter (clonedIn s) (xs @ ys)))"
      using l by (auto simp: forget_def c'(4) clonedIn_def fun_eq_iff)
    show "os_packetCount (forget p os) = (\<lambda>s. length (filter (plainIn s) (xs @ ys)) + card (eventsIn s (os_packetEvents (forget p os))))"
      using count by (simp add: forget_def E_def)
  qed
qed

text \<open>A lost packet is only counted as lost.\<close>

lemma lost_not_in:
  assumes "op_declaredLost p"
  shows "\<not> plainIn s p" "\<not> clonedIn s p" "\<not> live p"
  using assms by (simp_all add: plainIn_def clonedIn_def live_def)

lemma events_ok_lost:
  assumes "op_declaredLost p" "\<forall>e. op_associatedEvent p = Some e \<longrightarrow> fst e = op_space p"
  shows "events_ok (xs @ p # ys) E \<longleftrightarrow> events_ok (xs @ ys) E"
  using assms by (auto simp: events_ok_def live_def)

lemma counts_ok_lost:
  assumes "op_declaredLost p" "\<forall>e. op_associatedEvent p = Some e \<longrightarrow> fst e = op_space p"
  shows "counts_ok (xs @ p # ys) (os\<lparr>os_declaredLostCount := Suc n\<rparr>) \<longleftrightarrow> counts_ok (xs @ ys) (os\<lparr>os_declaredLostCount := n\<rparr>)"
  using assms by (simp add: counts_ok_def events_ok_lost lost_not_in)

lemma counts_ok_lost_pos:
  assumes "counts_ok (xs @ p # ys) os" "op_declaredLost p"
  shows "0 < os_declaredLostCount os" "counts_ok (xs @ ys) (os\<lparr>os_declaredLostCount := os_declaredLostCount os - 1\<rparr>)"
proof -
  show pos: "0 < os_declaredLostCount os" using assms by (simp add: counts_ok_def)
  have e: "\<forall>e. op_associatedEvent p = Some e \<longrightarrow> fst e = op_space p"
    using assms(1) unfolding counts_ok_def events_ok_def by (metis in_set_conv_decomp)
  have "os = os\<lparr>os_declaredLostCount := Suc (os_declaredLostCount os - 1)\<rparr>" using pos by simp
  with assms(1) have "counts_ok (xs @ p # ys) (os\<lparr>os_declaredLostCount := Suc (os_declaredLostCount os - 1)\<rparr>)" by metis
  then show "counts_ok (xs @ ys) (os\<lparr>os_declaredLostCount := os_declaredLostCount os - 1\<rparr>)"
    using counts_ok_lost [OF assms(2) e] by blast
qed

section \<open>Failures\<close>

text \<open>A computation ends well in \<open>P\<close> or with one of the exceptions in \<open>X\<close>.\<close>

definition ends :: "quic_exn set \<Rightarrow> ('a \<Rightarrow> bool) \<Rightarrow> 'a res \<Rightarrow> bool" where
  "ends X P r \<longleftrightarrow> (case r of Inl e \<Rightarrow> e \<in> X | Inr x \<Rightarrow> P x)"

lemma ends_simps [simp]: "ends X P (Inr x) \<longleftrightarrow> P x" "ends X P (Inl e) \<longleftrightarrow> e \<in> X"
  by (simp_all add: ends_def)

lemma ends_bind:
  assumes "ends X Q m" "\<And>x. m = Inr x \<Longrightarrow> Q x \<Longrightarrow> ends X P (f x)"
  shows "ends X P (rbind m f)"
  using assms by (cases m) auto

lemma ends_mono: "ends X P r \<Longrightarrow> (\<And>x. P x \<Longrightarrow> Q x) \<Longrightarrow> ends X Q r"
  by (auto simp: ends_def split: sum.splits)

lemma ends_errors: "(\<And>e. r = Inl e \<Longrightarrow> e \<in> X) \<Longrightarrow> ends X (\<lambda>_. True) r"
  by (auto simp: ends_def split: sum.splits)

text \<open>A component whose events only fail where its environment lets them fail: in a good state, an event of
  the environment leads to a good state or to one of the exceptions that the environment itself raised.\<close>

locale faithful_system =
  fixes enabled :: "'e \<Rightarrow> 's \<Rightarrow> bool" and exec :: "'e \<Rightarrow> 's \<Rightarrow> 's res" and raised :: "'e \<Rightarrow> 's \<Rightarrow> quic_exn set" and good_state :: "'s \<Rightarrow> bool"
  assumes step_ends: "good_state s \<Longrightarrow> enabled e s \<Longrightarrow> ends (raised e s) good_state (exec e s)"
begin

lemma step_keeps: "good_state s \<Longrightarrow> enabled e s \<Longrightarrow> exec e s = Inr s' \<Longrightarrow> good_state s'"
  using step_ends [of s e] by simp

lemma step_outcome: "good_state s \<Longrightarrow> enabled e s \<Longrightarrow> (\<exists>s'. exec e s = Inr s') \<or> (\<exists>x \<in> raised e s. exec e s = Inl x)"
  using step_ends [of s e] by (cases "exec e s") auto

lemma step_succeeds: "good_state s \<Longrightarrow> enabled e s \<Longrightarrow> raised e s = {} \<Longrightarrow> \<exists>s'. exec e s = Inr s'"
  using step_outcome by blast

end

definition visitor_errors :: "LossVisitor \<Rightarrow> quic_exn set" where
  "visitor_errors v = {e. \<exists>c p b. v c p b = Inl e}"

section \<open>Losses\<close>

definition behind :: "LossParams \<Rightarrow> OutstandingPacket \<Rightarrow> nat" where
  "behind lp p = (case reorderDistance lp p of Inl _ \<Rightarrow> 0 | Inr d \<Rightarrow> d)"

definition markLost :: "LossParams \<Rightarrow> nat \<Rightarrow> int \<Rightarrow> OutstandingPacket \<Rightarrow> OutstandingPacket" where
  "markLost lp threshold divisor p = p\<lparr>op_declaredLost := True,
     op_lossTimeoutDividend := (if lostByTimeout lp p \<and> lp_rttSample lp > 0
       then Some ((lp_lossTime lp - op_time p) * divisor div lp_rttSample lp) else op_lossTimeoutDividend p),
     op_lossReorderDistance := (if behind lp p > threshold then Some (behind lp p mod 2 ^ 32) else op_lossReorderDistance p)\<rparr>"

lemma markLost_simps [simp]:
  "op_packetNum (markLost lp t d p) = op_packetNum p" "op_space (markLost lp t d p) = op_space p"
  "op_associatedEvent (markLost lp t d p) = op_associatedEvent p" "op_declaredLost (markLost lp t d p)"
  "op_isDSRPacket (markLost lp t d p) = op_isDSRPacket p" "op_frames (markLost lp t d p) = op_frames p"
  "op_encodedSize (markLost lp t d p) = op_encodedSize p" "op_protectionType (markLost lp t d p) = op_protectionType p"
  "op_time (markLost lp t d p) = op_time p"
  by (simp_all add: markLost_def op_space_def)

text \<open>What an operation on the outstanding packets leaves as it is.\<close>

definition loss_kept :: "Connection \<Rightarrow> Connection \<Rightarrow> bool" where
  "loss_kept c c' \<longleftrightarrow> cn_lossSettings c' = cn_lossSettings c \<and> cn_ackStates c' = cn_ackStates c \<and>
     ls_reorderingThreshold (cn_lossState c') = ls_reorderingThreshold (cn_lossState c) \<and> os_packets (cn_outstandings c') = os_packets (cn_outstandings c)"

lemma loss_kept_trans: "loss_kept a b \<Longrightarrow> loss_kept b c \<Longrightarrow> loss_kept a c"
  by (simp add: loss_kept_def)

lemma loss_kept_refl [simp]: "loss_kept c c"
  by (simp add: loss_kept_def)

lemma decrease_ok: "0 < n \<Longrightarrow> decrease n = Inr (n - 1)" "0 < c s \<Longrightarrow> decreaseAt s c = Inr (c(s := c s - 1))"
  by (simp_all add: decrease_def decreaseAt_def)

lemma addLostPacket_ok:
  assumes "le_lostBytes ev + op_encodedSize p \<le> u64_max"
  shows "\<exists>ev'. addLostPacket p ev = Inr ev' \<and> le_lostBytes ev' = le_lostBytes ev + op_encodedSize p \<and>
    le_lostPacketNumbers ev' = le_lostPacketNumbers ev @ [op_packetNum p] \<and> le_largestLostPacketNum ev' \<noteq> None \<and>
    le_smallestLostSentTime ev' \<noteq> None \<and> le_largestLostSentTime ev' \<noteq> None"
  using assms by (auto simp: addLostPacket_def Let_def)

lemma declareLost_ok:
  assumes c: "counts_ok (xs @ p # ys) (cn_outstandings conn)" and l: "live p" "op_space p = lp_space lp"
    and b: "le_lostBytes ev + op_encodedSize p \<le> u64_max" and X: "visitor_errors visitor \<subseteq> X" and d: "d = behind lp p"
  defines "p' \<equiv> markLost lp (ls_reorderingThreshold (cn_lossState conn)) (lt_timeReorderingThreshDivisor (cn_lossSettings conn)) p"
  shows "ends X (\<lambda>(q, conn', ev'). q = p' \<and> counts_ok (xs @ p' # ys) (cn_outstandings conn') \<and> loss_kept conn conn' \<and>
      le_lostBytes ev' = le_lostBytes ev + op_encodedSize p \<and> le_lostPacketNumbers ev' = le_lostPacketNumbers ev @ [op_packetNum p] \<and>
      le_smallestLostSentTime ev' \<noteq> None \<and> le_largestLostSentTime ev' \<noteq> None)
    (declareLost visitor lp d p conn ev)"
proof -
  define os where "os = cn_outstandings conn"
  define os' where "os' = (forget p os)\<lparr>os_declaredLostCount := Suc (os_declaredLostCount os)\<rparr>"
  define processed where "processed = (case op_associatedEvent p of None \<Rightarrow> False | Some e \<Rightarrow> e \<notin> os_packetEvents os)"
  have pr: "processed \<longleftrightarrow> \<not> needsProcess os p" by (auto simp: processed_def needsProcess_def split: option.split)
  note f = forget_ok [OF c l(1), folded os_def]
  have dsr: "(if op_isDSRPacket p then decrease (os_dsrCount os) else Inr (os_dsrCount os)) = Inr (os_dsrCount (forget p os))"
    using f(2) by (simp add: decrease_ok forget_def)
  have cl: "(if op_associatedEvent p \<noteq> None then decreaseAt (lp_space lp) (os_clonedPacketCount os) else Inr (os_clonedPacketCount os)) =
      Inr (os_clonedPacketCount (forget p os))"
    using f(3) by (simp add: decrease_ok forget_def l(2) [symmetric])
  have pc: "(if processed then Inr (os_packetCount os) else decreaseAt (op_space p) (os_packetCount os)) = Inr (os_packetCount (forget p os))"
    using f(4) by (simp add: decrease_ok forget_def pr)
  have co: "counts_ok (xs @ p' # ys) os'"
  proof -
    have "\<forall>e. op_associatedEvent p' = Some e \<longrightarrow> fst e = op_space p'"
      using c unfolding counts_ok_def events_ok_def p'_def markLost_simps by (metis in_set_conv_decomp)
    moreover have "op_declaredLost p'" by (simp add: p'_def)
    moreover have "(forget p os)\<lparr>os_declaredLostCount := os_declaredLostCount os\<rparr> = forget p os" by (simp add: forget_def)
    ultimately show ?thesis using f(1) counts_ok_lost [of p' xs ys "os_declaredLostCount os" "forget p os"] by (simp add: os'_def)
  qed
  define q where "q = lossMetadata (lostByTimeout lp p \<and> lp_rttSample lp > 0) (d > ls_reorderingThreshold (cn_lossState conn)) lp
    (lt_timeReorderingThreshDivisor (cn_lossSettings conn)) d p"
  have q: "q\<lparr>op_declaredLost := True\<rparr> = p'" "op_encodedSize q = op_encodedSize p" "op_packetNum q = op_packetNum p"
    by (simp_all add: q_def p'_def markLost_def lossMetadata_def d Let_def)
  obtain ev' where ev: "addLostPacket q ev = Inr ev'" "le_lostBytes ev' = le_lostBytes ev + op_encodedSize p"
    "le_lostPacketNumbers ev' = le_lostPacketNumbers ev @ [op_packetNum p]" "le_smallestLostSentTime ev' \<noteq> None" "le_largestLostSentTime ev' \<noteq> None"
    using addLostPacket_ok [of ev q] b unfolding q(2,3) by blast
  have o: "os\<lparr>os_dsrCount := os_dsrCount (forget p os), os_clonedPacketCount := os_clonedPacketCount (forget p os),
      os_packetCount := os_packetCount (forget p os), os_packetEvents := os_packetEvents os - set_option (op_associatedEvent p),
      os_declaredLostCount := os_declaredLostCount os + 1\<rparr> = os'"
    by (simp add: os'_def forget_def)
  have k: "os_packets os' = os_packets os" by (simp add: os'_def forget_def)
  have t: "ls_reorderingThreshold (lossTotals a c ls) = ls_reorderingThreshold ls" for a c ls by (simp add: lossTotals_def Let_def)
  show ?thesis
    unfolding declareLost_def Let_def os_def [symmetric] processed_def [symmetric] dsr cl pc rbind.simps q_def [symmetric] ev(1) q(1) o
    by (rule ends_bind [where Q = "\<lambda>_. True"])
      (use X co ev k in \<open>auto simp: visitor_errors_def loss_kept_def t os_def intro!: ends_errors\<close>)
qed

text \<open>The packets that loss detection looks at, and those that it declares lost.\<close>

definition candidate :: "LossParams \<Rightarrow> OutstandingPacket \<Rightarrow> bool" where
  "candidate lp p \<longleftrightarrow> live p \<and> op_space p = lp_space lp \<and> op_packetNum p < lp_largestAcked lp"

definition lostNow :: "LossParams \<Rightarrow> nat \<Rightarrow> OutstandingPacket \<Rightarrow> bool" where
  "lostNow lp threshold p \<longleftrightarrow> candidate lp p \<and> (lostByTimeout lp p \<or> behind lp p > threshold)"

definition markIf :: "LossParams \<Rightarrow> nat \<Rightarrow> int \<Rightarrow> OutstandingPacket \<Rightarrow> OutstandingPacket" where
  "markIf lp threshold divisor p = (if lostNow lp threshold p then markLost lp threshold divisor p else p)"

definition ev_ok :: "LossEvent \<Rightarrow> bool" where
  "ev_ok ev \<longleftrightarrow> (le_largestLostPacketNum ev \<noteq> None \<longrightarrow> le_smallestLostSentTime ev \<noteq> None \<and> le_largestLostSentTime ev \<noteq> None)"

definition sizes :: "OutstandingPacket list \<Rightarrow> nat" where
  "sizes ps = sum_list (map op_encodedSize ps)"

lemma sizes_simps [simp]: "sizes [] = 0" "sizes (p # ps) = op_encodedSize p + sizes ps" "sizes (xs @ ys) = sizes xs + sizes ys"
  by (simp_all add: sizes_def)

definition loss_result :: "LossParams \<Rightarrow> Connection \<Rightarrow> OutstandingPacket list \<Rightarrow> OutstandingPacket list \<Rightarrow> LossEvent \<Rightarrow> bool \<Rightarrow>
    OutstandingPacket list \<times> Connection \<times> LossEvent \<times> bool \<Rightarrow> bool" where
  "loss_result lp conn xs ps ev timer r \<longleftrightarrow> (case r of (qs, conn', ev', timer') \<Rightarrow>
     let threshold = ls_reorderingThreshold (cn_lossState conn); divisor = lt_timeReorderingThreshDivisor (cn_lossSettings conn)
     in qs = map (markIf lp threshold divisor) ps \<and> counts_ok (xs @ qs) (cn_outstandings conn') \<and> loss_kept conn conn' \<and>
        (timer' \<longleftrightarrow> timer \<or> (\<exists>p \<in> set ps. candidate lp p \<and> \<not> lostNow lp threshold p)) \<and>
        le_lostPacketNumbers ev' = le_lostPacketNumbers ev @ map op_packetNum (filter (lostNow lp threshold) ps) \<and> ev_ok ev')"

lemma lossLoop_ok:
  assumes "counts_ok (xs @ ps) (cn_outstandings conn)" "sorted (map op_packetNum ps)" "\<forall>p \<in> set ps. \<exists>d. reorderDistance lp p = Inr d"
    and "le_lostBytes ev + sizes ps \<le> u64_max" "visitor_errors visitor \<subseteq> X" "ev_ok ev"
  shows "ends X (loss_result lp conn xs ps ev timer) (lossLoop visitor lp ps conn ev timer)"
  using assms
proof (induction ps arbitrary: xs conn ev timer)
  case Nil
  then show ?case by (simp add: loss_result_def)
next
  case (Cons p ps)
  define th where "th = ls_reorderingThreshold (cn_lossState conn)"
  define dv where "dv = lt_timeReorderingThreshDivisor (cn_lossSettings conn)"
  have srt: "sorted (map op_packetNum ps)" and cmp: "\<forall>p \<in> set ps. \<exists>d. reorderDistance lp p = Inr d" using Cons.prems(2,3) by auto
  have dp: "reorderDistance lp p = Inr (behind lp p)" using Cons.prems(3) by (auto simp: behind_def)
  have c1: "counts_ok ((xs @ [p]) @ ps) (cn_outstandings conn)" using Cons.prems(1) by simp
  have keep: "ends X (loss_result lp conn xs (p # ps) ev timer) (rbind (lossLoop visitor lp ps conn ev t) (\<lambda>(ps, r). Inr (p # ps, r)))"
    if t: "\<not> lostNow lp th p" "t \<longleftrightarrow> timer \<or> candidate lp p" for t
  proof (rule ends_bind)
    show "ends X (loss_result lp conn (xs @ [p]) ps ev t) (lossLoop visitor lp ps conn ev t)"
      by (rule Cons.IH [OF c1 srt cmp]) (use Cons.prems(4-6) in auto)
  qed (use t in \<open>auto simp: loss_result_def Let_def th_def markIf_def\<close>)
  show ?case
  proof (cases "op_packetNum p \<ge> lp_largestAcked lp")
    case True
    then have "\<not> candidate lp q" if "q \<in> set (p # ps)" for q using that Cons.prems(2) by (auto simp: candidate_def)
    then have "map (markIf lp th dv) (p # ps) = p # ps" "filter (lostNow lp th) (p # ps) = []"
      by (auto simp: markIf_def lostNow_def filter_empty_conv intro!: map_idI)
    then show ?thesis using True Cons.prems(1,6) \<open>\<And>q. q \<in> set (p # ps) \<Longrightarrow> \<not> candidate lp q\<close>
      by (auto simp: loss_result_def Let_def th_def dv_def simp del: list.map filter.simps)
  next
    case below: False
    show ?thesis
    proof (cases "op_space p \<noteq> lp_space lp \<or> op_declaredLost p")
      case True
      then have "\<not> candidate lp p" by (auto simp: candidate_def live_def)
      then show ?thesis using below True keep [of timer] by (simp add: lostNow_def)
    next
      case False
      then have cand: "candidate lp p" "live p" "op_space p = lp_space lp" using below by (simp_all add: candidate_def live_def)
      show ?thesis
      proof (cases "lostByTimeout lp p \<or> behind lp p > th")
        case no: False
        then have "\<not> lostNow lp th p" by (simp add: lostNow_def)
        then show ?thesis using below False no keep [of True] cand(1) by (simp add: dp th_def)
      next
        case yes: True
        then have lost: "lostNow lp th p" using cand by (simp add: lostNow_def)
        let ?p = "markLost lp th dv p"
        have "ends X (loss_result lp conn xs (p # ps) ev timer)
          (rbind (declareLost visitor lp (behind lp p) p conn ev) (\<lambda>(p, conn, ev).
             rbind (lossLoop visitor lp ps conn ev timer) (\<lambda>(ps, r). Inr (p # ps, r))))"
        proof (rule ends_bind [OF declareLost_ok [OF Cons.prems(1) cand(2,3) _ Cons.prems(5) refl, folded th_def dv_def]], goal_cases)
          case 1
          then show ?case using Cons.prems(4) by simp
        next
          case (2 r)
          obtain conn1 ev1 where r: "r = (?p, conn1, ev1)" "counts_ok (xs @ ?p # ps) (cn_outstandings conn1)" "loss_kept conn conn1"
            "le_lostBytes ev1 = le_lostBytes ev + op_encodedSize p" "le_lostPacketNumbers ev1 = le_lostPacketNumbers ev @ [op_packetNum p]" "ev_ok ev1"
            using 2(2) by (cases r) (auto simp: ev_ok_def)
          have c2: "counts_ok ((xs @ [?p]) @ ps) (cn_outstandings conn1)" using r(2) by simp
          show ?case unfolding r(1) prod.case
          proof (rule ends_bind)
            show "ends X (loss_result lp conn1 (xs @ [?p]) ps ev1 timer) (lossLoop visitor lp ps conn1 ev1 timer)"
              by (rule Cons.IH [OF c2 srt cmp]) (use Cons.prems(4,5) r(4,6) in auto)
          qed (use r lost in \<open>auto simp: loss_result_def Let_def th_def dv_def markIf_def loss_kept_def\<close>)
        qed
        then show ?thesis using below False yes by (auto simp: dp th_def)
      qed
    qed
  qed
qed

section \<open>The invariant\<close>

text \<open>A packet that starts with delegated stream data is a packet of another sender, and early data is not.\<close>

definition packet_ok :: "OutstandingPacket \<Rightarrow> bool" where
  "packet_ok p \<longleftrightarrow> (\<forall>f fs. op_frames p = WF_Stream f # fs \<longrightarrow> ws_fromBufMeta f \<longrightarrow> op_isDSRPacket p) \<and>
     (op_protectionType p = PT_ZeroRtt \<longrightarrow> \<not> op_isDSRPacket p)"

definition list_ok :: "OutstandingPacket list \<Rightarrow> bool" where
  "list_ok ps \<longleftrightarrow> sorted (map op_packetNum ps) \<and> distinct (map (\<lambda>p. (op_space p, op_packetNum p)) ps) \<and> sizes ps \<le> u64_max \<and>
     (\<forall>p \<in> set ps. packet_ok p)"

definition os_inv :: "OutstandingsInfo \<Rightarrow> bool" where
  "os_inv os \<longleftrightarrow> counts_ok (os_packets os) os \<and> list_ok (os_packets os)"

lemma counts_ok_packets [simp]: "counts_ok ps (os\<lparr>os_packets := qs\<rparr>) = counts_ok ps os"
  by (simp add: counts_ok_def)

lemma markIf_simps [simp]:
  "op_packetNum (markIf lp t d p) = op_packetNum p" "op_space (markIf lp t d p) = op_space p" "packet_ok (markIf lp t d p) = packet_ok p"
  "op_encodedSize (markIf lp t d p) = op_encodedSize p"
  by (simp_all add: markIf_def packet_ok_def)

lemma list_ok_markIf [simp]: "list_ok (map (markIf lp t d) ps) = list_ok ps"
  by (simp add: list_ok_def sizes_def comp_def)

lemma list_ok_filter: "list_ok ps \<Longrightarrow> list_ok (filter P ps)"
proof -
  assume ok: "list_ok ps"
  have "sizes (filter P ps) \<le> sizes ps" by (induction ps) auto
  then show ?thesis using ok by (auto simp: list_ok_def distinct_map inj_on_def intro: sorted_filter order_trans)
qed

lemma os_inv_outstanding:
  assumes "os_inv os"
  shows "os_declaredLostCount os \<le> length (os_packets os)" "\<exists>n. numOutstanding os = Inr n \<and> n = length (filter live (os_packets os))"
    "numClonedPackets os \<le> length (filter live (os_packets os))"
proof -
  have c: "counts_ok (os_packets os) os" using assms by (simp add: os_inv_def)
  then have l: "os_declaredLostCount os = length (filter op_declaredLost (os_packets os))" by (simp add: counts_ok_def)
  have n: "length (filter live ps) + length (filter op_declaredLost ps) = length ps" for ps by (induction ps) (auto simp: live_def)
  show "os_declaredLostCount os \<le> length (os_packets os)" by (simp add: l)
  show "\<exists>n. numOutstanding os = Inr n \<and> n = length (filter live (os_packets os))"
    using n [of "os_packets os"] by (auto simp: numOutstanding_def l)
  have "length (filter (clonedIn PNS_Initial) ps) + length (filter (clonedIn PNS_Handshake) ps) + length (filter (clonedIn PNS_AppData) ps)
      \<le> length (filter live ps)" for ps
    by (induction ps) (auto simp: clonedIn_def)
  then show "numClonedPackets os \<le> length (filter live (os_packets os))" using c by (simp add: numClonedPackets_def counts_ok_def)
qed

definition comparable :: "LossParams \<Rightarrow> bool" where
  "comparable lp \<longleftrightarrow> (dom (lp_largestDsrAcked lp) = {} \<longrightarrow> lp_largestNonDsrAcked lp = Some (lp_largestAcked lp))"

lemma comparable_distance:
  assumes "comparable lp" "packet_ok p"
  shows "\<exists>d. reorderDistance lp p = Inr d"
proof -
  have "\<exists>r. largestAckedForComparison lp p = Inr r"
    using assms by (auto simp: largestAckedForComparison_def comparable_def packet_ok_def split: list.split QuicWriteFrame.split)
  then show ?thesis by (auto simp: reorderDistance_def Let_def)
qed

lemma lossParams_comparable [simp]: "comparable (lossParams conn n t s acked)"
  by (simp add: comparable_def lossParams_def Let_def split: prod.split)

lemma lossParams_simps [simp]:
  "lp_largestAcked (lossParams conn n t s acked) = n" "lp_space (lossParams conn n t s acked) = s" "lp_lossTime (lossParams conn n t s acked) = t"
  by (simp_all add: lossParams_def Let_def split: prod.split)

lemma process_ok:
  assumes inv: "os_inv (cn_outstandings conn)" and X: "visitor_errors visitor \<subseteq> X" and lp: "comparable lp" and ev: "ev_ok ev" "le_lostBytes ev = 0"
  defines "ps \<equiv> os_packets (cn_outstandings conn)" and "th \<equiv> ls_reorderingThreshold (cn_lossState conn)"
    and "dv \<equiv> lt_timeReorderingThreshDivisor (cn_lossSettings conn)"
  shows "ends X (\<lambda>(timer, conn', ev'). os_inv (cn_outstandings conn') \<and> os_packets (cn_outstandings conn') = map (markIf lp th dv) ps \<and>
      (timer \<longleftrightarrow> (\<exists>p \<in> set ps. candidate lp p \<and> \<not> lostNow lp th p)) \<and> cn_ackStates conn' = cn_ackStates conn \<and>
      le_lostPacketNumbers ev' = le_lostPacketNumbers ev @ map op_packetNum (filter (lostNow lp th) ps) \<and> ev_ok ev')
    (processOutstandingsForLoss visitor lp conn ev)"
proof -
  define k where "k = getFirstOutstandingPacket ps (lp_space lp)"
  have i: "counts_ok ps (cn_outstandings conn)" "list_ok ps" using inv by (simp_all add: os_inv_def ps_def)
  have tk: "take k ps = takeWhile (\<lambda>p. op_declaredLost p \<or> op_space p \<noteq> lp_space lp) ps"
    by (simp add: k_def getFirstOutstandingPacket_def getNextOutstandingPacket_def takeWhile_eq_take [symmetric])
  have nc: "\<not> candidate lp p" if "p \<in> set (take k ps)" for p
    using that unfolding tk by (auto simp: candidate_def live_def dest: set_takeWhileD)
  have fst: "map (markIf lp th dv) (take k ps) = take k ps" "filter (lostNow lp th) (take k ps) = []"
    using nc by (auto simp: markIf_def lostNow_def filter_empty_conv intro!: map_idI)
  have eq: "map (markIf lp th dv) ps = take k ps @ map (markIf lp th dv) (drop k ps)" 
    "filter (lostNow lp th) ps = filter (lostNow lp th) (drop k ps)"
    using fst by (metis append_take_drop_id map_append) (metis fst(2) append_take_drop_id filter_append append_Nil)
  have ex: "(\<exists>p \<in> set (drop k ps). candidate lp p \<and> \<not> lostNow lp th p) \<longleftrightarrow> (\<exists>p \<in> set ps. candidate lp p \<and> \<not> lostNow lp th p)"
    using nc by (metis Un_iff append_take_drop_id set_append)
  have loop: "ends X (loss_result lp conn (take k ps) (drop k ps) ev False) (lossLoop visitor lp (drop k ps) conn ev False)"
  proof (rule lossLoop_ok [OF _ _ _ _ X ev(1)])
    show "counts_ok (take k ps @ drop k ps) (cn_outstandings conn)" using i(1) by simp
    show "sorted (map op_packetNum (drop k ps))" using i(2) by (simp add: list_ok_def drop_map [symmetric] sorted_wrt_drop)
    show "\<forall>p \<in> set (drop k ps). \<exists>d. reorderDistance lp p = Inr d"
      using i(2) comparable_distance [OF lp] by (auto simp: list_ok_def dest: in_set_dropD)
    have "sizes ps = sizes (take k ps) + sizes (drop k ps)" by (metis append_take_drop_id sizes_simps(3))
    then show "le_lostBytes ev + sizes (drop k ps) \<le> u64_max" using i(2) ev(2) by (simp add: list_ok_def)
  qed
  show ?thesis
    unfolding processOutstandingsForLoss_def Let_def ps_def [symmetric] k_def [symmetric]
  proof (rule ends_bind [OF loop], goal_cases)
    case (1 r)
    obtain qs conn1 ev1 timer where r: "r = (qs, conn1, ev1, timer)" by (cases r) 
    have res: "take k ps @ qs = map (markIf lp th dv) ps" "counts_ok (take k ps @ qs) (cn_outstandings conn1)" "loss_kept conn conn1"
      "timer \<longleftrightarrow> (\<exists>p \<in> set ps. candidate lp p \<and> \<not> lostNow lp th p)"
      "le_lostPacketNumbers ev1 = le_lostPacketNumbers ev @ map op_packetNum (filter (lostNow lp th) ps)" "ev_ok ev1"
      using 1(2) unfolding r loss_result_def prod.case Let_def th_def [symmetric] dv_def [symmetric] ex eq by auto
    then show ?case using i(2) by (simp add: r setPackets_def os_inv_def loss_kept_def)
  qed
qed

lemma setLossTime_simps [simp]:
  "cn_outstandings (setLossTime s t conn) = cn_outstandings conn" "cn_ackStates (setLossTime s t conn) = cn_ackStates conn"
  "cn_lossSettings (setLossTime s t conn) = cn_lossSettings conn"
  "ls_reorderingThreshold (cn_lossState (setLossTime s t conn)) = ls_reorderingThreshold (cn_lossState conn)"
  "ls_lrtt (cn_lossState (setLossTime s t conn)) = ls_lrtt (cn_lossState conn)"
  "cn_base (setLossTime s t conn) = cn_base conn" "cn_congestionController (setLossTime s t conn) = cn_congestionController conn"
  "ls_lossTimes (cn_lossState (setLossTime s t conn)) = (ls_lossTimes (cn_lossState conn))(s := t)"
  by (simp_all add: setLossTime_def)

definition event_ok :: "LossEvent option \<Rightarrow> bool" where
  "event_ok ev \<longleftrightarrow> (\<forall>e. ev = Some e \<longrightarrow> le_smallestLostSentTime e \<noteq> None \<and> le_largestLostSentTime e \<noteq> None)"

lemma newLossEvent_ok [simp]: "ev_ok (newLossEvent t)" "le_lostBytes (newLossEvent t) = 0" "le_lostPacketNumbers (newLossEvent t) = []"
  by (simp_all add: ev_ok_def newLossEvent_def)

lemma detect_ok:
  assumes inv: "os_inv (cn_outstandings conn)" and X: "visitor_errors visitor \<subseteq> X"
  defines "ps \<equiv> os_packets (cn_outstandings conn)" and "th \<equiv> ls_reorderingThreshold (cn_lossState conn)"
    and "dv \<equiv> lt_timeReorderingThreshDivisor (cn_lossSettings conn)"
  shows "ends X (\<lambda>(ev, conn'). os_inv (cn_outstandings conn') \<and> cn_ackStates conn' = cn_ackStates conn \<and> event_ok ev \<and>
      os_packets (cn_outstandings conn') = (case largestAcked of None \<Rightarrow> ps
        | Some n \<Rightarrow> map (markIf (lossParams (setLossTime s None conn) n t s acked) th dv) ps))
    (detectLossPackets visitor conn largestAcked t s acked)"
proof -
  let ?conn = "setLossTime s None conn"
  define lp where "lp = lossParams ?conn (value_or largestAcked 0) t s acked"
  have "ends X (\<lambda>(timer, conn', ev'). os_inv (cn_outstandings conn') \<and> cn_ackStates conn' = cn_ackStates conn \<and> ev_ok ev' \<and>
      os_packets (cn_outstandings conn') = (case largestAcked of None \<Rightarrow> ps | Some n \<Rightarrow> map (markIf lp th dv) ps))
    (case largestAcked of None \<Rightarrow> Inr (False, ?conn, newLossEvent t) | Some _ \<Rightarrow> processOutstandingsForLoss visitor lp ?conn (newLossEvent t))"
  proof (cases largestAcked)
    case None
    then show ?thesis using inv by (simp add: ps_def)
  next
    case (Some n)
    have "comparable lp" by (simp add: lp_def)
    with process_ok [of ?conn visitor X lp "newLossEvent t"] inv X Some show ?thesis
      by (auto simp: ps_def th_def dv_def elim!: ends_mono)
  qed
  then show ?thesis
    unfolding detectLossPackets_def Let_def lp_def [symmetric]
  proof (rule ends_bind, goal_cases)
    case (1 r)
    obtain timer conn1 ev1 where r: "r = (timer, conn1, ev1)" by (cases r)
    define conn2 where "conn2 = (case find (\<lambda>p. \<not> op_declaredLost p \<and> op_space p = s \<and> needsProcess (cn_outstandings conn1) p)
        (os_packets (cn_outstandings conn1)) of
          None \<Rightarrow> conn1 | Some p \<Rightarrow> if timer then setLossTime s (Some (lp_delayUntilLost lp + op_time p)) conn1 else conn1)"
    have c2: "cn_outstandings conn2 = cn_outstandings conn1" "cn_ackStates conn2 = cn_ackStates conn1"
      by (simp_all add: conn2_def split: option.split)
    have lp': "largestAcked = Some n \<Longrightarrow> lossParams ?conn n t s acked = lp" for n by (simp add: lp_def value_or_def)
    show ?case unfolding r prod.case conn2_def [symmetric]
      using 1(2) c2 lp' by (auto simp: r event_ok_def ev_ok_def split: option.splits)
  qed
qed

text \<open>The packet numbers that the spaces use next.\<close>

definition nexts :: "Connection \<Rightarrow> PacketNumberSpace \<Rightarrow> PacketNum option" where
  "nexts conn s = map_option as_nextPacketNum (cn_ackStates conn s)"

lemma nexts_cong: "cn_ackStates conn' = cn_ackStates conn \<Longrightarrow> nexts conn' = nexts conn"
  by (simp add: nexts_def fun_eq_iff)

lemma nexts_update [simp]:
  "nexts (conn\<lparr>cn_setLossDetectionAlarm := a\<rparr>) = nexts conn" "nexts (conn\<lparr>cn_outstandings := os\<rparr>) = nexts conn"
  "nexts (conn\<lparr>cn_lossState := ls\<rparr>) = nexts conn" "nexts (conn\<lparr>cn_numProbePackets := m\<rparr>) = nexts conn"
  by (simp_all add: nexts_def fun_eq_iff)

lemma handleAck_ok:
  assumes inv: "os_inv (cn_outstandings conn)" and X: "visitor_errors visitor \<subseteq> X" and a: "cn_ackStates conn s \<noteq> None"
  shows "ends X (\<lambda>(ev, conn'). os_inv (cn_outstandings conn') \<and> event_ok ev \<and> nexts conn' = nexts conn \<and>
      map (\<lambda>p. (op_space p, op_packetNum p)) (os_packets (cn_outstandings conn')) = map (\<lambda>p. (op_space p, op_packetNum p)) (os_packets (cn_outstandings conn)))
    (handleAckForLoss visitor conn s newly t acked)"
proof -
  obtain st where st: "cn_ackStates conn s = Some st" using a by blast
  define conn1 where "conn1 = (case newly of None \<Rightarrow> conn
    | Some n \<Rightarrow> conn\<lparr>cn_lossState := (cn_lossState conn)\<lparr>ls_ptoCount := 0\<rparr>,
        cn_ackStates := (cn_ackStates conn)(s \<mapsto> st\<lparr>as_largestAckedByPeer := Some (max (value_or (as_largestAckedByPeer st) n) n)\<rparr>)\<rparr>)"
  have c1: "cn_outstandings conn1 = cn_outstandings conn" "nexts conn1 = nexts conn"
    using st by (auto simp: conn1_def nexts_def fun_eq_iff split: option.split)
  obtain st1 where st1: "getAckState conn1 s = Inr st1" using st by (cases newly) (auto simp: conn1_def getAckState_def)
  have g: "getAckState conn s = Inr st" by (simp add: getAckState_def st)
  show ?thesis
    unfolding handleAckForLoss_def g rbind.simps Let_def conn1_def [symmetric] st1
  proof (rule ends_bind [OF detect_ok [OF _ X]], goal_cases)
    case 1
    then show ?case using inv by (simp add: c1)
  next
    case (2 r)
    obtain ev conn2 where r: "r = (ev, conn2)" by (cases r)
    have c2: "os_inv (cn_outstandings conn2)" "cn_ackStates conn2 = cn_ackStates conn1" using 2(2) by (simp_all add: r)
    obtain n where "numOutstanding (cn_outstandings conn2) = Inr n" using os_inv_outstanding(2) [OF c2(1)] by blast
    moreover have "nexts conn2 = nexts conn" using nexts_cong [OF c2(2)] c1(2) by simp
    ultimately show ?case using 2(2) c1(1) by (auto simp: r split: option.splits)
  qed
qed

definition isZeroRtt :: "OutstandingPacket \<Rightarrow> bool" where
  "isZeroRtt p \<longleftrightarrow> live p \<and> op_protectionType p = PT_ZeroRtt"

lemma zeroRttLoop_ok:
  assumes "counts_ok (xs @ ps) (cn_outstandings conn)" "\<forall>p \<in> set ps. packet_ok p" "le_lostBytes ev + sizes ps \<le> u64_max"
    and "visitor_errors visitor \<subseteq> X"
  shows "ends X (\<lambda>(qs, conn', ev'). qs = filter (\<lambda>p. \<not> isZeroRtt p) ps \<and> counts_ok (xs @ qs) (cn_outstandings conn') \<and>
      cn_ackStates conn' = cn_ackStates conn) (zeroRttLoop visitor ps conn ev)"
  using assms
proof (induction ps arbitrary: xs conn ev)
  case Nil
  then show ?case by simp
next
  case (Cons p ps)
  show ?case
  proof (cases "isZeroRtt p")
    case False
    have "counts_ok ((xs @ [p]) @ ps) (cn_outstandings conn)" using Cons.prems(1) by simp
    note ih = Cons.IH [OF this, of ev]
    have "op_declaredLost p \<or> op_space p \<noteq> PNS_AppData \<or> op_protectionType p \<noteq> PT_ZeroRtt"
      using False by (auto simp: isZeroRtt_def live_def)
    then have x: "zeroRttLoop visitor (p # ps) conn ev = rbind (zeroRttLoop visitor ps conn ev) (\<lambda>(ps, r). Inr (p # ps, r))"
      by (simp only: zeroRttLoop.simps if_True)
    show ?thesis unfolding x by (rule ends_bind [OF ih]) (use Cons.prems(2-4) False in auto)
  next
    case True
    define os where "os = cn_outstandings conn"
    define processed where "processed = (case op_associatedEvent p of None \<Rightarrow> False | Some e \<Rightarrow> e \<notin> os_packetEvents os)"
    have p: "live p" "op_space p = PNS_AppData" "\<not> op_isDSRPacket p" "op_protectionType p = PT_ZeroRtt"
      using True Cons.prems(2) by (auto simp: isZeroRtt_def op_space_def packet_ok_def)
    have pr: "processed \<longleftrightarrow> \<not> needsProcess os p" by (auto simp: processed_def needsProcess_def split: option.split)
    note f = forget_ok [OF Cons.prems(1) p(1), folded os_def]
    have cl: "(if op_associatedEvent p \<noteq> None then decreaseAt PNS_AppData (os_clonedPacketCount os) else Inr (os_clonedPacketCount os)) =
        Inr (os_clonedPacketCount (forget p os))"
      using f(3) by (simp add: decrease_ok forget_def p(2))
    have pc: "(if processed then Inr (os_packetCount os) else decreaseAt PNS_AppData (os_packetCount os)) = Inr (os_packetCount (forget p os))"
      using f(4) by (simp add: decrease_ok forget_def pr p(2))
    obtain ev' where ev: "addLostPacket p ev = Inr ev'" "le_lostBytes ev' = le_lostBytes ev + op_encodedSize p"
      using addLostPacket_ok [of ev p] Cons.prems(3) by auto
    have o: "os\<lparr>os_clonedPacketCount := os_clonedPacketCount (forget p os), os_packetCount := os_packetCount (forget p os),
        os_packetEvents := os_packetEvents os - set_option (op_associatedEvent p)\<rparr> = forget p os"
      using p(3) by (simp add: forget_def)
    have go: "(op_declaredLost p \<or> op_space p \<noteq> PNS_AppData \<or> op_protectionType p \<noteq> PT_ZeroRtt) = False" using p by (simp add: live_def)
    show ?thesis
      unfolding zeroRttLoop.simps go if_False Let_def os_def [symmetric] processed_def [symmetric] cl pc rbind.simps ev(1) o
    proof (rule ends_bind [where Q = "\<lambda>_. True"])
      show "ends X (\<lambda>_. True) (visitor (cn_base conn) p processed)"
        by (rule ends_errors) (use Cons.prems(4) in \<open>auto simp: visitor_errors_def\<close>)
      fix base
      show "ends X (\<lambda>(qs, conn', ev'). qs = filter (\<lambda>p. \<not> isZeroRtt p) (p # ps) \<and> counts_ok (xs @ qs) (cn_outstandings conn') \<and>
          cn_ackStates conn' = cn_ackStates conn) (zeroRttLoop visitor ps (conn\<lparr>cn_base := base, cn_outstandings := forget p os\<rparr>) ev')"
        by (rule ends_mono [OF Cons.IH [of xs]]) (use f(1) Cons.prems(2-4) ev(2) True in auto)
    qed
  qed
qed

lemma zeroRtt_ok:
  assumes inv: "os_inv (cn_outstandings conn)" and X: "visitor_errors visitor \<subseteq> X"
  shows "ends X (\<lambda>conn'. os_inv (cn_outstandings conn') \<and> cn_ackStates conn' = cn_ackStates conn \<and>
    os_packets (cn_outstandings conn') = filter (\<lambda>p. \<not> isZeroRtt p) (os_packets (cn_outstandings conn)))
    (markZeroRttPacketsLost visitor now conn)"
proof -
  have i: "counts_ok ([] @ os_packets (cn_outstandings conn)) (cn_outstandings conn)" "list_ok (os_packets (cn_outstandings conn))"
    using inv by (simp_all add: os_inv_def)
  show ?thesis unfolding markZeroRttPacketsLost_def Let_def
    by (rule ends_bind [OF zeroRttLoop_ok [OF i(1) _ _ X]])
      (use i(2) list_ok_filter [OF i(2)] in \<open>auto simp: list_ok_def [of "os_packets (cn_outstandings conn)"] setPackets_def os_inv_def\<close>)
qed

lemma pto_ok:
  assumes inv: "os_inv (cn_outstandings conn)" and X: "visitor_errors markPacketLoss \<subseteq> X" "QuicInternalException LE_CONNECTION_ABANDONED \<in> X"
  shows "ends X (\<lambda>conn'. os_inv (cn_outstandings conn') \<and> cn_ackStates conn' = cn_ackStates conn \<and>
    set (os_packets (cn_outstandings conn')) \<subseteq> set (os_packets (cn_outstandings conn))) (onPTOAlarm now conn)"
  unfolding onPTOAlarm_def Let_def
  by (auto intro!: ends_bind [where Q = "\<lambda>conn'. os_inv (cn_outstandings conn') \<and> cn_ackStates conn' = cn_ackStates conn \<and>
      set (os_packets (cn_outstandings conn')) \<subseteq> set (os_packets (cn_outstandings conn))"] ends_mono [OF zeroRtt_ok] X(1) [THEN subsetD] simp: inv X(2))

lemma alarm_ok:
  assumes inv: "os_inv (cn_outstandings conn)" and timer: "ls_currentAlarmMethod (cn_lossState conn) = EarlyRetransmitOrReordering \<Longrightarrow>
      fst (earliestLossTimer conn) \<noteq> None \<and> cn_ackStates conn (snd (earliestLossTimer conn)) \<noteq> None"
    and X: "visitor_errors visitor \<subseteq> X" "visitor_errors markPacketLoss \<subseteq> X" "QuicInternalException LE_CONNECTION_ABANDONED \<in> X"
  shows "ends X (\<lambda>conn'. os_inv (cn_outstandings conn') \<and> cn_ackStates conn' = cn_ackStates conn \<and>
      (\<lambda>p. (op_space p, op_packetNum p)) ` set (os_packets (cn_outstandings conn')) \<subseteq>
      (\<lambda>p. (op_space p, op_packetNum p)) ` set (os_packets (cn_outstandings conn))) (onLossDetectionAlarm visitor now conn)"
proof -
  let ?P = "\<lambda>conn'. os_inv (cn_outstandings conn') \<and> cn_ackStates conn' = cn_ackStates conn \<and>
      (\<lambda>p. (op_space p, op_packetNum p)) ` set (os_packets (cn_outstandings conn')) \<subseteq>
      (\<lambda>p. (op_space p, op_packetNum p)) ` set (os_packets (cn_outstandings conn))"
  have fin: "ends X ?P (rbind (numOutstanding (cn_outstandings conn')) (\<lambda>n. Inr (conn'\<lparr>cn_setLossDetectionAlarm := 0 < n\<rparr>)))" if "?P conn'" for conn'
    using that os_inv_outstanding(2) [of "cn_outstandings conn'"] by auto
  have pto: "ends X ?P (onPTOAlarm now conn)" by (rule ends_mono [OF pto_ok [OF inv X(2,3)]]) blast
  have det: "ends X ?P (rbind (detectLossPackets visitor conn l now s []) (\<lambda>(_, conn). Inr conn))" for l s
    by (rule ends_bind [OF detect_ok [OF inv X(1)]]) (auto simp: image_image split: option.splits)
  show ?thesis
  proof (cases "ls_currentAlarmMethod (cn_lossState conn) = EarlyRetransmitOrReordering")
    case True
    obtain t s where ts: "earliestLossTimer conn = (t, s)" by (cases "earliestLossTimer conn")
    with timer [OF True] obtain a where a: "t \<noteq> None" "getAckState conn s = Inr a" by (auto simp: getAckState_def)
    show ?thesis unfolding onLossDetectionAlarm_def Let_def
      using inv True ts a by (auto simp: check_def intro!: ends_bind [OF det] fin)
  next
    case False
    then show ?thesis unfolding onLossDetectionAlarm_def using inv by (auto intro!: ends_bind [OF pto] fin)
  qed
qed

text \<open>An alarm that was set for a reordering has a time, so that the check of the alarm holds. With exact counters, setting
  the alarm does not fail.\<close>

lemma setLossDetectionAlarm_ok:
  assumes "os_inv (cn_outstandings conn)"
  shows "\<exists>conn' timeout'. setLossDetectionAlarm d now conn timeout = Inr (conn', timeout') \<and> cn_outstandings conn' = cn_outstandings conn \<and>
    (timeout' \<noteq> None \<and> ls_currentAlarmMethod (cn_lossState conn') = EarlyRetransmitOrReordering \<longrightarrow> fst (earliestLossTimer conn') \<noteq> None)"
proof -
  obtain n where n: "numOutstanding (cn_outstandings conn) = Inr n" using os_inv_outstanding(2) [OF assms] by blast
  obtain a m where c: "calculateAlarmDuration conn now = (a, m)" by (cases "calculateAlarmDuration conn now")
  then have "m = EarlyRetransmitOrReordering \<longrightarrow> fst (earliestLossTimer conn) \<noteq> None"
    by (auto simp: calculateAlarmDuration_def Let_def split: prod.splits option.splits)
  then show ?thesis using n c by (auto simp: setLossDetectionAlarm_def Let_def earliestLossTimer_def)
qed

section \<open>Acknowledgements\<close>

definition spurious_errors :: "quic_exn set" where
  "spurious_errors = {e. \<exists>fs c. spuriousFrames fs c = Inl e}"

text \<open>What a walk leaves as it is. The data of spuriously lost packets is only touched where the settings ask for it.\<close>

definition steady :: "Connection \<Rightarrow> (PacketNumberSpace \<Rightarrow> AckState option) \<times> bool" where
  "steady conn = (cn_ackStates conn, lt_removeFromLossBufferOnSpurious (cn_lossSettings conn))"

definition spurious_in :: "quic_exn set \<Rightarrow> Connection \<Rightarrow> bool" where
  "spurious_in X conn \<longleftrightarrow> (lt_removeFromLossBufferOnSpurious (cn_lossSettings conn) \<longrightarrow> spurious_errors \<subseteq> X)"

lemma spurious_in_steady: "steady conn' = steady conn \<Longrightarrow> spurious_in X conn' = spurious_in X conn"
  by (simp add: spurious_in_def steady_def)

lemma steady_update [simp]:
  "steady (conn\<lparr>cn_outstandings := os\<rparr>) = steady conn" "steady (conn\<lparr>cn_lossState := ls\<rparr>) = steady conn" "steady (conn\<lparr>cn_base := b\<rparr>) = steady conn"
  by (simp_all add: steady_def)

text \<open>During the walk the packets with delegated data that were acknowledged are still counted.\<close>

definition walk_counters :: "AckWalk \<Rightarrow> OutstandingsInfo" where
  "walk_counters w = (cn_outstandings (aw_conn w))\<lparr>os_dsrCount := os_dsrCount (cn_outstandings (aw_conn w)) - aw_dsrPacketsAcked w\<rparr>"

definition walk_ok :: "PacketNumberSpace \<Rightarrow> ReadAckFrame \<Rightarrow> OutstandingPacket list \<Rightarrow> AckWalk \<Rightarrow> bool" where
  "walk_ok s frame ps w \<longleftrightarrow> counts_ok ps (walk_counters w) \<and> aw_dsrPacketsAcked w \<le> os_dsrCount (cn_outstandings (aw_conn w)) \<and>
     (ae_rttSample (aw_ack w) \<noteq> None \<or> ae_rttSampleNoAckDelay (aw_ack w) \<noteq> None \<longrightarrow>
       (s, ra_largestAcked frame) \<notin> (\<lambda>p. (op_space p, op_packetNum p)) ` set ps)"

lemma updateRtt_frame [simp]: "cn_outstandings (updateRtt conn r d) = cn_outstandings conn" "steady (updateRtt conn r d) = steady conn"
  by (simp_all add: updateRtt_def Let_def)

lemma noteAcked_frame:
  assumes "noteAcked frame t p conn ack = (conn', ack')"
  shows "cn_outstandings conn' = cn_outstandings conn" "steady conn' = steady conn"
    "ae_rttSample ack' = ae_rttSample ack" "ae_rttSampleNoAckDelay ack' = ae_rttSampleNoAckDelay ack"
  using assms by (auto simp: noteAcked_def Let_def split: if_splits)

lemma sampleRtt_ok:
  assumes "op_packetNum p = ra_largestAcked frame \<longrightarrow> ae_rttSample ack = None \<and> ae_rttSampleNoAckDelay ack = None"
  shows "\<exists>conn' ack'. sampleRtt frame t now p conn ack = Inr (conn', ack') \<and> cn_outstandings conn' = cn_outstandings conn \<and>
    steady conn' = steady conn \<and>
    (op_packetNum p \<noteq> ra_largestAcked frame \<longrightarrow> ae_rttSample ack' = ae_rttSample ack \<and> ae_rttSampleNoAckDelay ack' = ae_rttSampleNoAckDelay ack)"
  using assms by (auto simp: sampleRtt_def Let_def)

lemma ackPacket_ok:
  assumes w: "walk_ok s frame (xs @ p # ys) w" and l: "live p" "op_space p = s"
    and d: "distinct (map (\<lambda>p. (op_space p, op_packetNum p)) (xs @ p # ys))"
  shows "\<exists>w'. ackPacket frame t now p w = Inr w' \<and> walk_ok s frame (xs @ ys) w' \<and> steady (aw_conn w') = steady (aw_conn w) \<and>
    aw_packets w' = emplaceAcked (p, needsProcess (cn_outstandings (aw_conn w)) p) (aw_packets w)"
proof -
  define os where "os = cn_outstandings (aw_conn w)"
  define n where "n = aw_dsrPacketsAcked w"
  have set: "walk_counters w = os\<lparr>os_dsrCount := os_dsrCount os - n\<rparr>" by (simp add: walk_counters_def os_def n_def)
  have c: "counts_ok (xs @ p # ys) (os\<lparr>os_dsrCount := os_dsrCount os - n\<rparr>)" "n \<le> os_dsrCount os"
    using w by (simp_all add: walk_ok_def set) (simp add: os_def n_def)
  note f = forget_ok [OF c(1) l(1)]
  have np: "needsProcess (os\<lparr>os_dsrCount := k\<rparr>) p = needsProcess os p" for k by (simp add: needsProcess_def cong: option.case_cong)
  have pc: "(if needsProcess os p then decreaseAt s (os_packetCount os) else Inr (os_packetCount os)) = Inr (os_packetCount (forget p os))"
    using f(4) by (simp add: decrease_ok forget_def l(2) np)
  have cl: "(if op_associatedEvent p \<noteq> None then decreaseAt s (os_clonedPacketCount os) else Inr (os_clonedPacketCount os)) =
      Inr (os_clonedPacketCount (forget p os))"
    using f(3) by (simp add: decrease_ok forget_def l(2))
  define os' where "os' = os\<lparr>os_packetCount := os_packetCount (forget p os), os_clonedPacketCount := os_clonedPacketCount (forget p os),
    os_packetEvents := os_packetEvents os - set_option (op_associatedEvent p)\<rparr>"
  define n' where "n' = n + (if op_isDSRPacket p then 1 else 0)"
  have fo: "forget p (os\<lparr>os_dsrCount := os_dsrCount os - n\<rparr>) = os'\<lparr>os_dsrCount := os_dsrCount os' - n'\<rparr>"
    by (simp add: forget_def os'_def n'_def np)
  have n': "n' \<le> os_dsrCount os'" using c(2) f(2) by (auto simp: n'_def os'_def Suc_le_eq)
  have key: "(s, op_packetNum p) \<notin> (\<lambda>p. (op_space p, op_packetNum p)) ` set (xs @ ys)" using d l(2) by auto
  let ?ack = "(aw_ack w)\<lparr>ae_ackedBytes := add64 (ae_ackedBytes (aw_ack w)) (op_encodedSize p)\<rparr>"
  have "op_packetNum p = ra_largestAcked frame \<longrightarrow> ae_rttSample ?ack = None \<and> ae_rttSampleNoAckDelay ?ack = None"
    using w l(2) by (auto simp: walk_ok_def)
  from sampleRtt_ok [OF this, of t now "aw_conn w"] obtain conn1 ack1 where r:
    "sampleRtt frame t now p (aw_conn w) ?ack = Inr (conn1, ack1)" "steady conn1 = steady (aw_conn w)"
    "op_packetNum p \<noteq> ra_largestAcked frame \<longrightarrow> ae_rttSample ack1 = ae_rttSample (aw_ack w) \<and> ae_rttSampleNoAckDelay ack1 = ae_rttSampleNoAckDelay (aw_ack w)"
    by auto
  obtain conn2 ack2 where nt: "noteAcked frame t p (conn1\<lparr>cn_outstandings := os'\<rparr>) ack1 = (conn2, ack2)"
    by (cases "noteAcked frame t p (conn1\<lparr>cn_outstandings := os'\<rparr>) ack1")
  note nf = noteAcked_frame [OF nt]
  define w' where "w' = w\<lparr>aw_conn := conn2, aw_ack := ack2, aw_dsrPacketsAcked := n',
    aw_lastAckedPacketSentTime := (if aw_lastAckedPacketSentTime w = None \<and> \<not> ae_implicit ack2 then Some (op_time p) else aw_lastAckedPacketSentTime w),
    aw_packets := emplaceAcked (p, needsProcess os p) (aw_packets w)\<rparr>"
  have x: "ackPacket frame t now p w = Inr w'"
    unfolding ackPacket_def Let_def os_def [symmetric] l(2) pc cl rbind.simps r(1) prod.case os'_def [symmetric] nt
    by (simp add: w'_def n'_def n_def)
  have "walk_counters w' = os'\<lparr>os_dsrCount := os_dsrCount os' - n'\<rparr>" using nf(1) by (simp add: walk_counters_def w'_def)
  then have "counts_ok (xs @ ys) (walk_counters w')" using f(1) by (simp add: fo)
  moreover have "(s, ra_largestAcked frame) \<notin> (\<lambda>p. (op_space p, op_packetNum p)) ` set (xs @ ys)"
    if "ae_rttSample ack2 \<noteq> None \<or> ae_rttSampleNoAckDelay ack2 \<noteq> None"
    using that w key r(3) nf(3,4) by (cases "op_packetNum p = ra_largestAcked frame") (auto simp: walk_ok_def)
  ultimately have "walk_ok s frame (xs @ ys) w'" using n' nf(1) by (simp add: walk_ok_def) (simp add: w'_def)
  with x nf(2) r(2) show ?thesis by (auto simp: w'_def os_def)
qed

lemma spurious_walk:
  assumes w: "walk_ok s frame (xs @ p # ys) w" and l: "op_declaredLost p" and X: "spurious_in X (aw_conn w)"
  shows "ends X (\<lambda>conn'. walk_ok s frame (xs @ ys) (w\<lparr>aw_conn := conn'\<rparr>) \<and> steady conn' = steady (aw_conn w)) (spuriousLoss p (aw_conn w))"
proof -
  define os where "os = cn_outstandings (aw_conn w)"
  have c: "counts_ok (xs @ p # ys) (walk_counters w)" using w by (simp add: walk_ok_def)
  note d = counts_ok_lost_pos [OF c l]
  have pos: "0 < os_declaredLostCount os" using d(1) by (simp add: walk_counters_def os_def)
  define os' where "os' = os\<lparr>os_declaredLostCount := os_declaredLostCount os - 1\<rparr>"
  have sub: "set (xs @ ys) \<subseteq> set (xs @ p # ys)" by auto
  have ok: "walk_ok s frame (xs @ ys) (w\<lparr>aw_conn := conn'\<rparr>)" if o: "cn_outstandings conn' = os'" for conn'
  proof -
    have "walk_counters (w\<lparr>aw_conn := conn'\<rparr>) = (walk_counters w)\<lparr>os_declaredLostCount := os_declaredLostCount (walk_counters w) - 1\<rparr>"
      using o by (simp add: walk_counters_def os'_def os_def)
    then have "counts_ok (xs @ ys) (walk_counters (w\<lparr>aw_conn := conn'\<rparr>))" using d(2) by simp
    moreover have "aw_dsrPacketsAcked w \<le> os_dsrCount os'" using w by (simp add: walk_ok_def os'_def os_def)
    ultimately show ?thesis using w o sub unfolding walk_ok_def by auto
  qed
  show ?thesis
    unfolding spuriousLoss_def Let_def os_def [symmetric] decrease_ok(1) [OF pos] rbind.simps os'_def [symmetric]
  proof (rule ends_bind [where Q = "\<lambda>_. True"], goal_cases)
    case 1
    show ?case by (rule ends_errors) (use X in \<open>auto simp: spurious_in_def spurious_errors_def split: if_splits\<close>)
  next
    case (2 base)
    show ?case unfolding ends_simps by (intro conjI ok) (simp_all add: steady_def split: option.split)
  qed
qed

text \<open>Data of a packet that was declared lost by mistake is counted as acknowledged, but the state machine of its
  stream does not run: a stream whose last missing data is acknowledged in this way stays open.\<close>

theorem spurious_ack_leaves_stream_open:
  assumes "findStream (ws_streamId f) (conn_streamManager conn) = Some s" "spuriousFrame (WF_Stream f) conn = Inr conn'"
  shows "\<exists>s'. findStream (ws_streamId f) (conn_streamManager conn') = Some s' \<and> sendState s' = sendState s \<and>
    updateAckedIntervals (ws_offset f) (ws_len f) (ws_fin f) (removeFromLossBuffer (ws_offset f) (ws_len f) (ws_fin f) s) = Inr s'"
proof -
  obtain s' where s': "updateAckedIntervals (ws_offset f) (ws_len f) (ws_fin f) (removeFromLossBuffer (ws_offset f) (ws_len f) (ws_fin f) s) = Inr s'"
    "findStream (ws_streamId f) (conn_streamManager conn') = Some s'"
    using assms by (auto simp: spuriousFrame_def updateWritable_def findStream_def updManager_def)
  moreover have "sendState s' = sendState (removeFromLossBuffer (ws_offset f) (ws_len f) (ws_fin f) s)"
    using s'(1) by (auto simp: updateAckedIntervals_def Let_def split: if_splits)
  moreover have "sendState (removeFromLossBuffer (ws_offset f) (ws_len f) (ws_fin f) s) = sendState s"
    by (simp add: removeFromLossBuffer_def Let_def)
  ultimately show ?thesis by auto
qed

end
