(* ===== verification/Recovery_Run.thy ===== *)
theory Recovery_Run
  imports Recovery
begin

text \<open>
  The walk over the acknowledged blocks removes exactly the packets that are acknowledged, and hands those
  that were not declared lost to the processing of their frames, in the order in which they were sent.
  Together with sending, cloning, loss detection and the timers this gives the states that the outstanding
  packets of a connection reach, in which every counter is exact.
\<close>

section \<open>The walk\<close>

abbreviation key :: "OutstandingPacket \<Rightarrow> PacketNumberSpace \<times> PacketNum" where
  "key p \<equiv> (op_space p, op_packetNum p)"

lemma emplaceAcked_last: "\<forall>y \<in> set xs. op_packetNum (fst x) < op_packetNum (fst y) \<Longrightarrow> emplaceAcked x xs = xs @ [x]"
proof -
  assume "\<forall>y \<in> set xs. op_packetNum (fst x) < op_packetNum (fst y)"
  then have "dropWhile (\<lambda>y. \<not> op_packetNum (fst y) > op_packetNum (fst x)) (rev xs) = rev xs"
    by (cases "rev xs") (auto simp: rev_eq_Cons_iff)
  then show ?thesis by (simp add: emplaceAcked_def)
qed

definition descending :: "OutstandingPacket list \<Rightarrow> bool" where
  "descending ps \<longleftrightarrow> sorted_wrt (\<lambda>p q. op_packetNum q \<le> op_packetNum p) ps"

lemma descending_simps [simp]:
  "descending []" "descending (p # ps) \<longleftrightarrow> (\<forall>q \<in> set ps. op_packetNum q \<le> op_packetNum p) \<and> descending ps"
  "descending (xs @ ys) \<longleftrightarrow> descending xs \<and> descending ys \<and> (\<forall>p \<in> set xs. \<forall>q \<in> set ys. op_packetNum q \<le> op_packetNum p)"
  by (auto simp: descending_def sorted_wrt_append)

text \<open>The packets collected so far are above the packets of the space that are still to come.\<close>

definition collected_above :: "PacketNumberSpace \<Rightarrow> AckWalk \<Rightarrow> OutstandingPacket list \<Rightarrow> bool" where
  "collected_above s w todo \<longleftrightarrow> (\<forall>q \<in> fst ` set (aw_packets w). \<forall>p \<in> set todo. op_space p = s \<longrightarrow> op_packetNum p < op_packetNum q)"

definition block_result :: "PacketNumberSpace \<Rightarrow> ReadAckFrame \<Rightarrow> AckBlock \<Rightarrow> OutstandingPacket list \<Rightarrow> OutstandingPacket list \<Rightarrow> AckWalk \<Rightarrow>
    OutstandingPacket list \<times> OutstandingPacket list \<times> AckWalk \<Rightarrow> bool" where
  "block_result s frame b todo kept w r \<longleftrightarrow> (case r of (todo', kept', w') \<Rightarrow> \<exists>mid. todo = mid @ todo' \<and>
     kept' = rev (filter (\<lambda>p. op_space p \<noteq> s) mid) @ kept \<and> (\<forall>p \<in> set mid. op_space p = s \<longrightarrow> ab_startPacket b \<le> op_packetNum p) \<and>
     (\<forall>p \<in> set todo'. op_packetNum p < ab_startPacket b) \<and> walk_ok s frame (rev todo' @ kept') w' \<and>
     map fst (aw_packets w') = map fst (aw_packets w) @ filter (\<lambda>p. live p \<and> op_space p = s) mid \<and>
     steady (aw_conn w') = steady (aw_conn w))"

lemma block_result_Cons:
  assumes "block_result s frame b todo kept' w' r" "steady (aw_conn w') = steady (aw_conn w)"
    and "map fst (aw_packets w') = map fst (aw_packets w) @ (if op_space p = s \<and> live p then [p] else [])"
    and "if op_space p \<noteq> s then kept' = p # kept else kept' = kept \<and> ab_startPacket b \<le> op_packetNum p"
  shows "block_result s frame b (p # todo) kept w r"
proof -
  obtain todo2 kept2 w2 mid where r: "r = (todo2, kept2, w2)" "todo = mid @ todo2" "kept2 = rev (filter (\<lambda>p. op_space p \<noteq> s) mid) @ kept'"
    "\<forall>p \<in> set mid. op_space p = s \<longrightarrow> ab_startPacket b \<le> op_packetNum p" "\<forall>p \<in> set todo2. op_packetNum p < ab_startPacket b"
    "walk_ok s frame (rev todo2 @ kept2) w2" "map fst (aw_packets w2) = map fst (aw_packets w') @ filter (\<lambda>p. live p \<and> op_space p = s) mid"
    "steady (aw_conn w2) = steady (aw_conn w')"
    using assms(1) unfolding block_result_def by (cases r) auto
  show ?thesis unfolding block_result_def r(1) prod.case
    by (intro exI [of _ "p # mid"] conjI) (use r assms(2-4) in \<open>auto split: if_splits\<close>)
qed

lemma below_in_space:
  assumes "distinct (map key (rev todo @ p # kept))" "\<forall>q \<in> set todo. op_packetNum q \<le> op_packetNum p" "q \<in> set todo" "op_space q = op_space p"
  shows "op_packetNum q < op_packetNum p"
proof -
  have "key p \<notin> key ` set todo" using assms(1) by simp
  with assms(3) have "key q \<noteq> key p" by (metis (no_types, lifting) image_eqI)
  moreover have "op_packetNum q \<le> op_packetNum p" using assms(2,3) by simp
  ultimately show ?thesis using assms(4) by auto
qed

lemma ackBlockLoop_ok:
  assumes "walk_ok s frame (rev todo @ kept) w" "distinct (map key (rev todo @ kept))" "descending todo" "collected_above s w todo"
    and X: "spurious_in X (aw_conn w)"
  shows "ends X (block_result s frame b todo kept w) (ackBlockLoop frame t now s b todo kept w)"
  using assms
proof (induction todo arbitrary: kept w)
  case Nil
  then show ?case by (simp add: block_result_def)
next
  case (Cons p todo)
  have w: "walk_ok s frame (rev todo @ p # kept) w" and d: "distinct (map key (rev todo @ p # kept))" using Cons.prems(1,2) by simp_all
  have desc: "descending todo" using Cons.prems(3) by simp
  have ca: "collected_above s w' todo" if "aw_packets w' = aw_packets w" for w' using Cons.prems(4) that by (auto simp: collected_above_def)
  consider "op_space p \<noteq> s" | "op_space p = s" "op_packetNum p < ab_startPacket b"
    | "op_space p = s" "ab_startPacket b \<le> op_packetNum p" "op_declaredLost p"
    | "op_space p = s" "ab_startPacket b \<le> op_packetNum p" "live p" by (fastforce simp: live_def)
  then show ?case
  proof cases
    case 1
    then show ?thesis using block_result_Cons [of s frame b todo "p # kept" w _ w p kept]
      by (simp add: ends_mono [OF Cons.IH [OF w d desc ca [OF refl] Cons.prems(5)]])
  next
    case 2
    then have "\<forall>q \<in> set (p # todo). op_packetNum q < ab_startPacket b" using Cons.prems(3) by auto
    then show ?thesis using 2 w by (auto simp: block_result_def)
  next
    case 3
    have sub: "distinct (map key (rev todo @ kept))" using d by auto
    have x: "ackBlockLoop frame t now s b (p # todo) kept w =
        rbind (spuriousLoss p (aw_conn w)) (\<lambda>conn. ackBlockLoop frame t now s b todo kept (w\<lparr>aw_conn := conn\<rparr>))" using 3 by simp
    show ?thesis unfolding x
    proof (rule ends_bind [OF spurious_walk [OF w 3(3) Cons.prems(5)]], goal_cases)
      case (1 conn)
      then have "walk_ok s frame (rev todo @ kept) (w\<lparr>aw_conn := conn\<rparr>)" by simp
      moreover have "spurious_in X (aw_conn (w\<lparr>aw_conn := conn\<rparr>))" using spurious_in_steady [of conn "aw_conn w" X] Cons.prems(5) 1(2) by simp
      ultimately have "ends X (block_result s frame b todo kept (w\<lparr>aw_conn := conn\<rparr>)) (ackBlockLoop frame t now s b todo kept (w\<lparr>aw_conn := conn\<rparr>))"
        by (intro Cons.IH sub desc ca) simp_all
      then show ?case
        by (rule ends_mono) (use 1 3 block_result_Cons [of s frame b todo kept "w\<lparr>aw_conn := conn\<rparr>" _ w p kept] in \<open>auto simp: live_def\<close>)
    qed
  next
    case 4
    have sub: "distinct (map key (rev todo @ kept))" using d by auto
    obtain w1 where w1: "ackPacket frame t now p w = Inr w1" "walk_ok s frame (rev todo @ kept) w1"
      "steady (aw_conn w1) = steady (aw_conn w)"
      "aw_packets w1 = emplaceAcked (p, needsProcess (cn_outstandings (aw_conn w)) p) (aw_packets w)"
      using ackPacket_ok [OF w 4(3,1) d] by blast
    have "\<forall>y \<in> set (aw_packets w). op_packetNum p < op_packetNum (fst y)" using Cons.prems(4) 4(1) by (auto simp: collected_above_def)
    then have aw: "aw_packets w1 = aw_packets w @ [(p, needsProcess (cn_outstandings (aw_conn w)) p)]"
      using emplaceAcked_last [of "aw_packets w" "(p, needsProcess (cn_outstandings (aw_conn w)) p)"] w1(4) by simp
    have below: "op_packetNum q < op_packetNum p" if "q \<in> set todo" "op_space q = s" for q
      by (rule below_in_space [OF d]) (use that 4(1) Cons.prems(3) in auto)
    have X1: "spurious_in X (aw_conn w1)" using spurious_in_steady [OF w1(3)] Cons.prems(5) by simp
    have "collected_above s w1 todo" using Cons.prems(4) below by (auto simp: collected_above_def aw)
    note ih = Cons.IH [OF w1(2) sub desc this X1]
    have x: "ackBlockLoop frame t now s b (p # todo) kept w = ackBlockLoop frame t now s b todo kept w1" using 4 w1(1) by (simp add: live_def)
    have "block_result s frame b (p # todo) kept w r" if "block_result s frame b todo kept w1 r" for r
      by (rule block_result_Cons [OF that w1(3)]) (use 4 in \<open>auto simp: aw\<close>)
    then show ?thesis unfolding x using ends_mono [OF ih] by blast
  qed
qed

definition ackedBy :: "PacketNumberSpace \<Rightarrow> AckBlock list \<Rightarrow> OutstandingPacket \<Rightarrow> bool" where
  "ackedBy s bs p \<longleftrightarrow> op_space p = s \<and> (\<exists>b \<in> set bs. ab_startPacket b \<le> op_packetNum p \<and> op_packetNum p \<le> ab_endPacket b)"

definition blocks_ok :: "AckBlock list \<Rightarrow> bool" where
  "blocks_ok bs \<longleftrightarrow> (\<forall>b \<in> set bs. ab_startPacket b \<le> ab_endPacket b) \<and> sorted_wrt (\<lambda>a b. ab_endPacket b < ab_startPacket a) bs"

lemma ackedBy_Cons: "ackedBy s (b # bs) p \<longleftrightarrow> (op_space p = s \<and> ab_startPacket b \<le> op_packetNum p \<and> op_packetNum p \<le> ab_endPacket b) \<or> ackedBy s bs p"
  by (auto simp: ackedBy_def)

lemma above_blocks:
  assumes "blocks_ok (b # bs)" "ab_endPacket b < op_packetNum p"
  shows "\<not> ackedBy s (b # bs) p"
  using assms by (fastforce simp: ackedBy_def blocks_ok_def)

definition walk_result :: "PacketNumberSpace \<Rightarrow> ReadAckFrame \<Rightarrow> AckBlock list \<Rightarrow> OutstandingPacket list \<Rightarrow> OutstandingPacket list \<Rightarrow> AckWalk \<Rightarrow>
    OutstandingPacket list \<times> AckWalk \<Rightarrow> bool" where
  "walk_result s frame bs todo kept w r \<longleftrightarrow> (case r of (ps, w') \<Rightarrow> ps = filter (\<lambda>p. \<not> ackedBy s bs p) (rev todo) @ kept \<and>
     walk_ok s frame ps w' \<and> map fst (aw_packets w') = map fst (aw_packets w) @ filter (\<lambda>p. live p \<and> ackedBy s bs p) todo \<and>
     steady (aw_conn w') = steady (aw_conn w))"

lemma filter_all: "(\<And>x. x \<in> set xs \<Longrightarrow> P x) \<Longrightarrow> filter P xs = xs"
  by (simp add: filter_id_conv)

lemma walk_result_none:
  assumes "walk_ok s frame (rev todo @ kept) w" "\<And>p. p \<in> set todo \<Longrightarrow> \<not> ackedBy s bs p"
  shows "walk_result s frame bs todo kept w (rev todo @ kept, w)"
  using assms by (auto simp: walk_result_def filter_all filter_empty_conv)

lemma walk_result_block:
  assumes blocks: "blocks_ok (b # bs)" and todo: "todo = hi @ mid @ lo" and hi: "\<forall>p \<in> set hi. ab_endPacket b < op_packetNum p"
    and mid: "\<forall>p \<in> set mid. op_packetNum p \<le> ab_endPacket b \<and> (op_space p = s \<longrightarrow> ab_startPacket b \<le> op_packetNum p)"
    and lo: "\<forall>p \<in> set lo. op_packetNum p < ab_startPacket b" and w1: "map fst (aw_packets w1) = map fst (aw_packets w) @ filter (\<lambda>p. live p \<and> op_space p = s) mid"
      "steady (aw_conn w1) = steady (aw_conn w)"
    and r: "walk_result s frame bs lo (rev (filter (\<lambda>p. op_space p \<noteq> s) mid) @ rev hi @ kept) w1 r"
  shows "walk_result s frame (b # bs) todo kept w r"
proof -
  have h: "\<not> ackedBy s (b # bs) p" if "p \<in> set hi" for p using above_blocks [OF blocks] hi that by blast
  have m: "ackedBy s (b # bs) p \<longleftrightarrow> op_space p = s" if "p \<in> set mid" for p using mid that by (auto simp: ackedBy_Cons) (auto simp: ackedBy_def)
  have l: "ackedBy s (b # bs) p \<longleftrightarrow> ackedBy s bs p" if "p \<in> set lo" for p using lo that by (auto simp: ackedBy_Cons)
  have "filter (\<lambda>p. \<not> ackedBy s (b # bs) p) (rev hi) = rev hi" "filter (\<lambda>p. live p \<and> ackedBy s (b # bs) p) hi = []"
    using h by (auto simp: filter_all filter_empty_conv)
  moreover have "filter (\<lambda>p. \<not> ackedBy s (b # bs) p) mid = filter (\<lambda>p. op_space p \<noteq> s) mid"
    by (rule filter_cong) (use m in auto)
  then have "filter (\<lambda>p. \<not> ackedBy s (b # bs) p) (rev mid) = rev (filter (\<lambda>p. op_space p \<noteq> s) mid)" by (simp add: rev_filter [symmetric])
  moreover have "filter (\<lambda>p. live p \<and> ackedBy s (b # bs) p) mid = filter (\<lambda>p. live p \<and> op_space p = s) mid"
    by (rule filter_cong) (use m in auto)
  moreover have "filter (\<lambda>p. \<not> ackedBy s (b # bs) p) (rev lo) = filter (\<lambda>p. \<not> ackedBy s bs p) (rev lo)"
    by (rule filter_cong) (use l in auto)
  moreover have "filter (\<lambda>p. live p \<and> ackedBy s (b # bs) p) lo = filter (\<lambda>p. live p \<and> ackedBy s bs p) lo"
    by (rule filter_cong) (use l in auto)
  ultimately show ?thesis using r w1 unfolding walk_result_def todo by (simp split: prod.splits)
qed

lemma distinct_thinned:
  assumes "distinct (map f (xs @ ys @ zs))"
  shows "distinct (map f (xs @ filter P ys @ zs))"
proof -
  have d: "distinct (map f xs)" "distinct (map f ys)" "distinct (map f zs)" "f ` set ys \<inter> f ` set zs = {}"
    "f ` set xs \<inter> f ` set ys = {}" "f ` set xs \<inter> f ` set zs = {}"
    using assms by (simp_all add: Int_Un_distrib)
  have "f ` set (filter P ys) \<subseteq> f ` set ys" by (rule image_mono) simp
  then have "f ` set (filter P ys) \<inter> f ` set zs = {}" "f ` set xs \<inter> f ` set (filter P ys) = {}" using d(4,5) by blast+
  moreover have "distinct (map f (filter P ys))" using d(2) by (rule distinct_map_filter)
  ultimately show ?thesis using d(1,3,6) by (simp only: map_append distinct_append set_append set_map Int_Un_distrib) simp
qed

lemma ackBlocksWalk_ok:
  assumes "walk_ok s frame (rev todo @ kept) w" "distinct (map key (rev todo @ kept))" "descending todo" "collected_above s w todo" "blocks_ok bs"
    and X: "spurious_in X (aw_conn w)"
  shows "ends X (walk_result s frame bs todo kept w) (ackBlocksWalk frame t now s bs todo kept w)"
  using assms
proof (induction bs arbitrary: todo kept w)
  case Nil
  then show ?case using walk_result_none [of s frame todo kept w "[]"] by (simp add: ackedBy_def)
next
  case (Cons b bs)
  define P :: "OutstandingPacket \<Rightarrow> bool" where "P = (\<lambda>p. op_packetNum p > ab_endPacket b)"
  define hi where "hi = takeWhile P todo"
  define rest where "rest = dropWhile P todo"
  have todo: "todo = hi @ rest" by (simp add: hi_def rest_def)
  have cut: "take (lower_bound P todo) todo = hi" "drop (lower_bound P todo) todo = rest"
    by (simp_all add: hi_def rest_def take_lower_bound drop_lower_bound)
  have hi: "\<forall>p \<in> set hi. ab_endPacket b < op_packetNum p" by (auto simp: hi_def P_def dest: set_takeWhileD)
  show ?case
  proof (cases "lower_bound P todo = length todo")
    case True
    then have "todo = hi" using cut(1) by simp
    then have "\<not> ackedBy s (b # bs) p" if "p \<in> set todo" for p using hi that above_blocks [OF Cons.prems(5)] by blast
    from walk_result_none [OF Cons.prems(1) this] show ?thesis using True by (simp add: P_def [symmetric])
  next
    case False
    have x: "ackBlocksWalk frame t now s (b # bs) todo kept w =
        rbind (ackBlockLoop frame t now s b rest (rev hi @ kept) w) (\<lambda>(todo, kept, w). ackBlocksWalk frame t now s bs todo kept w)"
      using False by (simp add: P_def [symmetric] cut)
    have "rest \<noteq> []" using False unfolding cut(2) [symmetric] lower_bound_def by (metis drop_eq_Nil length_takeWhile_le order_antisym)
    then have "\<not> P (hd rest)" unfolding rest_def by (rule hd_dropWhile)
    then have le: "op_packetNum p \<le> ab_endPacket b" if "p \<in> set rest" for p
      using Cons.prems(3) that \<open>rest \<noteq> []\<close> unfolding todo by (cases rest) (auto simp: P_def)
    have pre: "walk_ok s frame (rev rest @ rev hi @ kept) w" "distinct (map key (rev rest @ rev hi @ kept))" "descending rest"
      "collected_above s w rest" using Cons.prems(1-4) unfolding todo by (simp_all add: collected_above_def)
    show ?thesis unfolding x
    proof (rule ends_bind [OF ackBlockLoop_ok [OF pre Cons.prems(6)]], goal_cases)
      case (1 r)
      obtain lo kept1 w1 mid where r: "r = (lo, kept1, w1)" "rest = mid @ lo" "kept1 = rev (filter (\<lambda>p. op_space p \<noteq> s) mid) @ rev hi @ kept"
        "\<forall>p \<in> set mid. op_space p = s \<longrightarrow> ab_startPacket b \<le> op_packetNum p" "\<forall>p \<in> set lo. op_packetNum p < ab_startPacket b"
        "walk_ok s frame (rev lo @ kept1) w1" "map fst (aw_packets w1) = map fst (aw_packets w) @ filter (\<lambda>p. live p \<and> op_space p = s) mid"
        "steady (aw_conn w1) = steady (aw_conn w)"
        using 1(2) unfolding block_result_def by (cases r) auto
      have dd: "distinct (map key (rev lo @ kept1))" 
        using distinct_thinned [of key "rev lo" "rev mid" "rev hi @ kept" "\<lambda>p. op_space p \<noteq> s"] pre(2) by (simp add: r(2,3) rev_filter)
      have "op_packetNum p < op_packetNum q" if pq: "p \<in> set lo" "op_space p = s" "q \<in> set mid" "op_space q = s" for p q
        using r(4,5) pq by fastforce
      moreover have fs: "fst ` set (aw_packets w1) = fst ` set (aw_packets w) \<union> {p \<in> set mid. live p \<and> op_space p = s}"
        using arg_cong [OF r(7), of set] by (simp only: set_map set_append set_filter)
      ultimately have ca: "collected_above s w1 lo" using pre(4) unfolding collected_above_def fs r(2) by simp blast
      have "descending lo" "blocks_ok bs" using pre(3) Cons.prems(5) by (auto simp: r(2) blocks_ok_def)
      moreover have "spurious_in X (aw_conn w1)" using spurious_in_steady [OF r(8)] Cons.prems(6) by simp
      ultimately have ih: "ends X (walk_result s frame bs lo kept1 w1) (ackBlocksWalk frame t now s bs lo kept1 w1)"
        by (intro Cons.IH r(6) dd ca)
      have mid: "\<forall>p \<in> set mid. op_packetNum p \<le> ab_endPacket b \<and> (op_space p = s \<longrightarrow> ab_startPacket b \<le> op_packetNum p)" using le r(2,4) by auto
      have td: "todo = hi @ mid @ lo" using todo r(2) by simp
      show ?case unfolding r(1) prod.case
        by (rule ends_mono [OF ih]) (rule walk_result_block [OF Cons.prems(5) td hi mid r(5,7,8)], simp add: r(3))
    qed
  qed
qed

lemma ackWalk_ok:
  assumes w: "walk_ok s frame ps w" and ps: "list_ok ps" and start: "aw_packets w = []" and bs: "blocks_ok (ra_ackBlocks frame)"
    and X: "spurious_in X (aw_conn w)"
  shows "ends X (\<lambda>(qs, w'). qs = filter (\<lambda>p. \<not> ackedBy s (ra_ackBlocks frame) p) ps \<and> walk_ok s frame qs w' \<and>
      rev (map fst (aw_packets w')) = filter (\<lambda>p. live p \<and> ackedBy s (ra_ackBlocks frame) p) ps \<and>
      steady (aw_conn w') = steady (aw_conn w)) (ackWalk frame t now s ps w)"
proof -
  define k where "k = getLastOutstandingPacketIncludingLost ps s"
  define todo where "todo = drop k (rev ps)"
  define kept where "kept = rev (take k (rev ps))"
  have eq: "rev todo @ kept = ps" unfolding todo_def kept_def by (metis append_take_drop_id rev_append rev_rev_ident)
  have "take k (rev ps) = takeWhile (\<lambda>p. op_space p \<noteq> s) (rev ps)"
    by (simp add: k_def getLastOutstandingPacketIncludingLost_def takeWhile_eq_take [symmetric])
  then have "op_space p \<noteq> s" if "p \<in> set kept" for p using that by (auto simp: kept_def dest: set_takeWhileD)
  then have other: "\<not> ackedBy s bs p" if "p \<in> set kept" for p bs using that by (auto simp: ackedBy_def)
  have "descending (rev ps)" using ps by (simp add: list_ok_def descending_def sorted_wrt_rev sorted_map)
  then have desc: "descending todo" unfolding todo_def by (metis append_take_drop_id descending_simps(3))
  have d: "distinct (map key (rev todo @ kept))" using ps by (simp add: eq list_ok_def)
  have ca: "collected_above s w todo" by (simp add: collected_above_def start)
  have w': "walk_ok s frame (rev todo @ kept) w" using w by (simp add: eq)
  have keep: "filter (\<lambda>p. \<not> ackedBy s (ra_ackBlocks frame) p) kept = kept" "filter (\<lambda>p. live p \<and> ackedBy s (ra_ackBlocks frame) p) kept = []"
    using other by (auto simp: filter_all filter_empty_conv)
  have res: "filter (\<lambda>p. \<not> ackedBy s (ra_ackBlocks frame) p) ps = filter (\<lambda>p. \<not> ackedBy s (ra_ackBlocks frame) p) (rev todo) @ kept"
    "filter (\<lambda>p. live p \<and> ackedBy s (ra_ackBlocks frame) p) ps = rev (filter (\<lambda>p. live p \<and> ackedBy s (ra_ackBlocks frame) p) todo)"
    unfolding eq [symmetric] filter_append keep by (simp_all add: rev_filter)
  show ?thesis unfolding ackWalk_def Let_def k_def [symmetric] todo_def [symmetric] kept_def [symmetric]
    by (rule ends_mono [OF ackBlocksWalk_ok [OF w' d desc ca bs X]]) (auto simp: walk_result_def res start)
qed

section \<open>An acknowledgement\<close>

lemma settleAcked_ok:
  assumes "walk_ok s frame ps w" "list_ok ps"
  shows "\<exists>conn. settleAcked ps w = Inr conn \<and> os_inv (cn_outstandings conn) \<and> os_packets (cn_outstandings conn) = ps \<and>
    cn_ackStates conn = cn_ackStates (aw_conn w)"
proof -
  define os where "os = (walk_counters w)\<lparr>os_packets := ps\<rparr>"
  have inv: "os_inv os" using assms by (simp add: os_inv_def os_def walk_ok_def)
  have os: "(cn_outstandings (setPackets ps (aw_conn w)))\<lparr>os_dsrCount := os_dsrCount (cn_outstandings (setPackets ps (aw_conn w))) - aw_dsrPacketsAcked w\<rparr> = os"
    by (simp add: os_def walk_counters_def setPackets_def)
  have le: "aw_dsrPacketsAcked w \<le> os_dsrCount (cn_outstandings (setPackets ps (aw_conn w)))" using assms(1) by (simp add: walk_ok_def setPackets_def)
  obtain n where "numOutstanding os = Inr n" "numClonedPackets os \<le> n" using os_inv_outstanding [OF inv] by auto
  then have "settleAcked ps w = Inr ((setPackets ps (aw_conn w))\<lparr>cn_outstandings := os\<rparr>)"
    unfolding settleAcked_def Let_def os using le by simp
  then show ?thesis using inv by (simp add: os_def setPackets_def)
qed

lemma list_ok_remove: "list_ok (xs @ p # ys) \<Longrightarrow> list_ok (xs @ ys)"
  by (simp add: list_ok_def sorted_append)

lemma clearOldLoop_ok:
  assumes "counts_ok (xs @ ps) (os\<lparr>os_declaredLostCount := lost\<rparr>)" "list_ok (xs @ ps)"
  shows "\<exists>qs lost'. clearOldLoop t threshold s ps lost = Inr (qs, lost') \<and> counts_ok (xs @ qs) (os\<lparr>os_declaredLostCount := lost'\<rparr>) \<and>
    list_ok (xs @ qs) \<and> set qs \<subseteq> set ps \<and> filter live qs = filter live ps"
  using assms
proof (induction ps arbitrary: xs lost)
  case Nil
  then show ?case by simp
next
  case (Cons p ps)
  consider "t < op_time p \<or> (op_space p = s \<and> \<not> (op_declaredLost p \<and> t - op_time p > threshold))" | "\<not> t < op_time p" "op_space p \<noteq> s"
    | "\<not> t < op_time p" "op_space p = s" "op_declaredLost p" "t - op_time p > threshold" by blast
  then show ?case
  proof cases
    case 1
    then have "clearOldLoop t threshold s (p # ps) lost = Inr (p # ps, lost)" by auto
    then show ?thesis using Cons.prems by simp
  next
    case 2
    have "counts_ok ((xs @ [p]) @ ps) (os\<lparr>os_declaredLostCount := lost\<rparr>)" "list_ok ((xs @ [p]) @ ps)" using Cons.prems by simp_all
    from Cons.IH [OF this] show ?thesis using 2 by fastforce
  next
    case 3
    note c = counts_ok_lost_pos [OF Cons.prems(1) 3(3)]
    have "counts_ok (xs @ ps) (os\<lparr>os_declaredLostCount := lost - 1\<rparr>)" "list_ok (xs @ ps)"
      using c(2) list_ok_remove [OF Cons.prems(2)] by simp_all
    from Cons.IH [OF this] obtain qs lost' where ih: "clearOldLoop t threshold s ps (lost - 1) = Inr (qs, lost')"
      "counts_ok (xs @ qs) (os\<lparr>os_declaredLostCount := lost'\<rparr>)" "list_ok (xs @ qs)" "set qs \<subseteq> set ps" "filter live qs = filter live ps" by blast
    have "0 < lost" using c(1) by simp
    then have "clearOldLoop t threshold s (p # ps) lost = Inr (qs, lost')" using 3 ih(1) by (simp add: decrease_ok)
    moreover have "\<not> live p" using 3(3) by (simp add: live_def)
    ultimately show ?thesis using ih(2-5) by (intro exI [of _ qs] exI [of _ lost']) auto
  qed
qed

lemma clearOld_ok:
  assumes "os_inv (cn_outstandings conn)"
  shows "\<exists>conn'. clearOldOutstandingPackets t s conn = Inr conn' \<and> os_inv (cn_outstandings conn') \<and> cn_ackStates conn' = cn_ackStates conn \<and>
    set (os_packets (cn_outstandings conn')) \<subseteq> set (os_packets (cn_outstandings conn)) \<and>
    filter live (os_packets (cn_outstandings conn')) = filter live (os_packets (cn_outstandings conn))"
proof (cases "os_declaredLostCount (cn_outstandings conn) = 0")
  case True
  then show ?thesis using assms by (simp add: clearOldOutstandingPackets_def)
next
  case False
  let ?os = "cn_outstandings conn"
  have "counts_ok ([] @ os_packets ?os) (?os\<lparr>os_declaredLostCount := os_declaredLostCount ?os\<rparr>)" "list_ok ([] @ os_packets ?os)"
    using assms by (simp_all add: os_inv_def)
  from clearOldLoop_ok [OF this, of t "calculatePTO conn" s] obtain qs lost where
    "clearOldLoop t (calculatePTO conn) s (os_packets ?os) (os_declaredLostCount ?os) = Inr (qs, lost)"
    "counts_ok qs (?os\<lparr>os_declaredLostCount := lost\<rparr>)" "list_ok qs" "set qs \<subseteq> set (os_packets ?os)" "filter live qs = filter live (os_packets ?os)"
    by auto
  moreover from this(2) have "counts_ok qs (?os\<lparr>os_packets := qs, os_declaredLostCount := lost\<rparr>)" by (simp add: counts_ok_def)
  ultimately show ?thesis using False by (simp add: clearOldOutstandingPackets_def os_inv_def)
qed

definition ack_errors :: "AckVisitor \<Rightarrow> quic_exn set" where
  "ack_errors v = {e. \<exists>frame stamps ps base. ackedPackets v frame stamps ps base = Inl e}"

lemma ack_errorsI: "ackedPackets v frame stamps ps base = Inl e \<Longrightarrow> e \<in> ack_errors v"
  unfolding ack_errors_def by blast

lemma ackedBy_key: "key p = key q \<Longrightarrow> ackedBy s bs p = ackedBy s bs q"
  by (simp add: ackedBy_def)

lemma processAckFrame_ok:
  assumes inv: "os_inv (cn_outstandings conn)" and bs: "blocks_ok (ra_ackBlocks frame)" and a: "cn_ackStates conn s \<noteq> None"
    and X: "spurious_in X conn" "ack_errors av \<subseteq> X" "visitor_errors lv \<subseteq> X"
  shows "ends X (\<lambda>(ack, ev, conn'). os_inv (cn_outstandings conn') \<and> nexts conn' = nexts conn \<and>
      key ` set (os_packets (cn_outstandings conn')) \<subseteq> key ` {p \<in> set (os_packets (cn_outstandings conn)). \<not> ackedBy s (ra_ackBlocks frame) p})
    (processAckFrame av lv conn s frame implicit t now)"
proof -
  define ps where "ps = os_packets (cn_outstandings conn)"
  define w where "w = \<lparr>aw_conn = conn, aw_ack = newAckEvent s frame implicit t, aw_dsrPacketsAcked = 0, aw_lastAckedPacketSentTime = None, aw_packets = []\<rparr>"
  have c: "counts_ok ps (cn_outstandings conn)" "list_ok ps" using inv by (simp_all add: os_inv_def ps_def)
  have w: "walk_ok s frame ps w" "aw_packets w = []" "aw_conn w = conn" using c(1) by (simp_all add: walk_ok_def walk_counters_def w_def newAckEvent_def)
  have X1: "spurious_in X (aw_conn w)" using X(1) w(3) by simp
  show ?thesis unfolding processAckFrame_def Let_def ps_def [symmetric] w_def [symmetric]
  proof (rule ends_bind [OF ackWalk_ok [OF w(1) c(2) w(2) bs X1]], goal_cases)
    case (1 r)
    obtain qs w1 where r: "r = (qs, w1)" by (cases r)
    have q: "qs = filter (\<lambda>p. \<not> ackedBy s (ra_ackBlocks frame) p) ps" "walk_ok s frame qs w1" "cn_ackStates (aw_conn w1) = cn_ackStates conn"
      using 1(2) unfolding r prod.case w(3) by (blast, blast, simp add: steady_def)
    have lq: "list_ok qs" unfolding q(1) by (rule list_ok_filter [OF c(2)])
    show ?case unfolding r prod.case
    proof (rule ends_bind [where Q = "\<lambda>_. True"], goal_cases)
      case 1
      show ?case by (rule ends_errors, rule subsetD [OF X(2)], erule ack_errorsI)
    next
      case (2 r2)
      obtain base acked where r2: "r2 = (base, acked)" by (cases r2)
      define ls where "ls = (case aw_lastAckedPacketSentTime w1 of None \<Rightarrow> cn_lossState (aw_conn w1)
        | Some t \<Rightarrow> (cn_lossState (aw_conn w1))\<lparr>ls_lastAckedPacketSentTime := Some t\<rparr>)"
      define w2 where "w2 = w1\<lparr>aw_conn := (aw_conn w1)\<lparr>cn_base := base, cn_lossState := ls\<rparr>\<rparr>"
      have "walk_ok s frame qs w2" using q(2) by (simp add: walk_ok_def walk_counters_def w2_def)
      from settleAcked_ok [OF this lq] obtain conn2 where s2: "settleAcked qs w2 = Inr conn2" "os_inv (cn_outstandings conn2)"
        "os_packets (cn_outstandings conn2) = qs" "cn_ackStates conn2 = cn_ackStates conn" using q(3) by (auto simp: w2_def)
      have a2: "cn_ackStates conn2 s \<noteq> None" using a s2(4) by simp
      show ?case unfolding r2 prod.case ls_def [symmetric] w2_def [symmetric] s2(1) rbind.simps
      proof (rule ends_bind [OF handleAck_ok [OF s2(2) X(3) a2]], goal_cases)
        case (1 r3)
        obtain ev conn3 where r3: "r3 = (ev, conn3)" by (cases r3)
        have c3: "os_inv (cn_outstandings conn3)" "event_ok ev" "nexts conn3 = nexts conn"
          "map key (os_packets (cn_outstandings conn3)) = map key qs"
          using 1(2) s2(3) nexts_cong [OF s2(4)] by (simp_all add: r3)
        from clearOld_ok [OF c3(1), of t s] obtain conn4 where c4: "clearOldOutstandingPackets t s conn3 = Inr conn4"
          "os_inv (cn_outstandings conn4)" "cn_ackStates conn4 = cn_ackStates conn3"
          "set (os_packets (cn_outstandings conn4)) \<subseteq> set (os_packets (cn_outstandings conn3))" by blast
        have "key ` set (os_packets (cn_outstandings conn4)) \<subseteq> key ` set (os_packets (cn_outstandings conn3))" using c4(4) by (rule image_mono)
        also have "\<dots> = key ` set qs" using arg_cong [OF c3(4), of set] by (simp only: set_map)
        also have "set qs = {p \<in> set ps. \<not> ackedBy s (ra_ackBlocks frame) p}" by (simp add: q(1))
        finally show ?case using c3(2,3) c4(1,2) nexts_cong [OF c4(3)] by (auto simp: r3 event_ok_def split: option.splits)
      qed
    qed
  qed
qed

section \<open>Sending and cloning\<close>

lemma emplacePacket_split:
  assumes "sorted (map op_packetNum ps)"
  obtains xs ys where "ps = xs @ ys" "emplacePacket p ps = xs @ p # ys" "\<forall>q \<in> set xs. op_packetNum q < op_packetNum p"
    "\<forall>q \<in> set ys. op_packetNum p \<le> op_packetNum q"
proof -
  define P :: "OutstandingPacket \<Rightarrow> bool" where "P = (\<lambda>q. \<not> op_packetNum q < op_packetNum p)"
  define xs where "xs = rev (dropWhile P (rev ps))"
  define ys where "ys = rev (takeWhile P (rev ps))"
  have eq: "ps = xs @ ys" unfolding xs_def ys_def by (metis rev_append rev_rev_ident takeWhile_dropWhile_id)
  have "emplacePacket p ps = take (length xs) ps @ p # drop (length xs) ps" by (simp add: emplacePacket_def xs_def P_def Let_def)
  then have "emplacePacket p ps = xs @ p # ys" by (simp add: eq)
  moreover have "\<forall>q \<in> set ys. op_packetNum p \<le> op_packetNum q" by (auto simp: ys_def P_def dest: set_takeWhileD)
  moreover have "\<forall>q \<in> set xs. op_packetNum q < op_packetNum p"
  proof (cases "dropWhile P (rev ps)")
    case Nil
    then show ?thesis unfolding xs_def by (simp only: rev.simps list.set ball_empty)
  next
    case (Cons q qs)
    then have "\<not> P q" by (metis dropWhile_eq_Cons_conv)
    moreover have "xs = rev qs @ [q]" by (simp add: xs_def Cons)
    ultimately show ?thesis using assms by (auto simp: eq sorted_append P_def)
  qed
  ultimately show ?thesis using eq that by blast
qed

text \<open>A new live packet arrives.\<close>

lemma counts_ok_sent:
  assumes c: "counts_ok (xs @ ys) os" and p: "live p" "\<forall>e. op_associatedEvent p = Some e \<longrightarrow> fst e = op_space p"
  defines "s \<equiv> op_space p"
  shows "counts_ok (xs @ p # ys) (let os = os\<lparr>os_packets := qs, os_dsrCount := os_dsrCount os + (if op_isDSRPacket p then 1 else 0)\<rparr>
    in if op_associatedEvent p \<noteq> None then os\<lparr>os_clonedPacketCount := (os_clonedPacketCount os)(s := os_clonedPacketCount os s + 1)\<rparr>
       else os\<lparr>os_packetCount := (os_packetCount os)(s := os_packetCount os s + 1)\<rparr>)"
proof -
  have "events_ok (xs @ p # ys) (os_packetEvents os)" using c p(2) by (fastforce simp: counts_ok_def events_ok_def)
  then show ?thesis using c p(1)
    by (cases "op_associatedEvent p") (auto simp: counts_ok_def Let_def live_def clonedIn_def plainIn_def s_def fun_eq_iff)
qed

lemma list_ok_sent:
  assumes "list_ok (xs @ ys)" "\<forall>q \<in> set xs. op_packetNum q < op_packetNum p" "\<forall>q \<in> set ys. op_packetNum p \<le> op_packetNum q"
    and "packet_ok p" "key p \<notin> key ` set (xs @ ys)" "sizes (xs @ ys) + op_encodedSize p \<le> u64_max"
  shows "list_ok (xs @ p # ys)"
  using assms by (auto simp: list_ok_def sorted_append intro: less_imp_le)

lemma recordSentPacket_ok:
  assumes inv: "os_inv (cn_outstandings conn)" and a: "cn_ackStates conn (op_space p) = Some a"
    and p: "packet_ok p" "key p \<notin> key ` set (os_packets (cn_outstandings conn))" "sizes (os_packets (cn_outstandings conn)) + op_encodedSize p \<le> u64_max"
    and e: "\<forall>e. pe = Some e \<longrightarrow> fst e = op_space p"
  shows "\<exists>conn'. recordSentPacket conn p pe r ping m n = Inr conn' \<and> os_inv (cn_outstandings conn') \<and>
    nexts conn' = (nexts conn)(op_space p \<mapsto> add64 (as_nextPacketNum a) 1) \<and>
    key ` set (os_packets (cn_outstandings conn')) \<subseteq> insert (key p) (key ` set (os_packets (cn_outstandings conn)))"
proof -
  define ps where "ps = os_packets (cn_outstandings conn)"
  define p' where "p' = p\<lparr>op_associatedEvent := pe, op_declaredLost := False\<rparr>"
  have p': "live p'" "op_associatedEvent p' = pe" "op_space p' = op_space p" "op_packetNum p' = op_packetNum p" "packet_ok p' = packet_ok p"
    "op_encodedSize p' = op_encodedSize p" "op_isDSRPacket p' = op_isDSRPacket p"
    by (simp_all add: p'_def live_def op_space_def packet_ok_def)
  have c: "counts_ok ps (cn_outstandings conn)" "list_ok ps" using inv by (simp_all add: os_inv_def ps_def)
  then have "sorted (map op_packetNum ps)" by (simp add: list_ok_def)
  then obtain xs ys where sp: "ps = xs @ ys" "emplacePacket p' ps = xs @ p' # ys" "\<forall>q \<in> set xs. op_packetNum q < op_packetNum p'"
    "\<forall>q \<in> set ys. op_packetNum p' \<le> op_packetNum q" by (rule emplacePacket_split)
  have l: "list_ok (xs @ p' # ys)"
    by (rule list_ok_sent) (use c(2) sp p in \<open>simp_all add: p' ps_def [symmetric] del: set_append\<close>)
  define os' where "os' = (let os = (cn_outstandings conn)\<lparr>os_packets := xs @ p' # ys,
      os_dsrCount := os_dsrCount (cn_outstandings conn) + (if op_isDSRPacket p' then 1 else 0)\<rparr>
    in if op_associatedEvent p' \<noteq> None then os\<lparr>os_clonedPacketCount := (os_clonedPacketCount os)(op_space p' := os_clonedPacketCount os (op_space p') + 1)\<rparr>
       else os\<lparr>os_packetCount := (os_packetCount os)(op_space p' := os_packetCount os (op_space p') + 1)\<rparr>)"
  have "counts_ok (xs @ p' # ys) os'" unfolding os'_def by (rule counts_ok_sent) (use c(1) sp(1) p' e in auto)
  moreover have op: "os_packets os' = xs @ p' # ys" by (simp add: os'_def Let_def)
  ultimately have inv': "os_inv os'" using l by (simp add: os_inv_def)
  obtain k where k: "numOutstanding (cn_outstandings conn) = Inr k" using os_inv_outstanding(2) [OF inv] by blast
  define conn1 where "conn1 = (let a = a\<lparr>as_nextPacketNum := add64 (as_nextPacketNum a) 1\<rparr>;
      conn = conn\<lparr>cn_ackStates := (cn_ackStates conn)(op_space p \<mapsto> a)\<rparr>
    in if as_nextPacketNum a = kMaxPacketNumber - 1 then conn\<lparr>cn_closeTransport := True\<rparr> else conn)"
  have i: "increaseNextPacketNum conn (op_space p) = Inr conn1" by (simp add: increaseNextPacketNum_def getAckState_def a conn1_def Let_def)
  have c1: "cn_outstandings conn1 = cn_outstandings conn" "nexts conn1 = (nexts conn)(op_space p \<mapsto> add64 (as_nextPacketNum a) 1)"
    by (auto simp: conn1_def Let_def nexts_def fun_eq_iff)
  show ?thesis
  proof (cases "\<not> r \<and> \<not> ping")
    case True
    then show ?thesis using inv c1 unfolding recordSentPacket_def i rbind.simps Let_def by (auto simp: nexts_def)
  next
    case False
    then have no: "(\<not> r \<and> \<not> ping) = False" by simp
    have "\<exists>conn'. recordSentPacket conn p pe r ping m n = Inr conn' \<and> cn_outstandings conn' = os' \<and> nexts conn' = nexts conn1"
      unfolding recordSentPacket_def i rbind.simps Let_def p'_def [symmetric] no if_False
      using k sp(2) p' by (simp add: c1(1) os'_def Let_def ps_def [symmetric] nexts_def fun_eq_iff)
    then obtain conn' where "recordSentPacket conn p pe r ping m n = Inr conn'" "cn_outstandings conn' = os'" "nexts conn' = nexts conn1" by blast
    then show ?thesis using inv' c1(2) sp(1) p' by (auto simp: op ps_def)
  qed
qed

lemma cloned_ok:
  assumes c: "counts_ok (xs @ p # ys) os" and l: "live p" "op_associatedEvent p = None" and d: "distinct (map key (xs @ p # ys))"
  defines "e \<equiv> key p" and "p' \<equiv> p\<lparr>op_associatedEvent := Some (key p)\<rparr>"
  shows "counts_ok (xs @ p' # ys) (os\<lparr>os_packets := qs, os_packetEvents := insert e (os_packetEvents os),
    os_clonedPacketCount := (os_clonedPacketCount os)(op_space p := os_clonedPacketCount os (op_space p) + 1)\<rparr>)"
proof -
  define E where "E = os_packetEvents os"
  have ev: "events_ok (xs @ p # ys) E" using c by (simp add: counts_ok_def E_def)
  have p': "live p'" "op_space p' = op_space p" "op_packetNum p' = op_packetNum p" "op_associatedEvent p' = Some e"
    by (simp_all add: p'_def e_def live_def op_space_def) (use l in \<open>simp add: live_def\<close>)
  have "key p \<notin> key ` set (xs @ ys)" using d by auto
  then have new: "e \<notin> E"
  proof (rule contrapos_nn)
    assume "e \<in> E"
    then obtain q where q: "q \<in> set (xs @ p # ys)" "op_associatedEvent q = Some e" "e = key q" using ev unfolding events_ok_def by blast
    then have "q \<noteq> p" using l(2) by auto
    with q show "key p \<in> key ` set (xs @ ys)" by (auto simp: e_def)
  qed
  have old: "\<exists>q \<in> set (xs @ p' # ys). live q \<and> op_associatedEvent q = Some e' \<and> e' = key q" if e': "e' \<in> insert e E" for e'
  proof (cases "e' = e")
    case True
    then show ?thesis using p' by (auto simp: e_def)
  next
    case False
    then obtain q where q: "q \<in> set (xs @ p # ys)" "live q" "op_associatedEvent q = Some e'" "e' = key q"
      using ev e' unfolding events_ok_def by blast
    moreover have "q \<noteq> p" using q(3) l(2) by auto
    ultimately show ?thesis by auto
  qed
  have "events_ok (xs @ p' # ys) (insert e E)" using ev old p' by (auto simp: events_ok_def e_def)
  moreover have "finite (eventsIn s E)" for s using ev by (simp add: events_ok_def eventsIn_def)
  moreover have "eventsIn s (insert e E) = (if s = op_space p then insert e (eventsIn s E) else eventsIn s E)" for s by (auto simp: eventsIn_def e_def)
  moreover have "e \<notin> eventsIn s E" for s using new by (simp add: eventsIn_def)
  ultimately show ?thesis using c p' l by (auto simp: counts_ok_def live_def clonedIn_def plainIn_def E_def [symmetric] fun_eq_iff p'_def)
qed

lemma cloneOutstandingPacket_ok:
  assumes inv: "os_inv os" and i: "i < length (os_packets os)" "live (os_packets os ! i)"
  shows "os_inv (snd (cloneOutstandingPacket i os))" "map key (os_packets (snd (cloneOutstandingPacket i os))) = map key (os_packets os)"
proof -
  define p where "p = os_packets os ! i"
  have c: "counts_ok (os_packets os) os" "list_ok (os_packets os)" using inv by (simp_all add: os_inv_def)
  have keys: "map key ((os_packets os)[i := p\<lparr>op_associatedEvent := e\<rparr>]) = map key (os_packets os)" for e
    using i(1) by (simp add: map_update p_def op_space_def list_update_same_conv)
  have eq: "os_packets os = take i (os_packets os) @ p # drop (Suc i) (os_packets os)" using i(1) by (simp add: p_def id_take_nth_drop)
  show "map key (os_packets (snd (cloneOutstandingPacket i os))) = map key (os_packets os)"
    using keys by (auto simp: cloneOutstandingPacket_def Let_def p_def [symmetric] split: option.split)
  show "os_inv (snd (cloneOutstandingPacket i os))"
  proof (cases "op_associatedEvent p")
    case (Some e)
    then show ?thesis using inv by (simp add: cloneOutstandingPacket_def p_def [symmetric])
  next
    case None
    define p' where "p' = p\<lparr>op_associatedEvent := Some (key p)\<rparr>"
    have upd: "(os_packets os)[i := p'] = take i (os_packets os) @ p' # drop (Suc i) (os_packets os)" using i(1) by (rule upd_conv_take_nth_drop)
    have d: "distinct (map key (take i (os_packets os) @ p # drop (Suc i) (os_packets os)))" using c(2) eq by (simp add: list_ok_def)
    have "counts_ok (take i (os_packets os) @ p # drop (Suc i) (os_packets os)) os" using c(1) eq by simp
    note co = cloned_ok [OF this _ None d, folded p'_def upd, of "(os_packets os)[i := p']"]
    have sz: "sizes ((os_packets os)[i := p']) = sizes (os_packets os)" unfolding upd by (subst (3) eq) (simp add: p'_def)
    have "packet_ok p'" using c(2) i(1) by (simp add: p'_def packet_ok_def p_def list_ok_def)
    then have "\<forall>q \<in> set ((os_packets os)[i := p']). packet_ok q" using c(2) set_update_subset_insert [of "os_packets os" i p'] by (auto simp: list_ok_def)
    moreover have "map op_packetNum ((os_packets os)[i := p']) = map snd (map key ((os_packets os)[i := p']))" by simp
    ultimately have "list_ok ((os_packets os)[i := p'])" using c(2) keys [of "Some (key p)"] sz
      by (simp add: list_ok_def p'_def [symmetric] comp_def del: map_map) (simp add: comp_def)
    then show ?thesis using co i(2) None by (simp add: os_inv_def cloneOutstandingPacket_def Let_def p_def [symmetric] p'_def)
  qed
qed

section \<open>The states that a connection reaches\<close>

datatype recovery_event =
    PacketSent OutstandingPacket "PacketEvent option" bool bool nat nat
  | PacketCloned nat
  | AckReceived PacketNumberSpace ReadAckFrame bool int int
  | LossAlarm int
  | EarlyDataRejected int

fun recovery_exec :: "AckVisitor \<Rightarrow> LossVisitor \<Rightarrow> recovery_event \<Rightarrow> Connection \<Rightarrow> Connection res" where
  "recovery_exec av lv (PacketSent p pe r ping m n) conn = recordSentPacket conn p pe r ping m n"
| "recovery_exec av lv (PacketCloned i) conn =
     Inr (conn\<lparr>cn_outstandings := snd (cloneOutstandingPacket i (cn_outstandings conn))\<rparr>)"
| "recovery_exec av lv (AckReceived s frame implicit t now) conn =
     rbind (processAckFrame av lv conn s frame implicit t now) (\<lambda>(_, _, conn). Inr conn)"
| "recovery_exec av lv (LossAlarm now) conn = onLossDetectionAlarm lv now conn"
| "recovery_exec av lv (EarlyDataRejected now) conn = markZeroRttPacketsLost lv now conn"

text \<open>A packet takes the next number of its space; a clone is sent in the space of the packet that it
  repeats; the blocks of an acknowledgement are those of a decoded frame; the alarm that goes off is one that was set.\<close>

fun recovery_enabled :: "recovery_event \<Rightarrow> Connection \<Rightarrow> bool" where
  "recovery_enabled (PacketSent p pe r ping m n) conn \<longleftrightarrow> packet_ok p \<and>
     (case nexts conn (op_space p) of None \<Rightarrow> False | Some lim \<Rightarrow> op_packetNum p = lim \<and> lim < kMaxPacketNumber) \<and>
     sizes (os_packets (cn_outstandings conn)) + op_encodedSize p \<le> u64_max \<and> (case pe of None \<Rightarrow> True | Some e \<Rightarrow> fst e = op_space p)"
| "recovery_enabled (PacketCloned i) conn \<longleftrightarrow> i < length (os_packets (cn_outstandings conn)) \<and> live (os_packets (cn_outstandings conn) ! i)"
| "recovery_enabled (AckReceived s frame implicit t now) conn \<longleftrightarrow> blocks_ok (ra_ackBlocks frame) \<and> cn_ackStates conn s \<noteq> None"
| "recovery_enabled (LossAlarm now) conn \<longleftrightarrow> (ls_currentAlarmMethod (cn_lossState conn) = EarlyRetransmitOrReordering \<longrightarrow>
     fst (earliestLossTimer conn) \<noteq> None \<and> cn_ackStates conn (snd (earliestLossTimer conn)) \<noteq> None)"
| "recovery_enabled (EarlyDataRejected now) conn \<longleftrightarrow> True"

text \<open>The exceptions that the handlers of frames and the limit on timeouts raise.\<close>

fun raised_by :: "AckVisitor \<Rightarrow> LossVisitor \<Rightarrow> recovery_event \<Rightarrow> Connection \<Rightarrow> quic_exn set" where
  "raised_by av lv (PacketSent p pe r ping m n) conn = {}"
| "raised_by av lv (PacketCloned i) conn = {}"
| "raised_by av lv (AckReceived s frame implicit t now) conn = ack_errors av \<union> visitor_errors lv \<union>
     (if lt_removeFromLossBufferOnSpurious (cn_lossSettings conn) then spurious_errors else {})"
| "raised_by av lv (LossAlarm now) conn = visitor_errors lv \<union> visitor_errors markPacketLoss \<union> {QuicInternalException LE_CONNECTION_ABANDONED}"
| "raised_by av lv (EarlyDataRejected now) conn = visitor_errors lv"

definition noneOutstanding :: OutstandingsInfo where
  "noneOutstanding = \<lparr>os_packets = [], os_packetEvents = {}, os_packetCount = (\<lambda>_. 0), os_clonedPacketCount = (\<lambda>_. 0),
     os_declaredLostCount = 0, os_dsrCount = 0\<rparr>"

inductive recovery_reachable :: "AckVisitor \<Rightarrow> LossVisitor \<Rightarrow> Connection \<Rightarrow> bool" for av lv where
  start: "cn_outstandings conn = noneOutstanding \<Longrightarrow> recovery_reachable av lv conn"
| step: "recovery_reachable av lv conn \<Longrightarrow> recovery_enabled e conn \<Longrightarrow> recovery_exec av lv e conn = Inr conn' \<Longrightarrow> recovery_reachable av lv conn'"

text \<open>The numbers of the outstanding packets were given out.\<close>

definition given_out :: "(PacketNumberSpace \<Rightarrow> PacketNum option) \<Rightarrow> (PacketNumberSpace \<times> PacketNum) set" where
  "given_out m = {(s, n). case m s of None \<Rightarrow> False | Some lim \<Rightarrow> n < lim}"

definition recovery_inv :: "Connection \<Rightarrow> bool" where
  "recovery_inv conn \<longleftrightarrow> os_inv (cn_outstandings conn) \<and> key ` set (os_packets (cn_outstandings conn)) \<subseteq> given_out (nexts conn)"

lemma recovery_inv_mono:
  assumes "recovery_inv conn" "os_inv (cn_outstandings conn')" "nexts conn' = nexts conn"
    and "key ` set (os_packets (cn_outstandings conn')) \<subseteq> key ` set (os_packets (cn_outstandings conn))"
  shows "recovery_inv conn'"
  using assms(1,2) subset_trans [OF assms(4)] unfolding recovery_inv_def assms(3) by simp

lemma sent_keeps:
  assumes inv: "recovery_inv conn" and en: "recovery_enabled (PacketSent p pe r ping m n) conn"
  shows "\<exists>conn'. recordSentPacket conn p pe r ping m n = Inr conn' \<and> recovery_inv conn'"
proof -
  obtain a where a: "cn_ackStates conn (op_space p) = Some a" "op_packetNum p = as_nextPacketNum a" "as_nextPacketNum a < kMaxPacketNumber"
    using en by (auto simp: nexts_def split: option.splits)
  have ev: "\<forall>e. pe = Some e \<longrightarrow> fst e = op_space p" using en by auto
  have pk: "packet_ok p" "sizes (os_packets (cn_outstandings conn)) + op_encodedSize p \<le> u64_max" using en by simp_all
  have nx: "nexts conn (op_space p) = Some (op_packetNum p)" using a by (simp add: nexts_def)
  have "key p \<notin> given_out (nexts conn)" using nx by (simp add: given_out_def)
  then have fresh: "key p \<notin> key ` set (os_packets (cn_outstandings conn))" using inv unfolding recovery_inv_def by (metis subsetD)
  have os: "os_inv (cn_outstandings conn)" using inv by (simp add: recovery_inv_def)
  obtain conn' where c: "recordSentPacket conn p pe r ping m n = Inr conn'" "os_inv (cn_outstandings conn')"
    "nexts conn' = (nexts conn)(op_space p \<mapsto> add64 (as_nextPacketNum a) 1)"
    "key ` set (os_packets (cn_outstandings conn')) \<subseteq> insert (key p) (key ` set (os_packets (cn_outstandings conn)))"
    using recordSentPacket_ok [OF os a(1) pk(1) fresh pk(2) ev, of r ping m n] by blast
  have more: "add64 (as_nextPacketNum a) 1 = op_packetNum p + 1" using a(2,3) by (simp add: add64_def kMaxPacketNumber_def)
  have "insert (key p) (given_out (nexts conn)) \<subseteq> given_out (nexts conn')"
    using nx unfolding c(3) more by (auto simp: given_out_def split: if_splits option.splits)
  moreover have "insert (key p) (key ` set (os_packets (cn_outstandings conn))) \<subseteq> insert (key p) (given_out (nexts conn))"
    by (rule insert_mono) (use inv in \<open>simp add: recovery_inv_def\<close>)
  ultimately have "key ` set (os_packets (cn_outstandings conn')) \<subseteq> given_out (nexts conn')" using c(4) by (meson subset_trans)
  then have "recovery_inv conn'" using c(2) by (simp add: recovery_inv_def)
  with c(1) show ?thesis by blast
qed

interpretation recovery: faithful_system recovery_enabled "recovery_exec av lv" "raised_by av lv" recovery_inv for av lv
proof (unfold_locales)
  fix conn e
  assume inv: "recovery_inv conn" and en: "recovery_enabled e conn"
  have os: "os_inv (cn_outstandings conn)" using inv by (simp add: recovery_inv_def)
  note keep = recovery_inv_mono [OF inv]
  show "ends (raised_by av lv e conn) recovery_inv (recovery_exec av lv e conn)"
  proof (cases e)
    case (PacketSent p pe r ping m n)
    have "\<exists>conn'. recordSentPacket conn p pe r ping m n = Inr conn' \<and> recovery_inv conn'"
      by (rule sent_keeps [OF inv en [unfolded PacketSent]])
    then show ?thesis by (auto simp: PacketSent)
  next
    case (PacketCloned i)
    then have "i < length (os_packets (cn_outstandings conn))" "live (os_packets (cn_outstandings conn) ! i)" using en by simp_all
    note c = cloneOutstandingPacket_ok [OF os this]
    have "key ` set (os_packets (snd (cloneOutstandingPacket i (cn_outstandings conn)))) \<subseteq> key ` set (os_packets (cn_outstandings conn))"
      using arg_cong [OF c(2), of set] by (simp only: set_map)
    then show ?thesis using keep c(1) PacketCloned by simp
  next
    case (AckReceived s frame implicit t now)
    let ?X = "raised_by av lv e conn"
    have X: "spurious_in ?X conn" "ack_errors av \<subseteq> ?X" "visitor_errors lv \<subseteq> ?X" by (auto simp: AckReceived spurious_in_def)
    have bs: "blocks_ok (ra_ackBlocks frame)" "cn_ackStates conn s \<noteq> None" using en by (simp_all add: AckReceived)
    have "ends ?X recovery_inv (rbind (processAckFrame av lv conn s frame implicit t now) (\<lambda>(_, _, conn). Inr conn))"
    proof (rule ends_bind [OF processAckFrame_ok [OF os bs X]], goal_cases)
      case (1 r)
      obtain ack ev conn' where r: "r = (ack, ev, conn')" by (cases r)
      have c: "os_inv (cn_outstandings conn')" "nexts conn' = nexts conn" "key ` set (os_packets (cn_outstandings conn')) \<subseteq>
          key ` {p \<in> set (os_packets (cn_outstandings conn)). \<not> ackedBy s (ra_ackBlocks frame) p}" using 1(2) by (simp_all add: r)
      have "key ` {p \<in> set (os_packets (cn_outstandings conn)). \<not> ackedBy s (ra_ackBlocks frame) p} \<subseteq> key ` set (os_packets (cn_outstandings conn))"
        by (rule image_mono) blast
      from keep [OF c(1,2) subset_trans [OF c(3) this]] show ?case by (simp add: r)
    qed
    then show ?thesis by (simp add: AckReceived)
  next
    case (LossAlarm now)
    let ?X = "raised_by av lv (LossAlarm now) conn"
    have X: "visitor_errors lv \<subseteq> ?X" "visitor_errors markPacketLoss \<subseteq> ?X" "QuicInternalException LE_CONNECTION_ABANDONED \<in> ?X" by auto
    note timer = en [unfolded LossAlarm recovery_enabled.simps, rule_format]
    show ?thesis unfolding LossAlarm recovery_exec.simps
      by (rule ends_mono [OF alarm_ok [OF os timer X]]) (assumption, elim conjE, rule keep, assumption, rule nexts_cong)
  next
    case (EarlyDataRejected now)
    have "recovery_inv conn'" if "os_inv (cn_outstandings conn')" "cn_ackStates conn' = cn_ackStates conn"
        "os_packets (cn_outstandings conn') = filter (\<lambda>p. \<not> isZeroRtt p) (os_packets (cn_outstandings conn))" for conn'
      by (rule keep [OF that(1) nexts_cong [OF that(2)]]) (rule image_mono, simp add: that(3))
    then show ?thesis unfolding EarlyDataRejected recovery_exec.simps raised_by.simps
      using ends_mono [OF zeroRtt_ok [OF os subset_refl]] by blast
  qed
qed

lemma recovery_reachable_inv: "recovery_reachable av lv conn \<Longrightarrow> recovery_inv conn"
proof (induction rule: recovery_reachable.induct)
  case (start conn)
  then show ?case by (simp add: recovery_inv_def os_inv_def noneOutstanding_def counts_ok_def events_ok_def eventsIn_def list_ok_def u64_max_def)
next
  case (step conn e conn')
  then show ?case by (blast intro: recovery.step_keeps)
qed

lemma no_delegated:
  assumes "\<forall>a \<in> set as. \<forall>(_, d) \<in> set (ap_detailsPerStream a). sd_streamPacketIdx d = None"
  shows "fst (fold dsrAckedPacket as (m, n)) = m"
proof -
  have step: "fst (fold (dsrAckedStep k) ds (m, n)) = m" if "\<forall>(_, d) \<in> set ds. sd_streamPacketIdx d = None" for k ds n
    using that by (induction ds arbitrary: n) (auto simp: dsrAckedStep_def)
  have packet: "fst (dsrAckedPacket a (m, n)) = m" if "a \<in> set as" for a n
    using step [of "ap_detailsPerStream a" "ap_packetNum a" n] assms that
    by (cases "fold (dsrAckedStep (ap_packetNum a)) (ap_detailsPerStream a) (m, n)") (auto simp: dsrAckedPacket_def)
  then show ?thesis
  proof (induction as arbitrary: n)
    case (Cons a as)
    obtain n' where "dsrAckedPacket a (m, n) = (m, n')" using Cons.prems [of a n] by (cases "dsrAckedPacket a (m, n)") auto
    then show ?case using Cons by simp
  qed simp
qed

lemma behind_plain:
  assumes "comparable lp" "dom (lp_largestDsrAcked lp) = {}" "packet_ok p" "\<not> op_isDSRPacket p"
  shows "behind lp p = lp_largestAcked lp - op_packetNum p"
proof -
  have "largestAckedForComparison lp p = Inr (None, lp_largestAcked lp)"
    using assms by (auto simp: largestAckedForComparison_def comparable_def packet_ok_def check_def split: list.split QuicWriteFrame.split)
  then show ?thesis by (simp add: behind_def reorderDistance_def value_or_def Let_def max_def)
qed

section \<open>Properties\<close>

text \<open>C3: Whatever packets are sent, cloned, acknowledged, declared lost by reordering or by time, found
  spurious, probed for or dropped with rejected early data, in any order and with any handlers of
  acknowledged and lost frames, the counters of outstanding packets are exact: the number of outstanding packets, of packets with
  delegated data, of clones and, per space, of packets or groups of clones that still have to be processed. The
  packets stay sorted by number and unique in their space. Therefore no check on a counter fails: an event is handled or fails
  with an exception of a frame handler or because of too many timeouts.\<close>

theorem outstanding_counters_exact:
  assumes "recovery_reachable av lv conn"
  shows "let os = cn_outstandings conn; ps = os_packets os
    in sorted (map op_packetNum ps) \<and> distinct (map (\<lambda>p. (op_space p, op_packetNum p)) ps) \<and>
       numOutstanding os = Inr (length (filter (\<lambda>p. \<not> op_declaredLost p) ps)) \<and>
       os_dsrCount os = length (filter (\<lambda>p. \<not> op_declaredLost p \<and> op_isDSRPacket p) ps) \<and>
       (\<forall>s. os_clonedPacketCount os s = length (filter (\<lambda>p. \<not> op_declaredLost p \<and> op_space p = s \<and> op_associatedEvent p \<noteq> None) ps) \<and>
         os_packetCount os s = length (filter (\<lambda>p. \<not> op_declaredLost p \<and> op_space p = s \<and> op_associatedEvent p = None) ps) +
           card {e \<in> os_packetEvents os. fst e = s}) \<and>
       (\<forall>e. recovery_enabled e conn \<longrightarrow> (\<exists>conn'. recovery_exec av lv e conn = Inr conn') \<or>
         (\<exists>x \<in> raised_by av lv e conn. recovery_exec av lv e conn = Inl x))"
proof -
  note inv = recovery_reachable_inv [OF assms]
  have os: "os_inv (cn_outstandings conn)" using inv by (simp add: recovery_inv_def)
  have filters: "live = (\<lambda>p. \<not> op_declaredLost p)" "clonedIn s = (\<lambda>p. \<not> op_declaredLost p \<and> op_space p = s \<and> op_associatedEvent p \<noteq> None)"
    "plainIn s = (\<lambda>p. \<not> op_declaredLost p \<and> op_space p = s \<and> op_associatedEvent p = None)" for s
    by (simp_all add: live_def clonedIn_def plainIn_def fun_eq_iff)
  have "numOutstanding (cn_outstandings conn) = Inr (length (filter live (os_packets (cn_outstandings conn))))"
    using os_inv_outstanding(2) [OF os] by blast
  then show ?thesis using os recovery.step_outcome [OF inv]
    unfolding Let_def by (simp add: os_inv_def counts_ok_def list_ok_def filters eventsIn_def)
qed

text \<open>C4: The walk over the blocks of an acknowledgement and the outstanding packets removes exactly the packets
  of its space whose number lies in a block, whatever packets of other spaces and lost packets are between
  them, and collects those that were not declared lost, to be processed in the order in which they were sent. After the acknowledgement
  no acknowledged packet is outstanding.\<close>

theorem ack_walk_exact:
  assumes "recovery_reachable av lv conn" "recovery_enabled (AckReceived s frame implicit t now) conn"
  defines "acked \<equiv> \<lambda>p. op_space p = s \<and> (\<exists>b \<in> set (ra_ackBlocks frame). ab_startPacket b \<le> op_packetNum p \<and> op_packetNum p \<le> ab_endPacket b)"
  shows "(\<forall>qs w. ackWalk frame t now s (os_packets (cn_outstandings conn))
        \<lparr>aw_conn = conn, aw_ack = newAckEvent s frame implicit t, aw_dsrPacketsAcked = 0, aw_lastAckedPacketSentTime = None, aw_packets = []\<rparr> = Inr (qs, w) \<longrightarrow>
      qs = filter (\<lambda>p. \<not> acked p) (os_packets (cn_outstandings conn)) \<and>
      map fst (rev (aw_packets w)) = filter (\<lambda>p. \<not> op_declaredLost p \<and> acked p) (os_packets (cn_outstandings conn))) \<and>
    (\<forall>ack ev conn'. processAckFrame av lv conn s frame implicit t now = Inr (ack, ev, conn') \<longrightarrow>
      (\<forall>p \<in> set (os_packets (cn_outstandings conn')). \<not> acked p))"
proof (intro conjI allI impI, goal_cases)
  have os: "os_inv (cn_outstandings conn)" using recovery_reachable_inv [OF assms(1)] by (simp add: recovery_inv_def)
  have a: "acked = ackedBy s (ra_ackBlocks frame)" by (simp add: acked_def ackedBy_def fun_eq_iff)
  have bs: "blocks_ok (ra_ackBlocks frame)" "cn_ackStates conn s \<noteq> None" using assms(2) by simp_all
  let ?w = "\<lparr>aw_conn = conn, aw_ack = newAckEvent s frame implicit t, aw_dsrPacketsAcked = 0, aw_lastAckedPacketSentTime = None, aw_packets = []\<rparr>"
  have "walk_ok s frame (os_packets (cn_outstandings conn)) ?w" "list_ok (os_packets (cn_outstandings conn))"
    using os by (simp_all add: walk_ok_def walk_counters_def os_inv_def newAckEvent_def)
  note walk = ackWalk_ok [OF this _ bs(1), of UNIV t now, simplified spurious_in_def, simplified]
  {
    case (1 qs w)
    with walk show ?case by (simp add: a)
  next
    case (2 qs w)
    with walk show ?case by (simp add: a live_def rev_map)
  next
    case (3 ack ev conn')
    have "key ` set (os_packets (cn_outstandings conn')) \<subseteq> key ` {p \<in> set (os_packets (cn_outstandings conn)). \<not> ackedBy s (ra_ackBlocks frame) p}"
      using processAckFrame_ok [OF os bs, of UNIV av lv implicit t now] 3 by (simp add: spurious_in_def)
    then show ?case using ackedBy_key unfolding a by blast
  }
qed

text \<open>C5: Loss detection after an acknowledgement or an alarm, when no data was delegated to another sender, declares lost exactly
  the packets of the space below the largest acknowledged packet that are too many packets behind it or were
  sent too long ago, and no others; no packet is removed.\<close>

theorem loss_detection_exact:
  assumes "recovery_reachable av lv conn" "detectLossPackets visitor conn (Some largest) t s ackedPkts = Inr (ev, conn')"
    and "\<forall>a \<in> set ackedPkts. \<forall>(_, d) \<in> set (ap_detailsPerStream a). sd_streamPacketIdx d = None"
    and "\<forall>p \<in> set (os_packets (cn_outstandings conn)). \<not> op_isDSRPacket p"
  defines "delay \<equiv> max (conn_srtt (cn_base conn)) (ls_lrtt (cn_lossState conn)) * lt_timeReorderingThreshDividend (cn_lossSettings conn) div
      lt_timeReorderingThreshDivisor (cn_lossSettings conn)"
  shows "map (\<lambda>p. (op_space p, op_packetNum p)) (os_packets (cn_outstandings conn')) =
      map (\<lambda>p. (op_space p, op_packetNum p)) (os_packets (cn_outstandings conn)) \<and>
    map op_declaredLost (os_packets (cn_outstandings conn')) =
      map (\<lambda>p. op_declaredLost p \<or> op_space p = s \<and> op_packetNum p < largest \<and>
        (t - op_time p > delay \<or> largest - op_packetNum p > ls_reorderingThreshold (cn_lossState conn))) (os_packets (cn_outstandings conn))"
proof -
  let ?ps = "os_packets (cn_outstandings conn)"
  define lp where "lp = lossParams (setLossTime s None conn) largest t s ackedPkts"
  have inv: "recovery_inv conn" by (rule recovery_reachable_inv [OF assms(1)])
  have os: "os_inv (cn_outstandings conn)" using inv by (simp add: recovery_inv_def)
  have ps: "os_packets (cn_outstandings conn') =
      map (markIf lp (ls_reorderingThreshold (cn_lossState conn)) (lt_timeReorderingThreshDivisor (cn_lossSettings conn))) ?ps"
    using detect_ok [OF os, where visitor = visitor and X = UNIV and largestAcked = "Some largest" and s = s and t = t and acked = ackedPkts] assms(2) by (simp add: lp_def)
  have lp: "dom (lp_largestDsrAcked lp) = {}" "lp_delayUntilLost lp = delay" 
    using no_delegated [OF assms(3), of Map.empty None] by (auto simp: lp_def lossParams_def Let_def delay_def split: prod.split)
  have "behind lp p = largest - op_packetNum p" if "p \<in> set ?ps" for p
    using behind_plain [of lp p] that os assms(4) lp(1) by (auto simp: os_inv_def list_ok_def lp_def)
  then have "op_declaredLost (markIf lp (ls_reorderingThreshold (cn_lossState conn)) dv p) \<longleftrightarrow>
      op_declaredLost p \<or> op_space p = s \<and> op_packetNum p < largest \<and>
        (t - op_time p > delay \<or> largest - op_packetNum p > ls_reorderingThreshold (cn_lossState conn))" if "p \<in> set ?ps" for p dv
    using that lp(2) by (auto simp: markIf_def lostNow_def candidate_def live_def lostByTimeout_def lp_def)
  then show ?thesis unfolding ps by (simp add: comp_def)
qed

section \<open>Example\<close>

text \<open>Packets without frames are sent; of four, the second and the last are acknowledged.\<close>

definition example_loss_state :: LossState where
  "example_loss_state = \<lparr>ls_largestSent = None, ls_lossTimes = (\<lambda>_. None), ls_maxAckDelay = 0, ls_mrtt = 100000, ls_maybeMrttNoAckDelay = None,
     ls_maybeLrtt = None, ls_maybeLrttAckDelay = None, ls_lrtt = 80000, ls_rttvar = 0, ls_lastAckedPacketSentTime = None, ls_lastAckedTime = None,
     ls_adjustedLastAckedTime = None, ls_lastRetransmittablePacketSentTime = 0, ls_maybeLastPacketSentTime = None, ls_totalBytesSent = 0,
     ls_totalBytesCloned = 0, ls_totalBytesAcked = 0, ls_totalBytesSentAtLastAck = 0, ls_totalBytesAckedAtLastAck = 0, ls_totalBodyBytesSent = 0,
     ls_totalBodyBytesAcked = 0, ls_totalStreamBytesSent = 0, ls_totalNewStreamBytesSent = 0, ls_totalPacketsSent = 0,
     ls_totalAckElicitingPacketsSent = 0, ls_totalPacketsMarkedLost = 0, ls_totalPacketsMarkedLostByTimeout = 0,
     ls_totalPacketsMarkedLostByReorderingThreshold = 0, ls_totalPacketsSpuriouslyMarkedLost = 0, ls_reorderingThreshold = 2, ls_ptoCount = 0,
     ls_rtxCount = 0, ls_timeoutBasedRtxCount = 0, ls_totalPTOCount = 0, ls_currentAlarmMethod = PTO, ls_attemptedEarlyRetransmit0Rtt = False\<rparr>"

definition example_sender :: Connection where
  "example_sender = \<lparr>cn_base = example_connection, cn_outstandings = noneOutstanding, cn_lossState = example_loss_state,
     cn_lossSettings = \<lparr>lt_initialRtt = 50000, lt_timeReorderingThreshDividend = 9, lt_timeReorderingThreshDivisor = 8,
       lt_useAdaptiveLossReorderingThresholds = False, lt_useAdaptiveLossTimeThresholds = False, lt_removeFromLossBufferOnSpurious = False,
       lt_maxNumPTOs = 7, lt_earlyRetransmit0Rtt = False, lt_maxReceiveTimestampsPerAck = None\<rparr>,
     cn_ackStates = (\<lambda>_. None)(PNS_AppData \<mapsto> \<lparr>as_largestAckedByPeer = None, as_nextPacketNum = 0\<rparr>), cn_initialWriteCipher = False, cn_handshakeWriteCipher = False,
     cn_oneRttWriteCipher = True, cn_congestionController = True, cn_setLossDetectionAlarm = False, cn_numProbePackets = (\<lambda>_. 0),
     cn_closeTransport = False\<rparr>"

definition example_packet :: "nat \<Rightarrow> OutstandingPacket" where
  "example_packet n = \<lparr>op_packetNum = n, op_protectionType = PT_KeyPhaseZero, op_frames = [], op_time = int n, op_encodedSize = 100,
     op_encodedBodySize = 80, op_lossTimeoutDividend = None, op_lossReorderDistance = None, op_firstNewStreamByte = Map.empty,
     op_associatedEvent = None, op_isDSRPacket = False, op_isAppLimited = False, op_declaredLost = False\<rparr>"

abbreviation example_av :: AckVisitor where "example_av \<equiv> \<lambda>base p f frame. Inr base"
abbreviation example_lv :: LossVisitor where "example_lv \<equiv> \<lambda>base p processed. Inr base"

abbreviation send_example :: "nat \<Rightarrow> recovery_event" where
  "send_example n \<equiv> PacketSent (example_packet n) None True False 0 0"

lemma example_packet_simps [simp]:
  "op_space (example_packet n) = PNS_AppData" "op_packetNum (example_packet n) = n" "packet_ok (example_packet n)"
  "op_encodedSize (example_packet n) = 100" "op_time (example_packet n) = int n" "op_frames (example_packet n) = []"
  "\<not> op_isDSRPacket (example_packet n)" "\<not> op_declaredLost (example_packet n)" "op_associatedEvent (example_packet n) = None"
  "(example_packet n)\<lparr>op_associatedEvent := None, op_declaredLost := False\<rparr> = example_packet n"
  by (simp_all add: example_packet_def op_space_def packet_ok_def)

lemma example_emplaced: "emplacePacket (example_packet n) (map example_packet [0..<n]) = map example_packet [0..<Suc n]"
proof -
  have "dropWhile (\<lambda>q. \<not> op_packetNum q < n) (rev (map example_packet [0..<n])) = rev (map example_packet [0..<n])"
    by (cases n) auto
  then show ?thesis by (simp add: emplacePacket_def)
qed

lemma example_outstanding:
  assumes "n \<le> 100"
  obtains conn where "recovery_reachable example_av example_lv conn" "os_packets (cn_outstandings conn) = map example_packet [0..<n]"
    "os_packetEvents (cn_outstandings conn) = {}" "nexts conn PNS_AppData = Some n" "cn_lossSettings conn = cn_lossSettings example_sender"
    "ls_reorderingThreshold (cn_lossState conn) = 2" "ls_lrtt (cn_lossState conn) = 80000"
proof -
  have "\<exists>conn. recovery_reachable example_av example_lv conn \<and> os_packets (cn_outstandings conn) = map example_packet [0..<n] \<and>
    os_packetEvents (cn_outstandings conn) = {} \<and> nexts conn PNS_AppData = Some n \<and> cn_lossSettings conn = cn_lossSettings example_sender \<and>
    ls_reorderingThreshold (cn_lossState conn) = 2 \<and> ls_lrtt (cn_lossState conn) = 80000"
    using assms
  proof (induction n)
    case 0
    have "recovery_reachable example_av example_lv example_sender" by (rule recovery_reachable.start) (simp add: example_sender_def)
    then show ?case by (intro exI [of _ example_sender]) (simp add: example_sender_def example_loss_state_def noneOutstanding_def nexts_def)
  next
    case (Suc n)
    then obtain conn where c: "recovery_reachable example_av example_lv conn" "os_packets (cn_outstandings conn) = map example_packet [0..<n]"
      "os_packetEvents (cn_outstandings conn) = {}" "nexts conn PNS_AppData = Some n" "cn_lossSettings conn = cn_lossSettings example_sender"
      "ls_reorderingThreshold (cn_lossState conn) = 2" "ls_lrtt (cn_lossState conn) = 80000" by auto
    have "sizes (map example_packet [0..<n]) = 100 * n" by (simp add: sizes_def comp_def sum_list_triv)
    then have en: "recovery_enabled (send_example n) conn" using c(2,4) Suc.prems by (simp add: kMaxPacketNumber_def u64_max_def)
    from recovery.step_succeeds [OF recovery_reachable_inv [OF c(1)] en, of example_av example_lv]
    obtain conn' where x: "recovery_exec example_av example_lv (send_example n) conn = Inr conn'" by auto
    note reach = recovery_reachable.step [OF c(1) en x]
    obtain a where a: "cn_ackStates conn PNS_AppData = Some a" "as_nextPacketNum a = n" using c(4) by (auto simp: nexts_def)
    have more: "add64 n (Suc 0) = Suc n" using Suc.prems by (simp add: add64_def)
    have room: "Suc n \<noteq> kMaxPacketNumber - Suc 0" using Suc.prems by (simp add: kMaxPacketNumber_def)
    have "os_packets (cn_outstandings conn') = map example_packet [0..<Suc n] \<and> os_packetEvents (cn_outstandings conn') = {} \<and>
        nexts conn' PNS_AppData = Some (Suc n) \<and> cn_lossSettings conn' = cn_lossSettings example_sender \<and>
        ls_reorderingThreshold (cn_lossState conn') = 2 \<and> ls_lrtt (cn_lossState conn') = 80000"
      using x c(2,3,5-7) room by (auto simp: recordSentPacket_def Let_def increaseNextPacketNum_def getAckState_def a nexts_def more example_emplaced)
    with reach show ?case by blast
  qed
  then show ?thesis by (elim exE conjE) (rule that; assumption)
qed

lemma example_four: "map example_packet [0..<4] = [example_packet 0, example_packet 1, example_packet 2, example_packet 3]"
  by (simp add: upt_rec numeral_2_eq_2 numeral_3_eq_3)

theorem outstanding_counters_exact_witness:
  "\<exists>conn. recovery_reachable example_av example_lv conn \<and> numOutstanding (cn_outstandings conn) = Inr 4 \<and>
     os_packetCount (cn_outstandings conn) PNS_AppData = 4 \<and> os_clonedPacketCount (cn_outstandings conn) PNS_AppData = 0"
proof -
  obtain conn where c: "recovery_reachable example_av example_lv conn" "os_packets (cn_outstandings conn) = map example_packet [0..<4]"
    "os_packetEvents (cn_outstandings conn) = {}" by (rule example_outstanding [of 4]) auto
  from outstanding_counters_exact [OF c(1)] show ?thesis using c(1) unfolding Let_def c(2,3) by (intro exI [of _ conn]) (auto simp: example_four)
qed

definition example_ack_frame :: ReadAckFrame where
  "example_ack_frame = \<lparr>ra_largestAcked = 3, ra_ackDelay = 0,
     ra_ackBlocks = [\<lparr>ab_startPacket = 3, ab_endPacket = 3\<rparr>, \<lparr>ab_startPacket = 1, ab_endPacket = 1\<rparr>],
     ra_frameType = FT_ACK, ra_maybeLatestRecvdPacketTime = None, ra_maybeLatestRecvdPacketNum = None, ra_recvdPacketsTimestampRanges = []\<rparr>"

theorem ack_walk_exact_witness:
  "\<exists>conn qs w. recovery_reachable example_av example_lv conn \<and>
     ackWalk example_ack_frame 10 10 PNS_AppData (os_packets (cn_outstandings conn))
        \<lparr>aw_conn = conn, aw_ack = newAckEvent PNS_AppData example_ack_frame False 10, aw_dsrPacketsAcked = 0, aw_lastAckedPacketSentTime = None, aw_packets = []\<rparr> = Inr (qs, w) \<and>
     qs = [example_packet 0, example_packet 2] \<and> map fst (rev (aw_packets w)) = [example_packet 1, example_packet 3]"
proof -
  obtain conn where c: "recovery_reachable example_av example_lv conn" "os_packets (cn_outstandings conn) = map example_packet [0..<4]"
    "nexts conn PNS_AppData = Some 4" "cn_lossSettings conn = cn_lossSettings example_sender" by (rule example_outstanding [of 4]) auto
  have os: "os_inv (cn_outstandings conn)" using recovery_reachable_inv [OF c(1)] by (simp add: recovery_inv_def)
  have en: "recovery_enabled (AckReceived PNS_AppData example_ack_frame False 10 10) conn"
    using c(3) by (auto simp: blocks_ok_def example_ack_frame_def nexts_def)
  let ?w = "\<lparr>aw_conn = conn, aw_ack = newAckEvent PNS_AppData example_ack_frame False 10, aw_dsrPacketsAcked = 0, aw_lastAckedPacketSentTime = None, aw_packets = []\<rparr>"
  have "walk_ok PNS_AppData example_ack_frame (os_packets (cn_outstandings conn)) ?w" "list_ok (os_packets (cn_outstandings conn))" "blocks_ok (ra_ackBlocks example_ack_frame)"
    using os en by (simp_all add: walk_ok_def walk_counters_def os_inv_def newAckEvent_def)
  from ackWalk_ok [OF this(1,2) _ this(3), of "{}" 10 10]
  obtain qs w where r: "ackWalk example_ack_frame 10 10 PNS_AppData (os_packets (cn_outstandings conn)) ?w = Inr (qs, w)"
    by (cases "ackWalk example_ack_frame 10 10 PNS_AppData (os_packets (cn_outstandings conn)) ?w") (auto simp: spurious_in_def c(4) example_sender_def)
  have "qs = [example_packet 0, example_packet 2]" "map fst (rev (aw_packets w)) = [example_packet 1, example_packet 3]"
    using ack_walk_exact [OF c(1) en, THEN conjunct1, rule_format, OF r] unfolding c(2) example_four by (simp_all add: example_ack_frame_def)
  with c(1) r show ?thesis by (intro exI [of _ conn] exI [of _ qs] exI [of _ w] conjI)
qed

theorem loss_detection_exact_witness:
  "\<exists>conn ev conn'. recovery_reachable example_av example_lv conn \<and> detectLossPackets example_lv conn (Some 3) 10 PNS_AppData [] = Inr (ev, conn') \<and>
     map op_declaredLost (os_packets (cn_outstandings conn')) = [True, False, False, False]"
proof -
  obtain conn where c: "recovery_reachable example_av example_lv conn" "os_packets (cn_outstandings conn) = map example_packet [0..<4]"
    "cn_lossSettings conn = cn_lossSettings example_sender" "ls_reorderingThreshold (cn_lossState conn) = 2" "ls_lrtt (cn_lossState conn) = 80000"
    by (rule example_outstanding [of 4]) auto
  have os: "os_inv (cn_outstandings conn)" using recovery_reachable_inv [OF c(1)] by (simp add: recovery_inv_def)
  obtain ev conn' where r: "detectLossPackets example_lv conn (Some 3) 10 PNS_AppData [] = Inr (ev, conn')"
    using detect_ok [OF os, where visitor = example_lv and X = "{}" and largestAcked = "Some 3" and s = PNS_AppData and t = 10 and acked = "[]"]
    by (cases "detectLossPackets example_lv conn (Some 3) 10 PNS_AppData []") (auto simp: visitor_errors_def)
  have d: "max (conn_srtt (cn_base conn)) 80000 * 9 div 8 \<ge> 90000" by simp
  have "map op_declaredLost (os_packets (cn_outstandings conn')) = [True, False, False, False]"
    using loss_detection_exact [OF c(1) r] d unfolding c(2-5) example_four by (simp add: example_sender_def)
  with c(1) r show ?thesis by (intro exI [of _ conn] exI [of _ ev] exI [of _ conn'] conjI)
qed

end
