(* ===== verification/Ack_State.thy ===== *)
theory Ack_State
  imports Ack_Processing
begin

text \<open>
  The receiving side of acknowledgements: the record of received packets and the decision when to send an
  acknowledgement, of \<^verbatim>\<open>quic/state/QuicStateFunctions.cpp\<close>, with the acknowledgement frequency of
  \<^verbatim>\<open>SimpleFrameFunctions.cpp\<close>. A connection has a record for each packet number space and one flag for the acknowledgement
  timer, which all spaces set and clear but which serves the application data only. In every state that the events of a
  connection reach, each record is exactly what was received in the space and not retired, and an acknowledgement that
  became due at once stays due until one is sent.
\<close>

section \<open>Model\<close>

definition kNonRtxRxPacketsPendingBeforeAck :: nat where "kNonRtxRxPacketsPendingBeforeAck = 20"
definition kMaxReceivedPktsTimestampsStored :: nat where "kMaxReceivedPktsTimestampsStored = 25"

text \<open>What the receiving side keeps in \<^verbatim>\<open>AckState\<close> and \<^verbatim>\<open>WriteAckFrameState\<close>. The count of packets with
  retransmittable data is a \<^verbatim>\<open>uint8_t\<close>.\<close>

record RecvAckState =
  rs_acks :: IntervalSet
  rs_lastRecvdPacketInfo :: "(PacketNum \<times> int) option"
  rs_recvdPacketInfos :: "(PacketNum \<times> int) list"
  rs_largestAckScheduled :: "PacketNum option"
  rs_numNonRxPacketsRecvd :: nat
  rs_largestRecvdPacketTime :: "int option"
  rs_largestRecvdPacketNum :: "PacketNum option"
  rs_largestReceivedAtLastCloseSent :: "PacketNum option"
  rs_reorderThreshold :: nat
  rs_tolerance :: "nat option"
  rs_ackFrequencySequenceNumber :: "nat option"
  rs_needsToSendAckImmediately :: bool
  rs_numRxPacketsRecvd :: nat

text \<open>The spaces of the handshake are gone once it is confirmed.\<close>

record RecvAckStates =
  initialAckState :: "RecvAckState option"
  handshakeAckState :: "RecvAckState option"
  appDataAckState :: RecvAckState

definition getAckStatePtr :: "RecvAckStates \<Rightarrow> PacketNumberSpace \<Rightarrow> RecvAckState option" where
  "getAckStatePtr states pnSpace = (case pnSpace of
      PNS_Initial \<Rightarrow> initialAckState states
    | PNS_Handshake \<Rightarrow> handshakeAckState states
    | PNS_AppData \<Rightarrow> Some (appDataAckState states))"

text \<open>Writing through the reference that \<^verbatim>\<open>getAckState\<close> returns.\<close>

definition putAckState :: "PacketNumberSpace \<Rightarrow> RecvAckState \<Rightarrow> RecvAckStates \<Rightarrow> RecvAckStates" where
  "putAckState pnSpace st states = (case pnSpace of
      PNS_Initial \<Rightarrow> states\<lparr>initialAckState := Some st\<rparr>
    | PNS_Handshake \<Rightarrow> states\<lparr>handshakeAckState := Some st\<rparr>
    | PNS_AppData \<Rightarrow> states\<lparr>appDataAckState := st\<rparr>)"

text \<open>The parts of the connection that the decision uses. The flag of the timer is one of the connection.\<close>

record AckConn =
  ac_nodeType :: QuicNodeType
  ac_scheduleAckTimeout :: bool
  ac_rxPacketsBeforeAckInitThreshold :: nat
  ac_rxPacketsBeforeAckBeforeInit :: nat
  ac_rxPacketsBeforeAckAfterInit :: nat
  ac_minAckDelay :: "nat option"
  ac_maxAckDelay :: nat

definition updateLargestReceivedPacketNum :: "RecvAckState \<Rightarrow> PacketNum \<Rightarrow> int \<Rightarrow> (nat \<times> RecvAckState) res" where
  "updateLargestReceivedPacketNum st packetNum receivedTime =
     (let expectedNextPacket = (case rs_largestRecvdPacketNum st of None \<Rightarrow> 0 | Some n \<Rightarrow> add64 n 1);
          largest = max (value_or (rs_largestRecvdPacketNum st) packetNum) packetNum
      in rbind (iset_insert_point packetNum (rs_acks st)) (\<lambda>acks.
         let st = st\<lparr>rs_largestRecvdPacketNum := Some largest, rs_acks := acks\<rparr>;
             st = (if largest = packetNum then st\<lparr>rs_largestRecvdPacketTime := Some receivedTime\<rparr> else st);
             st = st\<lparr>rs_lastRecvdPacketInfo := Some (packetNum, receivedTime)\<rparr>;
             infos = rs_recvdPacketInfos st;
             st = (if packetNum \<ge> expectedNextPacket
                   then st\<lparr>rs_recvdPacketInfos :=
                     (if length infos = kMaxReceivedPktsTimestampsStored then tl infos else infos) @ [(packetNum, receivedTime)]\<rparr>
                   else st)
         in Inr (if expectedNextPacket \<noteq> 0
                 then (if packetNum > expectedNextPacket then packetNum - expectedNextPacket else expectedNextPacket - packetNum) else 0, st)))"

text \<open>The variable \<^verbatim>\<open>thresh\<close> has the type of the \<^verbatim>\<open>uint8_t\<close> constant that it starts with; what is assigned to it is
  truncated.\<close>

definition ackThreshold :: "AckConn \<Rightarrow> RecvAckState \<Rightarrow> bool \<Rightarrow> nat" where
  "ackThreshold conn st pktHasRetransmittableData =
     (if pktHasRetransmittableData \<or> rs_numRxPacketsRecvd st \<noteq> 0
      then (case rs_tolerance st of Some t \<Rightarrow> t
            | None \<Rightarrow> if value_or (rs_largestRecvdPacketNum st) 0 > ac_rxPacketsBeforeAckInitThreshold conn
                then ac_rxPacketsBeforeAckAfterInit conn else ac_rxPacketsBeforeAckBeforeInit conn) mod 2 ^ 8
      else kNonRtxRxPacketsPendingBeforeAck)"

definition ackNow :: "AckConn \<Rightarrow> RecvAckState \<Rightarrow> AckConn \<times> RecvAckState" where
  "ackNow conn st = (conn\<lparr>ac_scheduleAckTimeout := False\<rparr>, st\<lparr>rs_needsToSendAckImmediately := True\<rparr>)"

definition updateAckSendStateOnRecvPacket ::
  "AckConn \<Rightarrow> RecvAckState \<Rightarrow> nat \<Rightarrow> bool \<Rightarrow> bool \<Rightarrow> bool \<Rightarrow> AckConn \<times> RecvAckState" where
  "updateAckSendStateOnRecvPacket conn st distanceFromExpectedPacketNum pktHasRetransmittableData pktHasCryptoData initPktNumSpace =
     (let thresh = ackThreshold conn st pktHasRetransmittableData;
          exceedsReorderThreshold = (distanceFromExpectedPacketNum > rs_reorderThreshold st);
          (conn, st) =
            (if pktHasRetransmittableData
             then let skipCryptoAck = (ac_nodeType conn = Server \<and> initPktNumSpace)
               in if (pktHasCryptoData \<and> \<not> skipCryptoAck) \<or> exceedsReorderThreshold then ackNow conn st
                  else let st = st\<lparr>rs_numRxPacketsRecvd := (rs_numRxPacketsRecvd st + 1) mod 2 ^ 8\<rparr>
                    in if add64 (rs_numRxPacketsRecvd st) (rs_numNonRxPacketsRecvd st) \<ge> thresh then ackNow conn st
                       else if \<not> rs_needsToSendAckImmediately st then (conn\<lparr>ac_scheduleAckTimeout := True\<rparr>, st)
                       else (conn, st)
             else let st = st\<lparr>rs_numNonRxPacketsRecvd := add64 (rs_numNonRxPacketsRecvd st) 1\<rparr>
               in if add64 (rs_numNonRxPacketsRecvd st) (rs_numRxPacketsRecvd st) \<ge> thresh then ackNow conn st else (conn, st))
      in (conn, if rs_needsToSendAckImmediately st then st\<lparr>rs_numRxPacketsRecvd := 0, rs_numNonRxPacketsRecvd := 0\<rparr> else st))"

text \<open>The timer is that of the space for application data.\<close>

definition updateAckStateOnAckTimeout :: "AckConn \<Rightarrow> RecvAckStates \<Rightarrow> AckConn \<times> RecvAckStates" where
  "updateAckStateOnAckTimeout conn states =
     (conn\<lparr>ac_scheduleAckTimeout := False\<rparr>,
      states\<lparr>appDataAckState := (appDataAckState states)
        \<lparr>rs_needsToSendAckImmediately := True, rs_numRxPacketsRecvd := 0, rs_numNonRxPacketsRecvd := 0\<rparr>\<rparr>)"

definition updateAckSendStateOnSentPacketWithAcks :: "AckConn \<Rightarrow> RecvAckState \<Rightarrow> PacketNum \<Rightarrow> AckConn \<times> RecvAckState" where
  "updateAckSendStateOnSentPacketWithAcks conn st largestAckScheduled =
     (conn\<lparr>ac_scheduleAckTimeout := False\<rparr>,
      st\<lparr>rs_needsToSendAckImmediately := False, rs_numRxPacketsRecvd := 0, rs_numNonRxPacketsRecvd := 0,
         rs_largestAckScheduled := Some largestAckScheduled\<rparr>)"

text \<open>The case of \<^verbatim>\<open>AckFrequencyFrame\<close> in \<^verbatim>\<open>updateSimpleFrameOnPacketReceived\<close>.\<close>

definition receiveAckFrequencyFrame :: "AckConn \<Rightarrow> RecvAckStates \<Rightarrow> AckFrequencyFrame \<Rightarrow> (AckConn \<times> RecvAckStates) res" where
  "receiveAckFrequencyFrame conn states frame =
     (case ac_minAckDelay conn of None \<Rightarrow> Inl (QuicTransportException TE_PROTOCOL_VIOLATION)
      | Some minAckDelay \<Rightarrow>
          let st = appDataAckState states in
          Inr (if rs_ackFrequencySequenceNumber st = None \<or> af_sequenceNumber frame > the (rs_ackFrequencySequenceNumber st)
               then (conn\<lparr>ac_maxAckDelay := max minAckDelay (af_updateMaxAckDelay frame)\<rparr>,
                     states\<lparr>appDataAckState := st\<lparr>rs_ackFrequencySequenceNumber := Some (af_sequenceNumber frame),
                       rs_tolerance := Some (af_packetTolerance frame), rs_reorderThreshold := af_reorderThreshold frame\<rparr>\<rparr>)
               else (conn, states)))"

text \<open>The case of \<^verbatim>\<open>ImmediateAckFrame\<close> where the frames of a packet are processed.\<close>

definition dueNow :: "RecvAckState \<Rightarrow> RecvAckState" where
  "dueNow st = st\<lparr>rs_needsToSendAckImmediately := True\<rparr>"

definition receiveImmediateAckFrame :: "AckConn \<Rightarrow> RecvAckStates \<Rightarrow> RecvAckStates res" where
  "receiveImmediateAckFrame conn states =
     (case ac_minAckDelay conn of None \<Rightarrow> Inl (QuicTransportException TE_PROTOCOL_VIOLATION)
      | Some _ \<Rightarrow> Inr \<lparr>initialAckState = map_option dueNow (initialAckState states),
                      handshakeAckState = map_option dueNow (handshakeAckState states),
                      appDataAckState = dueNow (appDataAckState states)\<rparr>)"

text \<open>What \<^verbatim>\<open>handshakeConfirmed\<close> does to the records.\<close>

definition handshakeConfirmedAckStates :: "RecvAckStates \<Rightarrow> RecvAckStates" where
  "handshakeConfirmedAckStates states = states\<lparr>initialAckState := None, handshakeAckState := None\<rparr>"

subsection \<open>Closing\<close>

definition hasReceivedPacketsAtLastCloseSent :: "RecvAckStates \<Rightarrow> bool" where
  "hasReceivedPacketsAtLastCloseSent states \<longleftrightarrow>
     (case initialAckState states of None \<Rightarrow> False | Some st \<Rightarrow> rs_largestReceivedAtLastCloseSent st \<noteq> None) \<or>
     (case handshakeAckState states of None \<Rightarrow> False | Some st \<Rightarrow> rs_largestReceivedAtLastCloseSent st \<noteq> None) \<or>
     rs_largestReceivedAtLastCloseSent (appDataAckState states) \<noteq> None"

definition hasNotReceivedNewPacketsSinceLastCloseSent :: "RecvAckStates \<Rightarrow> bool" where
  "hasNotReceivedNewPacketsSinceLastCloseSent states \<longleftrightarrow>
     (case initialAckState states of None \<Rightarrow> True | Some st \<Rightarrow> rs_largestReceivedAtLastCloseSent st = rs_largestRecvdPacketNum st) \<and>
     (case handshakeAckState states of None \<Rightarrow> True | Some st \<Rightarrow> rs_largestReceivedAtLastCloseSent st = rs_largestRecvdPacketNum st) \<and>
     rs_largestReceivedAtLastCloseSent (appDataAckState states) = rs_largestRecvdPacketNum (appDataAckState states)"

definition noteLargestAtClose :: "RecvAckState \<Rightarrow> RecvAckState" where
  "noteLargestAtClose st = st\<lparr>rs_largestReceivedAtLastCloseSent := rs_largestRecvdPacketNum st\<rparr>"

definition updateLargestReceivedPacketsAtLastCloseSent :: "RecvAckStates \<Rightarrow> RecvAckStates" where
  "updateLargestReceivedPacketsAtLastCloseSent states =
     \<lparr>initialAckState = map_option noteLargestAtClose (initialAckState states),
      handshakeAckState = map_option noteLargestAtClose (handshakeAckState states),
      appDataAckState = noteLargestAtClose (appDataAckState states)\<rparr>"

definition hasReceivedPackets :: "RecvAckStates \<Rightarrow> bool" where
  "hasReceivedPackets states \<longleftrightarrow>
     (case initialAckState states of None \<Rightarrow> True | Some st \<Rightarrow> rs_largestRecvdPacketNum st \<noteq> None) \<or>
     (case handshakeAckState states of None \<Rightarrow> True | Some st \<Rightarrow> rs_largestRecvdPacketNum st \<noteq> None) \<or>
     rs_largestRecvdPacketNum (appDataAckState states) \<noteq> None"

section \<open>The states that a connection reaches\<close>

text \<open>The numbers that an acknowledged acknowledgement retires.\<close>

definition retires :: "WriteAckFrame \<Rightarrow> nat set" where
  "retires frame = (\<Union>b \<in> set (wa_ackBlocks frame). {ab_startPacket b..ab_endPacket b}) \<union>
     (case wa_ackBlocks frame of [] \<Rightarrow> {} | b # _ \<Rightarrow> if ab_endPacket b > kAckPurgingThresh then {0..ab_endPacket b - kAckPurgingThresh} else {})"

definition ack_blocks_valid :: "WriteAckFrame \<Rightarrow> bool" where
  "ack_blocks_valid frame \<longleftrightarrow> (\<forall>b \<in> set (wa_ackBlocks frame). ab_startPacket b \<le> ab_endPacket b \<and> ab_endPacket b < u64_max)"

text \<open>
  The events of a connection. For each space, the parameters after the states are the packets that
  were received, those that were retired, whether a packet waits, and whether an acknowledgement
  became due at once. A packet waits in a space if it asked for an acknowledgement and since then
  no space has sent one, no packet has left one due at once in another space, and, in a space of
  the handshake, the timer has not fired. An acknowledgement became due at once in a space by
  handshake data, by a packet out of order, by the timer (for application data) or by an
  \<^verbatim>\<open>IMMEDIATE_ACK\<close> frame, and is no longer due when one is sent there. The number of a packet is
  recorded before its frames are processed and the decision is taken after it, so these are two
  events.
\<close>

inductive ack_reachable :: "AckConn \<Rightarrow> RecvAckStates \<Rightarrow> (PacketNumberSpace \<Rightarrow> nat set) \<Rightarrow> (PacketNumberSpace \<Rightarrow> nat set) \<Rightarrow>
    (PacketNumberSpace \<Rightarrow> bool) \<Rightarrow> (PacketNumberSpace \<Rightarrow> bool) \<Rightarrow> bool" where
  start: "(\<And>sp st. getAckStatePtr states sp = Some st \<Longrightarrow> rs_acks st = emptyIntervalSet \<and> rs_largestRecvdPacketNum st = None \<and>
      rs_recvdPacketInfos st = [] \<and> rs_numRxPacketsRecvd st = 0 \<and> rs_numNonRxPacketsRecvd st = 0) \<Longrightarrow>
    ack_reachable conn states (\<lambda>_. {}) (\<lambda>_. {}) (\<lambda>_. False) (\<lambda>_. False)"
| received: "ack_reachable conn states R D W U \<Longrightarrow> getAckStatePtr states sp = Some st \<Longrightarrow> n \<le> kMaxPacketNumber \<Longrightarrow>
    updateLargestReceivedPacketNum st n t = Inr (d, st') \<Longrightarrow>
    ack_reachable conn (putAckState sp st' states) (R(sp := insert n (R sp))) (D(sp := D sp - {n})) W U"
| decided: "ack_reachable conn states R D W U \<Longrightarrow> getAckStatePtr states sp = Some st \<Longrightarrow>
    updateAckSendStateOnRecvPacket conn st d rtx crypto (sp = PNS_Initial) = (conn', st') \<Longrightarrow>
    ack_reachable conn' (putAckState sp st' states) R D
      (\<lambda>s. if s = sp then W s \<or> rtx else W s \<and> \<not> rs_needsToSendAckImmediately st')
      (U(sp := U sp \<or> rtx \<and> (crypto \<and> \<not> (ac_nodeType conn = Server \<and> sp = PNS_Initial) \<or> d > rs_reorderThreshold st)))"
| timeout: "ack_reachable conn states R D W U \<Longrightarrow> updateAckStateOnAckTimeout conn states = (conn', states') \<Longrightarrow>
    ack_reachable conn' states' R D (\<lambda>s. W s \<and> s = PNS_AppData) (U(PNS_AppData := True))"
| sent: "ack_reachable conn states R D W U \<Longrightarrow> getAckStatePtr states sp = Some st \<Longrightarrow>
    updateAckSendStateOnSentPacketWithAcks conn st n = (conn', st') \<Longrightarrow>
    ack_reachable conn' (putAckState sp st' states) R D (\<lambda>_. False) (U(sp := False))"
| acked: "ack_reachable conn states R D W U \<Longrightarrow> getAckStatePtr states sp = Some st \<Longrightarrow> ack_blocks_valid frame \<Longrightarrow>
    ack_reachable conn (putAckState sp (st\<lparr>rs_acks := commonAckVisitorForAckFrame (rs_acks st) frame\<rparr>) states)
      R (D(sp := D sp \<union> retires frame)) W U"
| frequency: "ack_reachable conn states R D W U \<Longrightarrow> receiveAckFrequencyFrame conn states frame = Inr (conn', states') \<Longrightarrow>
    ack_reachable conn' states' R D W U"
| immediate: "ack_reachable conn states R D W U \<Longrightarrow> receiveImmediateAckFrame conn states = Inr states' \<Longrightarrow>
    ack_reachable conn states' R D W (\<lambda>_. True)"
| confirmed: "ack_reachable conn states R D W U \<Longrightarrow> ack_reachable conn (handshakeConfirmedAckStates states) R D W U"
| close_sent: "ack_reachable conn states R D W U \<Longrightarrow>
    ack_reachable conn (updateLargestReceivedPacketsAtLastCloseSent states) R D W U"

text \<open>What holds of the record of a space, and of the connection.\<close>

definition space_inv :: "RecvAckState \<Rightarrow> nat set \<Rightarrow> nat set \<Rightarrow> bool" where
  "space_inv st R D \<longleftrightarrow> iset_inv (rs_acks st) \<and> points (rs_acks st) = R - D \<and> finite R \<and> (\<forall>n \<in> R. n \<le> kMaxPacketNumber) \<and>
     rs_largestRecvdPacketNum st = (if R = {} then None else Some (Max R)) \<and>
     rs_numRxPacketsRecvd st + rs_numNonRxPacketsRecvd st < 2 ^ 8 - 1 \<and> length (rs_recvdPacketInfos st) \<le> kMaxReceivedPktsTimestampsStored"

definition due_inv :: "AckConn \<Rightarrow> RecvAckState \<Rightarrow> bool \<Rightarrow> bool \<Rightarrow> bool" where
  "due_inv conn st waiting urgent \<longleftrightarrow> (waiting \<longrightarrow> rs_needsToSendAckImmediately st \<or> ac_scheduleAckTimeout conn) \<and>
     (urgent \<longrightarrow> rs_needsToSendAckImmediately st)"

definition acks_inv :: "AckConn \<Rightarrow> RecvAckStates \<Rightarrow> (PacketNumberSpace \<Rightarrow> nat set) \<Rightarrow> (PacketNumberSpace \<Rightarrow> nat set) \<Rightarrow>
    (PacketNumberSpace \<Rightarrow> bool) \<Rightarrow> (PacketNumberSpace \<Rightarrow> bool) \<Rightarrow> bool" where
  "acks_inv conn states R D W U \<longleftrightarrow> (\<forall>sp st. getAckStatePtr states sp = Some st \<longrightarrow>
     space_inv st (R sp) (D sp) \<and> due_inv conn st (W sp) (U sp))"

lemma getAckStatePtr_put [simp]:
  "getAckStatePtr (putAckState sp st states) s = (if s = sp then Some st else getAckStatePtr states s)"
  by (cases sp; cases s) (simp_all add: getAckStatePtr_def putAckState_def)

lemma getAckStatePtr_AppData: "getAckStatePtr states PNS_AppData = Some (appDataAckState states)"
  by (simp add: getAckStatePtr_def)

lemma acks_invD:
  "acks_inv conn states R D W U \<Longrightarrow> getAckStatePtr states sp = Some st \<Longrightarrow> space_inv st (R sp) (D sp)"
  "acks_inv conn states R D W U \<Longrightarrow> getAckStatePtr states sp = Some st \<Longrightarrow> due_inv conn st (W sp) (U sp)"
  by (simp_all add: acks_inv_def)

text \<open>An event of one space: that space keeps its part, the others theirs.\<close>

lemma acks_inv_put:
  assumes "acks_inv conn states R D W U" "space_inv st (R' sp) (D' sp)" "due_inv conn' st (W' sp) (U' sp)"
    and "\<And>s. s \<noteq> sp \<Longrightarrow> R' s = R s \<and> D' s = D s"
    and "\<And>s st. s \<noteq> sp \<Longrightarrow> due_inv conn st (W s) (U s) \<Longrightarrow> due_inv conn' st (W' s) (U' s)"
  shows "acks_inv conn' (putAckState sp st states) R' D' W' U'"
  using assms unfolding acks_inv_def by auto

lemma number_bound: "n \<le> kMaxPacketNumber \<Longrightarrow> n + 1 < u64_max"
  by (simp add: kMaxPacketNumber_def u64_max_def)

lemma insert_point_ok:
  assumes "iset_inv st" "n \<le> kMaxPacketNumber"
  shows "\<exists>st'. iset_insert_point n st = Inr st' \<and> iset_inv st' \<and> points st' = insert n (points st)"
proof -
  have mk: "mkInterval n n = Inr \<lparr>iv_start = n, iv_end = n\<rparr>" and v: "valid_interval \<lparr>iv_start = n, iv_end = n\<rparr>"
    using number_bound [OF assms(2)] by (simp_all add: mkInterval_def valid_interval_def)
  show ?thesis using iset_insert_inv [OF assms(1) v] iset_insert_points [OF assms(1) v] unfolding iset_insert_point_def mk
    by (simp add: interval_points_def)
qed

text \<open>Receiving a packet number never fails.\<close>

lemma received_ok:
  assumes inv: "space_inv st R D" and n: "n \<le> kMaxPacketNumber"
  shows "\<exists>d st1. updateLargestReceivedPacketNum st n t = Inr (d, st1) \<and> space_inv st1 (insert n R) (D - {n}) \<and>
    rs_needsToSendAckImmediately st1 = rs_needsToSendAckImmediately st \<and>
    d = (if R = {} then 0 else if n > Max R + 1 then n - (Max R + 1) else Max R + 1 - n)"
proof -
  have i: "iset_inv (rs_acks st)" "points (rs_acks st) = R - D" "finite R" "\<forall>n \<in> R. n \<le> kMaxPacketNumber"
    "rs_largestRecvdPacketNum st = (if R = {} then None else Some (Max R))" using inv by (simp_all add: space_inv_def)
  obtain acks where a: "iset_insert_point n (rs_acks st) = Inr acks" "iset_inv acks" "points acks = insert n (R - D)"
    using insert_point_ok [OF i(1) n] i(2) by auto
  have "add64 (Max R) 1 = Max R + 1" if "R \<noteq> {}"
    using number_bound [of "Max R"] Max_in [OF i(3) that] i(4) by (auto simp: add64_def u64_max_def)
  then have e: "(case rs_largestRecvdPacketNum st of None \<Rightarrow> 0 | Some n \<Rightarrow> add64 n 1) = (if R = {} then 0 else Max R + 1)"
    by (simp add: i(5))
  have l: "max (value_or (rs_largestRecvdPacketNum st) n) n = Max (insert n R)" using i(3,5) by (simp add: value_or_def max.commute)
  let ?d = "if R = {} then 0 else if n > Max R + 1 then n - (Max R + 1) else Max R + 1 - n"
  have len: "length (rs_recvdPacketInfos st) \<le> kMaxReceivedPktsTimestampsStored" using inv by (simp add: space_inv_def)
  have "\<exists>st1. updateLargestReceivedPacketNum st n t = Inr (?d, st1) \<and> rs_acks st1 = acks \<and> rs_largestRecvdPacketNum st1 = Some (Max (insert n R)) \<and>
      rs_needsToSendAckImmediately st1 = rs_needsToSendAckImmediately st \<and> rs_numRxPacketsRecvd st1 = rs_numRxPacketsRecvd st \<and>
      rs_numNonRxPacketsRecvd st1 = rs_numNonRxPacketsRecvd st \<and> length (rs_recvdPacketInfos st1) \<le> kMaxReceivedPktsTimestampsStored"
    unfolding updateLargestReceivedPacketNum_def Let_def a(1) rbind.simps e l using len
    by (simp add: kMaxReceivedPktsTimestampsStored_def)
  then obtain st1 where st1: "updateLargestReceivedPacketNum st n t = Inr (?d, st1)" "rs_acks st1 = acks"
    "rs_largestRecvdPacketNum st1 = Some (Max (insert n R))" "rs_needsToSendAckImmediately st1 = rs_needsToSendAckImmediately st"
    "rs_numRxPacketsRecvd st1 = rs_numRxPacketsRecvd st" "rs_numNonRxPacketsRecvd st1 = rs_numNonRxPacketsRecvd st"
    "length (rs_recvdPacketInfos st1) \<le> kMaxReceivedPktsTimestampsStored" by blast
  have "insert n (R - D) = insert n R - (D - {n})" by blast
  then have "space_inv st1 (insert n R) (D - {n})" using inv n a(2,3) st1(2-7) unfolding space_inv_def by simp
  with st1(1,4) show ?thesis by blast
qed

lemma threshold_bound: "ackThreshold conn st rtx \<le> 2 ^ 8 - 1"
proof -
  have "k mod 2 ^ 8 \<le> 2 ^ 8 - 1" for k :: nat by simp
  then show ?thesis unfolding ackThreshold_def kNonRtxRxPacketsPendingBeforeAck_def by simp
qed

text \<open>The decision keeps what is due in the space; it clears the timer only if an acknowledgement is due at once.\<close>

lemma decided_ok:
  assumes inv: "space_inv st R D" and u: "updateAckSendStateOnRecvPacket conn st d rtx crypto initial = (conn', st')"
  shows "space_inv st' R D" "rs_needsToSendAckImmediately st \<Longrightarrow> rs_needsToSendAckImmediately st'"
    "rtx \<or> ac_scheduleAckTimeout conn \<Longrightarrow> rs_needsToSendAckImmediately st' \<or> ac_scheduleAckTimeout conn'"
    "rtx \<Longrightarrow> crypto \<and> \<not> (ac_nodeType conn = Server \<and> initial) \<or> d > rs_reorderThreshold st \<Longrightarrow> rs_needsToSendAckImmediately st'"
proof -
  have s: "rs_numRxPacketsRecvd st + rs_numNonRxPacketsRecvd st < 2 ^ 8 - 1" using inv by (simp add: space_inv_def)
  have a: "add64 (Suc (rs_numRxPacketsRecvd st)) (rs_numNonRxPacketsRecvd st) = rs_numRxPacketsRecvd st + rs_numNonRxPacketsRecvd st + 1"
    "add64 (rs_numNonRxPacketsRecvd st) (Suc 0) = Suc (rs_numNonRxPacketsRecvd st)"
    "add64 (Suc (rs_numNonRxPacketsRecvd st)) (rs_numRxPacketsRecvd st) = rs_numRxPacketsRecvd st + rs_numNonRxPacketsRecvd st + 1"
    "Suc (rs_numRxPacketsRecvd st) mod 256 = Suc (rs_numRxPacketsRecvd st)"
    using s by (simp_all add: add64_def)
  note t = threshold_bound [of conn st rtx]
  have keep: "space_inv st' R D"
    if "rs_acks st' = rs_acks st" "rs_largestRecvdPacketNum st' = rs_largestRecvdPacketNum st" "rs_recvdPacketInfos st' = rs_recvdPacketInfos st"
      "rs_numRxPacketsRecvd st' + rs_numNonRxPacketsRecvd st' < 2 ^ 8 - 1"
    using inv that unfolding space_inv_def by simp
  show "space_inv st' R D"
    by (rule keep; use u s t in \<open>auto simp: updateAckSendStateOnRecvPacket_def ackNow_def Let_def a split: if_splits\<close>)
  show "rs_needsToSendAckImmediately st \<Longrightarrow> rs_needsToSendAckImmediately st'"
    "rtx \<or> ac_scheduleAckTimeout conn \<Longrightarrow> rs_needsToSendAckImmediately st' \<or> ac_scheduleAckTimeout conn'"
    "rtx \<Longrightarrow> crypto \<and> \<not> (ac_nodeType conn = Server \<and> initial) \<or> d > rs_reorderThreshold st \<Longrightarrow> rs_needsToSendAckImmediately st'"
    using u by (auto simp: updateAckSendStateOnRecvPacket_def ackNow_def Let_def split: if_splits)
qed

lemma withdraw_all:
  assumes "iset_inv st" "\<forall>b \<in> set bs. ab_startPacket b \<le> ab_endPacket b \<and> ab_endPacket b < u64_max"
  shows "iset_inv (fold (\<lambda>b. iset_withdraw \<lparr>iv_start = ab_startPacket b, iv_end = ab_endPacket b\<rparr>) bs st) \<and>
    points (fold (\<lambda>b. iset_withdraw \<lparr>iv_start = ab_startPacket b, iv_end = ab_endPacket b\<rparr>) bs st) =
      points st - (\<Union>b \<in> set bs. {ab_startPacket b..ab_endPacket b})"
  using assms
proof (induction bs arbitrary: st)
  case (Cons b bs)
  let ?iv = "\<lparr>iv_start = ab_startPacket b, iv_end = ab_endPacket b\<rparr>"
  have "valid_interval ?iv" using Cons.prems(2) by (simp add: valid_interval_def)
  note w = iset_withdraw_inv [OF Cons.prems(1) this] iset_withdraw_points [OF Cons.prems(1) this]
  show ?case using Cons.IH [OF w(1)] Cons.prems(2) by (auto simp: w(2) interval_points_def)
qed simp

lemma acked_ok:
  assumes "iset_inv acks" "ack_blocks_valid frame"
  shows "iset_inv (commonAckVisitorForAckFrame acks frame)" "points (commonAckVisitorForAckFrame acks frame) = points acks - retires frame"
proof -
  have f: "\<forall>b \<in> set (rev (wa_ackBlocks frame)). ab_startPacket b \<le> ab_endPacket b \<and> ab_endPacket b < u64_max"
    using assms(2) by (simp add: ack_blocks_valid_def)
  note w = withdraw_all [OF assms(1) f]
  have "iset_inv (commonAckVisitorForAckFrame acks frame) \<and> points (commonAckVisitorForAckFrame acks frame) = points acks - retires frame"
  proof (cases "wa_ackBlocks frame")
    case Nil
    then show ?thesis using assms(1) by (simp add: commonAckVisitorForAckFrame_def retires_def)
  next
    case (Cons b bs)
    let ?iv = "\<lparr>iv_start = 0, iv_end = ab_endPacket b - kAckPurgingThresh\<rparr>"
    have "valid_interval ?iv" using f Cons by (auto simp: valid_interval_def)
    note p = iset_withdraw_inv [OF conjunct1 [OF w] this] iset_withdraw_points [OF conjunct1 [OF w] this]
    show ?thesis
    proof (cases "ab_endPacket b > kAckPurgingThresh")
      case True
      then have "commonAckVisitorForAckFrame acks frame = iset_withdraw ?iv (fold (\<lambda>b. iset_withdraw \<lparr>iv_start = ab_startPacket b, iv_end = ab_endPacket b\<rparr>)
          (rev (wa_ackBlocks frame)) acks)" by (simp add: commonAckVisitorForAckFrame_def Cons Let_def)
      then show ?thesis using p w True by (simp add: retires_def Cons interval_points_def Diff_Diff_Int) blast
    next
      case False
      then have "commonAckVisitorForAckFrame acks frame = fold (\<lambda>b. iset_withdraw \<lparr>iv_start = ab_startPacket b, iv_end = ab_endPacket b\<rparr>)
          (rev (wa_ackBlocks frame)) acks" by (simp add: commonAckVisitorForAckFrame_def Cons Let_def)
      then show ?thesis using w False by (simp add: retires_def Cons)
    qed
  qed
  then show "iset_inv (commonAckVisitorForAckFrame acks frame)" "points (commonAckVisitorForAckFrame acks frame) = points acks - retires frame"
    by blast+
qed

lemma ack_reachable_inv: "ack_reachable conn states R D W U \<Longrightarrow> acks_inv conn states R D W U"
proof (induction rule: ack_reachable.induct)
  case (start states conn)
  then show ?case by (auto simp: acks_inv_def space_inv_def due_inv_def emptyIntervalSet_def iset_inv_def points_def)
next
  case (received conn states R D W U sp st n t d st')
  note i = acks_invD [OF received.IH received.hyps(2)]
  have "space_inv st' (insert n (R sp)) (D sp - {n})" "rs_needsToSendAckImmediately st' = rs_needsToSendAckImmediately st"
    using received_ok [OF i(1) received.hyps(3), of t] received.hyps(4) by auto
  then show ?case using i(2) by (intro acks_inv_put [OF received.IH]) (auto simp: due_inv_def)
next
  case (decided conn states R D W U sp st d rtx crypto conn' st')
  note i = acks_invD [OF decided.IH decided.hyps(2)]
  note o = decided_ok [OF i(1) decided.hyps(3)]
  show ?case using o i(2) by (intro acks_inv_put [OF decided.IH]) (auto simp: due_inv_def)
next
  case (timeout conn states R D W U conn' states')
  note i = acks_invD [OF timeout.IH getAckStatePtr_AppData]
  have eq: "states' = putAckState PNS_AppData ((appDataAckState states)
      \<lparr>rs_needsToSendAckImmediately := True, rs_numRxPacketsRecvd := 0, rs_numNonRxPacketsRecvd := 0\<rparr>) states"
    using timeout.hyps(2) by (simp add: updateAckStateOnAckTimeout_def putAckState_def)
  show ?case unfolding eq using i by (intro acks_inv_put [OF timeout.IH]) (simp_all add: space_inv_def due_inv_def)
next
  case (sent conn states R D W U sp st n conn' st')
  note i = acks_invD [OF sent.IH sent.hyps(2)]
  show ?case using i sent.hyps(3)
    by (intro acks_inv_put [OF sent.IH]) (auto simp: updateAckSendStateOnSentPacketWithAcks_def space_inv_def due_inv_def)
next
  case (acked conn states R D W U sp st frame)
  note i = acks_invD [OF acked.IH acked.hyps(2)]
  have s: "iset_inv (rs_acks st)" "points (rs_acks st) = R sp - D sp" using i(1) by (simp_all add: space_inv_def)
  have "points (commonAckVisitorForAckFrame (rs_acks st) frame) = R sp - (D sp \<union> retires frame)"
    using acked_ok(2) [OF s(1) acked.hyps(3)] s(2) by blast
  then show ?case using i acked_ok(1) [OF s(1) acked.hyps(3)]
    by (intro acks_inv_put [OF acked.IH]) (simp_all add: space_inv_def due_inv_def)
next
  case (frequency conn states R D W U frame conn' states')
  note i = acks_invD [OF frequency.IH getAckStatePtr_AppData]
  consider "states' = states" "conn' = conn"
    | a b c where "states' = putAckState PNS_AppData ((appDataAckState states)\<lparr>rs_ackFrequencySequenceNumber := a, rs_tolerance := b,
        rs_reorderThreshold := c\<rparr>) states" "ac_scheduleAckTimeout conn' = ac_scheduleAckTimeout conn"
    using frequency.hyps(2) by (auto simp: receiveAckFrequencyFrame_def putAckState_def Let_def split: option.splits if_splits)
  then show ?case
  proof cases
    case 1
    then show ?thesis using frequency.IH by simp
  next
    case 2
    show ?thesis unfolding 2(1) using i 2(2) by (intro acks_inv_put [OF frequency.IH]) (simp_all add: space_inv_def due_inv_def)
  qed
next
  case (immediate conn states R D W U states')
  have p: "getAckStatePtr states' sp = map_option dueNow (getAckStatePtr states sp)" for sp
    using immediate.hyps(2) by (cases sp) (auto simp: receiveImmediateAckFrame_def getAckStatePtr_def split: option.splits)
  show ?case using immediate.IH by (auto simp: acks_inv_def p space_inv_def due_inv_def dueNow_def)
next
  case (confirmed conn states R D W U)
  have "getAckStatePtr states sp = Some st" if "getAckStatePtr (handshakeConfirmedAckStates states) sp = Some st" for sp st
    using that by (cases sp) (simp_all add: handshakeConfirmedAckStates_def getAckStatePtr_def)
  then show ?case using confirmed.IH by (simp add: acks_inv_def)
next
  case (close_sent conn states R D W U)
  have p: "getAckStatePtr (updateLargestReceivedPacketsAtLastCloseSent states) sp = map_option noteLargestAtClose (getAckStatePtr states sp)" for sp
    by (cases sp) (simp_all add: updateLargestReceivedPacketsAtLastCloseSent_def getAckStatePtr_def)
  show ?case using close_sent.IH by (auto simp: acks_inv_def p space_inv_def due_inv_def noteLargestAtClose_def)
qed

section \<open>Properties\<close>

text \<open>C6: In every state that the events of a connection reach, and for each of its packet number spaces that is not gone: the intervals
  to acknowledge are exactly the packets that were received there and not retired by the acknowledgement of an acknowledgement;
  the largest received packet is right; the counters of packets do not wrap. An acknowledgement that became due at once,
  by handshake data, by a packet out of order, by an \<^verbatim>\<open>IMMEDIATE_ACK\<close> frame or, for application data, by the timer, stays due until one is
  sent in the space. For a packet that waits in the sense of \<open>ack_reachable\<close> (neither has any space sent an acknowledgement since,
  nor has a packet left one due at once in another space, nor, in a space of the handshake, has the timer fired)
  an acknowledgement is due at once or the timer is scheduled. Recording a packet never fails and returns the
  distance from the packet that was expected.\<close>

theorem received_packets_acknowledged:
  assumes "ack_reachable conn states R D W U" and "getAckStatePtr states sp = Some st"
  shows "points (rs_acks st) = R sp - D sp \<and> iset_inv (rs_acks st) \<and>
    rs_largestRecvdPacketNum st = (if R sp = {} then None else Some (Max (R sp))) \<and>
    (U sp \<longrightarrow> rs_needsToSendAckImmediately st) \<and>
    (W sp \<longrightarrow> rs_needsToSendAckImmediately st \<or> ac_scheduleAckTimeout conn) \<and>
    rs_numRxPacketsRecvd st + rs_numNonRxPacketsRecvd st < 255 \<and> length (rs_recvdPacketInfos st) \<le> kMaxReceivedPktsTimestampsStored \<and>
    (\<forall>n t. n \<le> kMaxPacketNumber \<longrightarrow> (\<exists>st'. updateLargestReceivedPacketNum st n t =
      Inr (if R sp = {} then 0 else if n > Max (R sp) + 1 then n - (Max (R sp) + 1) else Max (R sp) + 1 - n, st')))"
proof -
  note inv = acks_invD [OF ack_reachable_inv [OF assms(1)] assms(2)]
  have "\<exists>st'. updateLargestReceivedPacketNum st n t =
      Inr (if R sp = {} then 0 else if n > Max (R sp) + 1 then n - (Max (R sp) + 1) else Max (R sp) + 1 - n, st')"
    if "n \<le> kMaxPacketNumber" for n t using received_ok [OF inv(1) that, of t] by blast
  with inv show ?thesis unfolding space_inv_def due_inv_def by simp
qed

text \<open>C36: When a packet with retransmittable data arrives, an acknowledgement is due at once exactly if one was due already, the packet
  carries handshake data (but not in the first flight to a server), it is too far from the expected packet, or
  enough packets wait. This number is reduced modulo 256: a peer that asks for an acknowledgement of every
  256 packets gets one for each.\<close>

theorem ack_threshold_truncated:
  assumes "ack_reachable conn states R D W U" "getAckStatePtr states sp = Some st"
    and "updateAckSendStateOnRecvPacket conn st dist True crypto initial = (conn', st')" "rs_tolerance st = Some tolerance"
  shows "(rs_needsToSendAckImmediately st' \<longleftrightarrow> rs_needsToSendAckImmediately st \<or> crypto \<and> \<not> (ac_nodeType conn = Server \<and> initial) \<or>
      dist > rs_reorderThreshold st \<or> rs_numRxPacketsRecvd st + rs_numNonRxPacketsRecvd st + 1 \<ge> tolerance mod 256) \<and>
    (tolerance = 256 \<longrightarrow> rs_needsToSendAckImmediately st')"
proof -
  have "rs_numRxPacketsRecvd st + rs_numNonRxPacketsRecvd st < 2 ^ 8 - 1" 
    using acks_invD(1) [OF ack_reachable_inv [OF assms(1)] assms(2)] by (simp add: space_inv_def)
  then have a: "add64 (Suc (rs_numRxPacketsRecvd st)) (rs_numNonRxPacketsRecvd st) = rs_numRxPacketsRecvd st + rs_numNonRxPacketsRecvd st + 1"
    "Suc (rs_numRxPacketsRecvd st) mod 256 = Suc (rs_numRxPacketsRecvd st)"
    by (simp_all add: add64_def)
  have th: "ackThreshold conn st True = tolerance mod 256" using assms(4) by (simp add: ackThreshold_def)
  have "rs_needsToSendAckImmediately st' \<longleftrightarrow> rs_needsToSendAckImmediately st \<or> crypto \<and> \<not> (ac_nodeType conn = Server \<and> initial) \<or>
      dist > rs_reorderThreshold st \<or> rs_numRxPacketsRecvd st + rs_numNonRxPacketsRecvd st + 1 \<ge> tolerance mod 256"
    using assms(3) unfolding updateAckSendStateOnRecvPacket_def Let_def th ackNow_def by (auto simp: a split: if_splits)
  then show ?thesis by auto
qed

section \<open>Example\<close>

definition example_ack_state :: RecvAckState where
  "example_ack_state = \<lparr>rs_acks = emptyIntervalSet, rs_lastRecvdPacketInfo = None, rs_recvdPacketInfos = [], rs_largestAckScheduled = None,
     rs_numNonRxPacketsRecvd = 0, rs_largestRecvdPacketTime = None, rs_largestRecvdPacketNum = None, rs_largestReceivedAtLastCloseSent = None,
     rs_reorderThreshold = 3, rs_tolerance = None, rs_ackFrequencySequenceNumber = None, rs_needsToSendAckImmediately = False,
     rs_numRxPacketsRecvd = 0\<rparr>"

definition example_ack_conn :: AckConn where
  "example_ack_conn = \<lparr>ac_nodeType = Server, ac_scheduleAckTimeout = False, ac_rxPacketsBeforeAckInitThreshold = 100,
     ac_rxPacketsBeforeAckBeforeInit = 10, ac_rxPacketsBeforeAckAfterInit = 10, ac_minAckDelay = None, ac_maxAckDelay = 25000\<rparr>"

definition example_ack_states :: "RecvAckState \<Rightarrow> RecvAckStates" where
  "example_ack_states st = \<lparr>initialAckState = Some example_ack_state, handshakeAckState = Some example_ack_state, appDataAckState = st\<rparr>"

lemma example_ack_start:
  "ack_reachable example_ack_conn (example_ack_states (example_ack_state\<lparr>rs_tolerance := tol\<rparr>)) (\<lambda>_. {}) (\<lambda>_. {}) (\<lambda>_. False) (\<lambda>_. False)"
  by (rule ack_reachable.start)
    (auto simp: example_ack_states_def example_ack_state_def getAckStatePtr_def split: PacketNumberSpace.splits)

text \<open>A packet of application data arrives and waits for the timer.\<close>

theorem received_packets_acknowledged_witness:
  "\<exists>conn states R D W U st. ack_reachable conn states R D W U \<and> getAckStatePtr states PNS_AppData = Some st \<and>
     W PNS_AppData \<and> R PNS_AppData = {0} \<and> points (rs_acks st) = {0} \<and> (rs_needsToSendAckImmediately st \<or> ac_scheduleAckTimeout conn)"
proof -
  let ?st = "example_ack_state\<lparr>rs_tolerance := None\<rparr>"
  have p: "getAckStatePtr (example_ack_states ?st) PNS_AppData = Some ?st" by (simp add: example_ack_states_def getAckStatePtr_def)
  have k: "0 \<le> kMaxPacketNumber" by simp
  obtain d st1 where u: "updateLargestReceivedPacketNum ?st 0 5 = Inr (d, st1)"
    using received_packets_acknowledged [OF example_ack_start p] k by blast
  note r1 = ack_reachable.received [OF example_ack_start p k u]
  obtain conn' st' where v: "updateAckSendStateOnRecvPacket example_ack_conn st1 d True False (PNS_AppData = PNS_Initial) = (conn', st')" by fastforce
  have p1: "getAckStatePtr (putAckState PNS_AppData st1 (example_ack_states ?st)) PNS_AppData = Some st1" by simp
  note r2 = ack_reachable.decided [OF r1 p1 v]
  have p2: "getAckStatePtr (putAckState PNS_AppData st' (putAckState PNS_AppData st1 (example_ack_states ?st))) PNS_AppData = Some st'" by simp
  from received_packets_acknowledged [OF r2 p2] have "points (rs_acks st') = {0}" "rs_needsToSendAckImmediately st' \<or> ac_scheduleAckTimeout conn'"
    by simp_all
  then show ?thesis using r2 p2 by (intro exI conjI) (assumption | simp)+
qed

text \<open>The timer is shared by the spaces: sending an acknowledgement in a space of the handshake cancels the timer that a packet of
  application data waits for, which then has neither an acknowledgement due nor a timer.\<close>

lemma ack_timer_cancelled_by_other_space:
  assumes "\<not> rs_needsToSendAckImmediately (appDataAckState states)" "sp \<noteq> PNS_AppData" "getAckStatePtr states sp = Some st"
    and "updateAckSendStateOnSentPacketWithAcks conn st n = (conn', st')"
  shows "\<not> rs_needsToSendAckImmediately (appDataAckState (putAckState sp st' states)) \<and> \<not> ac_scheduleAckTimeout conn'"
  using assms by (cases sp) (auto simp: updateAckSendStateOnSentPacketWithAcks_def putAckState_def)

theorem ack_threshold_truncated_witness:
  "rs_needsToSendAckImmediately (snd (updateAckSendStateOnRecvPacket example_ack_conn (example_ack_state\<lparr>rs_tolerance := Some 256\<rparr>) 0 True False False))"
proof -
  let ?st = "example_ack_state\<lparr>rs_tolerance := Some 256\<rparr>"
  obtain conn' st' where u: "updateAckSendStateOnRecvPacket example_ack_conn ?st 0 True False False = (conn', st')" by fastforce
  have p: "getAckStatePtr (example_ack_states ?st) PNS_AppData = Some ?st" by (simp add: example_ack_states_def getAckStatePtr_def)
  have "rs_tolerance ?st = Some 256" by simp
  from ack_threshold_truncated [OF example_ack_start p u this] show ?thesis by (simp add: u)
qed

end
