(* ===== verification/Spec2Isabelle.thy ===== *)
theory Spec2Isabelle
  imports Quic_Integer Packet_Number Interval_Set Stream_Utilities Buf_Queue Priority_Queue Stream_Data
    Quic_Frames Frame_Decode Packet_Builder Frame_Write Stream_Manager_Inv Stream_Receive Network
    Recovery_Run Ack_State
begin

text \<open>
  \<^bold>\<open>Verification of the transport core of mvfst.\<close>

  The repository holds a testbed for QUIC over virtual interfaces. Its own logic is the QUIC
  transport in \<^verbatim>\<open>src/mvfst/quic\<close>; this development models the codec, the stream layer and the
  acknowledgement and loss layer of that transport and proves them correct. All paths below are relative to \<^verbatim>\<open>src/mvfst/quic\<close>.

  \<^bold>\<open>How the parts interact.\<close> The transport reads datagrams and writes packets. A received packet is
  parsed by the header parser and the frame decoder (\<^verbatim>\<open>codec/Decode.cpp\<close>); stream frames go to the
  receive state machine of a stream, which the stream manager finds or opens, and from there through
  flow control into the read buffer of the stream, from which the application reads. The other way,
  the application writes to a stream; the stream manager queues the stream by priority; the frame
  writers (\<^verbatim>\<open>codec/QuicWriteCodec.cpp\<close>) put frames into a packet builder; the data moves to the
  retransmission buffer and the packet to the list of outstanding packets. A received acknowledgement
  removes packets from this list and hands their frames to the acknowledged intervals of the streams; the
  packets that it leaves too far behind are declared lost, and their frames return to the loss buffers.

  \<^bold>\<open>Conventions.\<close> Machine integers are words where the code works bitwise (\<open>Quic_Integer\<close>,
  \<open>Packet_Number\<close>, headers). Counters of 64 bits are naturals; where a sum, difference or product
  can wrap, the models use \<open>add64\<close>, \<open>sub64\<close>, \<open>mul64\<close>. A function that throws returns
  \<open>Inl\<close> of an exception (\<open>quic_exn\<close>), which also has the abort of a failed \<^verbatim>\<open>CHECK\<close>; the debug-only
  \<^verbatim>\<open>DCHECK\<close>s are left out. State is passed explicitly: a function on \<^verbatim>\<open>QuicStreamState&\<close> that
  changes the connection takes both records and returns both. A pointer to a stream is its id.
  A deque or chain of buffers is a list, a hash set a set, a hash map a partial function; where the
  order of iteration over a hash set matters it is a parameter. The clock is an argument. All
  definitions are executable except those that quantify over states.

  \<^bold>\<open>The theories and the code they model.\<close>

  \<^item> \<open>Quic_Prelude\<close>: wrap-around arithmetic, exceptions, searches on sorted ranges, and the contract of
    a component that reacts to events (locale \<open>safe_system\<close>).
  \<^item> \<open>Quic_Integer\<close>: the variable-length integers of \<^verbatim>\<open>codec/QuicInteger.{h,cpp}\<close>; round trip, sizes,
    errors, and locale \<open>prefix_codec\<close> for concatenated encodings.
  \<^item> \<open>Packet_Number\<close>: \<^verbatim>\<open>codec/PacketNumber.cpp\<close>; a truncated packet number decodes to the original
    whenever it is inside the window of the receiver.
  \<^item> \<open>Interval_Set\<close>: \<^verbatim>\<open>common/IntervalSet.h\<close> and \<^verbatim>\<open>IntervalSet-inl.h\<close>; refinement of sets of points
    (locale \<open>point_store\<close>).
  \<^item> \<open>Stream_Utilities\<close>: \<^verbatim>\<open>state/QuicStreamUtilities.cpp\<close>, the meaning of stream identifiers.
  \<^item> \<open>Buf_Queue\<close>: \<^verbatim>\<open>BufQueue\<close> of \<^verbatim>\<open>common/BufUtil.{h,cpp}\<close>; refinement of a byte queue (locale
    \<open>byte_queue\<close>).
  \<^item> \<open>Priority_Queue\<close>: \<^verbatim>\<open>state/QuicPriorityQueue.{h,cpp}\<close>; invariant, lookup laws (locale
    \<open>level_queue\<close>), fairness of the incremental levels, and a stale-order defect.
  \<^item> \<open>Stream_Data\<close>: the stream structures of \<^verbatim>\<open>state/StreamData.h\<close> and the loss buffer operations.
  \<^item> \<open>Quic_Frames\<close>, \<open>Frame_Decode\<close>: the frame structures of \<^verbatim>\<open>codec/Types.h\<close> and every decoder of
    \<^verbatim>\<open>codec/Decode.cpp\<close>; parsing arbitrary bytes consumes a prefix or raises one error, decoded
    acknowledgements are well-formed.
  \<^item> \<open>Packet_Header\<close>, \<open>Packet_Builder\<close>, \<open>Frame_Write\<close>: headers, the regular packet builders and the
    frame writers of \<^verbatim>\<open>codec/QuicPacketBuilder.cpp\<close> and \<^verbatim>\<open>codec/QuicWriteCodec.cpp\<close>; what is
    written is decoded to the same value, within the space of the packet, and acknowledgement and stream
    frames use as much of it as they can.
  \<^item> \<open>Conn_State\<close>: the settings, counters and constructors of \<^verbatim>\<open>state/StateData.{h,cpp}\<close> and
    \<^verbatim>\<open>state/TransportSettings.h\<close> that streams use.
  \<^item> \<open>Stream_Manager\<close>, \<open>Stream_Manager_Inv\<close>: \<^verbatim>\<open>state/QuicStreamManager.{h,cpp}\<close>, all operations; a
    step relation over them, the invariant of every reachable state, how peer streams are opened, how
    local ids are handed out and how the limit is credited when a stream closes.
  \<^item> \<open>Flow_Controller\<close>: \<^verbatim>\<open>flowcontrol/QuicFlowController.cpp\<close>, all functions.
  \<^item> \<open>Stream_Functions\<close>: \<^verbatim>\<open>state/QuicStreamFunctions.cpp\<close>, all functions.
  \<^item> \<open>Reassembly\<close>: the merge loop of \<^verbatim>\<open>appendDataToReadBufferCommon\<close> equals a recursive merge, which
    keeps the read buffer sorted with gaps and covers exactly the union of what arrived; reads return
    the stream in order (locale \<open>ordered_delivery\<close>, interpreted for crypto streams).
  \<^item> \<open>Stream_Receive\<close>: received data against the final size and the windows, reading of application
    streams and its accounts.
  \<^item> \<open>Stream_Handlers\<close>: \<^verbatim>\<open>state/stream/StreamSendHandlers.cpp\<close>, \<^verbatim>\<open>StreamReceiveHandlers.cpp\<close>,
    \<^verbatim>\<open>StreamStateFunctions.cpp\<close>; the final size of a reset.
  \<^item> \<open>Stream_Send\<close>: the handlers of \<^verbatim>\<open>api/QuicTransportFunctions.cpp\<close> for stream data that was put
    into a packet, and the cases of \<^verbatim>\<open>markPacketLoss\<close> (\<^verbatim>\<open>loss/QuicLossFunctions.cpp\<close>) for stream and
    crypto frames.
  \<^item> \<open>Sender\<close>, \<open>Sender_Run\<close>: sent data is always in exactly one of three places, and no event in the
    life of a sending stream fails a check.
  \<^item> \<open>Delivery\<close>, \<open>Network\<close>: the receiving stream as a whole, and a sender and a receiver over a network
    that loses, repeats and reorders frames: end-to-end delivery.
  \<^item> \<open>Outstanding\<close>: the outstanding packets and their counters (\<^verbatim>\<open>state/OutstandingPacket.h\<close>,
    \<^verbatim>\<open>OutstandingsInfo\<close>, \<^verbatim>\<open>state/LossState.h\<close>), recording a sent packet, round trip times and timers.
  \<^item> \<open>Packet_Loss\<close>, \<open>Loss_Detection\<close>: \<^verbatim>\<open>loss/QuicLossFunctions.{h,cpp}\<close>, all functions, and simple frames that are sent,
    cloned and lost (\<^verbatim>\<open>state/SimpleFrameFunctions.cpp\<close>).
  \<^item> \<open>Ack_Processing\<close>: \<^verbatim>\<open>state/AckHandlers.cpp\<close> and \<^verbatim>\<open>state/AckEvent.cpp\<close>, all functions.
  \<^item> \<open>Recovery\<close>, \<open>Recovery_Run\<close>: the counters of outstanding packets are functions of the list, every event keeps
    this and fails only where a frame handler fails (locale \<open>faithful_system\<close>); the walk of an
    acknowledgement and the loss detection treat exactly the packets they should.
  \<^item> \<open>Ack_State\<close>: the received packets and the decision to acknowledge (\<^verbatim>\<open>state/QuicStateFunctions.cpp\<close>),
    with all packet number spaces of a connection and the timer they share; the record of each space is
    exact and an acknowledgement that is due at once stays due until it is sent.

  \<^bold>\<open>Bounds and termination.\<close> No function needs fuel: loops over buffers, frames and packets are
  recursive with a measure (elements left, bytes left), so every model is total. Where a theorem needs
  a bound on a counter (sums of offsets that fit in 64 bits, the exponents of acknowledgement delays) it
  is a hypothesis and its witness shows that it can hold.

  \<^bold>\<open>Not modelled.\<close> Encryption and header protection (\<^verbatim>\<open>codec/QuicReadCodec.cpp\<close>, \<^verbatim>\<open>handshake\<close>,
  \<^verbatim>\<open>fizz\<close>): they call third-party libraries. The event loop, sockets, timers and callbacks
  (\<^verbatim>\<open>api\<close>, \<^verbatim>\<open>client\<close>, \<^verbatim>\<open>server\<close>, \<^verbatim>\<open>happyeyeballs\<close>): I/O around the modelled handlers. The
  rebuilding of frames for clones (\<^verbatim>\<open>codec/QuicPacketRebuilder.cpp\<close>) and received path, connection id and
  token frames (\<^verbatim>\<open>updateSimpleFrameOnPacketReceived\<close>): they belong to the schedulers and to connection
  migration. Congestion control: independent of the correctness of delivery.
  Statistics, observers and logs have no effect on the transport. \<^verbatim>\<open>proxygen\<close>, \<^verbatim>\<open>libviface\<close>,
  \<^verbatim>\<open>libtuntap\<close>, \<^verbatim>\<open>BindToInterface\<close> and the testbed scripts are a library on top, system calls and
  tooling.
\<close>

end
